(* ===== verification/Prelude.thy ===== *)
theory Prelude
  imports Main "HOL-Library.Word" "HOL-Library.Monad_Syntax"
begin

text \<open>
  Shared vocabulary of the development: the machine integers and byte buffers
  of the C++ sources, the \<open>COPY_BUF\<close> / \<open>COPY_VAL\<close> macros of
  \<^verbatim>\<open>system/helper.h\<close>, the parts of the C++ standard library the sources use
  (\<open>std::to_string\<close>, the ordered \<open>std::map\<close>), and the generic lemmas the
  component theories rest on.

  Strings are byte strings: \<open>std::string\<close> and \<open>char *\<close> buffers are both of
  type \<open>string\<close>, whose characters are the 256 byte values.  Unsigned integers are
  words of their width.  Buffer offsets and sizes are \<open>nat\<close>: every buffer the code
  builds is bounded by \<open>MSG_SIZE_MAX\<close>, far below the 64-bit wrap-around.
\<close>

named_theorems wire_simps \<open>facts that evaluate the buffer readers and writers\<close>
named_theorems size_simps \<open>facts about encoded lengths\<close>

type_synonym u64 = "64 word"
type_synonym u32 = "32 word"

abbreviation UINT64_MAX :: u64 where
  "UINT64_MAX \<equiv> - 1"

section \<open>Fixed-width values in memory\<close>

text \<open>The little-endian representation of a \<open>k\<close>-byte integer, and its inverse.\<close>

fun le_bytes :: "nat \<Rightarrow> nat \<Rightarrow> string" where
  "le_bytes 0 n = []"
| "le_bytes (Suc k) n = char_of n # le_bytes k (n div 256)"

fun le_nat :: "string \<Rightarrow> nat" where
  "le_nat [] = 0"
| "le_nat (c # cs) = of_char c + 256 * le_nat cs"

definition u64_bytes :: "u64 \<Rightarrow> string" where
  "u64_bytes w = le_bytes 8 (unat w)"

definition u32_bytes :: "u32 \<Rightarrow> string" where
  "u32_bytes w = le_bytes 4 (unat w)"

definition size_bytes :: "nat \<Rightarrow> string" where
  \<comment> \<open>a \<open>size_t\<close> that holds a container's length\<close>
  "size_bytes n = le_bytes 8 n"

definition bool_bytes :: "bool \<Rightarrow> string" where
  "bool_bytes b = [if b then CHR 0x01 else CHR 0x00]"

section \<open>Buffers: the COPY macros\<close>

text \<open>
  A writer runs on a buffer and the running offset \<open>ptr\<close>; a store past the end of
  the buffer is undefined behaviour in C++ and \<open>None\<close> here.
\<close>

type_synonym wbuf = "string \<times> nat"
type_synonym writer = "wbuf \<Rightarrow> wbuf option"

definition COPY_BUF :: "string \<Rightarrow> writer" where
  "COPY_BUF bs s = (case s of (buf, ptr) \<Rightarrow>
     (if ptr + length bs \<le> length buf
      then Some (take ptr buf @ bs @ drop (ptr + length bs) buf, ptr + length bs)
      else None))"

fun run_writers :: "writer list \<Rightarrow> writer" where
  "run_writers [] s = Some s"
| "run_writers (w # ws) s = Option.bind (w s) (run_writers ws)"

text \<open>
  \<open>v->copy_to_buf(&buf[ptr]); ptr += v->get_size();\<close> for a nested message \<open>v\<close>.
\<close>

definition COPY_NESTED :: "(string \<Rightarrow> string option) \<Rightarrow> nat \<Rightarrow> writer" where
  "COPY_NESTED f n s = (case s of (buf, ptr) \<Rightarrow>
     (if ptr \<le> length buf
      then map_option (\<lambda>b. (take ptr buf @ b, ptr + n)) (f (drop ptr buf))
      else None))"

definition COPY_VAL :: "nat \<Rightarrow> string \<Rightarrow> nat \<Rightarrow> (string \<times> nat) option" where
  "COPY_VAL n buf ptr =
     (if ptr + n \<le> length buf then Some (take n (drop ptr buf), ptr + n) else None)"

definition COPY_VAL_u64 :: "string \<Rightarrow> nat \<Rightarrow> (u64 \<times> nat) option" where
  "COPY_VAL_u64 buf ptr = map_option (apfst (\<lambda>bs. word_of_nat (le_nat bs))) (COPY_VAL 8 buf ptr)"

definition COPY_VAL_u32 :: "string \<Rightarrow> nat \<Rightarrow> (u32 \<times> nat) option" where
  "COPY_VAL_u32 buf ptr = map_option (apfst (\<lambda>bs. word_of_nat (le_nat bs))) (COPY_VAL 4 buf ptr)"

definition COPY_VAL_size :: "string \<Rightarrow> nat \<Rightarrow> (nat \<times> nat) option" where
  "COPY_VAL_size buf ptr = map_option (apfst le_nat) (COPY_VAL 8 buf ptr)"

definition COPY_VAL_bool :: "string \<Rightarrow> nat \<Rightarrow> (bool \<times> nat) option" where
  "COPY_VAL_bool buf ptr = map_option (apfst (\<lambda>bs. le_nat bs \<noteq> 0)) (COPY_VAL 1 buf ptr)"

text \<open>
  The reading loop \<open>for (i = 0; i < n; i++) \<dots>\<close> around a reader of one element.
\<close>

fun read_n :: "(string \<Rightarrow> nat \<Rightarrow> ('a \<times> nat) option) \<Rightarrow> nat \<Rightarrow> string \<Rightarrow> nat \<Rightarrow> ('a list \<times> nat) option" where
  "read_n r 0 buf ptr = Some ([], ptr)"
| "read_n r (Suc n) buf ptr = do {
     (x, ptr) \<leftarrow> r buf ptr;
     (xs, ptr) \<leftarrow> read_n r n buf ptr;
     Some (x # xs, ptr) }"

text \<open>\<open>Message::buf_to_string\<close>: append \<open>n\<close> characters of the buffer to \<open>str\<close>.\<close>

fun buf_to_string :: "string \<Rightarrow> nat \<Rightarrow> string \<Rightarrow> nat \<Rightarrow> (string \<times> nat) option" where
  "buf_to_string buf ptr str 0 = Some (str, ptr)"
| "buf_to_string buf ptr str (Suc n) = do {
     (v, ptr) \<leftarrow> COPY_VAL 1 buf ptr;
     buf_to_string buf ptr (str @ v) n }"

section \<open>Standard library\<close>

text \<open>\<open>std::to_string\<close> on an unsigned integer: its decimal digits.\<close>

fun digits10 :: "nat \<Rightarrow> string" where
  "digits10 n = (if n < 10 then [char_of (48 + n)]
                 else digits10 (n div 10) @ [char_of (48 + n mod 10)])"

declare digits10.simps [simp del]

definition to_string :: "u64 \<Rightarrow> string" where
  "to_string w = digits10 (unat w)"

text \<open>
  \<open>std::map\<close> iterates in key order: an association list with strictly increasing
  keys.  \<open>map_put\<close> is \<open>m[k] = v\<close> and \<open>map_erase\<close> is \<open>m.erase(k)\<close>.
\<close>

fun map_put :: "'k::linorder \<Rightarrow> 'v \<Rightarrow> ('k \<times> 'v) list \<Rightarrow> ('k \<times> 'v) list" where
  "map_put k v [] = [(k, v)]"
| "map_put k v ((k', v') # xs) =
     (if k < k' then (k, v) # (k', v') # xs
      else if k = k' then (k, v) # xs
      else (k', v') # map_put k v xs)"

definition map_erase :: "'k \<Rightarrow> ('k \<times> 'v) list \<Rightarrow> ('k \<times> 'v) list" where
  "map_erase k xs = filter (\<lambda>e. fst e \<noteq> k) xs"

definition map_ok :: "('k::linorder \<times> 'v) list \<Rightarrow> bool" where
  "map_ok xs = sorted_wrt (<) (map fst xs)"

definition array_set :: "('i \<Rightarrow> 'v) \<Rightarrow> 'i \<Rightarrow> 'v \<Rightarrow> 'i \<Rightarrow> 'v" where
  \<comment> \<open>\<open>a[i] = v\<close> on one of the global per-instance arrays\<close>
  "array_set a i v = a(i := v)"

section \<open>Lemmas: representation of integers\<close>

lemma length_le_bytes [simp, size_simps]: "length (le_bytes k n) = k"
  by (induction k arbitrary: n) auto

lemma le_nat_le_bytes: "le_nat (le_bytes k n) = n mod 256 ^ k"
proof (induction k arbitrary: n)
  case 0
  then show ?case by simp
next
  case (Suc k)
  have "n mod (256 * 256 ^ k) = n mod 256 + 256 * (n div 256 mod 256 ^ k)"
    by (simp add: mod_mult2_eq)
  with Suc show ?case by simp
qed

lemma le_nat_u64 [simp]: "word_of_nat (le_nat (u64_bytes w)) = w"
proof -
  have "unat w < 256 ^ 8"
    using unsigned_less [of w] by simp
  then show ?thesis by (simp add: u64_bytes_def le_nat_le_bytes)
qed

lemma le_nat_u32 [simp]: "word_of_nat (le_nat (u32_bytes w)) = w"
proof -
  have "unat w < 256 ^ 4"
    using unsigned_less [of w] by simp
  then show ?thesis by (simp add: u32_bytes_def le_nat_le_bytes)
qed

lemma le_nat_size [simp]: "n < 2 ^ 64 \<Longrightarrow> le_nat (size_bytes n) = n"
  by (simp add: size_bytes_def le_nat_le_bytes)

lemma length_value_bytes [simp, size_simps]:
  "length (u64_bytes w) = 8" "length (u32_bytes v) = 4"
  "length (size_bytes n) = 8" "length (bool_bytes b) = 1"
  by (simp_all add: u64_bytes_def u32_bytes_def size_bytes_def bool_bytes_def)

lemma le_nat_bool [simp]: "(0 < le_nat (bool_bytes b)) = b"
  by (simp add: bool_bytes_def)

lemma u64_bytes_inject [simp]: "u64_bytes v = u64_bytes w \<longleftrightarrow> v = w"
  by (metis le_nat_u64)

section \<open>Lemmas: writers\<close>

text \<open>
  \<open>emits ws bs\<close>: the writers \<open>ws\<close>, run one after the other, store exactly the
  bytes \<open>bs\<close> at the offset they start from and advance it by their number.  A
  message's \<open>copy_to_buf\<close> is shown correct by composing such facts.
\<close>

definition emits :: "writer list \<Rightarrow> string \<Rightarrow> bool" where
  "emits ws bs \<longleftrightarrow> (\<forall>buf ptr. ptr + length bs \<le> length buf \<longrightarrow>
     run_writers ws (buf, ptr) =
       Some (take ptr buf @ bs @ drop (ptr + length bs) buf, ptr + length bs))"

lemma emitsD:
  "emits ws bs \<Longrightarrow> ptr + length bs \<le> length buf \<Longrightarrow>
   run_writers ws (buf, ptr) = Some (take ptr buf @ bs @ drop (ptr + length bs) buf, ptr + length bs)"
  by (simp add: emits_def)

lemma run_writers_append:
  "run_writers (ws @ vs) s = Option.bind (run_writers ws s) (run_writers vs)"
  by (induction ws arbitrary: s) (auto split: Option.bind_splits)

lemma emits_Nil [simp, intro]: "emits [] []"
  by (simp add: emits_def)

lemma emits_append:
  assumes "emits ws as" and "emits vs bs"
  shows "emits (ws @ vs) (as @ bs)"
  unfolding emits_def
proof (intro allI impI)
  fix buf :: string and ptr assume fit: "ptr + length (as @ bs) \<le> length buf"
  let ?b = "take ptr buf @ as @ drop (ptr + length as) buf"
  have "run_writers ws (buf, ptr) = Some (?b, ptr + length as)"
    using fit by (intro emitsD [OF assms(1)]) simp
  moreover have "run_writers vs (?b, ptr + length as) =
      Some (take (ptr + length as) ?b @ bs @ drop (ptr + length as + length bs) ?b,
            ptr + length as + length bs)"
    using fit by (intro emitsD [OF assms(2)]) simp
  moreover have "take (ptr + length as) ?b = take ptr buf @ as"
    using fit by simp
  moreover have "drop (ptr + length as + length bs) ?b = drop (ptr + length (as @ bs)) buf"
    using fit by (auto simp: ac_simps)
  ultimately show "run_writers (ws @ vs) (buf, ptr) =
      Some (take ptr buf @ (as @ bs) @ drop (ptr + length (as @ bs)) buf, ptr + length (as @ bs))"
    by (simp add: run_writers_append add.assoc)
qed

lemma emits_COPY_BUF: "emits [COPY_BUF bs] bs"
  by (simp add: emits_def COPY_BUF_def)

lemma emits_Cons:
  assumes "emits [w] as" and "emits ws bs"
  shows "emits (w # ws) (as @ bs)"
  using emits_append [OF assms] by simp

lemma emits_COPY_BUF_Cons: "emits ws cs \<Longrightarrow> emits (COPY_BUF bs # ws) (bs @ cs)"
  by (rule emits_Cons [OF emits_COPY_BUF])

lemma emits_concat:
  assumes "\<And>x. x \<in> set xs \<Longrightarrow> emits (f x) (g x)"
  shows "emits (concat (map f xs)) (concat (map g xs))"
  using assms by (induction xs) (auto intro: emits_append)

lemma emits_chars: "emits (map (\<lambda>c. COPY_BUF [c]) s) s"
proof (induction s)
  case (Cons c s)
  then show ?case using emits_COPY_BUF_Cons [of _ s "[c]"] by simp
qed simp

lemma emits_COPY_NESTED:
  assumes "\<And>b. length bs \<le> length b \<Longrightarrow> f b = Some (bs @ drop (length bs) b)"
  shows "emits [COPY_NESTED f (length bs)] bs"
  unfolding emits_def
proof (intro allI impI)
  fix buf :: string and ptr
  assume "ptr + length bs \<le> length buf"
  then have "f (drop ptr buf) = Some (bs @ drop (length bs) (drop ptr buf))"
    and "ptr \<le> length buf"
    by (simp_all add: assms del: drop_drop)
  then show "run_writers [COPY_NESTED f (length bs)] (buf, ptr) =
      Some (take ptr buf @ bs @ drop (ptr + length bs) buf, ptr + length bs)"
    by (simp add: COPY_NESTED_def add.commute)
qed

lemmas emits_intros = emits_COPY_BUF_Cons emits_append emits_chars emits_COPY_BUF emits_Nil

section \<open>Lemmas: readers\<close>

text \<open>Reading the value whose bytes stand at the offset.\<close>

lemma COPY_VAL_at [wire_simps]:
  "length pre = ptr \<Longrightarrow> length bs = n \<Longrightarrow> COPY_VAL n (pre @ bs @ rest) ptr = Some (bs, ptr + n)"
  by (auto simp: COPY_VAL_def)

lemma COPY_VAL_u64_at [wire_simps]:
  "length pre = ptr \<Longrightarrow> COPY_VAL_u64 (pre @ u64_bytes w @ rest) ptr = Some (w, ptr + 8)"
  by (simp add: COPY_VAL_u64_def COPY_VAL_at)

lemma COPY_VAL_u32_at [wire_simps]:
  "length pre = ptr \<Longrightarrow> COPY_VAL_u32 (pre @ u32_bytes w @ rest) ptr = Some (w, ptr + 4)"
  by (simp add: COPY_VAL_u32_def COPY_VAL_at)

lemma COPY_VAL_size_at [wire_simps]:
  "length pre = ptr \<Longrightarrow> n < 2 ^ 64 \<Longrightarrow>
   COPY_VAL_size (pre @ size_bytes n @ rest) ptr = Some (n, ptr + 8)"
  by (simp add: COPY_VAL_size_def COPY_VAL_at)

lemma COPY_VAL_bool_at [wire_simps]:
  "length pre = ptr \<Longrightarrow> COPY_VAL_bool (pre @ bool_bytes b @ rest) ptr = Some (b, ptr + 1)"
  by (simp add: COPY_VAL_bool_def COPY_VAL_at del: One_nat_def)

text \<open>
  \<open>reads r bs x\<close>: wherever the bytes \<open>bs\<close> stand in a buffer, the reader \<open>r\<close>
  started there returns \<open>x\<close> and the offset just behind them.
\<close>

definition reads :: "(string \<Rightarrow> nat \<Rightarrow> ('a \<times> nat) option) \<Rightarrow> string \<Rightarrow> 'a \<Rightarrow> bool" where
  "reads r bs x \<longleftrightarrow>
     (\<forall>pre rest. r (pre @ bs @ rest) (length pre) = Some (x, length pre + length bs))"

lemma readsD:
  "reads r bs x \<Longrightarrow> length pre = ptr \<Longrightarrow> r (pre @ bs @ rest) ptr = Some (x, ptr + length bs)"
  by (auto simp: reads_def)

lemma reads_values [simp, intro]:
  "reads COPY_VAL_u64 (u64_bytes w) w"
  "reads COPY_VAL_u32 (u32_bytes v) v"
  "n < 2 ^ 64 \<Longrightarrow> reads COPY_VAL_size (size_bytes n) n"
  "reads COPY_VAL_bool (bool_bytes b) b"
  "length bs = k \<Longrightarrow> reads (COPY_VAL k) bs bs"
  by (auto simp: reads_def wire_simps)

lemma reads_read_n:
  assumes "\<And>x. x \<in> set xs \<Longrightarrow> reads r (f x) (g x)" and "n = length xs"
  shows "reads (read_n r n) (concat (map f xs)) (map g xs)"
  unfolding assms(2)
proof (insert assms(1), induction xs)
  case Nil
  then show ?case by (simp add: reads_def)
next
  case (Cons x xs)
  then have x: "reads r (f x) (g x)" and xs: "reads (read_n r (length xs)) (concat (map f xs)) (map g xs)"
    by auto
  show ?case
    unfolding reads_def
  proof (intro allI)
    fix pre rest
    have "r (pre @ f x @ concat (map f xs) @ rest) (length pre) =
        Some (g x, length pre + length (f x))"
      using x by (simp add: reads_def)
    moreover have "read_n r (length xs) ((pre @ f x) @ concat (map f xs) @ rest) (length (pre @ f x)) =
        Some (map g xs, length (pre @ f x) + length (concat (map f xs)))"
      using xs unfolding reads_def by blast
    ultimately show "read_n r (length (x # xs)) (pre @ concat (map f (x # xs)) @ rest) (length pre) =
        Some (map g (x # xs), length pre + length (concat (map f (x # xs))))"
      by simp
  qed
qed

lemma buf_to_string_at [wire_simps]:
  "length pre = ptr \<Longrightarrow> length s = n \<Longrightarrow>
   buf_to_string (pre @ s @ rest) ptr str n = Some (str @ s, ptr + n)"
proof (induction s arbitrary: pre ptr str n)
  case (Cons c s)
  from Cons.IH [of "pre @ [c]" "Suc ptr" "n - 1" "str @ [c]"] Cons.prems
  have "buf_to_string (pre @ (c # s) @ rest) (Suc ptr) (str @ [c]) (length s) = Some (str @ c # s, ptr + n)"
    by auto
  moreover have "COPY_VAL 1 (pre @ [c] @ (s @ rest)) ptr = Some ([c], ptr + 1)"
    using Cons.prems by (intro COPY_VAL_at) auto
  ultimately show ?case using Cons.prems by auto
qed simp

text \<open>Readers compose: the bytes of the parts stand one after the other.\<close>

lemma reads_return: "reads (\<lambda>buf ptr. Some (x, ptr)) [] x"
  by (simp add: reads_def)

lemma reads_bind:
  assumes "reads r as x" and "reads (\<lambda>buf ptr. f x ptr buf) bs y"
  shows "reads (\<lambda>buf ptr. Option.bind (r buf ptr) (\<lambda>(x, ptr). f x ptr buf)) (as @ bs) y"
  unfolding reads_def
proof (intro allI)
  fix pre rest
  have "r (pre @ as @ bs @ rest) (length pre) = Some (x, length pre + length as)"
    using assms(1) by (simp add: reads_def)
  moreover have "f x (length (pre @ as)) ((pre @ as) @ bs @ rest) =
      Some (y, length (pre @ as) + length bs)"
    using assms(2) unfolding reads_def by blast
  ultimately show "Option.bind (r (pre @ (as @ bs) @ rest) (length pre))
      (\<lambda>(x, ptr). f x ptr (pre @ (as @ bs) @ rest)) = Some (y, length pre + length (as @ bs))"
    by (simp add: add.assoc)
qed

lemma reads_bind_return:
  "reads r as x \<Longrightarrow> y = g x \<Longrightarrow>
   reads (\<lambda>buf ptr. Option.bind (r buf ptr) (\<lambda>(x, ptr). Some (g x, ptr))) as y"
  by (simp add: reads_def)

lemma reads_bind_check:
  "reads r as x \<Longrightarrow> (\<And>ptr. g x ptr = Some (y, ptr)) \<Longrightarrow>
   reads (\<lambda>buf ptr. Option.bind (r buf ptr) (\<lambda>(x, ptr). g x ptr)) as y"
  by (simp add: reads_def)

lemma reads_pure:
  "v = Some x \<Longrightarrow> reads (\<lambda>buf ptr. f x ptr buf) bs y \<Longrightarrow>
   reads (\<lambda>buf ptr. Option.bind v (\<lambda>x. f x ptr buf)) bs y"
  by simp

lemma reads_buf_to_string: "length s = n \<Longrightarrow> reads (\<lambda>buf ptr. buf_to_string buf ptr str n) s (str @ s)"
  by (simp add: reads_def wire_simps)

lemmas reads_intros = reads_bind_return reads_bind reads_return reads_buf_to_string reads_values

section \<open>Lemmas: decimal strings\<close>

lemma digits10_nonempty [simp]: "digits10 n \<noteq> []"
  by (subst digits10.simps) simp

lemma of_char_digit: "d < 10 \<Longrightarrow> of_char (char_of (48 + d) :: char) = (48 + d :: nat)"
  by simp

fun undigits10 :: "string \<Rightarrow> nat" where
  "undigits10 [] = 0"
| "undigits10 (c # cs) = (of_char c - 48) * 10 ^ length cs + undigits10 cs"

lemma undigits10_append:
  "undigits10 (xs @ ys) = undigits10 xs * 10 ^ length ys + undigits10 ys"
  by (induction xs) (auto simp: power_add algebra_simps)

lemma undigits10_digits10: "undigits10 (digits10 n) = n"
proof (induction n rule: digits10.induct)
  case (1 n)
  show ?case
  proof (cases "n < 10")
    case True
    then show ?thesis by (subst digits10.simps) simp
  next
    case False
    have "undigits10 (digits10 n) = undigits10 (digits10 (n div 10)) * 10 + n mod 10"
      using False by (subst digits10.simps) (simp add: undigits10_append)
    with 1 False show ?thesis by simp
  qed
qed

text \<open>The characters that \<open>std::stoi\<close> and \<open>atoi\<close> tell apart.\<close>

definition is_digit :: "char \<Rightarrow> bool" where
  "is_digit c \<longleftrightarrow> 48 \<le> (of_char c :: nat) \<and> (of_char c :: nat) \<le> 57"

definition is_space :: "char \<Rightarrow> bool" where
  "is_space c \<longleftrightarrow> (of_char c :: nat) = 32 \<or> (9 \<le> (of_char c :: nat) \<and> (of_char c :: nat) \<le> 13)"

lemma digits10_digits: "\<forall>c \<in> set (digits10 n). is_digit c"
proof (induction n rule: digits10.induct)
  case (1 n)
  then show ?case by (subst digits10.simps) (auto simp: is_digit_def)
qed

lemma digit_not_special: "is_digit c \<Longrightarrow> \<not> is_space c \<and> c \<noteq> CHR ''-'' \<and> c \<noteq> CHR ''+''"
  by (auto simp: is_digit_def is_space_def)

lemma count_list_distinct: "distinct xs \<Longrightarrow> count_list xs x = (if x \<in> set xs then 1 else 0)"
  by (induction xs) auto

lemma to_string_inject [simp]: "to_string v = to_string w \<longleftrightarrow> v = w"
  by (metis to_string_def undigits10_digits10 unsigned_word_eqI)

section \<open>Lemmas: ordered maps\<close>

lemma map_put_keys: "set (map fst (map_put k v xs)) = insert k (set (map fst xs))"
  by (induction k v xs rule: map_put.induct) auto

lemma map_ok_Cons: "map_ok (e # xs) \<longleftrightarrow> (\<forall>k \<in> set (map fst xs). fst e < k) \<and> map_ok xs"
  by (simp add: map_ok_def)

lemma map_ok_Nil [simp]: "map_ok []"
  by (simp add: map_ok_def)

lemma map_put_ok [intro]: "map_ok xs \<Longrightarrow> map_ok (map_put k v xs)"
proof (induction k v xs rule: map_put.induct)
  case (2 k v k' v' xs)
  have "set (map fst (map_put k v xs)) = insert k (set (map fst xs))"
    by (rule map_put_keys)
  with 2 show ?case by (fastforce simp: map_ok_Cons)
qed (simp add: map_ok_Cons)

lemma map_erase_ok [intro]: "map_ok xs \<Longrightarrow> map_ok (map_erase k xs)"
  by (induction xs) (auto simp: map_ok_Cons map_erase_def)

lemma map_of_map_put [simp]:
  "map_ok xs \<Longrightarrow> map_of (map_put k v xs) = (map_of xs)(k \<mapsto> v)"
proof (induction k v xs rule: map_put.induct)
  case (2 k v k' v' xs)
  then show ?case by (auto simp: map_ok_Cons fun_eq_iff)
qed (auto simp: fun_eq_iff)

lemma map_of_map_erase [simp]: "map_of (map_erase k xs) = (map_of xs)(k := None)"
  by (induction xs) (auto simp: map_erase_def)

lemma map_ok_distinct: "map_ok xs \<Longrightarrow> distinct (map fst xs)"
  by (simp add: map_ok_def strict_sorted_iff)

text \<open>Inserting the entries of an ordered map in iteration order rebuilds it.\<close>

lemma map_put_last:
  "\<forall>k' \<in> set (map fst xs). k' < k \<Longrightarrow> map_put k v xs = xs @ [(k, v)]"
  by (induction xs) (auto simp: not_less_iff_gr_or_eq)

lemma fold_map_put_append:
  "map_ok (ys @ xs) \<Longrightarrow> fold (\<lambda>(k, v). map_put k v) xs ys = ys @ xs"
proof (induction xs arbitrary: ys)
  case Nil
  then show ?case by simp
next
  case (Cons e xs)
  obtain k v where e: "e = (k, v)" by (cases e)
  from Cons.prems have "\<forall>k' \<in> set (map fst ys). k' < k"
    by (auto simp: map_ok_def sorted_wrt_append e)
  then have "map_put k v ys = ys @ [(k, v)]" by (rule map_put_last)
  with Cons.IH [of "ys @ [e]"] Cons.prems e show ?case by simp
qed

lemma fold_map_put_Nil [simp]: "map_ok xs \<Longrightarrow> fold (\<lambda>(k, v). map_put k v) xs [] = xs"
  using fold_map_put_append [of "[]" xs] by simp

section \<open>Loops that may fail\<close>

fun fold_option :: "('a \<Rightarrow> 'b \<Rightarrow> 'b option) \<Rightarrow> 'a list \<Rightarrow> 'b \<Rightarrow> 'b option" where
  "fold_option f [] s = Some s"
| "fold_option f (x # xs) s = Option.bind (f x s) (fold_option f xs)"

lemma fold_option_append:
  "fold_option f (xs @ ys) s = Option.bind (fold_option f xs s) (fold_option f ys)"
  by (induction xs arbitrary: s) (simp_all split: Option.bind_split)

section \<open>Words as bounded numbers\<close>

lemma unat_u64_less: "unat (w :: u64) < 2 ^ 64"
proof -
  have "unat w < 2 ^ LENGTH(64)" by (rule unsigned_less)
  then show ?thesis by simp
qed

lemma unat_u32_less: "unat (w :: u32) < 2 ^ 32"
proof -
  have "unat w < 2 ^ LENGTH(32)" by (rule unsigned_less)
  then show ?thesis by simp
qed

lemma unat_u32 [simp]: "unat (ucast (w :: u32) :: u64) = unat w"
  using unat_u32_less [of w] by (simp add: unsigned_ucast_eq take_bit_nat_eq_self)

lemma unat_of_nat_u64: "n < 2 ^ 64 \<Longrightarrow> unat (word_of_nat n :: u64) = n"
  by (simp add: unat_of_nat take_bit_nat_eq_self)

lemma unat_add_u64: "unat a + unat b < 2 ^ 64 \<Longrightarrow> unat (a + b :: u64) = unat a + unat b"
  by (simp add: unat_word_ariths)

lemma unat_mult_u64: "unat a * unat b < 2 ^ 64 \<Longrightarrow> unat (a * b :: u64) = unat a * unat b"
  by (simp add: unat_word_ariths)

lemma unat_sub_u64: "b \<le> a \<Longrightarrow> unat (a - b :: u64) = unat a - unat b"
  by (rule unat_sub)

lemma inj_on_of_nat_u64: "n \<le> 2 ^ 64 \<Longrightarrow> inj_on (word_of_nat :: nat \<Rightarrow> u64) {..<n}"
  by (rule inj_onI) (metis lessThan_iff order_less_le_trans unat_of_nat_u64)

end
