(* ===== verification/Global_Config.thy ===== *)
theory Global_Config
  imports Prelude
begin

text \<open>
  The build configuration and the process-wide constants of
  \<^verbatim>\<open>config.h\<close>, \<^verbatim>\<open>system/global.h\<close> and \<^verbatim>\<open>system/global.cpp\<close>: the
  \<open>env\<close> record (what the code reads from global variables that never change once
  the node runs, and the external libraries it calls), the enumerations, the
  fault-tolerance thresholds and the rotation of primaries.

  The preprocessor configuration is that of \<^verbatim>\<open>config.h\<close>: \<open>CONSENSUS\<close> is
  \<open>HOTSTUFF\<close>, \<open>SEPARATE\<close>, \<open>PROPOSAL_THREAD\<close>, \<open>EXCLUSIVE_BATCH\<close>,
  \<open>TEMP_QUEUE\<close>, \<open>MAC_SYNC\<close>, \<open>MAC_VERSION\<close>, \<open>THRESHOLD_SIGNATURE\<close>,
  \<open>SEMA_TEST\<close>, \<open>CLIENT_BATCH\<close> and \<open>CLIENT_RESPONSE_BATCH\<close> are on;
  \<open>BANKING_SMART_CONTRACT\<close>, \<open>ENABLE_ASK\<close>, \<open>ENABLE_CHAIN\<close>, \<open>TIMER_MANAGER\<close>
  and the fault-injection switches are off.
\<close>

section \<open>Enumerations\<close>

datatype RC = RCOK | Commit | FINISH | NONE

text \<open>The message types, in the order of the enumeration (so is its numbering).\<close>

datatype RemReqType =
    INIT_DONE | KEYEX | READY | CL_QRY | RTXN | RTXN_CONT | RINIT | RDONE | CL_RSP
  | CL_BATCH | NO_MSG | EXECUTE_MSG | PBFT_CHKPT_MSG | SpotLess_SYNC_MSG
  | SpotLess_GENERIC_MSG | SpotLess_PROPOSAL_MSG | SpotLess_GENERIC_MSG_P
  | SpotLess_ASK_MSG | SpotLess_ASK_RESPONSE_MSG

definition all_RemReqType :: "RemReqType list" where
  "all_RemReqType =
    [INIT_DONE, KEYEX, READY, CL_QRY, RTXN, RTXN_CONT, RINIT, RDONE, CL_RSP,
     CL_BATCH, NO_MSG, EXECUTE_MSG, PBFT_CHKPT_MSG, SpotLess_SYNC_MSG,
     SpotLess_GENERIC_MSG, SpotLess_PROPOSAL_MSG, SpotLess_GENERIC_MSG_P,
     SpotLess_ASK_MSG, SpotLess_ASK_RESPONSE_MSG]"

fun rtype_code :: "RemReqType \<Rightarrow> u32" where
  "rtype_code INIT_DONE = 0"
| "rtype_code KEYEX = 1"
| "rtype_code READY = 2"
| "rtype_code CL_QRY = 3"
| "rtype_code RTXN = 4"
| "rtype_code RTXN_CONT = 5"
| "rtype_code RINIT = 6"
| "rtype_code RDONE = 7"
| "rtype_code CL_RSP = 8"
| "rtype_code CL_BATCH = 9"
| "rtype_code NO_MSG = 10"
| "rtype_code EXECUTE_MSG = 11"
| "rtype_code PBFT_CHKPT_MSG = 12"
| "rtype_code SpotLess_SYNC_MSG = 13"
| "rtype_code SpotLess_GENERIC_MSG = 14"
| "rtype_code SpotLess_PROPOSAL_MSG = 15"
| "rtype_code SpotLess_GENERIC_MSG_P = 16"
| "rtype_code SpotLess_ASK_MSG = 17"
| "rtype_code SpotLess_ASK_RESPONSE_MSG = 18"

definition rtype_of_code :: "u32 \<Rightarrow> RemReqType option" where
  "rtype_of_code w = find (\<lambda>r. rtype_code r = w) all_RemReqType"

datatype QCType = PREPARE | PRECOMMIT | COMMIT

fun qctype_code :: "QCType \<Rightarrow> u32" where
  "qctype_code PREPARE = 0"
| "qctype_code PRECOMMIT = 1"
| "qctype_code COMMIT = 2"

definition qctype_of_code :: "u32 \<Rightarrow> QCType option" where
  "qctype_of_code w = find (\<lambda>t. qctype_code t = w) [PREPARE, PRECOMMIT, COMMIT]"

section \<open>The environment of a node\<close>

text \<open>
  \<open>NODE_CNT\<close> is the compile-time replica count, \<open>g_node_cnt\<close> the run-time one: the
  option \<^verbatim>\<open>-n\<close> of the parser overwrites the latter only.  The fields from
  \<open>sizeof_sig\<close> on stand for code outside the repository: the sizes of
  libsecp256k1's opaque structures, Crypto++'s SHA-256, CMAC and Ed25519,
  libsecp256k1's ECDSA, and the floating-point latency that
  \<open>Message::mcopy_from_buf\<close> computes for the statistics, as a function of the bit
  patterns of \<open>lat_network_time\<close> and \<open>lat_other_time\<close>.  \<open>empty_heap_top\<close> is the
  unspecified number that \<open>std::priority_queue::top()\<close> reads from an empty queue.
\<close>

record env =
  NODE_CNT :: u32
  g_node_id :: u32
  g_node_cnt :: u32
  g_client_node_cnt :: u32
  g_repl_cnt :: u32
  g_batch_size :: u64
  totInstances :: u64
  multi_threads :: u64
  indexSize :: u64
  g_synth_table_size :: u64
  g_txn_per_chkpt :: u32
  g_thread_cnt :: u32
  g_rem_thread_cnt :: u32
  g_send_thread_cnt :: u32
  g_execute_thd :: u32
  g_checkpointing_thd :: u32
  g_req_per_query :: u32
  ROUNDS_IN_ADVANCE :: u64
  g_msg_size :: nat
  MESSAGE_PER_BUFFER :: nat
  sizeof_sig :: nat
  sizeof_pubkey :: nat
  SHA256 :: "string \<Rightarrow> string"
  CMAC_sign :: "string \<Rightarrow> string \<Rightarrow> string"
  CMAC_verify :: "string \<Rightarrow> string \<Rightarrow> string \<Rightarrow> bool"
  ED25519_sign :: "string \<Rightarrow> string \<Rightarrow> string"
  ED25519_verify :: "string \<Rightarrow> string \<Rightarrow> string \<Rightarrow> bool"
  ecdsa_sign :: "string \<Rightarrow> string \<Rightarrow> string"
  ecdsa_verify :: "string \<Rightarrow> string \<Rightarrow> string \<Rightarrow> bool"
  net_lat :: "u64 \<Rightarrow> u64 \<Rightarrow> u64"
  empty_heap_top :: u64

abbreviation node_id :: "env \<Rightarrow> u64" where
  "node_id e \<equiv> ucast (g_node_id e)"

abbreviation node_cnt :: "env \<Rightarrow> u64" where
  "node_cnt e \<equiv> ucast (g_node_cnt e)"

definition get_batch_size :: "env \<Rightarrow> u64" where
  "get_batch_size e = g_batch_size e"

definition get_totInstances :: "env \<Rightarrow> u64" where
  "get_totInstances e = totInstances e"

definition get_multi_threads :: "env \<Rightarrow> u64" where
  "get_multi_threads e = multi_threads e"

definition txn_per_chkpt :: "env \<Rightarrow> u64" where
  "txn_per_chkpt e = ucast (g_txn_per_chkpt e)"

definition g_total_thread_cnt :: "env \<Rightarrow> u32" where
  "g_total_thread_cnt e = g_thread_cnt e + g_rem_thread_cnt e + g_send_thread_cnt e"

definition ISSERVER :: "env \<Rightarrow> bool" where
  "ISSERVER e \<longleftrightarrow> g_node_id e < g_node_cnt e"

definition ISSERVERN :: "env \<Rightarrow> u32 \<Rightarrow> bool" where
  "ISSERVERN e i \<longleftrightarrow> i < g_node_cnt e"

definition ISCLIENTN :: "env \<Rightarrow> u32 \<Rightarrow> bool" where
  "ISCLIENTN e i \<longleftrightarrow> i \<ge> g_node_cnt e \<and> i < g_node_cnt e + g_client_node_cnt e"

definition ISREPLICAN :: "env \<Rightarrow> u32 \<Rightarrow> bool" where
  "ISREPLICAN e i \<longleftrightarrow> i \<ge> g_node_cnt e + g_client_node_cnt e \<and>
     i < g_node_cnt e + g_client_node_cnt e + g_repl_cnt e * g_node_cnt e"

section \<open>Fault-tolerance thresholds\<close>

text \<open>
  Static initialisers of \<^verbatim>\<open>global.cpp\<close>: they run before \<open>main\<close>, on the
  compile-time replica count.
\<close>

definition g_min_invalid_nodes :: "env \<Rightarrow> u64" where
  "g_min_invalid_nodes e =
     ucast (if NODE_CNT e mod 3 = 1 then (NODE_CNT e - 1) div 3 else (NODE_CNT e - 1) div 3 + 1)"

definition nf :: "env \<Rightarrow> u64" where
  "nf e = ucast (NODE_CNT e) - g_min_invalid_nodes e"

definition fp1 :: "env \<Rightarrow> u64" where
  "fp1 e = g_min_invalid_nodes e + 1"

section \<open>Primaries and destinations\<close>

definition get_view_primary :: "env \<Rightarrow> u64 \<Rightarrow> u64 \<Rightarrow> u64" where
  "get_view_primary e view instance_id = (view + instance_id) mod node_cnt e"

fun nodes_to_send_loop :: "env \<Rightarrow> nat \<Rightarrow> u64 \<Rightarrow> u64 list" where
  "nodes_to_send_loop e 0 i = []"
| "nodes_to_send_loop e (Suc n) i =
     (if i = node_id e then nodes_to_send_loop e n (i + 1)
      else i # nodes_to_send_loop e n (i + 1))"

definition nodes_to_send :: "env \<Rightarrow> u64 \<Rightarrow> u64 \<Rightarrow> u64 list" where
  \<comment> \<open>the loop runs \<open>end - beg\<close> times\<close>
  "nodes_to_send e beg end = nodes_to_send_loop e (unat end - unat beg) beg"

text \<open>
  Message identifiers within a batch (\<^verbatim>\<open>helper.cpp\<close>): the last transaction of the
  batch of \<open>txn_id\<close>, and the ones the checkpoint and execute messages use.
\<close>

definition get_commit_message_txn_id :: "env \<Rightarrow> u64 \<Rightarrow> u64" where
  "get_commit_message_txn_id e txn_id = (txn_id div get_batch_size e + 1) * get_batch_size e - 1"

definition get_prep_message_txn_id :: "env \<Rightarrow> u64 \<Rightarrow> u64" where
  "get_prep_message_txn_id e txn_id = (txn_id div get_batch_size e + 1) * get_batch_size e - 1"

definition get_checkpoint_message_txn_id :: "env \<Rightarrow> u64 \<Rightarrow> u64" where
  "get_checkpoint_message_txn_id e txn_id = (txn_id div get_batch_size e + 1) * get_batch_size e - 6"

definition get_execute_message_txn_id :: "env \<Rightarrow> u64 \<Rightarrow> u64" where
  "get_execute_message_txn_id e txn_id = (txn_id div get_batch_size e + 1) * get_batch_size e - 2"

section \<open>Lemmas\<close>

lemma rtype_of_code [simp]: "rtype_of_code (rtype_code r) = Some r"
  by (cases r) (simp_all add: rtype_of_code_def all_RemReqType_def)

lemma qctype_of_code [simp]: "qctype_of_code (qctype_code t) = Some t"
  by (cases t) (simp_all add: qctype_of_code_def)

lemma rtype_code_inject [simp]: "rtype_code r = rtype_code r' \<longleftrightarrow> r = r'"
  by (metis option.inject rtype_of_code)

section \<open>Quorums\<close>

lemma unat_g_min_invalid_nodes:
  assumes "NODE_CNT e mod 3 = 1"
  shows "unat (g_min_invalid_nodes e) = (unat (NODE_CNT e) - 1) div 3" and "unat (NODE_CNT e) mod 3 = 1"
proof -
  have "unat (NODE_CNT e mod 3) = unat (1 :: u32)" using assms by simp
  then show n: "unat (NODE_CNT e) mod 3 = 1" by (simp add: unat_mod)
  then have "NODE_CNT e \<noteq> 0" by (metis mod_0 unat_0 zero_neq_one)
  then have "unat (NODE_CNT e - 1) = unat (NODE_CNT e) - 1" by (simp add: unat_minus_one)
  then show "unat (g_min_invalid_nodes e) = (unat (NODE_CNT e) - 1) div 3"
    using assms by (simp add: g_min_invalid_nodes_def unat_div)
qed

text \<open>With \<open>3 f + 1\<close> replicas: \<open>f\<close> faults are tolerated and a quorum has \<open>2 f + 1\<close> members.\<close>

lemma thresholds_3f1:
  assumes "NODE_CNT e mod 3 = 1"
  obtains f where "unat (NODE_CNT e) = 3 * f + 1" and "unat (g_min_invalid_nodes e) = f"
    and "unat (nf e) = 2 * f + 1" and "unat (fp1 e) = f + 1"
proof -
  define f where "f = (unat (NODE_CNT e) - 1) div 3"
  have n: "unat (NODE_CNT e) = 3 * f + 1"
    using unat_g_min_invalid_nodes(2) [OF assms] by (simp add: f_def) presburger
  have g: "unat (g_min_invalid_nodes e) = f"
    using unat_g_min_invalid_nodes(1) [OF assms] by (simp add: f_def)
  have le: "g_min_invalid_nodes e \<le> ucast (NODE_CNT e)"
    using n g by (simp add: word_le_nat_alt)
  have "unat (nf e) = 2 * f + 1"
    using n g le by (simp add: nf_def unat_sub)
  moreover have "unat (fp1 e) = f + 1"
  proof -
    have "unat (NODE_CNT e) < 2 ^ 32" by (rule unat_u32_less)
    then have "unat (g_min_invalid_nodes e) + 1 < 2 ^ 64" using n g by simp
    then show ?thesis using g by (simp add: fp1_def unat_word_ariths)
  qed
  ultimately show ?thesis using that n g by blast
qed

lemma card_inter_ge:
  assumes "finite U" and "A \<subseteq> U" and "B \<subseteq> U"
  shows "card A + card B \<le> card U + card (A \<inter> B)"
proof -
  have fin: "finite A" "finite B" using assms finite_subset by blast+
  have "card (A \<union> B) \<le> card U" using assms by (intro card_mono) auto
  with card_Un_Int [OF fin] show ?thesis by simp
qed

lemma card_replicas: "card {i :: u64. i < n} = unat n"
proof -
  have "{i :: u64. i < n} = word_of_nat ` {..<unat n}"
  proof (intro set_eqI iffI)
    fix i :: u64
    assume "i \<in> {i. i < n}"
    then have "unat i < unat n" by (simp add: word_less_nat_alt)
    then show "i \<in> word_of_nat ` {..<unat n}" by (intro image_eqI [of _ _ "unat i"]) auto
  next
    fix i :: u64
    assume "i \<in> word_of_nat ` {..<unat n}"
    then obtain k where k: "k < unat n" "i = word_of_nat k" by auto
    then have "unat i = k" using unat_u64_less [of n] by (simp add: unat_of_nat_u64)
    with k(1) show "i \<in> {i. i < n}" by (simp add: word_less_nat_alt)
  qed
  moreover have "inj_on (word_of_nat :: nat \<Rightarrow> u64) {..<unat n}"
    using unat_u64_less [of n] by (intro inj_on_of_nat_u64) simp
  ultimately show ?thesis by (simp add: card_image)
qed

lemma quorum_overlap:
  assumes "A \<subseteq> {i :: u64. i < ucast (NODE_CNT e)}" and "B \<subseteq> {i. i < ucast (NODE_CNT e)}"
    and "unat (nf e) \<le> card A" and "unat (nf e) \<le> card B" and "NODE_CNT e mod 3 = 1"
  shows "unat (fp1 e) \<le> card (A \<inter> B)"
proof -
  obtain f where f: "unat (NODE_CNT e) = 3 * f + 1" "unat (nf e) = 2 * f + 1" "unat (fp1 e) = f + 1"
    using thresholds_3f1 [OF assms(5)] by metis
  have "card A + card B \<le> card {i :: u64. i < ucast (NODE_CNT e)} + card (A \<inter> B)"
    by (intro card_inter_ge) (use assms in auto)
  then show ?thesis using f assms(3,4) by (simp add: card_replicas)
qed

text \<open>With five replicas the thresholds let two quorums share a single replica, fewer than \<open>fp1\<close>.\<close>

lemma quorum_five:
  assumes "NODE_CNT e = 5"
  shows "\<exists>A B. A \<subseteq> {i :: u64. i < ucast (NODE_CNT e)} \<and> B \<subseteq> {i. i < ucast (NODE_CNT e)} \<and>
    card A = unat (nf e) \<and> card B = unat (nf e) \<and> card (A \<inter> B) = 1 \<and> unat (fp1 e) = 3"
  using assms
  by (intro exI [of _ "{0, 1, 2}"] exI [of _ "{2, 3, 4}"]) (auto simp: nf_def fp1_def g_min_invalid_nodes_def)

end
