(* ===== verification/Quorum_Certificate.thy ===== *)
theory Quorum_Certificate
  imports Global_Config
begin

text \<open>
  The class \<open>QuorumCertificate\<close> of \<^verbatim>\<open>system/global.h\<close>: its data, the size it
  announces, its wire format in both directions, and the textual forms that are
  signed.  \<open>signature_share_map\<close> is a \<open>std::map\<close> from replica ids to opaque
  libsecp256k1 signatures of \<open>sizeof_sig\<close> bytes.
\<close>

record QuorumCertificate =
  qc_type :: QCType
  genesis :: bool
  viewNumber :: u64
  parent_view :: u64
  batch_hash :: string
  parent_hash :: string
  grand_empty :: bool
  grand_view :: u64
  grand_hash :: string
  signature_share_map :: "(u64 \<times> string) list"

text \<open>The constructor; \<open>QuorumCertificate()\<close> is the instance with argument 0.\<close>

definition new_QC :: "u32 \<Rightarrow> QuorumCertificate" where
  "new_QC n =
    \<lparr>qc_type = PREPARE, genesis = (n \<noteq> 0), viewNumber = 0, parent_view = 0,
     batch_hash = '''', parent_hash = '''', grand_empty = False, grand_view = 0,
     grand_hash = '''', signature_share_map = []\<rparr>"

definition QC_release :: "QuorumCertificate \<Rightarrow> QuorumCertificate" where
  "QC_release q = q\<lparr>batch_hash := '''', parent_hash := '''', grand_hash := '''',
     signature_share_map := []\<rparr>"

definition QC_get_size :: "env \<Rightarrow> QuorumCertificate \<Rightarrow> nat" where
  "QC_get_size e q =
     1 + 4 + 2 * 8 + 2 * 8 + length (batch_hash q) + length (parent_hash q)
     + 1 + (if \<not> grand_empty q then 8 + 8 + length (grand_hash q) else 0)
     + (if \<not> genesis q
        then 8 + length (signature_share_map q) * 8 + length (signature_share_map q) * sizeof_sig e
        else 0)"

definition QC_writers :: "QuorumCertificate \<Rightarrow> writer list" where
  "QC_writers q =
     [COPY_BUF (u32_bytes (qctype_code (qc_type q))),
      COPY_BUF (bool_bytes (genesis q)),
      COPY_BUF (u64_bytes (viewNumber q)),
      COPY_BUF (u64_bytes (parent_view q)),
      COPY_BUF (size_bytes (length (batch_hash q)))] @
     map (\<lambda>c. COPY_BUF [c]) (batch_hash q) @
     [COPY_BUF (size_bytes (length (parent_hash q)))] @
     map (\<lambda>c. COPY_BUF [c]) (parent_hash q) @
     [COPY_BUF (bool_bytes (grand_empty q))] @
     (if \<not> grand_empty q
      then [COPY_BUF (u64_bytes (grand_view q)), COPY_BUF (size_bytes (length (grand_hash q)))] @
           map (\<lambda>c. COPY_BUF [c]) (grand_hash q)
      else []) @
     (if \<not> genesis q
      then [COPY_BUF (size_bytes (length (signature_share_map q)))] @
           concat (map (\<lambda>(node, sig). [COPY_BUF (u64_bytes node), COPY_BUF sig]) (signature_share_map q))
      else [])"

definition QC_copy_to_buf :: "QuorumCertificate \<Rightarrow> nat \<Rightarrow> string \<Rightarrow> (string \<times> nat) option" where
  "QC_copy_to_buf q ptr buf = run_writers (QC_writers q) (buf, ptr)"

text \<open>One entry of the share map, and the whole object; \<open>this\<close> is the object read into.\<close>

definition read_share :: "env \<Rightarrow> string \<Rightarrow> nat \<Rightarrow> ((u64 \<times> string) \<times> nat) option" where
  "read_share e buf ptr = do {
     (node_id, ptr) \<leftarrow> COPY_VAL_u64 buf ptr;
     (sig_share, ptr) \<leftarrow> COPY_VAL (sizeof_sig e) buf ptr;
     Some ((node_id, sig_share), ptr) }"

definition read_hash :: "string \<Rightarrow> nat \<Rightarrow> (string \<times> nat) option" where
  \<comment> \<open>\<open>ssize\<close>, then that many characters\<close>
  "read_hash buf ptr = do {
     (ssize, ptr) \<leftarrow> COPY_VAL_size buf ptr;
     (h, ptr) \<leftarrow> COPY_VAL ssize buf ptr;
     Some (h, ptr) }"

definition read_grand :: "QuorumCertificate \<Rightarrow> bool \<Rightarrow> string \<Rightarrow> nat \<Rightarrow> ((u64 \<times> string) \<times> nat) option" where
  "read_grand this gempty buf ptr =
     (if \<not> gempty then do {
        (gview, ptr) \<leftarrow> COPY_VAL_u64 buf ptr;
        (ghash, ptr) \<leftarrow> read_hash buf ptr;
        Some ((gview, ghash), ptr) }
      else Some ((grand_view this, grand_hash this), ptr))"

definition read_share_map ::
  "env \<Rightarrow> QuorumCertificate \<Rightarrow> bool \<Rightarrow> string \<Rightarrow> nat \<Rightarrow> ((u64 \<times> string) list \<times> nat) option" where
  "read_share_map e this gen buf ptr =
     (if \<not> gen then do {
        (map_size, ptr) \<leftarrow> COPY_VAL_size buf ptr;
        (shares, ptr) \<leftarrow> read_n (read_share e) map_size buf ptr;
        Some (fold (\<lambda>(k, v). map_put k v) shares (signature_share_map this), ptr) }
      else Some (signature_share_map this, ptr))"

definition QC_copy_from_buf ::
  "env \<Rightarrow> QuorumCertificate \<Rightarrow> string \<Rightarrow> nat \<Rightarrow> (QuorumCertificate \<times> nat) option" where
  "QC_copy_from_buf e this buf ptr = do {
     (ty, ptr) \<leftarrow> COPY_VAL_u32 buf ptr;
     ty \<leftarrow> qctype_of_code ty;
     (gen, ptr) \<leftarrow> COPY_VAL_bool buf ptr;
     (vn, ptr) \<leftarrow> COPY_VAL_u64 buf ptr;
     (pv, ptr) \<leftarrow> COPY_VAL_u64 buf ptr;
     (bh, ptr) \<leftarrow> read_hash buf ptr;
     (ph, ptr) \<leftarrow> read_hash buf ptr;
     (gempty, ptr) \<leftarrow> COPY_VAL_bool buf ptr;
     (grand, ptr) \<leftarrow> read_grand this gempty buf ptr;
     (shares, ptr) \<leftarrow> read_share_map e this gen buf ptr;
     Some (this\<lparr>qc_type := ty, genesis := gen, viewNumber := vn, parent_view := pv,
                batch_hash := bh, parent_hash := ph, grand_empty := gempty,
                grand_view := fst grand, grand_hash := snd grand,
                signature_share_map := shares\<rparr>, ptr) }"

text \<open>The strings that are hashed and signed.\<close>

definition QC_to_string :: "QuorumCertificate \<Rightarrow> string" where
  "QC_to_string q = batch_hash q @ to_string (viewNumber q) @ parent_hash q @ to_string (parent_view q)"

definition QC_to_string_2 :: "QuorumCertificate \<Rightarrow> string" where
  "QC_to_string_2 q = parent_hash q @ to_string (parent_view q) @ grand_hash q @ to_string (grand_view q)"

text \<open>
  \<open>get_secp_hash\<close> rotates the first 32 characters (\<open>char\<close> is signed on the target:
  \<open>(hash[i] + 3) % 255\<close> is computed on \<open>int\<close> with C's truncating remainder and
  converted back to \<open>char\<close>).  A hash shorter than 32 characters is an out-of-range
  access.
\<close>

definition secp_char :: "char \<Rightarrow> char" where
  "secp_char c =
     (let n = of_char c :: int;
          v = (if n < 128 then n else n - 256) + 3;
          r = (if 0 \<le> v then v mod 255 else - ((- v) mod 255))
      in char_of (nat (r mod 256)))"

definition get_secp_hash :: "string \<Rightarrow> RemReqType \<Rightarrow> string option" where
  "get_secp_hash hash type =
     (if type = SpotLess_SYNC_MSG \<or> type = SpotLess_GENERIC_MSG
      then (if 32 \<le> length hash then Some (map secp_char (take 32 hash) @ drop 32 hash) else None)
      else Some hash)"

text \<open>
  \<open>ThresholdSignatureVerify\<close>; \<open>public_keys[id]\<close> default-constructs a missing key,
  the parameter \<open>no_key\<close>.
\<close>

definition ThresholdSignatureVerify ::
  "env \<Rightarrow> (u64 \<rightharpoonup> string) \<Rightarrow> string \<Rightarrow> QuorumCertificate \<Rightarrow> RemReqType \<Rightarrow> bool option" where
  "ThresholdSignatureVerify e public_keys no_key q type = do {
     h \<leftarrow> get_secp_hash (batch_hash q) type;
     Some (\<forall>(node, sig) \<in> set (signature_share_map q).
        ecdsa_verify e sig (take 32 h) (case public_keys node of Some k \<Rightarrow> k | None \<Rightarrow> no_key)) }"

section \<open>Wire format\<close>

definition hash_enc :: "string \<Rightarrow> string" where
  "hash_enc h = size_bytes (length h) @ h"

definition QC_enc :: "QuorumCertificate \<Rightarrow> string" where
  "QC_enc q =
     u32_bytes (qctype_code (qc_type q)) @ bool_bytes (genesis q) @
     u64_bytes (viewNumber q) @ u64_bytes (parent_view q) @
     hash_enc (batch_hash q) @ hash_enc (parent_hash q) @ bool_bytes (grand_empty q) @
     (if \<not> grand_empty q then u64_bytes (grand_view q) @ hash_enc (grand_hash q) else []) @
     (if \<not> genesis q
      then size_bytes (length (signature_share_map q)) @
           concat (map (\<lambda>(node, sig). u64_bytes node @ sig) (signature_share_map q))
      else [])"

text \<open>What the receiver of a certificate holds: the parts the format omits are the defaults.\<close>

definition QC_wire :: "QuorumCertificate \<Rightarrow> QuorumCertificate" where
  "QC_wire q = q\<lparr>
     grand_view := (if grand_empty q then 0 else grand_view q),
     grand_hash := (if grand_empty q then '''' else grand_hash q),
     signature_share_map := (if genesis q then [] else signature_share_map q)\<rparr>"

definition QC_ok :: "env \<Rightarrow> QuorumCertificate \<Rightarrow> bool" where
  "QC_ok e q \<longleftrightarrow>
     length (batch_hash q) < 2 ^ 64 \<and> length (parent_hash q) < 2 ^ 64 \<and>
     length (grand_hash q) < 2 ^ 64 \<and> length (signature_share_map q) < 2 ^ 64 \<and>
     map_ok (signature_share_map q) \<and>
     (\<forall>(node, sig) \<in> set (signature_share_map q). length sig = sizeof_sig e)"

lemma length_concat_shares:
  "\<forall>(node, sig) \<in> set xs. length sig = n \<Longrightarrow>
   length (concat (map (\<lambda>(node, sig). u64_bytes node @ sig) xs)) = length xs * 8 + length xs * n"
  by (induction xs) auto

lemma length_hash_enc [size_simps]: "length (hash_enc h) = 8 + length h"
  by (simp add: hash_enc_def)

lemma length_QC_enc [size_simps]: "QC_ok e q \<Longrightarrow> length (QC_enc q) = QC_get_size e q"
  by (simp add: QC_enc_def QC_get_size_def QC_ok_def length_concat_shares size_simps)

lemma emits_QC: "emits (QC_writers q) (QC_enc q)"
proof -
  have shares: "emits (concat (map (\<lambda>(node, sig). [COPY_BUF (u64_bytes node), COPY_BUF sig]) xs))
      (concat (map (\<lambda>(node, sig). u64_bytes node @ sig) xs))" for xs
    by (rule emits_concat) (auto intro: emits_intros)
  show ?thesis
    unfolding QC_writers_def QC_enc_def hash_enc_def
    by (auto intro!: emits_intros shares simp del: map_map)
qed

lemma reads_read_hash: "length h < 2 ^ 64 \<Longrightarrow> reads read_hash (hash_enc h) h"
  unfolding hash_enc_def read_hash_def [abs_def]
  by (rule reads_intros | simp)+

lemma reads_read_share: "length sig = sizeof_sig e \<Longrightarrow> reads (read_share e) (u64_bytes n @ sig) (n, sig)"
  unfolding read_share_def [abs_def]
  by (rule reads_intros | simp)+

lemma reads_share_map:
  assumes "QC_ok e q" and "signature_share_map this = []"
  shows "reads (read_share_map e this (genesis q))
     (if \<not> genesis q
      then size_bytes (length (signature_share_map q)) @
           concat (map (\<lambda>(node, sig). u64_bytes node @ sig) (signature_share_map q))
      else [])
     (if genesis q then [] else signature_share_map q)"
proof (cases "genesis q")
  case True
  with assms(2) show ?thesis by (simp add: reads_def read_share_map_def)
next
  case False
  let ?m = "signature_share_map q"
  have n: "length ?m < 2 ^ 64" and ok: "map_ok ?m"
    using assms(1) by (auto simp: QC_ok_def)
  have "reads (read_n (read_share e) (length ?m))
      (concat (map (\<lambda>(node, sig). u64_bytes node @ sig) ?m)) (map id ?m)"
    using assms(1) by (intro reads_read_n) (auto simp: QC_ok_def reads_read_share)
  then have "reads (\<lambda>buf ptr. do {
        (map_size, ptr) \<leftarrow> COPY_VAL_size buf ptr;
        (shares, ptr) \<leftarrow> read_n (read_share e) map_size buf ptr;
        Some (fold (\<lambda>(k, v). map_put k v) shares [], ptr) })
      (size_bytes (length ?m) @ concat (map (\<lambda>(node, sig). u64_bytes node @ sig) ?m))
      (fold (\<lambda>(k, v). map_put k v) ?m [])"
    using n by - (rule reads_intros | simp)+
  with False assms(2) ok show ?thesis
    by (simp add: read_share_map_def [abs_def])
qed

lemma reads_grand:
  assumes "QC_ok e q" and "grand_view this = 0" and "grand_hash this = ''''"
  shows "reads (read_grand this (grand_empty q))
     (if \<not> grand_empty q then u64_bytes (grand_view q) @ hash_enc (grand_hash q) else [])
     (if grand_empty q then (0, '''') else (grand_view q, grand_hash q))"
proof (cases "grand_empty q")
  case True
  with assms show ?thesis by (simp add: reads_def read_grand_def)
next
  case False
  have "reads (\<lambda>buf ptr. do {
        (gview, ptr) \<leftarrow> COPY_VAL_u64 buf ptr;
        (ghash, ptr) \<leftarrow> read_hash buf ptr;
        Some ((gview, ghash), ptr) })
      (u64_bytes (grand_view q) @ hash_enc (grand_hash q)) (grand_view q, grand_hash q)"
    using assms(1) by - (rule reads_intros reads_read_hash | simp add: QC_ok_def)+
  with False show ?thesis by (simp add: read_grand_def [abs_def])
qed

lemma reads_QC:
  assumes ok: "QC_ok e q"
  shows "reads (QC_copy_from_buf e (new_QC 0)) (QC_enc q) (QC_wire q)"
proof -
  let ?g = "if grand_empty q then (0, '''') else (grand_view q, grand_hash q)"
  have lens: "length (batch_hash q) < 2 ^ 64" "length (parent_hash q) < 2 ^ 64"
    using ok by (auto simp: QC_ok_def)
  have new: "signature_share_map (new_QC 0) = []" "grand_view (new_QC 0) = 0"
    "grand_hash (new_QC 0) = ''''"
    by (simp_all add: new_QC_def)
  have wire: "QC_wire q = (new_QC 0)\<lparr>qc_type := qc_type q, genesis := genesis q,
      viewNumber := viewNumber q, parent_view := parent_view q,
      batch_hash := batch_hash q, parent_hash := parent_hash q, grand_empty := grand_empty q,
      grand_view := fst ?g, grand_hash := snd ?g,
      signature_share_map := (if genesis q then [] else signature_share_map q)\<rparr>"
    by (simp add: QC_wire_def new_QC_def)
  show ?thesis
    unfolding QC_copy_from_buf_def [abs_def] QC_enc_def wire
    by (rule reads_intros reads_pure [OF qctype_of_code] reads_read_hash lens
          reads_grand [OF ok] reads_share_map [OF ok] new | simp)+
qed

end
