(* ===== verification/Message_Base.thy ===== *)
theory Message_Base
  imports Quorum_Certificate
begin

text \<open>
  The base class \<open>Message\<close> of \<^verbatim>\<open>transport/message.h\<close>: the header every
  message carries, its wire format, the skeleton that all \<open>copy_to_buf\<close> /
  \<open>copy_from_buf\<close> methods share, and the interface \<open>wire_codec\<close> that each message
  class implements.

  The seven latency fields are doubles; they are kept as the bit patterns that
  travel.  \<open>now\<close> is the clock that \<open>mcopy_to_buf\<close> stamps into \<open>lat_network_time\<close>
  (a statistic; the sender does not read its own copy of the stamp again).  Members
  that the C++ leaves uninitialised start as zeros.
\<close>

record Message =
  m_rtype :: RemReqType
  m_txn_id :: u64
  m_batch_id :: u64
  m_return_node_id :: u64
  m_wq_time :: u64
  m_mq_time :: u64
  m_ntwk_time :: u64
  m_sigSize :: u64
  m_keySize :: u64
  m_signature :: string
  m_pubKey :: string
  m_psig_share :: string
  m_sig_empty :: bool
  m_sig_share :: string
  m_instance_id :: u64
  m_force :: bool
  m_dest :: "u64 list"
  lat_work_queue_time :: u64
  lat_msg_queue_time :: u64
  lat_cc_block_time :: u64
  lat_cc_time :: u64
  lat_process_time :: u64
  lat_network_time :: u64
  lat_other_time :: u64

text \<open>\<open>create_message(rtype)\<close>: the part common to all classes.\<close>

definition new_Message :: "env \<Rightarrow> RemReqType \<Rightarrow> Message" where
  "new_Message e rt =
    \<lparr>m_rtype = rt, m_txn_id = UINT64_MAX, m_batch_id = UINT64_MAX,
     m_return_node_id = node_id e, m_wq_time = 0, m_mq_time = 0, m_ntwk_time = 0,
     m_sigSize = 1, m_keySize = 1, m_signature = ''0'', m_pubKey = ''0'',
     m_psig_share = replicate (sizeof_sig e) CHR 0x00, m_sig_empty = True,
     m_sig_share = replicate (sizeof_sig e) CHR 0x00,
     m_instance_id = 0, m_force = False, m_dest = [],
     lat_work_queue_time = 0, lat_msg_queue_time = 0, lat_cc_block_time = 0, lat_cc_time = 0,
     lat_process_time = 0, lat_network_time = 0, lat_other_time = 0\<rparr>"

definition mget_size :: "Message \<Rightarrow> nat" where
  "mget_size m = 4 + 8 + 8 + length (m_signature m) + length (m_pubKey m) + 8 + 8 + 8 + 8 * 7"

text \<open>
  \<open>for (i = 0; i < n; i++) { v = s[i]; COPY_BUF(buf, v, ptr); }\<close>: index \<open>size()\<close> of a
  \<open>std::string\<close> reads the terminating NUL, any larger one is out of range.
\<close>

definition str_chars :: "string \<Rightarrow> nat \<Rightarrow> string option" where
  "str_chars s n = (if n \<le> length s then Some (take n s)
                    else if n = Suc (length s) then Some (s @ [CHR 0x00]) else None)"

definition COPY_CHARS :: "string \<Rightarrow> nat \<Rightarrow> writer" where
  "COPY_CHARS s n st = Option.bind (str_chars s n) (\<lambda>cs. run_writers (map (\<lambda>c. COPY_BUF [c]) cs) st)"

definition mcopy_to_buf :: "u64 \<Rightarrow> Message \<Rightarrow> string \<Rightarrow> string option" where
  "mcopy_to_buf now m buf = map_option fst (run_writers
     [COPY_BUF (u32_bytes (rtype_code (m_rtype m))),
      COPY_BUF (u64_bytes (m_txn_id m)),
      COPY_BUF (u64_bytes (m_mq_time m)),
      COPY_BUF (u64_bytes (lat_work_queue_time m)),
      COPY_BUF (u64_bytes (lat_msg_queue_time m)),
      COPY_BUF (u64_bytes (lat_cc_block_time m)),
      COPY_BUF (u64_bytes (lat_cc_time m)),
      COPY_BUF (u64_bytes (lat_process_time m)),
      COPY_BUF (u64_bytes now),
      COPY_BUF (u64_bytes (lat_other_time m)),
      COPY_BUF (u64_bytes (m_sigSize m)),
      COPY_BUF (u64_bytes (m_keySize m)),
      COPY_BUF (u64_bytes (m_instance_id m)),
      COPY_CHARS (m_signature m) (unat (m_sigSize m)),
      COPY_CHARS (m_pubKey m) (unat (m_keySize m))] (buf, 0))"

text \<open>\<open>pop_back()\<close> on an empty string is undefined.\<close>

definition pop_back :: "string \<Rightarrow> string option" where
  "pop_back s = (if s = [] then None else Some (butlast s))"

definition read_header :: "env \<Rightarrow> Message \<Rightarrow> string \<Rightarrow> nat \<Rightarrow> (Message \<times> nat) option" where
  "read_header e this buf ptr = do {
     (rt, ptr) \<leftarrow> COPY_VAL_u32 buf ptr;
     rt \<leftarrow> rtype_of_code rt;
     (tid, ptr) \<leftarrow> COPY_VAL_u64 buf ptr;
     (mq, ptr) \<leftarrow> COPY_VAL_u64 buf ptr;
     (l1, ptr) \<leftarrow> COPY_VAL_u64 buf ptr;
     (l2, ptr) \<leftarrow> COPY_VAL_u64 buf ptr;
     (l3, ptr) \<leftarrow> COPY_VAL_u64 buf ptr;
     (l4, ptr) \<leftarrow> COPY_VAL_u64 buf ptr;
     (l5, ptr) \<leftarrow> COPY_VAL_u64 buf ptr;
     (l6, ptr) \<leftarrow> COPY_VAL_u64 buf ptr;
     (l7, ptr) \<leftarrow> COPY_VAL_u64 buf ptr;
     (ssz, ptr) \<leftarrow> COPY_VAL_u64 buf ptr;
     (ksz, ptr) \<leftarrow> COPY_VAL_u64 buf ptr;
     (inst, ptr) \<leftarrow> COPY_VAL_u64 buf ptr;
     sig \<leftarrow> pop_back (m_signature this);
     key \<leftarrow> pop_back (m_pubKey this);
     (sig, ptr) \<leftarrow> buf_to_string buf ptr sig (unat ssz);
     (key, ptr) \<leftarrow> buf_to_string buf ptr key (unat ksz);
     Some (this\<lparr>m_rtype := rt, m_txn_id := tid, m_mq_time := mq,
        lat_work_queue_time := l1, lat_msg_queue_time := l2, lat_cc_block_time := l3,
        lat_cc_time := l4, lat_process_time := l5,
        lat_network_time := net_lat e l6 l7, lat_other_time := l7,
        m_sigSize := ssz, m_keySize := ksz, m_instance_id := inst,
        m_signature := sig, m_pubKey := key\<rparr>, ptr) }"

definition mcopy_from_buf :: "env \<Rightarrow> Message \<Rightarrow> string \<Rightarrow> Message option" where
  "mcopy_from_buf e this buf = map_option fst (read_header e this buf 0)"

text \<open>
  The skeleton of the classes' methods: the header first, then the fields from
  offset \<open>mget_size\<close> on, then \<open>assert(ptr == get_size())\<close>.
\<close>

definition copy_to_buf_with ::
  "u64 \<Rightarrow> Message \<Rightarrow> writer list \<Rightarrow> nat option \<Rightarrow> string \<Rightarrow> string option" where
  "copy_to_buf_with now b ws sz buf = do {
     buf \<leftarrow> mcopy_to_buf now b buf;
     (buf, ptr) \<leftarrow> run_writers ws (buf, mget_size b);
     if sz = Some ptr then Some buf else None }"

definition copy_from_buf_with ::
  "env \<Rightarrow> Message \<Rightarrow> (Message \<Rightarrow> string \<Rightarrow> nat \<Rightarrow> ('m \<times> nat) option) \<Rightarrow> ('m \<Rightarrow> nat option) \<Rightarrow>
   string \<Rightarrow> 'm option" where
  "copy_from_buf_with e b rd get_size buf = do {
     b \<leftarrow> mcopy_from_buf e b buf;
     (this, ptr) \<leftarrow> rd b buf (mget_size b);
     if get_size this = Some ptr then Some this else None }"

text \<open>\<open>x[0], \<dots>, x[n-1]\<close> of an \<open>Array\<close> or \<open>vector\<close>: out of range fails.\<close>

definition first_n :: "nat \<Rightarrow> 'a list \<Rightarrow> 'a list option" where
  "first_n n xs = (if n \<le> length xs then Some (take n xs) else None)"

section \<open>Header: wire format\<close>

definition header_enc :: "u64 \<Rightarrow> Message \<Rightarrow> string" where
  "header_enc now m =
     u32_bytes (rtype_code (m_rtype m)) @ u64_bytes (m_txn_id m) @ u64_bytes (m_mq_time m) @
     u64_bytes (lat_work_queue_time m) @ u64_bytes (lat_msg_queue_time m) @
     u64_bytes (lat_cc_block_time m) @ u64_bytes (lat_cc_time m) @ u64_bytes (lat_process_time m) @
     u64_bytes now @ u64_bytes (lat_other_time m) @ u64_bytes (m_sigSize m) @
     u64_bytes (m_keySize m) @ u64_bytes (m_instance_id m) @ m_signature m @ m_pubKey m"

text \<open>What a receiver with environment \<open>e\<close> holds after reading \<open>m\<close> into a new object.\<close>

definition header_wire :: "env \<Rightarrow> u64 \<Rightarrow> Message \<Rightarrow> Message" where
  "header_wire e now m = (new_Message e (m_rtype m))
     \<lparr>m_txn_id := m_txn_id m, m_mq_time := m_mq_time m,
      lat_work_queue_time := lat_work_queue_time m, lat_msg_queue_time := lat_msg_queue_time m,
      lat_cc_block_time := lat_cc_block_time m, lat_cc_time := lat_cc_time m,
      lat_process_time := lat_process_time m,
      lat_network_time := net_lat e now (lat_other_time m), lat_other_time := lat_other_time m,
      m_sigSize := m_sigSize m, m_keySize := m_keySize m, m_instance_id := m_instance_id m,
      m_signature := m_signature m, m_pubKey := m_pubKey m\<rparr>"

definition header_ok :: "Message \<Rightarrow> bool" where
  "header_ok m \<longleftrightarrow> unat (m_sigSize m) = length (m_signature m) \<and>
     unat (m_keySize m) = length (m_pubKey m)"

lemma header_ok_new [simp]: "header_ok (new_Message e rt)"
  by (simp add: header_ok_def new_Message_def)

lemma header_wire_simps [simp]:
  "m_rtype (header_wire e now m) = m_rtype m"
  "m_txn_id (header_wire e now m) = m_txn_id m"
  "m_instance_id (header_wire e now m) = m_instance_id m"
  "m_signature (header_wire e now m) = m_signature m"
  "m_pubKey (header_wire e now m) = m_pubKey m"
  "m_return_node_id (header_wire e now m) = node_id e"
  by (simp_all add: header_wire_def new_Message_def)

lemma mget_size_wire [simp]: "mget_size (header_wire e now m) = mget_size m"
  by (simp add: mget_size_def)

lemma header_ok_wire [simp]: "header_ok (header_wire e now m) = header_ok m"
  by (simp add: header_ok_def header_wire_def new_Message_def)

lemma length_header_enc [size_simps]: "length (header_enc now m) = mget_size m"
  by (simp add: header_enc_def mget_size_def)

lemma emits_COPY_CHARS: "n = length s \<Longrightarrow> emits [COPY_CHARS s n] s"
  using emits_chars [of s] by (simp add: emits_def COPY_CHARS_def str_chars_def)

lemma emits_COPY_CHARS_Cons: "n = length s \<Longrightarrow> emits ws bs \<Longrightarrow> emits (COPY_CHARS s n # ws) (s @ bs)"
  by (rule emits_Cons [OF emits_COPY_CHARS])

lemma mcopy_to_buf:
  assumes "header_ok m" and "mget_size m \<le> length buf"
  shows "mcopy_to_buf now m buf = Some (header_enc now m @ drop (mget_size m) buf)"
proof -
  have "emits
     [COPY_BUF (u32_bytes (rtype_code (m_rtype m))), COPY_BUF (u64_bytes (m_txn_id m)),
      COPY_BUF (u64_bytes (m_mq_time m)), COPY_BUF (u64_bytes (lat_work_queue_time m)),
      COPY_BUF (u64_bytes (lat_msg_queue_time m)), COPY_BUF (u64_bytes (lat_cc_block_time m)),
      COPY_BUF (u64_bytes (lat_cc_time m)), COPY_BUF (u64_bytes (lat_process_time m)),
      COPY_BUF (u64_bytes now), COPY_BUF (u64_bytes (lat_other_time m)),
      COPY_BUF (u64_bytes (m_sigSize m)), COPY_BUF (u64_bytes (m_keySize m)),
      COPY_BUF (u64_bytes (m_instance_id m)),
      COPY_CHARS (m_signature m) (unat (m_sigSize m)),
      COPY_CHARS (m_pubKey m) (unat (m_keySize m))] (header_enc now m)" (is "emits ?ws _")
    unfolding header_enc_def using assms(1)
    by (intro emits_COPY_BUF_Cons emits_COPY_CHARS_Cons emits_COPY_CHARS) (auto simp: header_ok_def)
  from emitsD [OF this, of 0 buf] assms(2) show ?thesis
    by (simp add: mcopy_to_buf_def length_header_enc)
qed

lemma reads_header:
  assumes "header_ok m"
  shows "reads (read_header e (new_Message e rt)) (header_enc now m) (header_wire e now m)"
proof -
  have "pop_back (m_signature (new_Message e rt)) = Some []"
    "pop_back (m_pubKey (new_Message e rt)) = Some []"
    by (simp_all add: new_Message_def pop_back_def)
  note pop = this [THEN reads_pure]
  have str: "length s = n \<Longrightarrow> reads (\<lambda>buf ptr. buf_to_string buf ptr [] n) s s" for s n
    using reads_buf_to_string [of s n "[]"] by simp
  have sz: "length (m_signature m) = unat (m_sigSize m)" "length (m_pubKey m) = unat (m_keySize m)"
    using assms by (simp_all add: header_ok_def)
  show ?thesis
    unfolding read_header_def [abs_def] header_enc_def
    by (rule reads_bind_return reads_bind reads_return reads_values reads_pure [OF rtype_of_code] pop
        str [OF sz(1)] str [OF sz(2)]
      | simp add: header_wire_def new_Message_def)+
qed

lemma mcopy_from_buf:
  assumes "header_ok m"
  shows "mcopy_from_buf e (new_Message e rt) (header_enc now m @ rest) = Some (header_wire e now m)"
  using readsD [OF reads_header [OF assms], of "[]" 0 e rt now rest]
  by (simp add: mcopy_from_buf_def)

text \<open>The skeletons, given the fields' part of the format.\<close>

lemma copy_to_buf_with:
  assumes "header_ok b" and "emits ws bs" and "sz = Some (mget_size b + length bs)"
    and "mget_size b + length bs \<le> length buf"
  shows "copy_to_buf_with now b ws sz buf =
     Some ((header_enc now b @ bs) @ drop (length (header_enc now b @ bs)) buf)"
proof -
  let ?h = "header_enc now b" and ?buf = "header_enc now b @ drop (mget_size b) buf"
  have "mcopy_to_buf now b buf = Some ?buf"
    using assms by (intro mcopy_to_buf) auto
  moreover have "run_writers ws (?buf, length ?h) = Some
      (take (length ?h) ?buf @ bs @ drop (length ?h + length bs) ?buf, length ?h + length bs)"
    using assms by (intro emitsD) (auto simp: length_header_enc)
  ultimately show ?thesis
    using assms(3) by (simp add: copy_to_buf_with_def length_header_enc add.commute)
qed

lemma copy_from_buf_with:
  assumes "header_ok b" and "reads (rd (header_wire e now b)) bs m"
    and "get_size m = Some (mget_size b + length bs)"
  shows "copy_from_buf_with e (new_Message e rt) rd get_size ((header_enc now b @ bs) @ rest) = Some m"
proof -
  have "rd (header_wire e now b) (header_enc now b @ bs @ rest) (mget_size b) =
      Some (m, mget_size b + length bs)"
    using assms(2) by (rule readsD) (simp add: length_header_enc)
  with assms(3) show ?thesis
    by (simp add: copy_from_buf_with_def mcopy_from_buf [OF assms(1)])
qed

lemma first_n_eq [simp]: "n = length xs \<Longrightarrow> first_n n xs = Some xs"
  by (simp add: first_n_def)

section \<open>The interface of a message class\<close>

text \<open>
  What \<open>create_msg_buffer\<close>, \<open>deep_copy_msg\<close>, the packet builder and
  \<open>create_messages\<close> rely on, for one class at one sending time: \<open>get_size\<close> announces
  the number of bytes that \<open>copy_to_buf\<close> stores, they depend on the message only
  (\<open>enc\<close>), and \<open>copy_from_buf\<close> on a new object reads them back (\<open>wire\<close>: the fields
  that travel, the defaults elsewhere) with the same size.
\<close>

locale wire_codec =
  fixes get_size :: "'m \<Rightarrow> nat option"
    and copy_to_buf :: "'m \<Rightarrow> string \<Rightarrow> string option"
    and copy_from_buf :: "string \<Rightarrow> 'm option"
    and enc :: "'m \<Rightarrow> string"
    and wire :: "'m \<Rightarrow> 'm"
    and ok :: "'m \<Rightarrow> bool"
  assumes size: "ok m \<Longrightarrow> get_size m = Some (length (enc m))"
    and to_buf: "ok m \<Longrightarrow> length (enc m) \<le> length buf \<Longrightarrow>
      copy_to_buf m buf = Some (enc m @ drop (length (enc m)) buf)"
    and from_buf: "ok m \<Longrightarrow> copy_from_buf (enc m @ rest) = Some (wire m)"
    and wire_size: "ok m \<Longrightarrow> get_size (wire m) = get_size m"
begin

text \<open>The two directions compose, in a buffer of exactly the announced size.\<close>

lemma round_trip:
  assumes "ok m" and "get_size m = Some (length buf)"
  shows "Option.bind (copy_to_buf m buf) copy_from_buf = Some (wire m)"
  using assms from_buf [of m "[]"] size [of m] to_buf [of m buf] by simp

lemma emits_nested:
  assumes "ok m" and "get_size m = Some n"
  shows "emits [COPY_NESTED (copy_to_buf m) n] (enc m)"
  using assms emits_COPY_NESTED [of "enc m" "copy_to_buf m"] size [of m] to_buf [of m] by auto

end

text \<open>
  A class built on the two skeletons satisfies the interface as soon as its fields
  do: they are emitted, read back, and counted by \<open>get_size\<close>.
\<close>

lemma wire_codec_skeleton:
  assumes "\<And>m. ok m \<Longrightarrow> header_ok (base m)"
    and "\<And>m. ok m \<Longrightarrow> emits (writers m) (fs m)"
    and "\<And>m. ok m \<Longrightarrow> gs m = Some (mget_size (base m) + length (fs m))"
    and "\<And>m. ok m \<Longrightarrow> reads (rd (header_wire e now (base m))) (fs m) (wr m)"
    and "\<And>m. ok m \<Longrightarrow> gs (wr m) = gs m"
  shows "wire_codec gs (\<lambda>m. copy_to_buf_with now (base m) (writers m) (gs m))
    (copy_from_buf_with e (new_Message e rt) rd gs) (\<lambda>m. header_enc now (base m) @ fs m) wr ok"
proof (unfold_locales, goal_cases)
  case (1 m)
  then show ?case by (simp add: assms(3) length_header_enc)
next
  case (2 m buf)
  then show ?case by (intro copy_to_buf_with assms) (auto simp: length_header_enc)
next
  case (3 m rest)
  then show ?case by (intro copy_from_buf_with assms(1,4)) (auto simp: assms(3,5))
next
  case (4 m)
  then show ?case by (rule assms(5))
qed

end
