(* ===== verification/Crypto.thy ===== *)
theory Crypto
  imports Global_Config
begin

text \<open>
  Signing and checking of messages (\<^verbatim>\<open>blockchain/crypto.h\<close> and \<open>calculateHash\<close>
  of \<^verbatim>\<open>global.cpp\<close>), over the key arrays of \<^verbatim>\<open>global.cpp\<close>.  The primitives of
  Crypto++ and libsecp256k1 are fields of \<open>env\<close>.  A failed check does not return: the
  CMAC filter throws, and every other caller runs into \<open>assert(0)\<close>; both are \<open>None\<close>.
\<close>

record keystore =
  g_priv_key :: string
  g_public_key :: string
  g_pub_keys :: "u64 \<Rightarrow> string"
  cmacPrivateKeys :: "u64 \<Rightarrow> string"
  cmacOthersKeys :: "u64 \<Rightarrow> string"
  verifier :: "u64 \<Rightarrow> string"
  private_key :: string
  public_keys :: "u64 \<Rightarrow> string"

definition calculateHash :: "env \<Rightarrow> string \<Rightarrow> string" where
  "calculateHash e str = SHA256 e str"

definition ED25519signString :: "env \<Rightarrow> keystore \<Rightarrow> string \<Rightarrow> string" where
  "ED25519signString e k message = ED25519_sign e (g_priv_key k) message"

definition ED25519verifyString :: "env \<Rightarrow> keystore \<Rightarrow> string \<Rightarrow> string \<Rightarrow> u64 \<Rightarrow> bool option" where
  "ED25519verifyString e k message signature node =
     (if ED25519_verify e (verifier k node) message signature then Some True else None)"

definition CmacSignString :: "env \<Rightarrow> string \<Rightarrow> string \<Rightarrow> string" where
  "CmacSignString e key message = CMAC_sign e key message"

definition CmacVerifyString :: "env \<Rightarrow> string \<Rightarrow> string \<Rightarrow> string \<Rightarrow> bool option" where
  "CmacVerifyString e key message mac = (if CMAC_verify e key message mac then Some True else None)"

text \<open>The signing functions return the new values of \<open>signature\<close> and \<open>pkey\<close>.\<close>

definition signingClientNode :: "env \<Rightarrow> keystore \<Rightarrow> string \<Rightarrow> u64 \<Rightarrow> string \<times> string" where
  "signingClientNode e k message dest_node =
     (ED25519signString e k message, g_pub_keys k (node_id e))"

definition signingNodeNode :: "env \<Rightarrow> keystore \<Rightarrow> string \<Rightarrow> u64 \<Rightarrow> string \<times> string" where
  "signingNodeNode e k message dest_node =
     (CmacSignString e (cmacPrivateKeys k dest_node) message, cmacPrivateKeys k dest_node)"

definition validateClientNode :: "env \<Rightarrow> keystore \<Rightarrow> string \<Rightarrow> string \<Rightarrow> string \<Rightarrow> u64 \<Rightarrow> bool option" where
  "validateClientNode e k message pubKey signature return_node_id =
     ED25519verifyString e k message signature return_node_id"

definition validateNodeNode :: "env \<Rightarrow> keystore \<Rightarrow> string \<Rightarrow> string \<Rightarrow> string \<Rightarrow> u64 \<Rightarrow> bool option" where
  "validateNodeNode e k message pubKey signature return_node_id =
     CmacVerifyString e pubKey message signature"

definition getCmacRequiredKey :: "keystore \<Rightarrow> u64 \<Rightarrow> string" where
  "getCmacRequiredKey k dest_node = cmacPrivateKeys k dest_node"

definition getOtherRequiredKey :: "env \<Rightarrow> keystore \<Rightarrow> u64 \<Rightarrow> string" where
  "getOtherRequiredKey e k dest_node = g_pub_keys k (node_id e)"

text \<open>
  The documented behaviour of the primitives that correctness rests on: what is
  signed with a key verifies under the matching key, and digests have their fixed
  length.  AES accepts keys of 16, 24 and 32 bytes.
\<close>

definition AES_key :: "string \<Rightarrow> bool" where
  "AES_key key \<longleftrightarrow> length key \<in> {16, 24, 32}"

definition crypto_ok :: "env \<Rightarrow> bool" where
  "crypto_ok e \<longleftrightarrow> (\<forall>key msg. AES_key key \<longrightarrow> CMAC_verify e key msg (CMAC_sign e key msg)) \<and>
     (\<forall>msg. length (SHA256 e msg) = 32)"

end
