(* ===== verification/Client_Messages.thy ===== *)
theory Client_Messages
  imports Message_Base Crypto
begin

text \<open>
  The messages between clients and replicas and the set-up messages
  (\<^verbatim>\<open>transport/message.cpp\<close>): \<open>YCSBClientQueryMessage\<close>, \<open>ClientQueryBatch\<close>,
  \<open>ClientResponseMessage\<close>, \<open>InitDoneMessage\<close>, \<open>ReadyServer\<close>, \<open>DoneMessage\<close>,
  \<open>KeyExchange\<close>.  Per class: the object, its size, its writer and reader, the
  strings it signs, and the interpretation of \<open>wire_codec\<close>.
\<close>

record ycsb_request =
  req_key :: u64
  req_value :: u64

record YCSBClientQueryMessage =
  yc_base :: Message
  yc_client_startts :: u64
  yc_return_node :: u64
  yc_requests :: "ycsb_request list"

record ClientQueryBatch =
  cb_base :: Message
  cb_return_node :: u64
  cb_batch_size :: u64
  cqrySet :: "YCSBClientQueryMessage list"

record ClientResponseMessage =
  cr_base :: Message
  cr_index :: "u64 list"
  cr_client_ts :: "u64 list"
  cr_view :: u64

record KeyExchange =
  kx_base :: Message
  pkey :: string
  pkeySz :: u64
  kx_return_node :: u64
  public_share :: string

abbreviation batch_n :: "env \<Rightarrow> nat" where
  "batch_n e \<equiv> unat (get_batch_size e)"

text \<open>An assertion between two stores, and stores that need checked array elements.\<close>

definition ASSERT :: "bool \<Rightarrow> writer" where
  "ASSERT b st = (if b then Some st else None)"

definition COPY_CHECKED :: "writer list option \<Rightarrow> writer" where
  "COPY_CHECKED ws st = Option.bind ws (\<lambda>ws. run_writers ws st)"

section \<open>YCSBClientQueryMessage\<close>

definition new_YCSB :: "env \<Rightarrow> RemReqType \<Rightarrow> YCSBClientQueryMessage" where
  "new_YCSB e rt = \<lparr>yc_base = new_Message e rt, yc_client_startts = 0, yc_return_node = 0,
     yc_requests = []\<rparr>"

definition YCSB_get_size :: "YCSBClientQueryMessage \<Rightarrow> nat" where
  "YCSB_get_size m = 4 + 8 + 8 + 16 * length (yc_requests m) + 8"

definition YCSB_writers :: "env \<Rightarrow> YCSBClientQueryMessage \<Rightarrow> writer list" where
  "YCSB_writers e m =
     [COPY_BUF (u32_bytes (rtype_code (m_rtype (yc_base m)))),
      COPY_BUF (u64_bytes (yc_client_startts m)),
      COPY_BUF (size_bytes (length (yc_requests m)))] @
     concat (map (\<lambda>req. [ASSERT (req_key req < g_synth_table_size e),
                         COPY_BUF (u64_bytes (req_key req) @ u64_bytes (req_value req))]) (yc_requests m)) @
     [COPY_BUF (u64_bytes (yc_return_node m))]"

definition YCSB_copy_to_buf :: "env \<Rightarrow> YCSBClientQueryMessage \<Rightarrow> string \<Rightarrow> string option" where
  "YCSB_copy_to_buf e m buf = do {
     (buf, ptr) \<leftarrow> run_writers (YCSB_writers e m) (buf, 0);
     if ptr = YCSB_get_size m then Some buf else None }"

definition read_request :: "env \<Rightarrow> string \<Rightarrow> nat \<Rightarrow> (ycsb_request \<times> nat) option" where
  "read_request e buf ptr = do {
     (k, ptr) \<leftarrow> COPY_VAL_u64 buf ptr;
     (v, ptr) \<leftarrow> COPY_VAL_u64 buf ptr;
     if k < g_synth_table_size e then Some (\<lparr>req_key = k, req_value = v\<rparr>, ptr) else None }"

definition YCSB_read :: "env \<Rightarrow> YCSBClientQueryMessage \<Rightarrow> string \<Rightarrow> nat \<Rightarrow>
    (YCSBClientQueryMessage \<times> nat) option" where
  "YCSB_read e this buf ptr = do {
     (rt, ptr) \<leftarrow> COPY_VAL_u32 buf ptr;
     rt \<leftarrow> rtype_of_code rt;
     (ts, ptr) \<leftarrow> COPY_VAL_u64 buf ptr;
     (sz, ptr) \<leftarrow> COPY_VAL_size buf ptr;
     (reqs, ptr) \<leftarrow> read_n (read_request e) sz buf ptr;
     (ret, ptr) \<leftarrow> COPY_VAL_u64 buf ptr;
     Some (this\<lparr>yc_base := (yc_base this)\<lparr>m_rtype := rt\<rparr>, yc_client_startts := ts,
        yc_requests := reqs, yc_return_node := ret\<rparr>, ptr) }"

definition YCSB_copy_from_buf :: "env \<Rightarrow> YCSBClientQueryMessage \<Rightarrow> string \<Rightarrow>
    YCSBClientQueryMessage option" where
  "YCSB_copy_from_buf e this buf = do {
     (this, ptr) \<leftarrow> YCSB_read e this buf 0;
     if ptr = YCSB_get_size this then Some this else None }"

text \<open>
  \<open>create_message(&buf[ptr])\<close> where the caller casts the result to this class; any
  other type in the buffer makes the cast undefined.
\<close>

definition is_query_type :: "RemReqType \<Rightarrow> bool" where
  "is_query_type rt \<longleftrightarrow> rt = CL_QRY \<or> rt = RTXN \<or> rt = RTXN_CONT"

definition create_query :: "env \<Rightarrow> string \<Rightarrow> YCSBClientQueryMessage option" where
  "create_query e buf = do {
     (rt, ptr) \<leftarrow> COPY_VAL_u32 buf 0;
     rt \<leftarrow> rtype_of_code rt;
     if is_query_type rt then YCSB_copy_from_buf e (new_YCSB e rt) buf else None }"

definition read_query :: "env \<Rightarrow> string \<Rightarrow> nat \<Rightarrow> (YCSBClientQueryMessage \<times> nat) option" where
  "read_query e buf ptr = do {
     m \<leftarrow> create_query e (drop ptr buf);
     Some (m, ptr + YCSB_get_size m) }"

text \<open>
  The strings.  \<open>message += requests[i]->value\<close> appends the \<open>uint64_t\<close> converted to one
  \<open>char\<close>, not its digits.
\<close>

definition YCSB_getRequestString :: "YCSBClientQueryMessage \<Rightarrow> string" where
  "YCSB_getRequestString m =
     concat (map (\<lambda>r. to_string (req_key r) @ '' '' @ [char_of (unat (req_value r))] @ '' '') (yc_requests m))"

definition YCSB_getString :: "YCSBClientQueryMessage \<Rightarrow> string" where
  "YCSB_getString m = YCSB_getRequestString m @ '' '' @ to_string (yc_client_startts m)"

section \<open>ClientQueryBatch\<close>

definition new_CB :: "env \<Rightarrow> RemReqType \<Rightarrow> ClientQueryBatch" where
  "new_CB e rt = \<lparr>cb_base = new_Message e rt, cb_return_node = 0, cb_batch_size = 0, cqrySet = []\<rparr>"

definition CB_init :: "env \<Rightarrow> ClientQueryBatch \<Rightarrow> ClientQueryBatch" where
  "CB_init e m = m\<lparr>cb_return_node := node_id e, cb_batch_size := get_batch_size e, cqrySet := []\<rparr>"

definition CB_get_size :: "env \<Rightarrow> ClientQueryBatch \<Rightarrow> nat option" where
  "CB_get_size e m = do {
     qs \<leftarrow> first_n (batch_n e) (cqrySet m);
     Some (mget_size (cb_base m) + 8 + 8 + sum_list (map YCSB_get_size qs)) }"

definition CB_writers :: "env \<Rightarrow> ClientQueryBatch \<Rightarrow> writer list" where
  "CB_writers e m =
     [COPY_BUF (u64_bytes (cb_return_node m)),
      COPY_BUF (u64_bytes (cb_batch_size m)),
      COPY_CHECKED (map_option (map (\<lambda>q. COPY_NESTED (YCSB_copy_to_buf e q) (YCSB_get_size q)))
        (first_n (batch_n e) (cqrySet m)))]"

definition CB_copy_to_buf :: "env \<Rightarrow> u64 \<Rightarrow> ClientQueryBatch \<Rightarrow> string \<Rightarrow> string option" where
  "CB_copy_to_buf e now m buf = copy_to_buf_with now (cb_base m) (CB_writers e m) (CB_get_size e m) buf"

definition CB_read :: "env \<Rightarrow> ClientQueryBatch \<Rightarrow> Message \<Rightarrow> string \<Rightarrow> nat \<Rightarrow> (ClientQueryBatch \<times> nat) option" where
  "CB_read e this b buf ptr = do {
     (ret, ptr) \<leftarrow> COPY_VAL_u64 buf ptr;
     (bsz, ptr) \<leftarrow> COPY_VAL_u64 buf ptr;
     (qs, ptr) \<leftarrow> read_n (read_query e) (batch_n e) buf ptr;
     Some (this\<lparr>cb_base := b, cb_return_node := ret, cb_batch_size := bsz, cqrySet := qs\<rparr>, ptr) }"

definition CB_copy_from_buf :: "env \<Rightarrow> ClientQueryBatch \<Rightarrow> string \<Rightarrow> ClientQueryBatch option" where
  "CB_copy_from_buf e this buf = copy_from_buf_with e (cb_base this) (CB_read e this) (CB_get_size e) buf"

definition CB_getString :: "env \<Rightarrow> ClientQueryBatch \<Rightarrow> string option" where
  \<comment> \<open>the loop bound is the compile-time \<open>BATCH_SIZE\<close>, which initialises \<open>g_batch_size\<close>\<close>
  "CB_getString e m = do {
     qs \<leftarrow> first_n (batch_n e) (cqrySet m);
     Some (to_string (cb_return_node m) @ concat (map YCSB_getRequestString qs)) }"

text \<open>The tail of every \<open>sign\<close> method: store the signature and refresh the sizes.\<close>

definition set_signature :: "string \<times> string \<Rightarrow> Message \<Rightarrow> Message" where
  "set_signature sk b = b\<lparr>m_signature := fst sk, m_pubKey := snd sk,
     m_sigSize := word_of_nat (length (fst sk)), m_keySize := word_of_nat (length (snd sk))\<rparr>"

definition CB_sign :: "env \<Rightarrow> keystore \<Rightarrow> u64 \<Rightarrow> ClientQueryBatch \<Rightarrow> ClientQueryBatch option" where
  "CB_sign e k dest_node m = do {
     message \<leftarrow> CB_getString e m;
     Some (m\<lparr>cb_base := set_signature (signingClientNode e k message dest_node) (cb_base m)\<rparr>) }"

definition CB_validate :: "env \<Rightarrow> keystore \<Rightarrow> ClientQueryBatch \<Rightarrow> bool option" where
  "CB_validate e k m = do {
     message \<leftarrow> CB_getString e m;
     validateClientNode e k message (m_pubKey (cb_base m)) (m_signature (cb_base m)) (cb_return_node m) }"

section \<open>ClientResponseMessage\<close>

definition new_CR :: "env \<Rightarrow> RemReqType \<Rightarrow> ClientResponseMessage" where
  "new_CR e rt = \<lparr>cr_base = new_Message e rt, cr_index = [], cr_client_ts = [], cr_view = 0\<rparr>"

definition CR_get_size :: "ClientResponseMessage \<Rightarrow> nat" where
  "CR_get_size m = mget_size (cr_base m) + 8 + 8 * length (cr_index m) + 8 * length (cr_client_ts m)"

definition CR_writers :: "env \<Rightarrow> ClientResponseMessage \<Rightarrow> writer list" where
  "CR_writers e m =
     [COPY_CHECKED (map_option (map (\<lambda>v. COPY_BUF (u64_bytes v))) (first_n (batch_n e) (cr_index m))),
      COPY_CHECKED (map_option (map (\<lambda>v. COPY_BUF (u64_bytes v))) (first_n (batch_n e) (cr_client_ts m))),
      COPY_BUF (u64_bytes (cr_view m))]"

definition CR_copy_to_buf :: "env \<Rightarrow> u64 \<Rightarrow> ClientResponseMessage \<Rightarrow> string \<Rightarrow> string option" where
  "CR_copy_to_buf e now m buf =
     copy_to_buf_with now (cr_base m) (CR_writers e m) (Some (CR_get_size m)) buf"

definition CR_read :: "env \<Rightarrow> ClientResponseMessage \<Rightarrow> Message \<Rightarrow> string \<Rightarrow> nat \<Rightarrow>
    (ClientResponseMessage \<times> nat) option" where
  "CR_read e this b buf ptr = do {
     (idx, ptr) \<leftarrow> read_n COPY_VAL_u64 (batch_n e) buf ptr;
     (cts, ptr) \<leftarrow> read_n COPY_VAL_u64 (batch_n e) buf ptr;
     (vw, ptr) \<leftarrow> COPY_VAL_u64 buf ptr;
     Some (this\<lparr>cr_base := b, cr_index := idx, cr_client_ts := cts, cr_view := vw\<rparr>, ptr) }"

definition CR_copy_from_buf :: "env \<Rightarrow> ClientResponseMessage \<Rightarrow> string \<Rightarrow> ClientResponseMessage option" where
  "CR_copy_from_buf e this buf =
     copy_from_buf_with e (cr_base this) (CR_read e this) (\<lambda>m. Some (CR_get_size m)) buf"

definition CR_getString :: "env \<Rightarrow> u64 \<Rightarrow> ClientResponseMessage \<Rightarrow> string option" where
  "CR_getString e sender m = do {
     idx \<leftarrow> first_n (batch_n e) (cr_index m);
     cts \<leftarrow> first_n (batch_n e) (cr_client_ts m);
     Some (to_string sender @ concat (map (\<lambda>(i, t). to_string i @ '':'' @ to_string t) (zip idx cts))) }"

definition CR_sign :: "env \<Rightarrow> keystore \<Rightarrow> u64 \<Rightarrow> ClientResponseMessage \<Rightarrow> ClientResponseMessage option" where
  "CR_sign e k dest_node m = do {
     message \<leftarrow> CR_getString e (node_id e) m;
     Some (m\<lparr>cr_base := set_signature (signingNodeNode e k message dest_node) (cr_base m)\<rparr>) }"

definition CR_validate :: "env \<Rightarrow> keystore \<Rightarrow> ClientResponseMessage \<Rightarrow> bool option" where
  "CR_validate e k m = do {
     message \<leftarrow> CR_getString e (m_return_node_id (cr_base m)) m;
     validateNodeNode e k message (m_pubKey (cr_base m)) (m_signature (cr_base m))
       (m_return_node_id (cr_base m)) }"

section \<open>InitDoneMessage, ReadyServer, DoneMessage\<close>

text \<open>Headers only; \<open>DoneMessage\<close> also asserts the (trivial) size equation.\<close>

definition InitDone_get_size :: "Message \<Rightarrow> nat" where
  "InitDone_get_size m = mget_size m"

definition InitDone_copy_to_buf :: "u64 \<Rightarrow> Message \<Rightarrow> string \<Rightarrow> string option" where
  "InitDone_copy_to_buf now m buf = mcopy_to_buf now m buf"

definition InitDone_copy_from_buf :: "env \<Rightarrow> Message \<Rightarrow> string \<Rightarrow> Message option" where
  "InitDone_copy_from_buf e this buf = mcopy_from_buf e this buf"

definition ReadyServer_get_size :: "Message \<Rightarrow> nat" where
  "ReadyServer_get_size m = mget_size m"

definition ReadyServer_copy_to_buf :: "u64 \<Rightarrow> Message \<Rightarrow> string \<Rightarrow> string option" where
  "ReadyServer_copy_to_buf now m buf = mcopy_to_buf now m buf"

definition ReadyServer_copy_from_buf :: "env \<Rightarrow> Message \<Rightarrow> string \<Rightarrow> Message option" where
  "ReadyServer_copy_from_buf e this buf = mcopy_from_buf e this buf"

definition Done_get_size :: "Message \<Rightarrow> nat" where
  "Done_get_size m = mget_size m"

definition Done_copy_to_buf :: "u64 \<Rightarrow> Message \<Rightarrow> string \<Rightarrow> string option" where
  "Done_copy_to_buf now m buf = copy_to_buf_with now m [] (Some (Done_get_size m)) buf"

definition Done_copy_from_buf :: "env \<Rightarrow> Message \<Rightarrow> string \<Rightarrow> Message option" where
  "Done_copy_from_buf e this buf =
     copy_from_buf_with e this (\<lambda>b buf ptr. Some (b, ptr)) (\<lambda>m. Some (Done_get_size m)) buf"

section \<open>KeyExchange\<close>

definition new_KX :: "env \<Rightarrow> RemReqType \<Rightarrow> KeyExchange" where
  "new_KX e rt = \<lparr>kx_base = new_Message e rt, pkey = '''', pkeySz = 0, kx_return_node = 0,
     public_share = replicate (sizeof_pubkey e) CHR 0x00\<rparr>"

definition KX_get_size :: "env \<Rightarrow> KeyExchange \<Rightarrow> nat" where
  "KX_get_size e m = mget_size (kx_base m) + 8 + length (pkey m) + 8
     + (if pkey m = ''SECP'' then sizeof_pubkey e else 0)"

definition KX_writers :: "KeyExchange \<Rightarrow> writer list" where
  "KX_writers m =
     [COPY_BUF (u64_bytes (pkeySz m)),
      COPY_CHARS (pkey m) (unat (pkeySz m)),
      COPY_BUF (u64_bytes (kx_return_node m))] @
     (if pkey m = ''SECP'' then [COPY_BUF (public_share m)] else [])"

definition KX_copy_to_buf :: "u64 \<Rightarrow> KeyExchange \<Rightarrow> string \<Rightarrow> string option" where
  "KX_copy_to_buf now m buf = do {
     buf \<leftarrow> mcopy_to_buf now (kx_base m) buf;
     (buf, ptr) \<leftarrow> run_writers (KX_writers m) (buf, mget_size (kx_base m));
     Some buf }"

definition KX_read :: "env \<Rightarrow> KeyExchange \<Rightarrow> Message \<Rightarrow> string \<Rightarrow> nat \<Rightarrow> (KeyExchange \<times> nat) option" where
  "KX_read e this b buf ptr = do {
     (sz, ptr) \<leftarrow> COPY_VAL_u64 buf ptr;
     (pk, ptr) \<leftarrow> buf_to_string buf ptr (pkey this) (unat sz);
     (ret, ptr) \<leftarrow> COPY_VAL_u64 buf ptr;
     (sh, ptr) \<leftarrow> (if pk = ''SECP'' then COPY_VAL (sizeof_pubkey e) buf ptr
                  else Some (public_share this, ptr));
     Some (this\<lparr>kx_base := b, pkeySz := sz, pkey := pk, kx_return_node := ret,
        public_share := sh\<rparr>, ptr) }"

definition KX_copy_from_buf :: "env \<Rightarrow> KeyExchange \<Rightarrow> string \<Rightarrow> KeyExchange option" where
  "KX_copy_from_buf e this buf = do {
     b \<leftarrow> mcopy_from_buf e (kx_base this) buf;
     (this, ptr) \<leftarrow> KX_read e this b buf (mget_size b);
     Some this }"

section \<open>Wire formats\<close>

definition request_enc :: "ycsb_request \<Rightarrow> string" where
  "request_enc r = u64_bytes (req_key r) @ u64_bytes (req_value r)"

definition yc_enc :: "YCSBClientQueryMessage \<Rightarrow> string" where
  "yc_enc m = u32_bytes (rtype_code (m_rtype (yc_base m))) @ u64_bytes (yc_client_startts m) @
     size_bytes (length (yc_requests m)) @ concat (map request_enc (yc_requests m)) @
     u64_bytes (yc_return_node m)"

definition yc_wire :: "env \<Rightarrow> YCSBClientQueryMessage \<Rightarrow> YCSBClientQueryMessage" where
  "yc_wire e m = m\<lparr>yc_base := new_Message e (m_rtype (yc_base m))\<rparr>"

definition yc_ok :: "env \<Rightarrow> YCSBClientQueryMessage \<Rightarrow> bool" where
  "yc_ok e m \<longleftrightarrow> is_query_type (m_rtype (yc_base m)) \<and> length (yc_requests m) < 2 ^ 64 \<and>
     (\<forall>r \<in> set (yc_requests m). req_key r < g_synth_table_size e)"

definition cb_fields :: "ClientQueryBatch \<Rightarrow> string" where
  "cb_fields m = u64_bytes (cb_return_node m) @ u64_bytes (cb_batch_size m) @
     concat (map yc_enc (cqrySet m))"

definition cb_enc :: "u64 \<Rightarrow> ClientQueryBatch \<Rightarrow> string" where
  "cb_enc now m = header_enc now (cb_base m) @ cb_fields m"

definition cb_wire :: "env \<Rightarrow> u64 \<Rightarrow> ClientQueryBatch \<Rightarrow> ClientQueryBatch" where
  "cb_wire e now m = m\<lparr>cb_base := header_wire e now (cb_base m), cqrySet := map (yc_wire e) (cqrySet m)\<rparr>"

definition cb_ok :: "env \<Rightarrow> ClientQueryBatch \<Rightarrow> bool" where
  "cb_ok e m \<longleftrightarrow> header_ok (cb_base m) \<and> length (cqrySet m) = batch_n e \<and>
     (\<forall>q \<in> set (cqrySet m). yc_ok e q)"

definition cr_fields :: "ClientResponseMessage \<Rightarrow> string" where
  "cr_fields m = concat (map u64_bytes (cr_index m)) @ concat (map u64_bytes (cr_client_ts m)) @
     u64_bytes (cr_view m)"

definition cr_enc :: "u64 \<Rightarrow> ClientResponseMessage \<Rightarrow> string" where
  "cr_enc now m = header_enc now (cr_base m) @ cr_fields m"

definition cr_wire :: "env \<Rightarrow> u64 \<Rightarrow> ClientResponseMessage \<Rightarrow> ClientResponseMessage" where
  "cr_wire e now m = m\<lparr>cr_base := header_wire e now (cr_base m)\<rparr>"

definition cr_ok :: "env \<Rightarrow> ClientResponseMessage \<Rightarrow> bool" where
  "cr_ok e m \<longleftrightarrow> header_ok (cr_base m) \<and> length (cr_index m) = batch_n e \<and>
     length (cr_client_ts m) = batch_n e"

definition kx_fields :: "KeyExchange \<Rightarrow> string" where
  "kx_fields m = u64_bytes (pkeySz m) @ pkey m @ u64_bytes (kx_return_node m) @
     (if pkey m = ''SECP'' then public_share m else [])"

definition kx_enc :: "u64 \<Rightarrow> KeyExchange \<Rightarrow> string" where
  "kx_enc now m = header_enc now (kx_base m) @ kx_fields m"

definition kx_wire :: "env \<Rightarrow> u64 \<Rightarrow> KeyExchange \<Rightarrow> KeyExchange" where
  "kx_wire e now m = m\<lparr>kx_base := header_wire e now (kx_base m),
     public_share := (if pkey m = ''SECP'' then public_share m
                      else replicate (sizeof_pubkey e) CHR 0x00)\<rparr>"

definition kx_ok :: "env \<Rightarrow> KeyExchange \<Rightarrow> bool" where
  "kx_ok e m \<longleftrightarrow> header_ok (kx_base m) \<and> unat (pkeySz m) = length (pkey m) \<and>
     length (public_share m) = sizeof_pubkey e"

section \<open>Lemmas: shared\<close>

lemma emits_ASSERT_Cons: "b \<Longrightarrow> emits ws bs \<Longrightarrow> emits (ASSERT b # ws) bs"
  by (simp add: emits_def ASSERT_def)

lemma emits_COPY_CHECKED:
  "ws = Some vs \<Longrightarrow> emits vs bs \<Longrightarrow> emits [COPY_CHECKED ws] bs"
  by (simp add: emits_def COPY_CHECKED_def)

lemma emits_COPY_CHECKED_Cons:
  "ws = Some vs \<Longrightarrow> emits vs bs \<Longrightarrow> emits us cs \<Longrightarrow> emits (COPY_CHECKED ws # us) (bs @ cs)"
  by (rule emits_Cons [OF emits_COPY_CHECKED])

lemma emits_map:
  assumes "\<And>x. x \<in> set xs \<Longrightarrow> emits [f x] (g x)"
  shows "emits (map f xs) (concat (map g xs))"
  using assms by (induction xs) (auto intro: emits_Cons)

lemma header_ok_set_signature [simp]:
  "length (fst sk) < 2 ^ 64 \<Longrightarrow> length (snd sk) < 2 ^ 64 \<Longrightarrow> header_ok (set_signature sk b)"
  by (simp add: header_ok_def set_signature_def unat_of_nat)

lemma length_concat_u64 [size_simps]: "length (concat (map u64_bytes xs)) = 8 * length xs"
  by (induction xs) auto

lemma reads_u64s: "n = length xs \<Longrightarrow> reads (read_n COPY_VAL_u64 n) (concat (map u64_bytes xs)) xs"
  using reads_read_n [of xs COPY_VAL_u64 u64_bytes id n] by simp

section \<open>Lemmas: client queries\<close>

lemma length_yc_enc [size_simps]: "length (yc_enc m) = YCSB_get_size m"
proof -
  have "length (concat (map request_enc rs)) = 16 * length rs" for rs
    by (induction rs) (auto simp: request_enc_def)
  then show ?thesis by (simp add: yc_enc_def YCSB_get_size_def)
qed

lemma emits_YCSB:
  assumes "yc_ok e m"
  shows "emits (YCSB_writers e m) (yc_enc m)"
proof -
  have "emits (concat (map (\<lambda>r. [ASSERT (req_key r < g_synth_table_size e),
      COPY_BUF (u64_bytes (req_key r) @ u64_bytes (req_value r))]) (yc_requests m)))
      (concat (map request_enc (yc_requests m)))"
    using assms unfolding request_enc_def
    by (intro emits_concat emits_ASSERT_Cons emits_COPY_BUF) (auto simp: yc_ok_def)
  then show ?thesis
    unfolding YCSB_writers_def yc_enc_def by (auto intro!: emits_intros)
qed

lemma YCSB_copy_to_buf:
  assumes "yc_ok e m" and "length (yc_enc m) \<le> length buf"
  shows "YCSB_copy_to_buf e m buf = Some (yc_enc m @ drop (length (yc_enc m)) buf)"
  using emitsD [OF emits_YCSB [OF assms(1)], of 0 buf] assms(2)
  by (simp add: YCSB_copy_to_buf_def length_yc_enc)

lemma reads_request: "req_key r < g_synth_table_size e \<Longrightarrow> reads (read_request e) (request_enc r) r"
  unfolding read_request_def [abs_def] request_enc_def
  by (rule reads_bind [OF reads_values(1)], rule reads_bind_check [OF reads_values(1)]) simp

lemma reads_requests:
  assumes "yc_ok e m"
  shows "reads (read_n (read_request e) (length (yc_requests m)))
    (concat (map request_enc (yc_requests m))) (yc_requests m)"
  using assms reads_read_n [of "yc_requests m" "read_request e" request_enc id]
  by (simp add: yc_ok_def reads_request)

lemma create_query:
  assumes "yc_ok e m"
  shows "create_query e (yc_enc m @ rest) = Some (yc_wire e m)"
proof -
  let ?new = "new_YCSB e (m_rtype (yc_base m))"
  have len: "length (yc_requests m) < 2 ^ 64" using assms by (simp add: yc_ok_def)
  have "reads (YCSB_read e ?new) (yc_enc m) (yc_wire e m)"
    unfolding YCSB_read_def [abs_def] yc_enc_def
    by (rule reads_intros reads_pure [OF rtype_of_code] reads_requests [OF assms] len
      | simp add: yc_wire_def new_YCSB_def new_Message_def)+
  from readsD [OF this, of "[]" 0 rest]
  have "YCSB_copy_from_buf e ?new (yc_enc m @ rest) = Some (yc_wire e m)"
    by (simp add: YCSB_copy_from_buf_def length_yc_enc) (simp add: yc_wire_def YCSB_get_size_def)
  moreover have "COPY_VAL_u32 (yc_enc m @ rest) 0 = Some (rtype_code (m_rtype (yc_base m)), 4)"
    using COPY_VAL_u32_at [of "[]" 0] by (simp add: yc_enc_def)
  ultimately show ?thesis
    using assms by (simp add: create_query_def yc_ok_def)
qed

lemma YCSB_get_size_wire [simp]: "YCSB_get_size (yc_wire e m) = YCSB_get_size m"
  by (simp add: yc_wire_def YCSB_get_size_def)

interpretation yc: wire_codec "\<lambda>m. Some (YCSB_get_size m)" "YCSB_copy_to_buf e" "create_query e"
    yc_enc "yc_wire e" "yc_ok e" for e
  by unfold_locales (simp_all add: length_yc_enc YCSB_copy_to_buf create_query)

lemma reads_query: "yc_ok e m \<Longrightarrow> reads (read_query e) (yc_enc m) (yc_wire e m)"
  by (simp add: reads_def read_query_def create_query length_yc_enc)

lemma length_concat_yc [size_simps]:
  "length (concat (map yc_enc qs)) = sum_list (map YCSB_get_size qs)"
  by (induction qs) (auto simp: size_simps)

section \<open>Lemmas: the other classes\<close>

lemma emits_CB:
  assumes "cb_ok e m"
  shows "emits (CB_writers e m) (cb_fields m)"
proof -
  have "emits (map (\<lambda>q. COPY_NESTED (YCSB_copy_to_buf e q) (YCSB_get_size q)) (cqrySet m))
      (concat (map yc_enc (cqrySet m)))"
    using assms by (intro emits_map yc.emits_nested [of e]) (auto simp: cb_ok_def)
  then show ?thesis
    unfolding CB_writers_def cb_fields_def using assms
    by (intro emits_COPY_BUF_Cons emits_COPY_CHECKED) (auto simp: cb_ok_def)
qed

lemma CB_get_size: "cb_ok e m \<Longrightarrow> CB_get_size e m = Some (mget_size (cb_base m) + length (cb_fields m))"
  by (simp add: CB_get_size_def cb_ok_def cb_fields_def size_simps)

lemma CB_get_size_wire: "cb_ok e m \<Longrightarrow> CB_get_size e (cb_wire e now m) = CB_get_size e m"
  by (simp add: CB_get_size_def cb_ok_def cb_wire_def comp_def)

lemma reads_CB:
  assumes "cb_ok e m"
  shows "reads (CB_read e (new_CB e rt) (header_wire e now (cb_base m))) (cb_fields m) (cb_wire e now m)"
proof -
  have "reads (read_n (read_query e) (batch_n e)) (concat (map yc_enc (cqrySet m)))
      (map (yc_wire e) (cqrySet m))"
    using assms by (intro reads_read_n reads_query) (auto simp: cb_ok_def)
  then show ?thesis
    unfolding CB_read_def [abs_def] cb_fields_def
    by - (rule reads_intros | simp add: cb_wire_def new_CB_def)+
qed

interpretation cb: wire_codec "CB_get_size e" "CB_copy_to_buf e now" "CB_copy_from_buf e (new_CB e CL_BATCH)"
    "cb_enc now" "cb_wire e now" "cb_ok e" for e now
  using wire_codec_skeleton [where ok = "cb_ok e" and base = cb_base and writers = "CB_writers e"
      and fs = cb_fields and gs = "CB_get_size e" and rd = "CB_read e (new_CB e CL_BATCH)"
      and wr = "cb_wire e now" and e = e and now = now and rt = CL_BATCH,
      OF _ emits_CB CB_get_size reads_CB CB_get_size_wire]
  by (simp add: CB_copy_to_buf_def [abs_def] CB_copy_from_buf_def [abs_def] cb_enc_def [abs_def]
      new_CB_def cb_ok_def)

lemma CR_get_size: "cr_ok e m \<Longrightarrow> CR_get_size m = mget_size (cr_base m) + length (cr_fields m)"
  by (simp add: CR_get_size_def cr_fields_def size_simps)

lemma CR_get_size_wire [simp]: "CR_get_size (cr_wire e now m) = CR_get_size m"
  by (simp add: CR_get_size_def cr_wire_def)

lemma emits_CR: "cr_ok e m \<Longrightarrow> emits (CR_writers e m) (cr_fields m)"
  unfolding CR_writers_def cr_fields_def
  by (intro emits_COPY_CHECKED_Cons emits_COPY_BUF) (auto simp: cr_ok_def intro!: emits_map emits_COPY_BUF)

lemma reads_CR:
  "cr_ok e m \<Longrightarrow>
   reads (CR_read e (new_CR e rt) (header_wire e now (cr_base m))) (cr_fields m) (cr_wire e now m)"
  unfolding CR_read_def [abs_def] cr_fields_def
  by (rule reads_intros reads_u64s | simp add: cr_wire_def new_CR_def cr_ok_def)+

interpretation cr: wire_codec "\<lambda>m. Some (CR_get_size m)" "CR_copy_to_buf e now"
    "CR_copy_from_buf e (new_CR e CL_RSP)" "cr_enc now" "cr_wire e now" "cr_ok e" for e now
  using wire_codec_skeleton [where ok = "cr_ok e" and base = cr_base and writers = "CR_writers e"
      and fs = cr_fields and gs = "\<lambda>m. Some (CR_get_size m)" and rd = "CR_read e (new_CR e CL_RSP)"
      and wr = "cr_wire e now" and e = e and now = now and rt = CL_RSP, OF _ emits_CR _ reads_CR]
  by (simp add: CR_copy_to_buf_def [abs_def] CR_copy_from_buf_def [abs_def] cr_enc_def [abs_def]
      new_CR_def cr_ok_def CR_get_size)

interpretation dn: wire_codec "\<lambda>m. Some (Done_get_size m)" "Done_copy_to_buf now"
    "Done_copy_from_buf e (new_Message e RDONE)" "header_enc now" "header_wire e now" header_ok for e now
proof (unfold_locales, goal_cases)
  case (2 m buf)
  then show ?case
    using copy_to_buf_with [of m "[]" "[]" "Some (Done_get_size m)" buf now]
    by (simp add: Done_copy_to_buf_def Done_get_size_def length_header_enc)
next
  case (3 m rest)
  then show ?case
    using copy_from_buf_with [of m "\<lambda>b buf ptr. Some (b, ptr)" e now "[]" "header_wire e now m"
        "\<lambda>m. Some (Done_get_size m)" RDONE rest]
    by (simp add: Done_copy_from_buf_def Done_get_size_def reads_return)
qed (simp_all add: Done_get_size_def length_header_enc)

lemma KX_get_size: "kx_ok e m \<Longrightarrow> KX_get_size e m = mget_size (kx_base m) + length (kx_fields m)"
  by (simp add: KX_get_size_def kx_fields_def kx_ok_def)

lemma KX_get_size_wire [simp]: "KX_get_size e (kx_wire e now m) = KX_get_size e m"
  by (simp add: KX_get_size_def kx_wire_def)

lemma emits_KX: "kx_ok e m \<Longrightarrow> emits (KX_writers m) (kx_fields m)"
  unfolding KX_writers_def kx_fields_def append_Cons append_Nil
  by (intro emits_COPY_BUF_Cons emits_COPY_CHARS_Cons) (auto simp: kx_ok_def intro: emits_COPY_BUF)

lemma reads_KX:
  assumes "kx_ok e m"
  shows "reads (KX_read e (new_KX e rt) (header_wire e now (kx_base m))) (kx_fields m) (kx_wire e now m)"
proof -
  have sz: "length (pkey m) = unat (pkeySz m)" "length (public_share m) = sizeof_pubkey e"
    using assms by (simp_all add: kx_ok_def)
  have str: "reads (\<lambda>buf ptr. buf_to_string buf ptr (pkey (new_KX e rt)) (unat (pkeySz m))) (pkey m) (pkey m)"
    using reads_buf_to_string [OF sz(1), of "[]"] by (simp add: new_KX_def)
  have share: "reads (\<lambda>buf ptr. if pkey m = ''SECP'' then COPY_VAL (sizeof_pubkey e) buf ptr
        else Some (public_share (new_KX e rt), ptr))
      (if pkey m = ''SECP'' then public_share m else [])
      (if pkey m = ''SECP'' then public_share m else replicate (sizeof_pubkey e) CHR 0x00)"
    using sz(2) by (auto simp: new_KX_def reads_return)
  show ?thesis
    unfolding KX_read_def [abs_def] kx_fields_def
    by (rule reads_bind_return [OF share] reads_bind reads_values str
      | simp add: kx_wire_def new_KX_def)+
qed

interpretation kx: wire_codec "\<lambda>m. Some (KX_get_size e m)" "KX_copy_to_buf now"
    "KX_copy_from_buf e (new_KX e KEYEX)" "kx_enc now" "kx_wire e now" "kx_ok e" for e now
proof (unfold_locales, goal_cases)
  case (1 m)
  then show ?case by (simp add: KX_get_size kx_enc_def length_header_enc)
next
  case (2 m buf)
  have "KX_copy_to_buf now m buf =
      copy_to_buf_with now (kx_base m) (KX_writers m) (Some (mget_size (kx_base m) + length (kx_fields m))) buf"
    using 2 emitsD [OF emits_KX [of e m]]
    by (simp add: KX_copy_to_buf_def copy_to_buf_with_def mcopy_to_buf kx_ok_def kx_enc_def length_header_enc)
  then show ?case unfolding kx_enc_def
    using 2 by (simp add: copy_to_buf_with [OF _ emits_KX [of e m]] kx_ok_def kx_enc_def length_header_enc)
next
  case (3 m rest)
  then have "mcopy_from_buf e (new_Message e KEYEX) (kx_enc now m @ rest) = Some (header_wire e now (kx_base m))"
    by (simp add: kx_enc_def mcopy_from_buf kx_ok_def)
  moreover have "KX_read e (new_KX e KEYEX) (header_wire e now (kx_base m)) (kx_enc now m @ rest)
      (mget_size (kx_base m)) = Some (kx_wire e now m, mget_size (kx_base m) + length (kx_fields m))"
    using readsD [OF reads_KX [OF 3, of KEYEX now], of "header_enc now (kx_base m)"]
    by (simp add: kx_enc_def length_header_enc)
  ultimately show ?case by (simp add: KX_copy_from_buf_def new_KX_def)
qed simp

end
