(* ===== verification/Consensus_Messages.thy ===== *)
theory Consensus_Messages
  imports Client_Messages
begin

text \<open>
  The messages of the consensus protocol (\<^verbatim>\<open>transport/message.cpp\<close>):
  \<open>SpotLessSyncMsg\<close> (a vote), \<open>SpotLessGenericMsg\<close> and \<open>SpotLessProposalMsg\<close> (the two
  halves of a proposal), \<open>SpotLessAskMsg\<close> and \<open>SpotLessAskResponseMsg\<close>, and the
  node-internal \<open>ExecuteMessage\<close> and \<open>CheckpointMessage\<close>.  The \<open>copy_from_txn\<close>
  methods are with the transaction manager.
\<close>

record SpotLessSyncMsg =
  sync_base :: Message
  sync_view :: u64
  sync_index :: u64
  sync_hash :: string
  sync_hashSize :: u64
  sync_return_node :: u64
  sync_end_index :: u64
  sync_batch_size :: u32
  sync_non_vote :: bool
  sync_highQC :: QuorumCertificate

record SpotLessGenericMsg =
  gen_base :: Message
  gen_view :: u64
  gen_index :: u64
  gen_hash :: string
  gen_hashSize :: u64
  gen_return_node :: u64
  gen_end_index :: u64
  gen_batch_size :: u32
  gen_highQC :: QuorumCertificate

text \<open>\<open>requestMsg\<close> is a vector of pointers: an entry is null until \<open>add_request_msg\<close>.\<close>

record SpotLessProposalMsg =
  prop_base :: Message
  prop_view :: u64
  prop_index :: "u64 list"
  prop_requestMsg :: "YCSBClientQueryMessage option list"
  prop_hashSize :: u64
  prop_hash :: string
  prop_batch_size :: u32

record SpotLessAskMsg =
  ask_base :: Message
  ask_view :: u64
  ask_hash :: string
  ask_hashSize :: u64
  ask_return_node :: u64

record ExecuteMessage =
  ex_base :: Message
  ex_view :: u64
  ex_index :: u64
  ex_hash :: string
  ex_hashSize :: u64
  ex_return_node :: u64
  ex_end_index :: u64
  ex_batch_size :: u64
  ex_valid :: bool

record CheckpointMessage =
  ck_base :: Message
  ck_index :: u64
  ck_return_node :: u64
  ck_end_index :: u64

text \<open>The 32 bytes that \<open>digital_sign\<close> signs and \<open>validate\<close> checks.\<close>

definition vote_digest :: "env \<Rightarrow> string \<Rightarrow> QuorumCertificate \<Rightarrow> string" where
  "vote_digest e hash highQC = take 32 (calculateHash e (hash @ QC_to_string highQC))"

section \<open>SpotLessSyncMsg\<close>

definition new_Sync :: "env \<Rightarrow> RemReqType \<Rightarrow> SpotLessSyncMsg" where
  "new_Sync e rt = \<lparr>sync_base = new_Message e rt, sync_view = 0, sync_index = 0, sync_hash = '''',
     sync_hashSize = 0, sync_return_node = 0, sync_end_index = 0, sync_batch_size = 0,
     sync_non_vote = False, sync_highQC = new_QC 0\<rparr>"

definition Sync_get_size :: "env \<Rightarrow> SpotLessSyncMsg \<Rightarrow> nat" where
  "Sync_get_size e m = mget_size (sync_base m) + 8 + 8 + length (sync_hash m) + 8 + 8 + 8 + 4
     + QC_get_size e (sync_highQC m) + sizeof_sig e
     + 1 + (if \<not> m_sig_empty (sync_base m) then sizeof_sig e else 0) + 1"

definition Sync_toString :: "SpotLessSyncMsg \<Rightarrow> string" where
  "Sync_toString m = to_string (sync_view m) @ ''_'' @ to_string (sync_index m) @ ''_'' @ sync_hash m @
     ''_'' @ to_string (sync_return_node m) @ ''_'' @ to_string (sync_end_index m)"

definition Sync_sign :: "env \<Rightarrow> keystore \<Rightarrow> u64 \<Rightarrow> SpotLessSyncMsg \<Rightarrow> SpotLessSyncMsg" where
  "Sync_sign e k dest_node m =
     m\<lparr>sync_base := set_signature (signingNodeNode e k (Sync_toString m) dest_node) (sync_base m)\<rparr>"

definition Sync_digital_sign :: "env \<Rightarrow> keystore \<Rightarrow> SpotLessSyncMsg \<Rightarrow> SpotLessSyncMsg" where
  "Sync_digital_sign e k m =
     m\<lparr>sync_base := (sync_base m)\<lparr>m_sig_share :=
        ecdsa_sign e (private_key k) (vote_digest e (sync_hash m) (sync_highQC m))\<rparr>\<rparr>"

definition Sync_writers :: "SpotLessSyncMsg \<Rightarrow> writer list" where
  "Sync_writers m =
     [COPY_BUF (u64_bytes (sync_view m)),
      COPY_BUF (u64_bytes (sync_index m)),
      COPY_BUF (u64_bytes (sync_hashSize m))] @
     map (\<lambda>c. COPY_BUF [c]) (sync_hash m) @
     [COPY_BUF (u64_bytes (sync_return_node m)),
      COPY_BUF (u64_bytes (sync_end_index m)),
      COPY_BUF (u32_bytes (sync_batch_size m))] @
     QC_writers (sync_highQC m) @
     [COPY_BUF (m_psig_share (sync_base m)),
      COPY_BUF (bool_bytes (m_sig_empty (sync_base m)))] @
     (if \<not> m_sig_empty (sync_base m) then [COPY_BUF (m_sig_share (sync_base m))] else []) @
     [COPY_BUF (bool_bytes (sync_non_vote m))]"

definition Sync_copy_to_buf :: "env \<Rightarrow> u64 \<Rightarrow> SpotLessSyncMsg \<Rightarrow> string \<Rightarrow> string option" where
  "Sync_copy_to_buf e now m buf =
     copy_to_buf_with now (sync_base m) (Sync_writers m) (Some (Sync_get_size e m)) buf"

definition Sync_read :: "env \<Rightarrow> SpotLessSyncMsg \<Rightarrow> Message \<Rightarrow> string \<Rightarrow> nat \<Rightarrow> (SpotLessSyncMsg \<times> nat) option" where
  "Sync_read e this b buf ptr = do {
     (vw, ptr) \<leftarrow> COPY_VAL_u64 buf ptr;
     (idx, ptr) \<leftarrow> COPY_VAL_u64 buf ptr;
     (hsz, ptr) \<leftarrow> COPY_VAL_u64 buf ptr;
     (h, ptr) \<leftarrow> buf_to_string buf ptr (sync_hash this) (unat hsz);
     (ret, ptr) \<leftarrow> COPY_VAL_u64 buf ptr;
     (eidx, ptr) \<leftarrow> COPY_VAL_u64 buf ptr;
     (bsz, ptr) \<leftarrow> COPY_VAL_u32 buf ptr;
     (qc, ptr) \<leftarrow> QC_copy_from_buf e (sync_highQC this) buf ptr;
     (psig, ptr) \<leftarrow> COPY_VAL (sizeof_sig e) buf ptr;
     (se, ptr) \<leftarrow> COPY_VAL_bool buf ptr;
     (sg, ptr) \<leftarrow> (if \<not> se then COPY_VAL (sizeof_sig e) buf ptr else Some (m_sig_share b, ptr));
     (nv, ptr) \<leftarrow> COPY_VAL_bool buf ptr;
     Some (this\<lparr>sync_base := b\<lparr>m_psig_share := psig, m_sig_empty := se, m_sig_share := sg\<rparr>,
        sync_view := vw, sync_index := idx, sync_hash := h, sync_hashSize := hsz,
        sync_return_node := ret, sync_end_index := eidx, sync_batch_size := bsz,
        sync_non_vote := nv, sync_highQC := qc\<rparr>, ptr) }"

definition Sync_copy_from_buf :: "env \<Rightarrow> SpotLessSyncMsg \<Rightarrow> string \<Rightarrow> SpotLessSyncMsg option" where
  "Sync_copy_from_buf e this buf =
     copy_from_buf_with e (sync_base this) (Sync_read e this) (\<lambda>m. Some (Sync_get_size e m)) buf"

definition Sync_validate :: "env \<Rightarrow> keystore \<Rightarrow> SpotLessSyncMsg \<Rightarrow> bool option" where
  "Sync_validate e k m = do {
     ok \<leftarrow> validateNodeNode e k (Sync_toString m) (m_pubKey (sync_base m)) (m_signature (sync_base m))
            (m_return_node_id (sync_base m));
     if \<not> m_sig_empty (sync_base m) \<and>
        \<not> ecdsa_verify e (m_sig_share (sync_base m)) (vote_digest e (sync_hash m) (sync_highQC m))
             (public_keys k (m_return_node_id (sync_base m)))
     then None else Some True }"

definition Sync_release :: "SpotLessSyncMsg \<Rightarrow> SpotLessSyncMsg" where
  "Sync_release m = m\<lparr>sync_hash := '''',
     sync_highQC := (sync_highQC m)\<lparr>signature_share_map := []\<rparr>\<rparr>"

section \<open>SpotLessGenericMsg\<close>

definition new_Generic :: "env \<Rightarrow> RemReqType \<Rightarrow> SpotLessGenericMsg" where
  "new_Generic e rt = \<lparr>gen_base = new_Message e rt, gen_view = 0, gen_index = 0, gen_hash = '''',
     gen_hashSize = 0, gen_return_node = 0, gen_end_index = 0, gen_batch_size = 0,
     gen_highQC = new_QC 0\<rparr>"

definition Generic_get_size :: "env \<Rightarrow> SpotLessGenericMsg \<Rightarrow> nat" where
  "Generic_get_size e m = mget_size (gen_base m) + 8 + 8 + length (gen_hash m) + 8 + 8 + 8 + 4
     + sizeof_sig e + QC_get_size e (gen_highQC m)"

definition Generic_toString :: "SpotLessGenericMsg \<Rightarrow> string" where
  "Generic_toString m = to_string (gen_view m) @ ''_'' @ to_string (gen_index m) @ ''_'' @ gen_hash m @
     ''_'' @ to_string (gen_return_node m) @ ''_'' @ to_string (gen_end_index m)"

definition Generic_sign :: "env \<Rightarrow> keystore \<Rightarrow> u64 \<Rightarrow> SpotLessGenericMsg \<Rightarrow> SpotLessGenericMsg" where
  "Generic_sign e k dest_node m =
     m\<lparr>gen_base := set_signature (signingNodeNode e k (Generic_toString m) dest_node) (gen_base m)\<rparr>"

definition Generic_digital_sign :: "env \<Rightarrow> keystore \<Rightarrow> SpotLessGenericMsg \<Rightarrow> SpotLessGenericMsg" where
  "Generic_digital_sign e k m =
     m\<lparr>gen_base := (gen_base m)\<lparr>m_psig_share :=
        ecdsa_sign e (private_key k) (vote_digest e (gen_hash m) (gen_highQC m))\<rparr>\<rparr>"

definition Generic_writers :: "SpotLessGenericMsg \<Rightarrow> writer list" where
  "Generic_writers m =
     [COPY_BUF (u64_bytes (gen_view m)),
      COPY_BUF (u64_bytes (gen_index m)),
      COPY_BUF (u64_bytes (gen_hashSize m))] @
     map (\<lambda>c. COPY_BUF [c]) (gen_hash m) @
     [COPY_BUF (u64_bytes (gen_return_node m)),
      COPY_BUF (u64_bytes (gen_end_index m)),
      COPY_BUF (u32_bytes (gen_batch_size m))] @
     QC_writers (gen_highQC m) @
     [COPY_BUF (m_psig_share (gen_base m))]"

definition Generic_copy_to_buf :: "env \<Rightarrow> u64 \<Rightarrow> SpotLessGenericMsg \<Rightarrow> string \<Rightarrow> string option" where
  "Generic_copy_to_buf e now m buf =
     copy_to_buf_with now (gen_base m) (Generic_writers m) (Some (Generic_get_size e m)) buf"

definition Generic_read :: "env \<Rightarrow> SpotLessGenericMsg \<Rightarrow> Message \<Rightarrow> string \<Rightarrow> nat \<Rightarrow>
    (SpotLessGenericMsg \<times> nat) option" where
  "Generic_read e this b buf ptr = do {
     (vw, ptr) \<leftarrow> COPY_VAL_u64 buf ptr;
     (idx, ptr) \<leftarrow> COPY_VAL_u64 buf ptr;
     (hsz, ptr) \<leftarrow> COPY_VAL_u64 buf ptr;
     (h, ptr) \<leftarrow> buf_to_string buf ptr (gen_hash this) (unat hsz);
     (ret, ptr) \<leftarrow> COPY_VAL_u64 buf ptr;
     (eidx, ptr) \<leftarrow> COPY_VAL_u64 buf ptr;
     (bsz, ptr) \<leftarrow> COPY_VAL_u32 buf ptr;
     (qc, ptr) \<leftarrow> QC_copy_from_buf e (gen_highQC this) buf ptr;
     (psig, ptr) \<leftarrow> COPY_VAL (sizeof_sig e) buf ptr;
     Some (this\<lparr>gen_base := b\<lparr>m_psig_share := psig\<rparr>,
        gen_view := vw, gen_index := idx, gen_hash := h, gen_hashSize := hsz,
        gen_return_node := ret, gen_end_index := eidx, gen_batch_size := bsz,
        gen_highQC := qc\<rparr>, ptr) }"

definition Generic_copy_from_buf :: "env \<Rightarrow> SpotLessGenericMsg \<Rightarrow> string \<Rightarrow> SpotLessGenericMsg option" where
  "Generic_copy_from_buf e this buf =
     copy_from_buf_with e (gen_base this) (Generic_read e this) (\<lambda>m. Some (Generic_get_size e m)) buf"

definition Generic_validate :: "env \<Rightarrow> keystore \<Rightarrow> SpotLessGenericMsg \<Rightarrow> bool option" where
  "Generic_validate e k m = do {
     ok \<leftarrow> validateNodeNode e k (Generic_toString m) (m_pubKey (gen_base m)) (m_signature (gen_base m))
            (m_return_node_id (gen_base m));
     if ecdsa_verify e (m_psig_share (gen_base m)) (vote_digest e (gen_hash m) (gen_highQC m))
          (public_keys k (m_return_node_id (gen_base m)))
     then Some True else None }"

definition Generic_release :: "SpotLessGenericMsg \<Rightarrow> SpotLessGenericMsg" where
  "Generic_release m = m\<lparr>gen_hash := '''', gen_highQC := QC_release (gen_highQC m)\<rparr>"

section \<open>SpotLessProposalMsg and SpotLessAskResponseMsg\<close>

definition new_Proposal :: "env \<Rightarrow> RemReqType \<Rightarrow> SpotLessProposalMsg" where
  "new_Proposal e rt = \<lparr>prop_base = new_Message e rt, prop_view = 0, prop_index = [],
     prop_requestMsg = [], prop_hashSize = 0, prop_hash = '''', prop_batch_size = 0\<rparr>"

text \<open>\<open>requestMsg[0] \<dots> requestMsg[get_batch_size() - 1]\<close>, all of which are dereferenced.\<close>

definition prop_requests :: "env \<Rightarrow> SpotLessProposalMsg \<Rightarrow> YCSBClientQueryMessage list option" where
  "prop_requests e m = Option.bind (first_n (batch_n e) (prop_requestMsg m)) those"

definition Proposal_get_size :: "env \<Rightarrow> SpotLessProposalMsg \<Rightarrow> nat option" where
  "Proposal_get_size e m = do {
     qs \<leftarrow> prop_requests e m;
     Some (mget_size (prop_base m) + 8 + 8 * length (prop_index m) + 8 + length (prop_hash m)
           + sum_list (map YCSB_get_size qs) + 4) }"

definition add_request_msg :: "nat \<Rightarrow> YCSBClientQueryMessage \<Rightarrow> SpotLessProposalMsg \<Rightarrow>
    SpotLessProposalMsg option" where
  "add_request_msg idx msg m =
     (if idx < length (prop_requestMsg m)
      then Some (m\<lparr>prop_requestMsg := (prop_requestMsg m)[idx := Some msg]\<rparr>) else None)"

definition Proposal_getString :: "env \<Rightarrow> u64 \<Rightarrow> SpotLessProposalMsg \<Rightarrow> string option" where
  "Proposal_getString e sender m = do {
     idx \<leftarrow> first_n (batch_n e) (prop_index m);
     qs \<leftarrow> prop_requests e m;
     Some (to_string sender @
       concat (map (\<lambda>(i, q). to_string i @ YCSB_getRequestString q) (zip idx qs)) @
       prop_hash m @ to_string (prop_view m)) }"

definition Proposal_sign :: "env \<Rightarrow> keystore \<Rightarrow> u64 \<Rightarrow> SpotLessProposalMsg \<Rightarrow> SpotLessProposalMsg option" where
  "Proposal_sign e k dest_node m = do {
     message \<leftarrow> Proposal_getString e (node_id e) m;
     Some (m\<lparr>prop_base := set_signature (signingNodeNode e k message dest_node) (prop_base m)\<rparr>) }"

definition read_entry :: "env \<Rightarrow> string \<Rightarrow> nat \<Rightarrow> ((u64 \<times> YCSBClientQueryMessage) \<times> nat) option" where
  "read_entry e buf ptr = do {
     (elem, ptr) \<leftarrow> COPY_VAL_u64 buf ptr;
     (msg, ptr) \<leftarrow> read_query e buf ptr;
     Some ((elem, msg), ptr) }"

definition Proposal_read :: "env \<Rightarrow> SpotLessProposalMsg \<Rightarrow> Message \<Rightarrow> string \<Rightarrow> nat \<Rightarrow>
    (SpotLessProposalMsg \<times> nat) option" where
  \<comment> \<open>\<open>release()\<close> has cleared \<open>index\<close>, \<open>requestMsg\<close> and \<open>hash\<close> before the loop\<close>
  "Proposal_read e this b buf ptr = do {
     (vw, ptr) \<leftarrow> COPY_VAL_u64 buf ptr;
     (entries, ptr) \<leftarrow> read_n (read_entry e) (batch_n e) buf ptr;
     (hsz, ptr) \<leftarrow> COPY_VAL_u64 buf ptr;
     (h, ptr) \<leftarrow> buf_to_string buf ptr '''' (unat hsz);
     (bsz, ptr) \<leftarrow> COPY_VAL_u32 buf ptr;
     Some (this\<lparr>prop_base := b, prop_view := vw, prop_index := map fst entries,
        prop_requestMsg := map (Some \<circ> snd) entries, prop_hashSize := hsz, prop_hash := h,
        prop_batch_size := bsz\<rparr>, ptr) }"

definition Proposal_copy_from_buf :: "env \<Rightarrow> SpotLessProposalMsg \<Rightarrow> string \<Rightarrow> SpotLessProposalMsg option" where
  "Proposal_copy_from_buf e this buf =
     copy_from_buf_with e (prop_base this) (Proposal_read e this) (Proposal_get_size e) buf"

definition Proposal_entries :: "env \<Rightarrow> SpotLessProposalMsg \<Rightarrow> writer list option" where
  "Proposal_entries e m = do {
     idx \<leftarrow> first_n (batch_n e) (prop_index m);
     qs \<leftarrow> prop_requests e m;
     Some (concat (map (\<lambda>(i, q). [COPY_BUF (u64_bytes i),
        COPY_NESTED (YCSB_copy_to_buf e q) (YCSB_get_size q)]) (zip idx qs))) }"

definition Proposal_writers :: "env \<Rightarrow> SpotLessProposalMsg \<Rightarrow> writer list" where
  "Proposal_writers e m =
     [COPY_BUF (u64_bytes (prop_view m)),
      COPY_CHECKED (Proposal_entries e m),
      COPY_BUF (u64_bytes (prop_hashSize m))] @
     map (\<lambda>c. COPY_BUF [c]) (prop_hash m) @
     [COPY_BUF (u32_bytes (prop_batch_size m))]"

definition Proposal_copy_to_buf :: "env \<Rightarrow> u64 \<Rightarrow> SpotLessProposalMsg \<Rightarrow> string \<Rightarrow> string option" where
  "Proposal_copy_to_buf e now m buf =
     copy_to_buf_with now (prop_base m) (Proposal_writers e m) (Proposal_get_size e m) buf"

definition Proposal_validate :: "env \<Rightarrow> keystore \<Rightarrow> SpotLessProposalMsg \<Rightarrow> bool option" where
  "Proposal_validate e k m = do {
     message \<leftarrow> Proposal_getString e (m_return_node_id (prop_base m)) m;
     ok \<leftarrow> validateNodeNode e k message (m_pubKey (prop_base m)) (m_signature (prop_base m))
            (m_return_node_id (prop_base m));
     qs \<leftarrow> prop_requests e m;
     if prop_hash m = calculateHash e (concat (map YCSB_getString qs)) then Some True else None }"

definition Proposal_release :: "SpotLessProposalMsg \<Rightarrow> SpotLessProposalMsg" where
  "Proposal_release m = m\<lparr>prop_index := [], prop_requestMsg := [], prop_hash := ''''\<rparr>"

section \<open>SpotLessAskMsg\<close>

definition new_Ask :: "env \<Rightarrow> RemReqType \<Rightarrow> SpotLessAskMsg" where
  "new_Ask e rt = \<lparr>ask_base = new_Message e rt, ask_view = 0, ask_hash = '''', ask_hashSize = 0,
     ask_return_node = 0\<rparr>"

definition Ask_get_size :: "SpotLessAskMsg \<Rightarrow> nat" where
  "Ask_get_size m = mget_size (ask_base m) + 8 + length (ask_hash m) + 8 + 8"

definition Ask_toString :: "SpotLessAskMsg \<Rightarrow> string" where
  "Ask_toString m = to_string (ask_view m) @ ask_hash m"

definition Ask_sign :: "env \<Rightarrow> keystore \<Rightarrow> u64 \<Rightarrow> SpotLessAskMsg \<Rightarrow> SpotLessAskMsg" where
  "Ask_sign e k dest_node m =
     m\<lparr>ask_base := set_signature (signingNodeNode e k (Ask_toString m) dest_node) (ask_base m)\<rparr>"

definition Ask_writers :: "SpotLessAskMsg \<Rightarrow> writer list" where
  "Ask_writers m =
     [COPY_BUF (u64_bytes (ask_view m)),
      COPY_BUF (u64_bytes (ask_hashSize m))] @
     map (\<lambda>c. COPY_BUF [c]) (ask_hash m) @
     [COPY_BUF (u64_bytes (ask_return_node m))]"

definition Ask_copy_to_buf :: "u64 \<Rightarrow> SpotLessAskMsg \<Rightarrow> string \<Rightarrow> string option" where
  "Ask_copy_to_buf now m buf =
     copy_to_buf_with now (ask_base m) (Ask_writers m) (Some (Ask_get_size m)) buf"

definition Ask_read :: "SpotLessAskMsg \<Rightarrow> Message \<Rightarrow> string \<Rightarrow> nat \<Rightarrow> (SpotLessAskMsg \<times> nat) option" where
  "Ask_read this b buf ptr = do {
     (vw, ptr) \<leftarrow> COPY_VAL_u64 buf ptr;
     (hsz, ptr) \<leftarrow> COPY_VAL_u64 buf ptr;
     (h, ptr) \<leftarrow> buf_to_string buf ptr (ask_hash this) (unat hsz);
     (ret, ptr) \<leftarrow> COPY_VAL_u64 buf ptr;
     Some (this\<lparr>ask_base := b, ask_view := vw, ask_hash := h, ask_hashSize := hsz,
        ask_return_node := ret\<rparr>, ptr) }"

definition Ask_copy_from_buf :: "env \<Rightarrow> SpotLessAskMsg \<Rightarrow> string \<Rightarrow> SpotLessAskMsg option" where
  "Ask_copy_from_buf e this buf =
     copy_from_buf_with e (ask_base this) (Ask_read this) (\<lambda>m. Some (Ask_get_size m)) buf"

definition Ask_validate :: "env \<Rightarrow> keystore \<Rightarrow> SpotLessAskMsg \<Rightarrow> bool option" where
  "Ask_validate e k m = validateNodeNode e k (Ask_toString m) (m_pubKey (ask_base m))
     (m_signature (ask_base m)) (m_return_node_id (ask_base m))"

definition Ask_release :: "SpotLessAskMsg \<Rightarrow> SpotLessAskMsg" where
  "Ask_release m = m\<lparr>ask_hash := ''''\<rparr>"

section \<open>ExecuteMessage\<close>

definition new_Execute :: "env \<Rightarrow> RemReqType \<Rightarrow> ExecuteMessage" where
  "new_Execute e rt = \<lparr>ex_base = new_Message e rt, ex_view = 0, ex_index = 0, ex_hash = '''',
     ex_hashSize = 0, ex_return_node = 0, ex_end_index = 0, ex_batch_size = 0, ex_valid = True\<rparr>"

definition Execute_get_size :: "ExecuteMessage \<Rightarrow> nat" where
  "Execute_get_size m = mget_size (ex_base m) + 8 + 8 + length (ex_hash m) + 8 + 8 + 8 + 8"

definition Execute_writers :: "ExecuteMessage \<Rightarrow> writer list" where
  "Execute_writers m =
     [COPY_BUF (u64_bytes (ex_view m)),
      COPY_BUF (u64_bytes (ex_index m)),
      COPY_BUF (u64_bytes (ex_hashSize m))] @
     map (\<lambda>c. COPY_BUF [c]) (ex_hash m) @
     [COPY_BUF (u64_bytes (ex_return_node m)),
      COPY_BUF (u64_bytes (ex_end_index m)),
      COPY_BUF (u64_bytes (ex_batch_size m))]"

definition Execute_copy_to_buf :: "u64 \<Rightarrow> ExecuteMessage \<Rightarrow> string \<Rightarrow> string option" where
  "Execute_copy_to_buf now m buf =
     copy_to_buf_with now (ex_base m) (Execute_writers m) (Some (Execute_get_size m)) buf"

definition Execute_read :: "ExecuteMessage \<Rightarrow> Message \<Rightarrow> string \<Rightarrow> nat \<Rightarrow> (ExecuteMessage \<times> nat) option" where
  "Execute_read this b buf ptr = do {
     (vw, ptr) \<leftarrow> COPY_VAL_u64 buf ptr;
     (idx, ptr) \<leftarrow> COPY_VAL_u64 buf ptr;
     (hsz, ptr) \<leftarrow> COPY_VAL_u64 buf ptr;
     (h, ptr) \<leftarrow> buf_to_string buf ptr (ex_hash this) (unat hsz);
     (ret, ptr) \<leftarrow> COPY_VAL_u64 buf ptr;
     (eidx, ptr) \<leftarrow> COPY_VAL_u64 buf ptr;
     (bsz, ptr) \<leftarrow> COPY_VAL_u64 buf ptr;
     Some (this\<lparr>ex_base := b, ex_view := vw, ex_index := idx, ex_hash := h, ex_hashSize := hsz,
        ex_return_node := ret, ex_end_index := eidx, ex_batch_size := bsz\<rparr>, ptr) }"

definition Execute_copy_from_buf :: "env \<Rightarrow> ExecuteMessage \<Rightarrow> string \<Rightarrow> ExecuteMessage option" where
  "Execute_copy_from_buf e this buf =
     copy_from_buf_with e (ex_base this) (Execute_read this) (\<lambda>m. Some (Execute_get_size m)) buf"

section \<open>CheckpointMessage\<close>

definition new_Checkpoint :: "env \<Rightarrow> RemReqType \<Rightarrow> CheckpointMessage" where
  "new_Checkpoint e rt = \<lparr>ck_base = new_Message e rt, ck_index = 0, ck_return_node = 0, ck_end_index = 0\<rparr>"

definition Checkpoint_get_size :: "CheckpointMessage \<Rightarrow> nat" where
  "Checkpoint_get_size m = mget_size (ck_base m) + 8 + 8 + 8"

definition Checkpoint_writers :: "CheckpointMessage \<Rightarrow> writer list" where
  "Checkpoint_writers m =
     [COPY_BUF (u64_bytes (ck_index m)),
      COPY_BUF (u64_bytes (ck_return_node m)),
      COPY_BUF (u64_bytes (ck_end_index m))]"

definition Checkpoint_copy_to_buf :: "u64 \<Rightarrow> CheckpointMessage \<Rightarrow> string \<Rightarrow> string option" where
  "Checkpoint_copy_to_buf now m buf =
     copy_to_buf_with now (ck_base m) (Checkpoint_writers m) (Some (Checkpoint_get_size m)) buf"

definition Checkpoint_read :: "CheckpointMessage \<Rightarrow> Message \<Rightarrow> string \<Rightarrow> nat \<Rightarrow>
    (CheckpointMessage \<times> nat) option" where
  "Checkpoint_read this b buf ptr = do {
     (idx, ptr) \<leftarrow> COPY_VAL_u64 buf ptr;
     (ret, ptr) \<leftarrow> COPY_VAL_u64 buf ptr;
     (eidx, ptr) \<leftarrow> COPY_VAL_u64 buf ptr;
     Some (this\<lparr>ck_base := b, ck_index := idx, ck_return_node := ret, ck_end_index := eidx\<rparr>, ptr) }"

definition Checkpoint_copy_from_buf :: "env \<Rightarrow> CheckpointMessage \<Rightarrow> string \<Rightarrow> CheckpointMessage option" where
  "Checkpoint_copy_from_buf e this buf =
     copy_from_buf_with e (ck_base this) (Checkpoint_read this) (\<lambda>m. Some (Checkpoint_get_size m)) buf"

definition Checkpoint_toString :: "CheckpointMessage \<Rightarrow> string" where
  "Checkpoint_toString m = to_string (ck_index m) @ ''_'' @ to_string (ck_end_index m) @ ''_'' @
     to_string (ck_return_node m)"

definition Checkpoint_sign :: "env \<Rightarrow> keystore \<Rightarrow> u64 \<Rightarrow> CheckpointMessage \<Rightarrow> CheckpointMessage" where
  "Checkpoint_sign e k dest_node m =
     m\<lparr>ck_base := set_signature (signingNodeNode e k (Checkpoint_toString m) dest_node) (ck_base m)\<rparr>"

definition Checkpoint_validate :: "env \<Rightarrow> keystore \<Rightarrow> CheckpointMessage \<Rightarrow> bool option" where
  "Checkpoint_validate e k m = validateNodeNode e k (Checkpoint_toString m) (m_pubKey (ck_base m))
     (m_signature (ck_base m)) (m_return_node_id (ck_base m))"

text \<open>\<open>chkpt\<close> is \<open>get_curr_chkpt()\<close>.\<close>

definition Checkpoint_addAndValidate :: "env \<Rightarrow> keystore \<Rightarrow> u64 \<Rightarrow> CheckpointMessage \<Rightarrow> bool option" where
  "Checkpoint_addAndValidate e k chkpt m = do {
     ok \<leftarrow> Checkpoint_validate e k m;
     Some (if \<not> ok then False else if ck_index m < chkpt then False else True) }"

section \<open>Wire formats\<close>

definition sync_fields :: "SpotLessSyncMsg \<Rightarrow> string" where
  "sync_fields m = u64_bytes (sync_view m) @ u64_bytes (sync_index m) @ u64_bytes (sync_hashSize m) @
     sync_hash m @ u64_bytes (sync_return_node m) @ u64_bytes (sync_end_index m) @
     u32_bytes (sync_batch_size m) @ QC_enc (sync_highQC m) @ m_psig_share (sync_base m) @
     bool_bytes (m_sig_empty (sync_base m)) @
     (if \<not> m_sig_empty (sync_base m) then m_sig_share (sync_base m) else []) @
     bool_bytes (sync_non_vote m)"

definition sync_enc :: "u64 \<Rightarrow> SpotLessSyncMsg \<Rightarrow> string" where
  "sync_enc now m = header_enc now (sync_base m) @ sync_fields m"

definition sync_wire :: "env \<Rightarrow> u64 \<Rightarrow> SpotLessSyncMsg \<Rightarrow> SpotLessSyncMsg" where
  "sync_wire e now m = m\<lparr>sync_base := (header_wire e now (sync_base m))
       \<lparr>m_psig_share := m_psig_share (sync_base m), m_sig_empty := m_sig_empty (sync_base m),
        m_sig_share := (if m_sig_empty (sync_base m) then replicate (sizeof_sig e) CHR 0x00
                        else m_sig_share (sync_base m))\<rparr>,
     sync_highQC := QC_wire (sync_highQC m)\<rparr>"

definition sync_ok :: "env \<Rightarrow> SpotLessSyncMsg \<Rightarrow> bool" where
  "sync_ok e m \<longleftrightarrow> header_ok (sync_base m) \<and> unat (sync_hashSize m) = length (sync_hash m) \<and>
     QC_ok e (sync_highQC m) \<and> length (m_psig_share (sync_base m)) = sizeof_sig e \<and>
     length (m_sig_share (sync_base m)) = sizeof_sig e"

definition gen_fields :: "SpotLessGenericMsg \<Rightarrow> string" where
  "gen_fields m = u64_bytes (gen_view m) @ u64_bytes (gen_index m) @ u64_bytes (gen_hashSize m) @
     gen_hash m @ u64_bytes (gen_return_node m) @ u64_bytes (gen_end_index m) @
     u32_bytes (gen_batch_size m) @ QC_enc (gen_highQC m) @ m_psig_share (gen_base m)"

definition gen_enc :: "u64 \<Rightarrow> SpotLessGenericMsg \<Rightarrow> string" where
  "gen_enc now m = header_enc now (gen_base m) @ gen_fields m"

definition gen_wire :: "env \<Rightarrow> u64 \<Rightarrow> SpotLessGenericMsg \<Rightarrow> SpotLessGenericMsg" where
  "gen_wire e now m = m\<lparr>gen_base := (header_wire e now (gen_base m))\<lparr>m_psig_share := m_psig_share (gen_base m)\<rparr>,
     gen_highQC := QC_wire (gen_highQC m)\<rparr>"

definition gen_ok :: "env \<Rightarrow> SpotLessGenericMsg \<Rightarrow> bool" where
  "gen_ok e m \<longleftrightarrow> header_ok (gen_base m) \<and> unat (gen_hashSize m) = length (gen_hash m) \<and>
     QC_ok e (gen_highQC m) \<and> length (m_psig_share (gen_base m)) = sizeof_sig e"

definition entry_enc :: "u64 \<times> YCSBClientQueryMessage \<Rightarrow> string" where
  "entry_enc en = u64_bytes (fst en) @ yc_enc (snd en)"

definition prop_entries :: "SpotLessProposalMsg \<Rightarrow> (u64 \<times> YCSBClientQueryMessage) list" where
  "prop_entries m = zip (prop_index m) (map the (prop_requestMsg m))"

definition prop_fields :: "SpotLessProposalMsg \<Rightarrow> string" where
  "prop_fields m = u64_bytes (prop_view m) @ concat (map entry_enc (prop_entries m)) @
     u64_bytes (prop_hashSize m) @ prop_hash m @ u32_bytes (prop_batch_size m)"

definition prop_enc :: "u64 \<Rightarrow> SpotLessProposalMsg \<Rightarrow> string" where
  "prop_enc now m = header_enc now (prop_base m) @ prop_fields m"

definition prop_wire :: "env \<Rightarrow> u64 \<Rightarrow> SpotLessProposalMsg \<Rightarrow> SpotLessProposalMsg" where
  "prop_wire e now m = m\<lparr>prop_base := header_wire e now (prop_base m),
     prop_requestMsg := map (map_option (yc_wire e)) (prop_requestMsg m)\<rparr>"

definition prop_ok :: "env \<Rightarrow> SpotLessProposalMsg \<Rightarrow> bool" where
  "prop_ok e m \<longleftrightarrow> header_ok (prop_base m) \<and> unat (prop_hashSize m) = length (prop_hash m) \<and>
     length (prop_index m) = batch_n e \<and> length (prop_requestMsg m) = batch_n e \<and>
     (\<forall>r \<in> set (prop_requestMsg m). case r of None \<Rightarrow> False | Some q \<Rightarrow> yc_ok e q)"

definition ask_fields :: "SpotLessAskMsg \<Rightarrow> string" where
  "ask_fields m = u64_bytes (ask_view m) @ u64_bytes (ask_hashSize m) @ ask_hash m @
     u64_bytes (ask_return_node m)"

definition ask_enc :: "u64 \<Rightarrow> SpotLessAskMsg \<Rightarrow> string" where
  "ask_enc now m = header_enc now (ask_base m) @ ask_fields m"

definition ask_wire :: "env \<Rightarrow> u64 \<Rightarrow> SpotLessAskMsg \<Rightarrow> SpotLessAskMsg" where
  "ask_wire e now m = m\<lparr>ask_base := header_wire e now (ask_base m)\<rparr>"

definition ask_ok :: "SpotLessAskMsg \<Rightarrow> bool" where
  "ask_ok m \<longleftrightarrow> header_ok (ask_base m) \<and> unat (ask_hashSize m) = length (ask_hash m)"

definition ex_fields :: "ExecuteMessage \<Rightarrow> string" where
  "ex_fields m = u64_bytes (ex_view m) @ u64_bytes (ex_index m) @ u64_bytes (ex_hashSize m) @ ex_hash m @
     u64_bytes (ex_return_node m) @ u64_bytes (ex_end_index m) @ u64_bytes (ex_batch_size m)"

definition ex_enc :: "u64 \<Rightarrow> ExecuteMessage \<Rightarrow> string" where
  "ex_enc now m = header_enc now (ex_base m) @ ex_fields m"

definition ex_wire :: "env \<Rightarrow> u64 \<Rightarrow> ExecuteMessage \<Rightarrow> ExecuteMessage" where
  "ex_wire e now m = m\<lparr>ex_base := header_wire e now (ex_base m), ex_valid := True\<rparr>"

definition ex_ok :: "ExecuteMessage \<Rightarrow> bool" where
  "ex_ok m \<longleftrightarrow> header_ok (ex_base m) \<and> unat (ex_hashSize m) = length (ex_hash m)"

definition ck_fields :: "CheckpointMessage \<Rightarrow> string" where
  "ck_fields m = u64_bytes (ck_index m) @ u64_bytes (ck_return_node m) @ u64_bytes (ck_end_index m)"

definition ck_enc :: "u64 \<Rightarrow> CheckpointMessage \<Rightarrow> string" where
  "ck_enc now m = header_enc now (ck_base m) @ ck_fields m"

definition ck_wire :: "env \<Rightarrow> u64 \<Rightarrow> CheckpointMessage \<Rightarrow> CheckpointMessage" where
  "ck_wire e now m = m\<lparr>ck_base := header_wire e now (ck_base m)\<rparr>"

definition ck_ok :: "CheckpointMessage \<Rightarrow> bool" where
  "ck_ok m \<longleftrightarrow> header_ok (ck_base m)"

section \<open>Lemmas\<close>

lemma QC_get_size_wire [simp]: "QC_get_size e (QC_wire q) = QC_get_size e q"
  by (simp add: QC_get_size_def QC_wire_def)

lemma reads_hash_field:
  assumes "unat sz = length h"
  shows "reads (\<lambda>buf ptr. buf_to_string buf ptr [] (unat sz)) h h"
  using reads_buf_to_string [of h "unat sz" "[]"] assms by simp

lemma emits_Sync: "emits (Sync_writers m) (sync_fields m)"
  unfolding Sync_writers_def sync_fields_def by (auto intro!: emits_intros emits_QC)

lemma Sync_get_size:
  "sync_ok e m \<Longrightarrow> Sync_get_size e m = mget_size (sync_base m) + length (sync_fields m)"
  by (simp add: Sync_get_size_def sync_fields_def sync_ok_def length_QC_enc [of e])

lemma Sync_get_size_wire: "Sync_get_size e (sync_wire e now m) = Sync_get_size e m"
  by (simp add: Sync_get_size_def sync_wire_def mget_size_def)

lemma reads_Sync:
  assumes "sync_ok e m"
  shows "reads (Sync_read e (new_Sync e rt) (header_wire e now (sync_base m))) (sync_fields m) (sync_wire e now m)"
proof -
  have ok: "QC_ok e (sync_highQC m)" "length (m_psig_share (sync_base m)) = sizeof_sig e"
    "length (m_sig_share (sync_base m)) = sizeof_sig e"
    "unat (sync_hashSize m) = length (sync_hash m)"
    using assms by (simp_all add: sync_ok_def)
  have new: "sync_hash (new_Sync e rt) = ''''" "sync_highQC (new_Sync e rt) = new_QC 0"
    by (simp_all add: new_Sync_def)
  let ?sg = "if m_sig_empty (sync_base m) then replicate (sizeof_sig e) CHR 0x00
             else m_sig_share (sync_base m)"
  have sg: "reads (\<lambda>buf ptr. if \<not> m_sig_empty (sync_base m) then COPY_VAL (sizeof_sig e) buf ptr
        else Some (m_sig_share (header_wire e now (sync_base m)), ptr))
      (if \<not> m_sig_empty (sync_base m) then m_sig_share (sync_base m) else []) ?sg"
    using ok(3) by (auto simp: reads_return header_wire_def new_Message_def)
  have wire: "sync_wire e now m = (new_Sync e rt)\<lparr>sync_base := (header_wire e now (sync_base m))
       \<lparr>m_psig_share := m_psig_share (sync_base m), m_sig_empty := m_sig_empty (sync_base m),
        m_sig_share := ?sg\<rparr>,
        sync_view := sync_view m, sync_index := sync_index m, sync_hash := sync_hash m,
        sync_hashSize := sync_hashSize m, sync_return_node := sync_return_node m,
        sync_end_index := sync_end_index m, sync_batch_size := sync_batch_size m,
        sync_non_vote := sync_non_vote m, sync_highQC := QC_wire (sync_highQC m)\<rparr>"
    by (simp add: sync_wire_def new_Sync_def)
  show ?thesis
    unfolding Sync_read_def [abs_def] sync_fields_def wire new
    by (rule reads_bind_return [OF _ refl] reads_bind reads_values reads_hash_field reads_QC sg ok)+
qed

interpretation sync: wire_codec "\<lambda>m. Some (Sync_get_size e m)" "Sync_copy_to_buf e now"
    "Sync_copy_from_buf e (new_Sync e SpotLess_SYNC_MSG)" "sync_enc now" "sync_wire e now" "sync_ok e" for e now
  using wire_codec_skeleton [where ok = "sync_ok e" and base = sync_base and writers = Sync_writers
      and fs = sync_fields and gs = "\<lambda>m. Some (Sync_get_size e m)"
      and rd = "Sync_read e (new_Sync e SpotLess_SYNC_MSG)"
      and wr = "sync_wire e now" and e = e and now = now and rt = SpotLess_SYNC_MSG,
      OF _ emits_Sync _ reads_Sync]
  by (simp add: Sync_copy_to_buf_def [abs_def] Sync_copy_from_buf_def [abs_def] sync_enc_def [abs_def]
      new_Sync_def sync_ok_def Sync_get_size Sync_get_size_wire)

lemma emits_Generic: "emits (Generic_writers m) (gen_fields m)"
  unfolding Generic_writers_def gen_fields_def by (auto intro!: emits_intros emits_QC)

lemma Generic_get_size:
  "gen_ok e m \<Longrightarrow> Generic_get_size e m = mget_size (gen_base m) + length (gen_fields m)"
  by (simp add: Generic_get_size_def gen_fields_def gen_ok_def length_QC_enc [of e])

lemma Generic_get_size_wire: "Generic_get_size e (gen_wire e now m) = Generic_get_size e m"
  by (simp add: Generic_get_size_def gen_wire_def mget_size_def)

lemma reads_Generic:
  assumes "gen_ok e m"
  shows "reads (Generic_read e (new_Generic e rt) (header_wire e now (gen_base m))) (gen_fields m) (gen_wire e now m)"
proof -
  have ok: "QC_ok e (gen_highQC m)" "length (m_psig_share (gen_base m)) = sizeof_sig e"
    "unat (gen_hashSize m) = length (gen_hash m)"
    using assms by (simp_all add: gen_ok_def)
  have new: "gen_hash (new_Generic e rt) = ''''" "gen_highQC (new_Generic e rt) = new_QC 0"
    by (simp_all add: new_Generic_def)
  have wire: "gen_wire e now m = (new_Generic e rt)\<lparr>
        gen_base := (header_wire e now (gen_base m))\<lparr>m_psig_share := m_psig_share (gen_base m)\<rparr>,
        gen_view := gen_view m, gen_index := gen_index m, gen_hash := gen_hash m,
        gen_hashSize := gen_hashSize m, gen_return_node := gen_return_node m,
        gen_end_index := gen_end_index m, gen_batch_size := gen_batch_size m,
        gen_highQC := QC_wire (gen_highQC m)\<rparr>"
    by (simp add: gen_wire_def new_Generic_def)
  show ?thesis
    unfolding Generic_read_def [abs_def] gen_fields_def wire new
    by (rule reads_bind_return [OF _ refl] reads_bind reads_values reads_hash_field reads_QC ok)+
qed

interpretation gen: wire_codec "\<lambda>m. Some (Generic_get_size e m)" "Generic_copy_to_buf e now"
    "Generic_copy_from_buf e (new_Generic e SpotLess_GENERIC_MSG)" "gen_enc now" "gen_wire e now" "gen_ok e" for e now
  using wire_codec_skeleton [where ok = "gen_ok e" and base = gen_base and writers = Generic_writers
      and fs = gen_fields and gs = "\<lambda>m. Some (Generic_get_size e m)"
      and rd = "Generic_read e (new_Generic e SpotLess_GENERIC_MSG)"
      and wr = "gen_wire e now" and e = e and now = now and rt = SpotLess_GENERIC_MSG,
      OF _ emits_Generic _ reads_Generic]
  by (simp add: Generic_copy_to_buf_def [abs_def] Generic_copy_from_buf_def [abs_def] gen_enc_def [abs_def]
      new_Generic_def gen_ok_def Generic_get_size Generic_get_size_wire)

lemma prop_requests:
  assumes "prop_ok e m"
  shows "prop_requests e m = Some (map the (prop_requestMsg m))"
proof -
  have "those rs = Some (map the rs)" if "\<forall>r \<in> set rs. case r of None \<Rightarrow> False | Some q \<Rightarrow> yc_ok e q"
    for rs :: "YCSBClientQueryMessage option list"
    using that by (induction rs) (auto split: option.splits)
  with assms show ?thesis by (simp add: prop_requests_def prop_ok_def)
qed

lemma prop_entries_ok:
  assumes "prop_ok e m" and "en \<in> set (prop_entries m)"
  shows "yc_ok e (snd en)"
proof -
  from assms(2) have "snd en \<in> set (map the (prop_requestMsg m))"
    unfolding prop_entries_def by (metis prod.collapse set_zip_rightD)
  with assms(1) show ?thesis by (auto simp: prop_ok_def split: option.splits)
qed

lemma emits_Proposal:
  assumes "prop_ok e m"
  shows "emits (Proposal_writers e m) (prop_fields m)"
proof -
  let ?w = "\<lambda>(i, q). [COPY_BUF (u64_bytes i), COPY_NESTED (YCSB_copy_to_buf e q) (YCSB_get_size q)]"
  have "Proposal_entries e m = Some (concat (map ?w (prop_entries m)))"
    using assms by (simp add: Proposal_entries_def prop_requests prop_entries_def prop_ok_def)
  moreover have "emits (concat (map ?w (prop_entries m))) (concat (map entry_enc (prop_entries m)))"
  proof (rule emits_concat)
    fix en assume "en \<in> set (prop_entries m)"
    then have "yc_ok e (snd en)" by (rule prop_entries_ok [OF assms])
    then have "emits [COPY_BUF (u64_bytes (fst en)), COPY_NESTED (YCSB_copy_to_buf e (snd en)) (YCSB_get_size (snd en))]
        (entry_enc en)"
      unfolding entry_enc_def by (intro emits_COPY_BUF_Cons yc.emits_nested [of e]) auto
    then show "emits (?w en) (entry_enc en)" by (simp add: case_prod_beta)
  qed
  ultimately have "emits [COPY_CHECKED (Proposal_entries e m)] (concat (map entry_enc (prop_entries m)))"
    by (rule emits_COPY_CHECKED)
  then have "emits ([COPY_BUF (u64_bytes (prop_view m))] @ [COPY_CHECKED (Proposal_entries e m)] @
      [COPY_BUF (u64_bytes (prop_hashSize m))] @ map (\<lambda>c. COPY_BUF [c]) (prop_hash m) @
      [COPY_BUF (u32_bytes (prop_batch_size m))]) (prop_fields m)"
    unfolding prop_fields_def by (intro emits_append emits_COPY_BUF emits_chars)
  then show ?thesis by (simp add: Proposal_writers_def)
qed

lemma Proposal_get_size:
  assumes "prop_ok e m"
  shows "Proposal_get_size e m = Some (mget_size (prop_base m) + length (prop_fields m))"
proof -
  have "length (concat (map entry_enc es)) = 8 * length es + sum_list (map (YCSB_get_size \<circ> snd) es)" for es
    by (induction es) (auto simp: entry_enc_def size_simps)
  moreover have "map (YCSB_get_size \<circ> snd) (prop_entries m) = map YCSB_get_size (map the (prop_requestMsg m))"
    using assms unfolding map_map [symmetric] by (simp add: prop_entries_def prop_ok_def del: map_map)
  moreover have "length (prop_entries m) = length (prop_index m)"
    using assms by (simp add: prop_entries_def prop_ok_def)
  ultimately show ?thesis
    by (simp add: Proposal_get_size_def prop_requests [OF assms] prop_fields_def del: map_map)
qed

lemma Proposal_get_size_wire:
  assumes "prop_ok e m"
  shows "Proposal_get_size e (prop_wire e now m) = Proposal_get_size e m"
proof -
  have yc: "yc_ok e (yc_wire e q)" if "yc_ok e q" for q
    using that by (simp add: yc_ok_def yc_wire_def new_Message_def)
  have "prop_ok e (prop_wire e now m)"
    using assms by (force simp: prop_ok_def prop_wire_def yc split: option.splits)
  moreover have "map YCSB_get_size (map the (prop_requestMsg (prop_wire e now m))) =
      map YCSB_get_size (map the (prop_requestMsg m))"
    using assms by (auto simp: prop_wire_def prop_ok_def split: option.splits)
  ultimately show ?thesis
    using assms by (simp add: Proposal_get_size_def prop_requests del: map_map) (simp add: prop_wire_def)
qed

lemma reads_Proposal:
  assumes "prop_ok e m"
  shows "reads (Proposal_read e (new_Proposal e rt) (header_wire e now (prop_base m)))
    (prop_fields m) (prop_wire e now m)"
proof -
  let ?w = "\<lambda>en. (fst en, yc_wire e (snd en))"
  let ?es = "map ?w (prop_entries m)"
  have entry: "reads (read_entry e) (entry_enc en) (?w en)" if "yc_ok e (snd en)" for en
    unfolding read_entry_def [abs_def] entry_enc_def
    using that by - (rule reads_bind_return [OF _ refl] reads_bind reads_values reads_query)+
  have es: "reads (read_n (read_entry e) (batch_n e)) (concat (map entry_enc (prop_entries m))) ?es"
    using prop_entries_ok [OF assms] assms
    by (intro reads_read_n entry) (auto simp: prop_entries_def prop_ok_def)
  have hsz: "unat (prop_hashSize m) = length (prop_hash m)"
    using assms by (simp add: prop_ok_def)
  have "map fst ?es = prop_index m"
    using assms by (simp add: prop_entries_def prop_ok_def comp_def)
  moreover have "map (Some \<circ> snd) ?es = map (map_option (yc_wire e)) (prop_requestMsg m)"
  proof -
    have "map (Some \<circ> snd) ?es = map (Some \<circ> yc_wire e) (map snd (prop_entries m))"
      by (simp add: comp_def)
    also have "\<dots> = map (Some \<circ> yc_wire e) (map the (prop_requestMsg m))"
      using assms by (simp add: prop_entries_def prop_ok_def)
    also have "\<dots> = map (map_option (yc_wire e)) (prop_requestMsg m)"
      using assms by (auto simp: prop_ok_def split: option.splits)
    finally show ?thesis .
  qed
  ultimately have wire: "prop_wire e now m = (new_Proposal e rt)\<lparr>
      prop_base := header_wire e now (prop_base m), prop_view := prop_view m,
      prop_index := map fst ?es, prop_requestMsg := map (Some \<circ> snd) ?es,
      prop_hashSize := prop_hashSize m, prop_hash := prop_hash m, prop_batch_size := prop_batch_size m\<rparr>"
    by (simp add: prop_wire_def new_Proposal_def)
  show ?thesis
    unfolding Proposal_read_def [abs_def] prop_fields_def wire
    by (rule reads_bind_return [OF _ refl] reads_bind reads_values reads_hash_field es hsz)+
qed

interpretation prp: wire_codec "Proposal_get_size e" "Proposal_copy_to_buf e now"
    "Proposal_copy_from_buf e (new_Proposal e rt)" "prop_enc now" "prop_wire e now" "prop_ok e" for e now rt
  using wire_codec_skeleton [where ok = "prop_ok e" and base = prop_base and writers = "Proposal_writers e"
      and fs = prop_fields and gs = "Proposal_get_size e" and rd = "Proposal_read e (new_Proposal e rt)"
      and wr = "prop_wire e now" and e = e and now = now and rt = rt,
      OF _ emits_Proposal Proposal_get_size reads_Proposal Proposal_get_size_wire]
  by (simp add: Proposal_copy_to_buf_def [abs_def] Proposal_copy_from_buf_def [abs_def]
      prop_enc_def [abs_def] new_Proposal_def prop_ok_def)

lemma reads_Ask:
  assumes "ask_ok m"
  shows "reads (Ask_read (new_Ask e rt) (header_wire e now (ask_base m))) (ask_fields m) (ask_wire e now m)"
proof -
  have hsz: "unat (ask_hashSize m) = length (ask_hash m)" and new: "ask_hash (new_Ask e rt) = ''''"
    using assms by (simp_all add: ask_ok_def new_Ask_def)
  have wire: "ask_wire e now m = (new_Ask e rt)\<lparr>ask_base := header_wire e now (ask_base m),
      ask_view := ask_view m, ask_hash := ask_hash m, ask_hashSize := ask_hashSize m,
      ask_return_node := ask_return_node m\<rparr>"
    by (simp add: ask_wire_def new_Ask_def)
  show ?thesis
    unfolding Ask_read_def [abs_def] ask_fields_def wire new
    by (rule reads_bind_return [OF _ refl] reads_bind reads_values reads_hash_field hsz)+
qed

lemma emits_Ask: "emits (Ask_writers m) (ask_fields m)"
  unfolding Ask_writers_def ask_fields_def by (auto intro!: emits_intros)

interpretation ask: wire_codec "\<lambda>m. Some (Ask_get_size m)" "Ask_copy_to_buf now"
    "Ask_copy_from_buf e (new_Ask e SpotLess_ASK_MSG)" "ask_enc now" "ask_wire e now" ask_ok for e now
  using wire_codec_skeleton [where ok = ask_ok and base = ask_base and writers = Ask_writers
      and fs = ask_fields and gs = "\<lambda>m. Some (Ask_get_size m)"
      and rd = "Ask_read (new_Ask e SpotLess_ASK_MSG)"
      and wr = "ask_wire e now" and e = e and now = now and rt = SpotLess_ASK_MSG,
      OF _ emits_Ask _ reads_Ask]
  by (simp add: Ask_copy_to_buf_def [abs_def] Ask_copy_from_buf_def [abs_def] ask_enc_def [abs_def]
      new_Ask_def ask_ok_def Ask_get_size_def ask_fields_def ask_wire_def)

lemma reads_Execute:
  assumes "ex_ok m"
  shows "reads (Execute_read (new_Execute e rt) (header_wire e now (ex_base m))) (ex_fields m) (ex_wire e now m)"
proof -
  have hsz: "unat (ex_hashSize m) = length (ex_hash m)" and new: "ex_hash (new_Execute e rt) = ''''"
    using assms by (simp_all add: ex_ok_def new_Execute_def)
  have wire: "ex_wire e now m = (new_Execute e rt)\<lparr>ex_base := header_wire e now (ex_base m),
      ex_view := ex_view m, ex_index := ex_index m, ex_hash := ex_hash m, ex_hashSize := ex_hashSize m,
      ex_return_node := ex_return_node m, ex_end_index := ex_end_index m,
      ex_batch_size := ex_batch_size m\<rparr>"
    by (simp add: ex_wire_def new_Execute_def)
  show ?thesis
    unfolding Execute_read_def [abs_def] ex_fields_def wire new
    by (rule reads_bind_return [OF _ refl] reads_bind reads_values reads_hash_field hsz)+
qed

lemma emits_Execute: "emits (Execute_writers m) (ex_fields m)"
  unfolding Execute_writers_def ex_fields_def by (auto intro!: emits_intros)

interpretation ex: wire_codec "\<lambda>m. Some (Execute_get_size m)" "Execute_copy_to_buf now"
    "Execute_copy_from_buf e (new_Execute e EXECUTE_MSG)" "ex_enc now" "ex_wire e now" ex_ok for e now
  using wire_codec_skeleton [where ok = ex_ok and base = ex_base and writers = Execute_writers
      and fs = ex_fields and gs = "\<lambda>m. Some (Execute_get_size m)"
      and rd = "Execute_read (new_Execute e EXECUTE_MSG)"
      and wr = "ex_wire e now" and e = e and now = now and rt = EXECUTE_MSG,
      OF _ emits_Execute _ reads_Execute]
  by (simp add: Execute_copy_to_buf_def [abs_def] Execute_copy_from_buf_def [abs_def] ex_enc_def [abs_def]
      new_Execute_def ex_ok_def Execute_get_size_def ex_fields_def ex_wire_def)

lemma reads_Checkpoint:
  "reads (Checkpoint_read (new_Checkpoint e rt) (header_wire e now (ck_base m))) (ck_fields m) (ck_wire e now m)"
  unfolding Checkpoint_read_def [abs_def] ck_fields_def
  by (rule reads_intros | simp add: ck_wire_def new_Checkpoint_def)+

lemma emits_Checkpoint: "emits (Checkpoint_writers m) (ck_fields m)"
  unfolding Checkpoint_writers_def ck_fields_def by (auto intro!: emits_intros)

interpretation ck: wire_codec "\<lambda>m. Some (Checkpoint_get_size m)" "Checkpoint_copy_to_buf now"
    "Checkpoint_copy_from_buf e (new_Checkpoint e PBFT_CHKPT_MSG)" "ck_enc now" "ck_wire e now" ck_ok for e now
  using wire_codec_skeleton [where ok = ck_ok and base = ck_base and writers = Checkpoint_writers
      and fs = ck_fields and gs = "\<lambda>m. Some (Checkpoint_get_size m)"
      and rd = "Checkpoint_read (new_Checkpoint e PBFT_CHKPT_MSG)"
      and wr = "ck_wire e now" and e = e and now = now and rt = PBFT_CHKPT_MSG,
      OF _ emits_Checkpoint _ reads_Checkpoint]
  by (simp add: Checkpoint_copy_to_buf_def [abs_def] Checkpoint_copy_from_buf_def [abs_def]
      ck_enc_def [abs_def] new_Checkpoint_def ck_ok_def Checkpoint_get_size_def ck_fields_def ck_wire_def)

end
