(* ===== verification/Packets.thy ===== *)
theory Packets
  imports Consensus_Messages
begin

text \<open>
  Messages of all classes and packets of several messages: the static factories
  \<open>create_message\<close> / \<open>create_messages\<close>, the virtual methods as a dispatch over the
  classes, and the sending thread with its per-destination buffers
  (\<^verbatim>\<open>transport/msg_thread.h\<close>, \<^verbatim>\<open>transport/msg_thread.cpp\<close>).
\<close>

section \<open>The class hierarchy\<close>

datatype msg =
    MInitDone Message | MKeyExchange KeyExchange | MReady Message
  | MQuery YCSBClientQueryMessage | MClientBatch ClientQueryBatch | MDone Message
  | MClientResponse ClientResponseMessage | MExecute ExecuteMessage | MCheckpoint CheckpointMessage
  | MSync SpotLessSyncMsg | MGeneric SpotLessGenericMsg | MProposal SpotLessProposalMsg
  | MAsk SpotLessAskMsg | MAskResponse SpotLessProposalMsg

fun msg_base :: "msg \<Rightarrow> Message" where
  "msg_base (MInitDone m) = m"
| "msg_base (MKeyExchange m) = kx_base m"
| "msg_base (MReady m) = m"
| "msg_base (MQuery m) = yc_base m"
| "msg_base (MClientBatch m) = cb_base m"
| "msg_base (MDone m) = m"
| "msg_base (MClientResponse m) = cr_base m"
| "msg_base (MExecute m) = ex_base m"
| "msg_base (MCheckpoint m) = ck_base m"
| "msg_base (MSync m) = sync_base m"
| "msg_base (MGeneric m) = gen_base m"
| "msg_base (MProposal m) = prop_base m"
| "msg_base (MAsk m) = ask_base m"
| "msg_base (MAskResponse m) = prop_base m"

fun upd_base :: "(Message \<Rightarrow> Message) \<Rightarrow> msg \<Rightarrow> msg" where
  "upd_base f (MInitDone m) = MInitDone (f m)"
| "upd_base f (MKeyExchange m) = MKeyExchange (m\<lparr>kx_base := f (kx_base m)\<rparr>)"
| "upd_base f (MReady m) = MReady (f m)"
| "upd_base f (MQuery m) = MQuery (m\<lparr>yc_base := f (yc_base m)\<rparr>)"
| "upd_base f (MClientBatch m) = MClientBatch (m\<lparr>cb_base := f (cb_base m)\<rparr>)"
| "upd_base f (MDone m) = MDone (f m)"
| "upd_base f (MClientResponse m) = MClientResponse (m\<lparr>cr_base := f (cr_base m)\<rparr>)"
| "upd_base f (MExecute m) = MExecute (m\<lparr>ex_base := f (ex_base m)\<rparr>)"
| "upd_base f (MCheckpoint m) = MCheckpoint (m\<lparr>ck_base := f (ck_base m)\<rparr>)"
| "upd_base f (MSync m) = MSync (m\<lparr>sync_base := f (sync_base m)\<rparr>)"
| "upd_base f (MGeneric m) = MGeneric (m\<lparr>gen_base := f (gen_base m)\<rparr>)"
| "upd_base f (MProposal m) = MProposal (m\<lparr>prop_base := f (prop_base m)\<rparr>)"
| "upd_base f (MAsk m) = MAsk (m\<lparr>ask_base := f (ask_base m)\<rparr>)"
| "upd_base f (MAskResponse m) = MAskResponse (m\<lparr>prop_base := f (prop_base m)\<rparr>)"

abbreviation msg_rtype :: "msg \<Rightarrow> RemReqType" where
  "msg_rtype m \<equiv> m_rtype (msg_base m)"

text \<open>\<open>create_message(rtype)\<close>: the types without a class run into \<open>assert(false)\<close>.\<close>

fun create_message :: "env \<Rightarrow> RemReqType \<Rightarrow> msg option" where
  "create_message e INIT_DONE = Some (MInitDone (new_Message e INIT_DONE))"
| "create_message e KEYEX = Some (MKeyExchange (new_KX e KEYEX))"
| "create_message e READY = Some (MReady (new_Message e READY))"
| "create_message e CL_QRY = Some (MQuery (new_YCSB e CL_QRY))"
| "create_message e RTXN = Some (MQuery (new_YCSB e RTXN))"
| "create_message e RTXN_CONT = Some (MQuery (new_YCSB e RTXN_CONT))"
| "create_message e CL_BATCH = Some (MClientBatch (new_CB e CL_BATCH))"
| "create_message e RDONE = Some (MDone (new_Message e RDONE))"
| "create_message e CL_RSP = Some (MClientResponse (new_CR e CL_RSP))"
| "create_message e EXECUTE_MSG = Some (MExecute (new_Execute e EXECUTE_MSG))"
| "create_message e PBFT_CHKPT_MSG = Some (MCheckpoint (new_Checkpoint e PBFT_CHKPT_MSG))"
| "create_message e SpotLess_SYNC_MSG = Some (MSync (new_Sync e SpotLess_SYNC_MSG))"
| "create_message e SpotLess_GENERIC_MSG = Some (MGeneric (new_Generic e SpotLess_GENERIC_MSG))"
| "create_message e SpotLess_PROPOSAL_MSG = Some (MProposal (new_Proposal e SpotLess_PROPOSAL_MSG))"
| "create_message e SpotLess_ASK_MSG = Some (MAsk (new_Ask e SpotLess_ASK_MSG))"
| "create_message e SpotLess_ASK_RESPONSE_MSG =
     Some (MAskResponse (new_Proposal e SpotLess_ASK_RESPONSE_MSG))"
| "create_message e RINIT = None"
| "create_message e NO_MSG = None"
| "create_message e SpotLess_GENERIC_MSG_P = None"

fun msg_get_size :: "env \<Rightarrow> msg \<Rightarrow> nat option" where
  "msg_get_size e (MInitDone m) = Some (InitDone_get_size m)"
| "msg_get_size e (MKeyExchange m) = Some (KX_get_size e m)"
| "msg_get_size e (MReady m) = Some (ReadyServer_get_size m)"
| "msg_get_size e (MQuery m) = Some (YCSB_get_size m)"
| "msg_get_size e (MClientBatch m) = CB_get_size e m"
| "msg_get_size e (MDone m) = Some (Done_get_size m)"
| "msg_get_size e (MClientResponse m) = Some (CR_get_size m)"
| "msg_get_size e (MExecute m) = Some (Execute_get_size m)"
| "msg_get_size e (MCheckpoint m) = Some (Checkpoint_get_size m)"
| "msg_get_size e (MSync m) = Some (Sync_get_size e m)"
| "msg_get_size e (MGeneric m) = Some (Generic_get_size e m)"
| "msg_get_size e (MProposal m) = Proposal_get_size e m"
| "msg_get_size e (MAsk m) = Some (Ask_get_size m)"
| "msg_get_size e (MAskResponse m) = Proposal_get_size e m"

fun msg_copy_to_buf :: "env \<Rightarrow> u64 \<Rightarrow> msg \<Rightarrow> string \<Rightarrow> string option" where
  "msg_copy_to_buf e now (MInitDone m) buf = InitDone_copy_to_buf now m buf"
| "msg_copy_to_buf e now (MKeyExchange m) buf = KX_copy_to_buf now m buf"
| "msg_copy_to_buf e now (MReady m) buf = ReadyServer_copy_to_buf now m buf"
| "msg_copy_to_buf e now (MQuery m) buf = YCSB_copy_to_buf e m buf"
| "msg_copy_to_buf e now (MClientBatch m) buf = CB_copy_to_buf e now m buf"
| "msg_copy_to_buf e now (MDone m) buf = Done_copy_to_buf now m buf"
| "msg_copy_to_buf e now (MClientResponse m) buf = CR_copy_to_buf e now m buf"
| "msg_copy_to_buf e now (MExecute m) buf = Execute_copy_to_buf now m buf"
| "msg_copy_to_buf e now (MCheckpoint m) buf = Checkpoint_copy_to_buf now m buf"
| "msg_copy_to_buf e now (MSync m) buf = Sync_copy_to_buf e now m buf"
| "msg_copy_to_buf e now (MGeneric m) buf = Generic_copy_to_buf e now m buf"
| "msg_copy_to_buf e now (MProposal m) buf = Proposal_copy_to_buf e now m buf"
| "msg_copy_to_buf e now (MAsk m) buf = Ask_copy_to_buf now m buf"
| "msg_copy_to_buf e now (MAskResponse m) buf = Proposal_copy_to_buf e now m buf"

fun msg_copy_from_buf :: "env \<Rightarrow> msg \<Rightarrow> string \<Rightarrow> msg option" where
  "msg_copy_from_buf e (MInitDone m) buf = map_option MInitDone (InitDone_copy_from_buf e m buf)"
| "msg_copy_from_buf e (MKeyExchange m) buf = map_option MKeyExchange (KX_copy_from_buf e m buf)"
| "msg_copy_from_buf e (MReady m) buf = map_option MReady (ReadyServer_copy_from_buf e m buf)"
| "msg_copy_from_buf e (MQuery m) buf = map_option MQuery (YCSB_copy_from_buf e m buf)"
| "msg_copy_from_buf e (MClientBatch m) buf = map_option MClientBatch (CB_copy_from_buf e m buf)"
| "msg_copy_from_buf e (MDone m) buf = map_option MDone (Done_copy_from_buf e m buf)"
| "msg_copy_from_buf e (MClientResponse m) buf = map_option MClientResponse (CR_copy_from_buf e m buf)"
| "msg_copy_from_buf e (MExecute m) buf = map_option MExecute (Execute_copy_from_buf e m buf)"
| "msg_copy_from_buf e (MCheckpoint m) buf = map_option MCheckpoint (Checkpoint_copy_from_buf e m buf)"
| "msg_copy_from_buf e (MSync m) buf = map_option MSync (Sync_copy_from_buf e m buf)"
| "msg_copy_from_buf e (MGeneric m) buf = map_option MGeneric (Generic_copy_from_buf e m buf)"
| "msg_copy_from_buf e (MProposal m) buf = map_option MProposal (Proposal_copy_from_buf e m buf)"
| "msg_copy_from_buf e (MAsk m) buf = map_option MAsk (Ask_copy_from_buf e m buf)"
| "msg_copy_from_buf e (MAskResponse m) buf = map_option MAskResponse (Proposal_copy_from_buf e m buf)"

definition create_message_buf :: "env \<Rightarrow> string \<Rightarrow> msg option" where
  "create_message_buf e buf = do {
     (rt, ptr) \<leftarrow> COPY_VAL_u32 buf 0;
     rt \<leftarrow> rtype_of_code rt;
     m \<leftarrow> create_message e rt;
     msg_copy_from_buf e m buf }"

definition create_message_txn_id :: "env \<Rightarrow> u64 \<Rightarrow> RemReqType \<Rightarrow> msg option" where
  "create_message_txn_id e txn_id rt =
     map_option (upd_base (\<lambda>b. b\<lparr>m_txn_id := txn_id\<rparr>)) (create_message e rt)"

definition create_message_batch_id :: "env \<Rightarrow> u64 \<Rightarrow> u64 \<Rightarrow> RemReqType \<Rightarrow> msg option" where
  "create_message_batch_id e txn_id batch_id rt =
     map_option (upd_base (\<lambda>b. b\<lparr>m_txn_id := txn_id, m_batch_id := batch_id\<rparr>)) (create_message e rt)"

text \<open>The loop of \<open>create_messages\<close> and the function itself.\<close>

definition read_msg :: "env \<Rightarrow> u32 \<Rightarrow> string \<Rightarrow> nat \<Rightarrow> (msg \<times> nat) option" where
  "read_msg e return_id buf ptr = do {
     m \<leftarrow> create_message_buf e (drop ptr buf);
     let m = upd_base (\<lambda>b. b\<lparr>m_return_node_id := ucast return_id\<rparr>) m;
     sz \<leftarrow> msg_get_size e m;
     Some (m, ptr + sz) }"

definition create_messages :: "env \<Rightarrow> string \<Rightarrow> msg list option" where
  "create_messages e buf = do {
     (dest_id, ptr) \<leftarrow> COPY_VAL_u32 buf 0;
     (return_id, ptr) \<leftarrow> COPY_VAL_u32 buf ptr;
     (txn_cnt, ptr) \<leftarrow> COPY_VAL_u32 buf ptr;
     if dest_id = g_node_id e \<and> return_id \<noteq> g_node_id e \<and>
        (ISCLIENTN e return_id \<or> ISSERVERN e return_id \<or> ISREPLICAN e return_id)
     then map_option fst (read_n (read_msg e return_id) (unat txn_cnt) buf ptr)
     else None }"

text \<open>\<open>create_msg_buffer\<close> gives \<open>get_size()\<close> uninitialised bytes.\<close>

definition deep_copy_msg :: "env \<Rightarrow> u64 \<Rightarrow> string \<Rightarrow> msg \<Rightarrow> msg option" where
  "deep_copy_msg e now buf m = Option.bind (msg_copy_to_buf e now m buf) (create_message_buf e)"

section \<open>Sending: per-destination buffers\<close>

record mbuf =
  mb_buffer :: string
  mb_starttime :: u64
  mb_ptr :: nat
  mb_cnt :: nat
  mb_wait :: bool
  mb_dest_node_id :: u64
  mb_force :: bool

text \<open>Stores into the three leading 32-bit slots of the buffer.\<close>

definition put_u32 :: "nat \<Rightarrow> u32 \<Rightarrow> string \<Rightarrow> string" where
  "put_u32 i w buf = take (4 * i) buf @ u32_bytes w @ drop (4 * i + 4) buf"

definition mbuf_reset :: "env \<Rightarrow> u64 \<Rightarrow> mbuf \<Rightarrow> mbuf" where
  "mbuf_reset e dest_id b = b\<lparr>mb_starttime := 0, mb_cnt := 0, mb_wait := False,
     mb_buffer := put_u32 1 (g_node_id e) (put_u32 0 (ucast dest_id) (mb_buffer b)),
     mb_ptr := 12, mb_dest_node_id := dest_id\<rparr>"

definition mbuf_fits :: "env \<Rightarrow> nat \<Rightarrow> mbuf \<Rightarrow> bool" where
  "mbuf_fits e s b \<longleftrightarrow> mb_ptr b + s \<le> g_msg_size e"

text \<open>\<open>warm\<close> is \<open>simulation->is_warmup_done()\<close>; \<open>ready\<close> clears \<open>force\<close> when it says yes.\<close>

definition mbuf_ready :: "env \<Rightarrow> bool \<Rightarrow> mbuf \<Rightarrow> bool \<times> mbuf" where
  "mbuf_ready e warm b =
     (if warm \<and> ISSERVER e
      then (if mb_cnt b = MESSAGE_PER_BUFFER e \<or> (mb_force b \<and> mb_cnt b \<noteq> 0)
            then (True, b\<lparr>mb_force := False\<rparr>) else (False, b))
      else (mb_cnt b \<noteq> 0, b))"

text \<open>The thread's buffers and, in order, the packets it has handed to the transport.\<close>

record MessageThread =
  mt_buffer :: "u64 \<Rightarrow> mbuf"
  mt_sent :: "(u64 \<times> string) list"

definition send_batch :: "env \<Rightarrow> u64 \<Rightarrow> MessageThread \<Rightarrow> MessageThread option" where
  "send_batch e d t =
     (let b = mt_buffer t d;
          buf = put_u32 2 (word_of_nat (mb_cnt b)) (mb_buffer b)
      in if mb_cnt b = 0 then None
         else Some (t\<lparr>mt_buffer := (mt_buffer t)(d := mbuf_reset e d (b\<lparr>mb_buffer := buf\<rparr>)),
                     mt_sent := mt_sent t @ [(d, take (mb_ptr b) buf)]\<rparr>))"

fun check_and_send_batches :: "env \<Rightarrow> bool \<Rightarrow> u64 list \<Rightarrow> MessageThread \<Rightarrow> MessageThread option" where
  \<comment> \<open>the list is \<open>0, \<dots>, buffer_cnt - 1\<close>\<close>
  "check_and_send_batches e warm [] t = Some t"
| "check_and_send_batches e warm (d # ds) t =
     (case mbuf_ready e warm (mt_buffer t d) of (rdy, b) \<Rightarrow>
        let t = t\<lparr>mt_buffer := (mt_buffer t)(d := b)\<rparr>
        in if rdy then Option.bind (send_batch e d t) (check_and_send_batches e warm ds)
           else check_and_send_batches e warm ds t)"

definition add_signature :: "env \<Rightarrow> keystore \<Rightarrow> string list \<Rightarrow> nat \<Rightarrow> u64 \<Rightarrow> msg \<Rightarrow> msg option" where
  "add_signature e k allsign i d m =
     (if allsign = [] then Some m
      else if i < length allsign
      then Some (upd_base (set_signature (allsign ! i,
              if msg_rtype m = CL_BATCH then getOtherRequiredKey e k d else getCmacRequiredKey k d)) m)
      else None)"

text \<open>Copying a message into the buffer of \<open>d\<close> once there is room.\<close>

definition put_msg :: "env \<Rightarrow> u64 \<Rightarrow> u64 \<Rightarrow> msg \<Rightarrow> MessageThread \<Rightarrow> MessageThread option" where
  "put_msg e now d m t = do {
     let b = mt_buffer t d;
     let frc = (msg_rtype m = PBFT_CHKPT_MSG \<or> msg_rtype m = SpotLess_GENERIC_MSG \<or>
                m_force (msg_base m) \<or> mb_force b);
     sz \<leftarrow> msg_get_size e m;
     (buf, ptr) \<leftarrow> COPY_NESTED (msg_copy_to_buf e now m) sz (mb_buffer b, mb_ptr b);
     Some (t\<lparr>mt_buffer := (mt_buffer t)(d := b\<lparr>mb_buffer := buf, mb_ptr := ptr,
        mb_cnt := mb_cnt b + 1, mb_force := frc,
        mb_starttime := (if mb_starttime b = 0 then now else mb_starttime b)\<rparr>)\<rparr>) }"

definition send_one :: "env \<Rightarrow> bool \<Rightarrow> u64 list \<Rightarrow> u64 \<Rightarrow> u64 \<Rightarrow> msg \<Rightarrow> MessageThread \<Rightarrow>
    MessageThread option" where
  "send_one e warm nodes now d m t = do {
     sz \<leftarrow> msg_get_size e m;
     t \<leftarrow> (if \<not> mbuf_fits e sz (mt_buffer t d) then send_batch e d t else Some t);
     t \<leftarrow> put_msg e now d m t;
     check_and_send_batches e warm nodes t }"

text \<open>
  The loop of \<open>MessageThread::run\<close> over the destinations of a dequeued message from
  position \<open>i\<close> on; \<open>td_id\<close> is the thread's number among the sending threads.  The
  signature stored into the message stays there for the later iterations.
\<close>

fun run_dests :: "env \<Rightarrow> keystore \<Rightarrow> bool \<Rightarrow> u64 list \<Rightarrow> (nat \<Rightarrow> u64) \<Rightarrow> u64 \<Rightarrow> string list \<Rightarrow> nat \<Rightarrow>
    u64 list \<Rightarrow> msg \<Rightarrow> MessageThread \<Rightarrow> MessageThread option" where
  "run_dests e k warm nodes clock td_id allsign i [] m t = Some t"
| "run_dests e k warm nodes clock td_id allsign i (d # ds) m t =
     (if ISSERVER e \<and> d mod ucast (g_send_thread_cnt e) \<noteq> td_id
      then run_dests e k warm nodes clock td_id allsign (Suc i) ds m t
      else do {
        m \<leftarrow> add_signature e k allsign i d m;
        t \<leftarrow> send_one e warm nodes (clock i) d m t;
        run_dests e k warm nodes clock td_id allsign (Suc i) ds m t })"

text \<open>One call of \<open>run\<close> after the dequeue: no message means flushing what is ready.\<close>

definition MessageThread_run :: "env \<Rightarrow> keystore \<Rightarrow> bool \<Rightarrow> u64 list \<Rightarrow> (nat \<Rightarrow> u64) \<Rightarrow> u64 \<Rightarrow>
    (msg \<times> string list) option \<Rightarrow> MessageThread \<Rightarrow> MessageThread option" where
  "MessageThread_run e k warm nodes clock td_id ent t =
     (case ent of
        None \<Rightarrow> check_and_send_batches e warm nodes t
      | Some (m, allsign) \<Rightarrow>
          run_dests e k warm nodes clock td_id allsign 0 (m_dest (msg_base m)) m t)"

section \<open>Wire format of a message of any class\<close>

fun msg_enc :: "u64 \<Rightarrow> msg \<Rightarrow> string" where
  "msg_enc now (MInitDone m) = header_enc now m"
| "msg_enc now (MKeyExchange m) = kx_enc now m"
| "msg_enc now (MReady m) = header_enc now m"
| "msg_enc now (MQuery m) = yc_enc m"
| "msg_enc now (MClientBatch m) = cb_enc now m"
| "msg_enc now (MDone m) = header_enc now m"
| "msg_enc now (MClientResponse m) = cr_enc now m"
| "msg_enc now (MExecute m) = ex_enc now m"
| "msg_enc now (MCheckpoint m) = ck_enc now m"
| "msg_enc now (MSync m) = sync_enc now m"
| "msg_enc now (MGeneric m) = gen_enc now m"
| "msg_enc now (MProposal m) = prop_enc now m"
| "msg_enc now (MAsk m) = ask_enc now m"
| "msg_enc now (MAskResponse m) = prop_enc now m"

fun msg_wire :: "env \<Rightarrow> u64 \<Rightarrow> msg \<Rightarrow> msg" where
  "msg_wire e now (MInitDone m) = MInitDone (header_wire e now m)"
| "msg_wire e now (MKeyExchange m) = MKeyExchange (kx_wire e now m)"
| "msg_wire e now (MReady m) = MReady (header_wire e now m)"
| "msg_wire e now (MQuery m) = MQuery (yc_wire e m)"
| "msg_wire e now (MClientBatch m) = MClientBatch (cb_wire e now m)"
| "msg_wire e now (MDone m) = MDone (header_wire e now m)"
| "msg_wire e now (MClientResponse m) = MClientResponse (cr_wire e now m)"
| "msg_wire e now (MExecute m) = MExecute (ex_wire e now m)"
| "msg_wire e now (MCheckpoint m) = MCheckpoint (ck_wire e now m)"
| "msg_wire e now (MSync m) = MSync (sync_wire e now m)"
| "msg_wire e now (MGeneric m) = MGeneric (gen_wire e now m)"
| "msg_wire e now (MProposal m) = MProposal (prop_wire e now m)"
| "msg_wire e now (MAsk m) = MAsk (ask_wire e now m)"
| "msg_wire e now (MAskResponse m) = MAskResponse (prop_wire e now m)"

text \<open>The object is of the class its type names, and its lengths agree with its size fields.\<close>

fun msg_ok :: "env \<Rightarrow> msg \<Rightarrow> bool" where
  "msg_ok e (MInitDone m) \<longleftrightarrow> m_rtype m = INIT_DONE \<and> header_ok m"
| "msg_ok e (MKeyExchange m) \<longleftrightarrow> m_rtype (kx_base m) = KEYEX \<and> kx_ok e m"
| "msg_ok e (MReady m) \<longleftrightarrow> m_rtype m = READY \<and> header_ok m"
| "msg_ok e (MQuery m) \<longleftrightarrow> yc_ok e m"
| "msg_ok e (MClientBatch m) \<longleftrightarrow> m_rtype (cb_base m) = CL_BATCH \<and> cb_ok e m"
| "msg_ok e (MDone m) \<longleftrightarrow> m_rtype m = RDONE \<and> header_ok m"
| "msg_ok e (MClientResponse m) \<longleftrightarrow> m_rtype (cr_base m) = CL_RSP \<and> cr_ok e m"
| "msg_ok e (MExecute m) \<longleftrightarrow> m_rtype (ex_base m) = EXECUTE_MSG \<and> ex_ok m"
| "msg_ok e (MCheckpoint m) \<longleftrightarrow> m_rtype (ck_base m) = PBFT_CHKPT_MSG \<and> ck_ok m"
| "msg_ok e (MSync m) \<longleftrightarrow> m_rtype (sync_base m) = SpotLess_SYNC_MSG \<and> sync_ok e m"
| "msg_ok e (MGeneric m) \<longleftrightarrow> m_rtype (gen_base m) = SpotLess_GENERIC_MSG \<and> gen_ok e m"
| "msg_ok e (MProposal m) \<longleftrightarrow> m_rtype (prop_base m) = SpotLess_PROPOSAL_MSG \<and> prop_ok e m"
| "msg_ok e (MAsk m) \<longleftrightarrow> m_rtype (ask_base m) = SpotLess_ASK_MSG \<and> ask_ok m"
| "msg_ok e (MAskResponse m) \<longleftrightarrow> m_rtype (prop_base m) = SpotLess_ASK_RESPONSE_MSG \<and> prop_ok e m"

lemma header_enc_rtype:
  "COPY_VAL_u32 (header_enc now m @ rest) 0 = Some (rtype_code (m_rtype m), 4)"
  using COPY_VAL_u32_at [of "[]" 0] by (simp add: header_enc_def)

lemma msg_enc_rtype:
  "COPY_VAL_u32 (msg_enc now m @ rest) 0 = Some (rtype_code (msg_rtype m), 4)"
proof (cases m)
  case (MQuery q)
  then show ?thesis using COPY_VAL_u32_at [of "[]" 0] by (simp add: yc_enc_def)
qed (simp_all add: header_enc_rtype kx_enc_def cb_enc_def cr_enc_def ex_enc_def ck_enc_def
       sync_enc_def gen_enc_def prop_enc_def ask_enc_def)

lemma YCSB_from_buf:
  assumes "yc_ok e q" and "rt = m_rtype (yc_base q)"
  shows "YCSB_copy_from_buf e (new_YCSB e rt) (yc_enc q @ rest) = Some (yc_wire e q)"
  using assms create_query [OF assms(1), of rest] msg_enc_rtype [of 0 "MQuery q" rest]
  by (simp add: create_query_def yc_ok_def)

lemma msg_size: "msg_ok e m \<Longrightarrow> msg_get_size e m = Some (length (msg_enc now m))"
  by (cases m) (simp_all add: InitDone_get_size_def ReadyServer_get_size_def length_header_enc
      kx.size [of e _ now] yc.size [of e] cb.size [of e _ now] dn.size [of _ now] cr.size [of e _ now]
      ex.size [of _ now] ck.size [of _ now] sync.size [of e _ now] gen.size [of e _ now]
      prp.size [of e _ now] ask.size [of _ now])

lemma msg_to_buf:
  assumes "msg_ok e m" and "length (msg_enc now m) \<le> length buf"
  shows "msg_copy_to_buf e now m buf = Some (msg_enc now m @ drop (length (msg_enc now m)) buf)"
  using assms by (cases m) (simp_all add: InitDone_copy_to_buf_def ReadyServer_copy_to_buf_def
      length_header_enc mcopy_to_buf kx.to_buf [of e] yc.to_buf cb.to_buf dn.to_buf cr.to_buf ex.to_buf
      ck.to_buf sync.to_buf gen.to_buf prp.to_buf ask.to_buf)

lemma msg_from_buf:
  assumes "msg_ok e m"
  shows "create_message_buf e (msg_enc now m @ rest) = Some (msg_wire e now m)"
proof -
  have "create_message_buf e (msg_enc now m @ rest) =
      Option.bind (create_message e (msg_rtype m)) (\<lambda>m'. msg_copy_from_buf e m' (msg_enc now m @ rest))"
    by (simp add: create_message_buf_def msg_enc_rtype)
  also have "\<dots> = Some (msg_wire e now m)"
  proof (cases m)
    case (MQuery q)
    with assms have "yc_ok e q" by simp
    moreover from this have "create_message e (m_rtype (yc_base q)) =
        Some (MQuery (new_YCSB e (m_rtype (yc_base q))))"
      by (auto simp: yc_ok_def is_query_type_def)
    ultimately show ?thesis
      using MQuery by (simp add: YCSB_from_buf)
  qed (use assms in \<open>simp_all add: InitDone_copy_from_buf_def ReadyServer_copy_from_buf_def
         mcopy_from_buf kx.from_buf cb.from_buf dn.from_buf cr.from_buf ex.from_buf ck.from_buf
         sync.from_buf gen.from_buf prp.from_buf ask.from_buf\<close>)
  finally show ?thesis .
qed

lemma msg_wire_size:
  assumes "msg_ok e m"
  shows "msg_get_size e (msg_wire e now m) = msg_get_size e m"
  using assms by (cases m) (simp_all add: InitDone_get_size_def ReadyServer_get_size_def Done_get_size_def
      cb.wire_size prp.wire_size kx.wire_size [simplified] yc.wire_size [simplified]
      Sync_get_size_wire Generic_get_size_wire Execute_get_size_def ex_wire_def Checkpoint_get_size_def
      ck_wire_def Ask_get_size_def ask_wire_def)

interpretation pk: wire_codec "msg_get_size e" "msg_copy_to_buf e now" "create_message_buf e"
    "msg_enc now" "msg_wire e now" "msg_ok e" for e now
  by unfold_locales (simp_all add: msg_size msg_to_buf msg_from_buf msg_wire_size)

section \<open>Packets\<close>

text \<open>The bytes of a packet, and what its receiver makes of one of its messages.\<close>

definition encs :: "(u64 \<times> msg) list \<Rightarrow> string" where
  "encs ms = concat (map (\<lambda>(now, m). msg_enc now m) ms)"

definition packet :: "u32 \<Rightarrow> u32 \<Rightarrow> (u64 \<times> msg) list \<Rightarrow> string" where
  "packet d src ms = u32_bytes d @ u32_bytes src @ u32_bytes (word_of_nat (length ms)) @ encs ms"

definition received :: "env \<Rightarrow> u32 \<Rightarrow> u64 \<times> msg \<Rightarrow> msg" where
  "received e src tm = upd_base (\<lambda>b. b\<lparr>m_return_node_id := ucast src\<rparr>) (msg_wire e (fst tm) (snd tm))"

lemma msg_get_size_return_node [simp]:
  "msg_get_size e (upd_base (\<lambda>b. b\<lparr>m_return_node_id := n\<rparr>) m) = msg_get_size e m"
  by (cases m) (simp_all add: mget_size_def InitDone_get_size_def KX_get_size_def ReadyServer_get_size_def
      YCSB_get_size_def CB_get_size_def Done_get_size_def CR_get_size_def Execute_get_size_def
      Checkpoint_get_size_def Sync_get_size_def Generic_get_size_def Proposal_get_size_def Ask_get_size_def
      prop_requests_def)

lemma reads_msg:
  assumes "msg_ok e m"
  shows "reads (read_msg e src) (msg_enc now m) (received e src (now, m))"
  using assms by (simp add: reads_def read_msg_def received_def msg_from_buf Let_def msg_wire_size msg_size [of e m now])

lemma create_messages_packet:
  assumes "\<forall>(now, m) \<in> set ms. msg_ok e m" and "length ms < 2 ^ 32"
    and "src \<noteq> g_node_id e" and "ISCLIENTN e src \<or> ISSERVERN e src \<or> ISREPLICAN e src"
  shows "create_messages e (packet (g_node_id e) src ms @ rest) = Some (map (received e src) ms)"
proof -
  let ?h = "u32_bytes (g_node_id e) @ u32_bytes src @ u32_bytes (word_of_nat (length ms))"
  have "reads (read_n (read_msg e src) (length ms)) (concat (map (\<lambda>(now, m). msg_enc now m) ms)) (map (received e src) ms)"
    using assms(1) by (intro reads_read_n) (auto intro: reads_msg)
  from readsD [OF this, of ?h 12 rest]
  have "read_n (read_msg e src) (length ms) (?h @ encs ms @ rest) 12 =
      Some (map (received e src) ms, 12 + length (encs ms))"
    by (simp add: encs_def)
  moreover have "COPY_VAL_u32 (u32_bytes (g_node_id e) @ u32_bytes src @ r) 4 = Some (src, 8)" for r
    using COPY_VAL_u32_at [of "u32_bytes (g_node_id e)" 4 src r] by simp
  moreover have "COPY_VAL_u32 (u32_bytes (g_node_id e) @ u32_bytes src @ u32_bytes w @ r) 8 = Some (w, 12)" for w r
    using COPY_VAL_u32_at [of "u32_bytes (g_node_id e) @ u32_bytes src" 8 w r] by simp
  moreover have "COPY_VAL_u32 (u32_bytes (g_node_id e) @ r) 0 = Some (g_node_id e, 4)" for r
    using COPY_VAL_u32_at [of "[]" 0 "g_node_id e" r] by simp
  moreover have "unat (word_of_nat (length ms) :: u32) = length ms"
    using assms(2) by (simp add: unat_of_nat)
  ultimately show ?thesis
    using assms(3,4) by (simp add: create_messages_def packet_def)
qed

section \<open>The sending thread refines a FIFO queue per destination\<close>

text \<open>The buffer of \<open>d\<close> holds the messages \<open>ms\<close> (with their stamps), not yet counted in its third slot.\<close>

definition mbuf_holds :: "env \<Rightarrow> u64 \<Rightarrow> mbuf \<Rightarrow> (u64 \<times> msg) list \<Rightarrow> bool" where
  "mbuf_holds e d b ms \<longleftrightarrow> length (mb_buffer b) = g_msg_size e \<and> mb_cnt b = length ms \<and>
     mb_ptr b = 12 + length (encs ms) \<and> mb_ptr b \<le> g_msg_size e \<and> (\<forall>(now, m) \<in> set ms. msg_ok e m) \<and>
     take 8 (mb_buffer b) = u32_bytes (ucast d) @ u32_bytes (g_node_id e) \<and>
     take (length (encs ms)) (drop 12 (mb_buffer b)) = encs ms"

text \<open>
  The messages handed to the thread for \<open>d\<close> so far, in order: those in the packets
  it has sent there, then those in the buffer.
\<close>

definition mt_holds :: "env \<Rightarrow> MessageThread \<Rightarrow> u64 \<Rightarrow> (u64 \<times> msg) list \<Rightarrow> bool" where
  "mt_holds e t d ms \<longleftrightarrow> (\<exists>ps cur. ms = concat ps @ cur \<and>
     map snd (filter (\<lambda>p. fst p = d) (mt_sent t)) = map (packet (ucast d) (g_node_id e)) ps \<and>
     (\<forall>p \<in> set ps. \<forall>(now, m) \<in> set p. msg_ok e m) \<and> (\<forall>p \<in> set ps. length (packet (ucast d) (g_node_id e) p) \<le> g_msg_size e) \<and>
     mbuf_holds e d (mt_buffer t d) cur)"

lemma encs_append [simp]: "encs (ms @ ns) = encs ms @ encs ns"
  by (simp add: encs_def)

lemma length_put_u32 [simp]: "4 * i + 4 \<le> length buf \<Longrightarrow> length (put_u32 i w buf) = length buf"
  by (simp add: put_u32_def)

lemma mbuf_holds_reset:
  assumes "length (mb_buffer b) = g_msg_size e" and "12 \<le> g_msg_size e"
  shows "mbuf_holds e d (mbuf_reset e d b) []"
  using assms by (simp add: mbuf_holds_def mbuf_reset_def encs_def put_u32_def)

lemma mbuf_holds_packet:
  assumes "mbuf_holds e d b ms"
  shows "take (mb_ptr b) (put_u32 2 (word_of_nat (mb_cnt b)) (mb_buffer b)) = packet (ucast d) (g_node_id e) ms"
  using assms by (simp add: mbuf_holds_def packet_def put_u32_def)

lemma mbuf_holds_len:
  "mbuf_holds e d b ms \<Longrightarrow> length (mb_buffer b) = g_msg_size e \<and> 12 \<le> g_msg_size e"
  by (simp add: mbuf_holds_def)

lemma send_batch_holds:
  assumes "mbuf_holds e d (mt_buffer t d) cur" and "cur \<noteq> []"
  shows "\<exists>t'. send_batch e d t = Some t' \<and> mbuf_holds e d (mt_buffer t' d) [] \<and>
    (\<forall>d' ms. mt_holds e t d' ms \<longrightarrow> mt_holds e t' d' ms)"
proof -
  let ?b = "mt_buffer t d"
  let ?buf = "put_u32 2 (word_of_nat (mb_cnt ?b)) (mb_buffer ?b)"
  let ?t = "t\<lparr>mt_buffer := (mt_buffer t)(d := mbuf_reset e d (?b\<lparr>mb_buffer := ?buf\<rparr>)),
      mt_sent := mt_sent t @ [(d, take (mb_ptr ?b) ?buf)]\<rparr>"
  have "mb_cnt ?b \<noteq> 0" using assms(1,2) by (simp add: mbuf_holds_def)
  then have "send_batch e d t = Some ?t" by (simp add: send_batch_def Let_def)
  moreover have reset: "mbuf_holds e d (mt_buffer ?t d) []"
    using mbuf_holds_len [OF assms(1)] by (simp add: mbuf_holds_reset)
  moreover have "mt_holds e ?t d' ms" if "mt_holds e t d' ms" for d' ms
  proof (cases "d' = d")
    case False
    with that show ?thesis by (simp add: mt_holds_def)
  next
    case True
    from that obtain ps cur' where h: "ms = concat ps @ cur'"
        "map snd (filter (\<lambda>p. fst p = d) (mt_sent t)) = map (packet (ucast d) (g_node_id e)) ps"
        "\<forall>p \<in> set ps. \<forall>(now, m) \<in> set p. msg_ok e m"
        "\<forall>p \<in> set ps. length (packet (ucast d) (g_node_id e) p) \<le> g_msg_size e"
        "mbuf_holds e d ?b cur'"
      unfolding mt_holds_def True by blast
    have "length (packet (ucast d) (g_node_id e) cur') \<le> g_msg_size e" "\<forall>(now, m) \<in> set cur'. msg_ok e m"
      using h(5) by (simp_all add: packet_def mbuf_holds_def)
    with h reset mbuf_holds_packet [OF h(5)] show ?thesis
      unfolding mt_holds_def True
      by (intro exI [of _ "ps @ [cur']"] exI [of _ "[]"]) auto
  qed
  ultimately show ?thesis by blast
qed

lemma mbuf_ready_holds:
  assumes "mbuf_ready e warm b = (r, b')" and "mbuf_holds e d b ms" and "MESSAGE_PER_BUFFER e \<noteq> 0"
  shows "mbuf_holds e d b' ms \<and> (r \<longrightarrow> ms \<noteq> [])"
  using assms by (auto simp: mbuf_ready_def mbuf_holds_def split: if_splits)

lemma check_and_send_holds:
  assumes "MESSAGE_PER_BUFFER e \<noteq> 0" and "\<And>d. d \<in> set ds \<Longrightarrow> \<exists>ms. mt_holds e t d ms"
  shows "\<exists>t'. check_and_send_batches e warm ds t = Some t' \<and>
    (\<forall>d ms. mt_holds e t d ms \<longrightarrow> mt_holds e t' d ms)"
  using assms(2)
proof (induction ds arbitrary: t)
  case Nil
  then show ?case by simp
next
  case (Cons d ds)
  obtain r b where rdy: "mbuf_ready e warm (mt_buffer t d) = (r, b)" by force
  let ?t = "t\<lparr>mt_buffer := (mt_buffer t)(d := b)\<rparr>"
  obtain ms cur where cur: "mt_holds e t d ms" "mbuf_holds e d (mt_buffer t d) cur"
    using Cons.prems [of d] by (auto simp: mt_holds_def)
  have b: "mbuf_holds e d b ns" if "mbuf_holds e d (mt_buffer t d) ns" for ns
    using mbuf_ready_holds [OF rdy that assms(1)] by simp
  have keep: "mt_holds e ?t d' ns" if "mt_holds e t d' ns" for d' ns
    using that b by (fastforce simp: mt_holds_def)
  show ?case
  proof (cases r)
    case False
    have "\<exists>ms. mt_holds e ?t d' ms" if "d' \<in> set ds" for d'
      using Cons.prems [of d'] that keep by auto
    from Cons.IH [OF this] keep show ?thesis
      using False rdy by (force simp: Let_def)
  next
    case True
    have ne: "cur \<noteq> []" using mbuf_ready_holds [OF rdy cur(2) assms(1)] True by simp
    have "mbuf_holds e d (mt_buffer ?t d) cur" using b [OF cur(2)] by simp
    from send_batch_holds [OF this ne] obtain t2 where t2: "send_batch e d ?t = Some t2"
        "\<And>d' ns. mt_holds e ?t d' ns \<Longrightarrow> mt_holds e t2 d' ns"
      by blast
    have "\<exists>ms. mt_holds e t2 d' ms" if "d' \<in> set ds" for d'
      using Cons.prems [of d'] that keep t2(2) by fastforce
    from Cons.IH [OF this] keep t2 show ?thesis
      using True rdy by (force simp: Let_def)
  qed
qed

lemma put_msg_holds:
  assumes "mbuf_holds e d (mt_buffer t d) cur" and "msg_ok e m"
    and "mb_ptr (mt_buffer t d) + length (msg_enc now m) \<le> g_msg_size e"
  shows "\<exists>t'. put_msg e now d m t = Some t' \<and>
    (\<forall>d' ms. mt_holds e t d' ms \<longrightarrow> mt_holds e t' d' (ms @ (if d' = d then [(now, m)] else [])))"
proof -
  let ?b = "mt_buffer t d" and ?n = "length (msg_enc now m)"
  let ?buf = "take (mb_ptr ?b) (mb_buffer ?b) @ msg_enc now m @ drop ?n (drop (mb_ptr ?b) (mb_buffer ?b))"
  have len: "length (mb_buffer ?b) = g_msg_size e" using mbuf_holds_len [OF assms(1)] by simp
  then have "msg_copy_to_buf e now m (drop (mb_ptr ?b) (mb_buffer ?b)) =
      Some (msg_enc now m @ drop ?n (drop (mb_ptr ?b) (mb_buffer ?b)))"
    using assms(2,3) by (intro msg_to_buf) auto
  then obtain frc st where t': "put_msg e now d m t = Some (t\<lparr>mt_buffer := (mt_buffer t)(d :=
      ?b\<lparr>mb_buffer := ?buf, mb_ptr := mb_ptr ?b + ?n, mb_cnt := mb_cnt ?b + 1, mb_force := frc, mb_starttime := st\<rparr>)\<rparr>)"
    using len assms(2,3) by (auto simp: put_msg_def Let_def msg_size [of e m now] COPY_NESTED_def)
  have add: "mbuf_holds e d (?b\<lparr>mb_buffer := ?buf, mb_ptr := mb_ptr ?b + ?n, mb_cnt := mb_cnt ?b + 1,
      mb_force := frc, mb_starttime := st\<rparr>) (cur' @ [(now, m)])" if "mbuf_holds e d ?b cur'" for cur'
    using that assms(2,3) by (auto simp: mbuf_holds_def encs_def take_add)
  show ?thesis
    unfolding t' using add by (auto simp: mt_holds_def) (metis append.assoc)
qed

lemma send_one_holds:
  assumes "\<And>d. \<exists>ms. mt_holds e t d ms" and "msg_ok e m" and "12 + length (msg_enc now m) \<le> g_msg_size e"
    and "MESSAGE_PER_BUFFER e \<noteq> 0"
  shows "\<exists>t'. send_one e warm nodes now d m t = Some t' \<and>
    (\<forall>d' ms. mt_holds e t d' ms \<longrightarrow> mt_holds e t' d' (ms @ (if d' = d then [(now, m)] else [])))"
proof -
  let ?room = "if \<not> mbuf_fits e (length (msg_enc now m)) (mt_buffer t d) then send_batch e d t else Some t"
  obtain cur where cur: "mbuf_holds e d (mt_buffer t d) cur"
    using assms(1) [of d] by (auto simp: mt_holds_def)
  have "\<exists>t1 cur'. ?room = Some t1 \<and> (\<forall>d' ms. mt_holds e t d' ms \<longrightarrow> mt_holds e t1 d' ms) \<and>
      mbuf_holds e d (mt_buffer t1 d) cur' \<and> mb_ptr (mt_buffer t1 d) + length (msg_enc now m) \<le> g_msg_size e"
  proof (cases "mbuf_fits e (length (msg_enc now m)) (mt_buffer t d)")
    case True
    with cur show ?thesis by (auto simp: mbuf_fits_def)
  next
    case False
    then have "cur \<noteq> []" using cur assms(3) by (auto simp: mbuf_fits_def mbuf_holds_def encs_def)
    from send_batch_holds [OF cur this] False assms(3) show ?thesis
      by (auto simp: mbuf_holds_def encs_def)
  qed
  then obtain t1 cur' where t1: "?room = Some t1" "\<And>d' ms. mt_holds e t d' ms \<Longrightarrow> mt_holds e t1 d' ms"
      "mbuf_holds e d (mt_buffer t1 d) cur'" "mb_ptr (mt_buffer t1 d) + length (msg_enc now m) \<le> g_msg_size e"
    by blast
  from put_msg_holds [OF t1(3) assms(2) t1(4)] obtain t2 where t2: "put_msg e now d m t1 = Some t2"
      "\<And>d' ms. mt_holds e t1 d' ms \<Longrightarrow> mt_holds e t2 d' (ms @ (if d' = d then [(now, m)] else []))"
    by blast
  have "\<exists>ms. mt_holds e t2 d' ms" for d'
    using assms(1) [of d'] t1(2) t2(2) by blast
  then obtain t3 where t3: "check_and_send_batches e warm nodes t2 = Some t3"
      "\<And>d' ms. mt_holds e t2 d' ms \<Longrightarrow> mt_holds e t3 d' ms"
    using check_and_send_holds [OF assms(4), of nodes t2 warm] by blast
  have "send_one e warm nodes now d m t = Some t3"
    using t1(1) t2(1) t3(1) by (simp add: send_one_def msg_size [OF assms(2), of now])
  moreover have "mt_holds e t3 d' (ms @ (if d' = d then [(now, m)] else []))" if "mt_holds e t d' ms" for d' ms
    using t3(2) [OF t2(2) [OF t1(2) [OF that]]] .
  ultimately show ?thesis by blast
qed

text \<open>The message as it leaves for destination \<open>d\<close> at position \<open>j\<close> of the list.\<close>

definition signed_for :: "env \<Rightarrow> keystore \<Rightarrow> string list \<Rightarrow> nat \<Rightarrow> u64 \<Rightarrow> msg \<Rightarrow> msg" where
  "signed_for e k allsign j d m =
     (if allsign = [] then m
      else upd_base (set_signature (allsign ! j,
        if msg_rtype m = CL_BATCH then getOtherRequiredKey e k d else getCmacRequiredKey k d)) m)"

definition sends :: "env \<Rightarrow> keystore \<Rightarrow> (nat \<Rightarrow> u64) \<Rightarrow> u64 \<Rightarrow> string list \<Rightarrow> nat \<Rightarrow> u64 list \<Rightarrow> msg \<Rightarrow> u64 \<Rightarrow>
    (u64 \<times> msg) list" where
  "sends e k clock td_id allsign i ds m d =
     map (\<lambda>(j, d'). (clock j, signed_for e k allsign j d m))
       (filter (\<lambda>(j, d'). d' = d \<and> \<not> (ISSERVER e \<and> d mod ucast (g_send_thread_cnt e) \<noteq> td_id))
         (enumerate i ds))"

lemma sends_Cons:
  "sends e k clock td_id allsign i (d' # ds) m d =
     (if d' = d \<and> \<not> (ISSERVER e \<and> d mod ucast (g_send_thread_cnt e) \<noteq> td_id)
      then [(clock i, signed_for e k allsign i d m)] else []) @ sends e k clock td_id allsign (Suc i) ds m d"
  by (simp add: sends_def)

lemma msg_rtype_set_signature [simp]: "msg_rtype (upd_base (set_signature sk) m) = msg_rtype m"
  by (cases m) (simp_all add: set_signature_def)

lemma set_signature_twice [simp]: "upd_base (set_signature s') (upd_base (set_signature s) m) = upd_base (set_signature s') m"
  by (cases m) (simp_all add: set_signature_def)

lemma signed_for_twice [simp]: "signed_for e k allsign j d (signed_for e k allsign j' d' m) = signed_for e k allsign j d m"
  by (simp add: signed_for_def)

lemma sends_signed_for [simp]:
  "sends e k clock td_id allsign i ds (signed_for e k allsign j d' m) d = sends e k clock td_id allsign i ds m d"
  by (simp add: sends_def)

lemma run_dests_holds:
  assumes "\<And>d. \<exists>ms. mt_holds e t d ms" and "MESSAGE_PER_BUFFER e \<noteq> 0"
    and "allsign = [] \<or> i + length ds \<le> length allsign"
    and "\<forall>(j, d) \<in> set (enumerate i ds). msg_ok e (signed_for e k allsign j d m) \<and>
      12 + length (msg_enc (clock j) (signed_for e k allsign j d m)) \<le> g_msg_size e"
  shows "\<exists>t'. run_dests e k warm nodes clock td_id allsign i ds m t = Some t' \<and>
    (\<forall>d ms. mt_holds e t d ms \<longrightarrow> mt_holds e t' d (ms @ sends e k clock td_id allsign i ds m d))"
  using assms
proof (induction ds arbitrary: i m t)
  case Nil
  then show ?case by (simp add: sends_def)
next
  case (Cons d ds)
  show ?case
  proof (cases "ISSERVER e \<and> d mod ucast (g_send_thread_cnt e) \<noteq> td_id")
    case True
    with Cons.IH [of t "Suc i" m] Cons.prems show ?thesis
      by (auto simp: sends_Cons)
  next
    case False
    let ?m = "signed_for e k allsign i d m"
    have sig: "add_signature e k allsign i d m = Some ?m"
      using Cons.prems(3) by (auto simp: add_signature_def signed_for_def)
    have "msg_ok e ?m" "12 + length (msg_enc (clock i) ?m) \<le> g_msg_size e"
      using Cons.prems(4) by auto
    from send_one_holds [OF Cons.prems(1) this Cons.prems(2)] obtain t1 where
      t1: "send_one e warm nodes (clock i) d ?m t = Some t1"
        "\<And>d' ms. mt_holds e t d' ms \<Longrightarrow> mt_holds e t1 d' (ms @ (if d' = d then [(clock i, ?m)] else []))"
      by blast
    have "\<exists>t'. run_dests e k warm nodes clock td_id allsign (Suc i) ds ?m t1 = Some t' \<and>
      (\<forall>d ms. mt_holds e t1 d ms \<longrightarrow> mt_holds e t' d (ms @ sends e k clock td_id allsign (Suc i) ds ?m d))"
    proof (rule Cons.IH)
      show "\<exists>ms. mt_holds e t1 d' ms" for d' using Cons.prems(1) [of d'] t1(2) by blast
    qed (use Cons.prems in auto)
    then obtain t2 where t2: "run_dests e k warm nodes clock td_id allsign (Suc i) ds ?m t1 = Some t2"
        "\<And>d ms. mt_holds e t1 d ms \<Longrightarrow> mt_holds e t2 d (ms @ sends e k clock td_id allsign (Suc i) ds m d)"
      by auto
    have "run_dests e k warm nodes clock td_id allsign i (d # ds) m t = Some t2"
      using False sig t1(1) t2(1) by auto
    moreover have "mt_holds e t2 d' (ms @ sends e k clock td_id allsign i (d # ds) m d')" if "mt_holds e t d' ms" for d' ms
      using t2(2) [OF t1(2) [OF that]] False by (cases "d' = d") (simp_all add: sends_Cons)
    ultimately show ?thesis by blast
  qed
qed

text \<open>Every packet sent is parsed by its destination into the messages put into it.\<close>

lemma length_encs: "length ms \<le> length (encs ms)"
proof (induction ms)
  case (Cons tm ms)
  have "0 < length (msg_enc (fst tm) (snd tm))"
    using msg_enc_rtype [of "fst tm" "snd tm" "[]"] by (auto simp: COPY_VAL_u32_def COPY_VAL_def split: if_splits)
  moreover have "length (encs (tm # ms)) = length (msg_enc (fst tm) (snd tm)) + length (encs ms)"
    by (simp add: encs_def case_prod_beta)
  ultimately show ?case using Cons by (simp del: length_greater_0_conv)
qed simp

lemma batch_n_g_node_id [simp]: "batch_n (e\<lparr>g_node_id := x\<rparr>) = batch_n e"
  by (simp add: get_batch_size_def)

lemma yc_ok_g_node_id [simp]: "yc_ok (e\<lparr>g_node_id := x\<rparr>) q = yc_ok e q"
  by (simp add: yc_ok_def)

lemma msg_ok_g_node_id [simp]: "msg_ok (e\<lparr>g_node_id := x\<rparr>) m = msg_ok e m"
  by (cases m) (simp_all add: kx_ok_def cb_ok_def cr_ok_def sync_ok_def gen_ok_def prop_ok_def QC_ok_def
      get_batch_size_def yc_ok_g_node_id split: option.splits)

lemma sent_packets_parse:
  assumes "mt_holds e t d ms" and "(d, p) \<in> set (mt_sent t)"
    and "g_msg_size e < 2 ^ 32" and "ucast d \<noteq> g_node_id e" and "ISSERVER e"
  shows "\<exists>ns. set ns \<subseteq> set ms \<and>
    create_messages (e\<lparr>g_node_id := ucast d\<rparr>) p = Some (map (received (e\<lparr>g_node_id := ucast d\<rparr>) (g_node_id e)) ns)"
proof -
  let ?e = "e\<lparr>g_node_id := ucast d\<rparr>"
  from assms(1) obtain ps cur where ps: "ms = concat ps @ cur"
      "map snd (filter (\<lambda>p. fst p = d) (mt_sent t)) = map (packet (ucast d) (g_node_id e)) ps"
      "\<forall>p \<in> set ps. \<forall>(now, m) \<in> set p. msg_ok e m"
      "\<forall>p \<in> set ps. length (packet (ucast d) (g_node_id e) p) \<le> g_msg_size e"
    unfolding mt_holds_def by blast
  from assms(2) have "p \<in> set (map snd (filter (\<lambda>p. fst p = d) (mt_sent t)))" by force
  then obtain ns where ns: "ns \<in> set ps" "p = packet (ucast d) (g_node_id e) ns"
    unfolding ps(2) by auto
  have "length ns < 2 ^ 32"
    using ps(4) ns length_encs [of ns] assms(3) by (fastforce simp: packet_def)
  moreover have "ISSERVERN ?e (g_node_id e)"
    using assms(5) by (simp add: ISSERVERN_def ISSERVER_def)
  ultimately have "create_messages ?e (packet (g_node_id ?e) (g_node_id e) ns @ []) =
      Some (map (received ?e (g_node_id e)) ns)"
    using ps(3) ns(1) assms(4) by (intro create_messages_packet) auto
  moreover have "set ns \<subseteq> set ms" using ps(1) ns(1) by auto
  ultimately show ?thesis using ns(2) by auto
qed

end
