(* ===== verification/Txn_Table.thy ===== *)
theory Txn_Table
  imports Packets
begin

text \<open>
  Transaction managers (\<^verbatim>\<open>system/txn.h\<close>, \<^verbatim>\<open>system/txn.cpp\<close>), the pool that
  recycles them (\<open>TxnManPool\<close> of \<^verbatim>\<open>system/pool.cpp\<close>) and the table that finds
  them by identifier (\<^verbatim>\<open>system/txn_table.cpp\<close>): an array of linked lists indexed by
  \<open>txn_id % pool_size\<close>.  The locale \<open>txn_store\<close> is what the worker threads rely on:
  the table behaves like a finite map that creates clean managers on demand.

  A pointer to a manager is modelled by its identifier: changing the object through
  the pointer is \<open>tt_update\<close>.  Time statistics are left out, except the latency fields
  that \<open>create_message(txn, \<dots>)\<close> copies into messages.
\<close>

record TxnLatency =
  work_queue_time_short :: u64
  msg_queue_time_short :: u64
  cc_block_time_short :: u64
  cc_time_short :: u64
  process_time_short :: u64
  lat_network_time_start :: u64
  lat_other_time_start :: u64

record TxnManager =
  tm_txn_id :: u64
  tm_batch_id :: u64
  tm_rc :: RC
  tm_requests :: "ycsb_request list"
  tm_client_startts :: u64
  tm_client_id :: u64
  tm_return_id :: u64
  tm_hash :: string
  tm_hashSize :: u64
  tm_prepared :: bool
  tm_instance_id :: u64
  tm_sync_sent :: bool
  tm_view :: u64
  tm_propmsg :: "msg option"
  tm_generic_received :: bool
  tm_proposal_received :: bool
  tm_preparedQC :: QuorumCertificate
  tm_precommittedQC :: QuorumCertificate
  tm_committedQC :: QuorumCertificate
  tm_genericQC :: QuorumCertificate
  tm_highQC :: QuorumCertificate
  tm_psig_share :: string
  tm_new_view_vote_cnt :: u64
  tm_vote_new_view :: "u64 list"
  tm_new_viewed :: bool
  tm_hash_voters :: "(string \<times> u64 list) list"
  tm_chkpt_cnt :: int
  tm_chkpt_flag :: bool
  tm_txn_ready :: bool
  tm_stats :: TxnLatency

definition zero_latency :: TxnLatency where
  "zero_latency = \<lparr>work_queue_time_short = 0, msg_queue_time_short = 0, cc_block_time_short = 0,
     cc_time_short = 0, process_time_short = 0, lat_network_time_start = 0, lat_other_time_start = 0\<rparr>"

text \<open>\<open>Workload::get_txn_man\<close>: a new object with its default member initialisers.\<close>

definition new_TxnManager :: "env \<Rightarrow> TxnManager" where
  "new_TxnManager e =
    \<lparr>tm_txn_id = UINT64_MAX, tm_batch_id = UINT64_MAX, tm_rc = RCOK, tm_requests = [],
     tm_client_startts = 0, tm_client_id = 0, tm_return_id = 0, tm_hash = '''', tm_hashSize = 0,
     tm_prepared = False, tm_instance_id = 0, tm_sync_sent = False, tm_view = 0, tm_propmsg = None,
     tm_generic_received = False, tm_proposal_received = False,
     tm_preparedQC = new_QC 0, tm_precommittedQC = new_QC 0, tm_committedQC = new_QC 0,
     tm_genericQC = new_QC 0, tm_highQC = new_QC 0,
     tm_psig_share = replicate (sizeof_sig e) CHR 0x00,
     tm_new_view_vote_cnt = 0, tm_vote_new_view = [], tm_new_viewed = False, tm_hash_voters = [],
     tm_chkpt_cnt = 0, tm_chkpt_flag = False, tm_txn_ready = True, tm_stats = zero_latency\<rparr>"

definition TxnManager_init :: "TxnManager \<Rightarrow> TxnManager" where
  \<comment> \<open>\<open>txn\<close> and \<open>query\<close> are null here, so a new \<open>Transaction\<close> and \<open>YCSBQuery\<close> are fetched\<close>
  "TxnManager_init t = t\<lparr>tm_txn_id := UINT64_MAX, tm_batch_id := UINT64_MAX, tm_rc := RCOK,
     tm_requests := [], tm_return_id := UINT64_MAX, tm_txn_ready := True,
     tm_chkpt_cnt := 1, tm_chkpt_flag := False, tm_new_view_vote_cnt := 0,
     tm_generic_received := False, tm_proposal_received := False,
     tm_stats := (tm_stats t)\<lparr>work_queue_time_short := 0, cc_block_time_short := 0, cc_time_short := 0,
       msg_queue_time_short := 0, process_time_short := 0\<rparr>\<rparr>"

definition clear_shares :: "QuorumCertificate \<Rightarrow> QuorumCertificate" where
  "clear_shares q = q\<lparr>signature_share_map := []\<rparr>"

definition release_all_messages :: "env \<Rightarrow> u64 \<Rightarrow> TxnManager \<Rightarrow> TxnManager" where
  "release_all_messages e txn_id t =
     (if (txn_id + 1) mod get_batch_size e = 0
      then t\<lparr>tm_vote_new_view := [], tm_preparedQC := clear_shares (tm_preparedQC t),
             tm_precommittedQC := clear_shares (tm_precommittedQC t),
             tm_committedQC := clear_shares (tm_committedQC t),
             tm_genericQC := QC_release (tm_genericQC t), tm_highQC := QC_release (tm_highQC t)\<rparr>
      else t)"

definition TxnManager_release :: "env \<Rightarrow> TxnManager \<Rightarrow> TxnManager" where
  "TxnManager_release e t = release_all_messages e (tm_txn_id t)
     (t\<lparr>tm_requests := [], tm_txn_ready := True, tm_hash := '''', tm_prepared := False,
        tm_chkpt_cnt := 1, tm_chkpt_flag := False, tm_new_viewed := False, tm_new_view_vote_cnt := 0,
        tm_hash_voters := [], tm_generic_received := False, tm_proposal_received := False,
        tm_sync_sent := False\<rparr>)"

text \<open>Small methods of \<open>TxnManager\<close>.\<close>

definition set_hash :: "string \<Rightarrow> TxnManager \<Rightarrow> TxnManager" where
  "set_hash hsh t = t\<lparr>tm_hash := hsh, tm_hashSize := word_of_nat (length hsh)\<rparr>"

definition set_new_viewed :: "TxnManager \<Rightarrow> TxnManager" where
  "set_new_viewed t = t\<lparr>tm_new_viewed := True\<rparr>"

definition decr_chkpt_cnt :: "TxnManager \<Rightarrow> TxnManager" where
  "decr_chkpt_cnt t = t\<lparr>tm_chkpt_cnt := tm_chkpt_cnt t - 1\<rparr>"

text \<open>The compare-and-swap on \<open>txn_ready\<close>: did it succeed, and the object afterwards.\<close>

definition set_ready :: "TxnManager \<Rightarrow> bool \<times> TxnManager" where
  "set_ready t = (if tm_txn_ready t then (False, t) else (True, t\<lparr>tm_txn_ready := True\<rparr>))"

definition unset_ready :: "TxnManager \<Rightarrow> bool \<times> TxnManager" where
  "unset_ready t = (if tm_txn_ready t then (True, t\<lparr>tm_txn_ready := False\<rparr>) else (False, t))"

section \<open>The table\<close>

record TxnTable =
  tt_list :: "u64 \<Rightarrow> TxnManager list"
  tt_cnt :: "u64 \<Rightarrow> u64"
  tt_free :: "u64 \<Rightarrow> TxnManager list"

definition pool_size :: "env \<Rightarrow> u64" where
  "pool_size e = indexSize e + 1"

definition TxnTable_init :: TxnTable where
  "TxnTable_init = \<lparr>tt_list = (\<lambda>_. []), tt_cnt = (\<lambda>_. 0), tt_free = (\<lambda>_. [])\<rparr>"

definition is_matching_txn_node :: "u64 \<Rightarrow> u64 \<Rightarrow> TxnManager \<Rightarrow> bool" where
  "is_matching_txn_node txn_id batch_id t \<longleftrightarrow> tm_txn_id t = txn_id \<and> tm_batch_id t = batch_id"

text \<open>\<open>TxnManPool::get\<close> and \<open>put\<close>; a push onto the lock-free queue succeeds.\<close>

definition TxnManPool_get :: "env \<Rightarrow> u64 \<Rightarrow> TxnTable \<Rightarrow> TxnManager \<times> TxnTable" where
  "TxnManPool_get e txn_id t =
     (let pool_id = txn_id mod ucast (g_total_thread_cnt e)
      in case tt_free t pool_id of
           [] \<Rightarrow> (TxnManager_init (new_TxnManager e), t)
         | m # ms \<Rightarrow> (TxnManager_init m, t\<lparr>tt_free := (tt_free t)(pool_id := ms)\<rparr>))"

definition TxnManPool_put :: "env \<Rightarrow> u64 \<Rightarrow> TxnManager \<Rightarrow> TxnTable \<Rightarrow> TxnTable" where
  "TxnManPool_put e txn_id m t =
     (let pool_id = txn_id mod ucast (g_total_thread_cnt e)
      in t\<lparr>tt_free := (tt_free t)(pool_id := tt_free t pool_id @ [TxnManager_release e m])\<rparr>)"

definition tt_lookup :: "env \<Rightarrow> TxnTable \<Rightarrow> u64 \<Rightarrow> u64 \<Rightarrow> TxnManager option" where
  \<comment> \<open>the walk along the list\<close>
  "tt_lookup e t txn_id batch_id = find (is_matching_txn_node txn_id batch_id) (tt_list t (txn_id mod pool_size e))"

definition get_transaction_manager :: "env \<Rightarrow> u64 \<Rightarrow> u64 \<Rightarrow> TxnTable \<Rightarrow> TxnTable" where
  "get_transaction_manager e txn_id batch_id t =
     (case tt_lookup e t txn_id batch_id of
        Some m \<Rightarrow> t
      | None \<Rightarrow>
          (let pool_id = txn_id mod pool_size e;
               (m, t) = TxnManPool_get e txn_id t;
               m = m\<lparr>tm_txn_id := txn_id, tm_batch_id := batch_id, tm_propmsg := None\<rparr>
           in t\<lparr>tt_list := (tt_list t)(pool_id := tt_list t pool_id @ [m]),
                tt_cnt := (tt_cnt t)(pool_id := tt_cnt t pool_id + 1)\<rparr>))"

fun remove_first :: "('a \<Rightarrow> bool) \<Rightarrow> 'a list \<Rightarrow> 'a list" where
  "remove_first P [] = []"
| "remove_first P (x # xs) = (if P x then xs else x # remove_first P xs)"

definition release_transaction_manager :: "env \<Rightarrow> u64 \<Rightarrow> u64 \<Rightarrow> TxnTable \<Rightarrow> TxnTable" where
  "release_transaction_manager e txn_id batch_id t =
     (case tt_lookup e t txn_id batch_id of
        None \<Rightarrow> t
      | Some m \<Rightarrow>
          (let pool_id = txn_id mod pool_size e
           in TxnManPool_put e txn_id m
                (t\<lparr>tt_list := (tt_list t)(pool_id :=
                     remove_first (is_matching_txn_node txn_id batch_id) (tt_list t pool_id)),
                   tt_cnt := (tt_cnt t)(pool_id := tt_cnt t pool_id - 1)\<rparr>)))"

text \<open>A change of the object that the pointer to manager \<open>(txn_id, batch_id)\<close> denotes.\<close>

definition tt_update :: "env \<Rightarrow> u64 \<Rightarrow> u64 \<Rightarrow> (TxnManager \<Rightarrow> TxnManager) \<Rightarrow> TxnTable \<Rightarrow> TxnTable" where
  "tt_update e txn_id batch_id f t =
     t\<lparr>tt_list := (tt_list t)(txn_id mod pool_size e :=
        map (\<lambda>m. if is_matching_txn_node txn_id batch_id m then f m else m)
          (tt_list t (txn_id mod pool_size e)))\<rparr>"

section \<open>Invariants\<close>

text \<open>No hash, counted vote, request or progress flag of an earlier transaction is left in a manager.\<close>

definition clean :: "TxnManager \<Rightarrow> bool" where
  "clean t \<longleftrightarrow> tm_hash t = '''' \<and> tm_hash_voters t = [] \<and> tm_new_view_vote_cnt t = 0 \<and>
     \<not> tm_new_viewed t \<and> \<not> tm_sync_sent t \<and> \<not> tm_generic_received t \<and> \<not> tm_proposal_received t \<and>
     tm_requests t = [] \<and> tm_txn_ready t \<and> \<not> tm_chkpt_flag t"

text \<open>
  What \<open>release_all_messages\<close> adds for the last manager of a batch: the list of voters and what
  the certificates say of a batch are gone.
\<close>

definition wiped :: "TxnManager \<Rightarrow> bool" where
  "wiped t \<longleftrightarrow> tm_vote_new_view t = [] \<and> signature_share_map (tm_preparedQC t) = [] \<and>
     signature_share_map (tm_precommittedQC t) = [] \<and> signature_share_map (tm_committedQC t) = [] \<and>
     (\<forall>q \<in> {tm_genericQC t, tm_highQC t}. batch_hash q = '''' \<and> parent_hash q = '''' \<and> grand_hash q = '''' \<and>
        signature_share_map q = [])"

definition last_of_batch :: "env \<Rightarrow> TxnManager \<Rightarrow> bool" where
  "last_of_batch e t \<longleftrightarrow> (tm_txn_id t + 1) mod get_batch_size e = 0"

definition tt_inv :: "env \<Rightarrow> TxnTable \<Rightarrow> bool" where
  "tt_inv e t \<longleftrightarrow>
     (\<forall>i. distinct (map (\<lambda>m. (tm_txn_id m, tm_batch_id m)) (tt_list t i))) \<and>
     (\<forall>i. \<forall>m \<in> set (tt_list t i). tm_txn_id m mod pool_size e = i) \<and>
     (\<forall>i. tt_cnt t i = word_of_nat (length (tt_list t i))) \<and>
     (\<forall>i. \<forall>m \<in> set (tt_free t i). clean m \<and> (last_of_batch e m \<longrightarrow> wiped m))"

section \<open>Lemmas\<close>

lemma clean_new [simp]: "clean (new_TxnManager e)"
  by (simp add: clean_def new_TxnManager_def)

lemma clean_init [simp]: "clean m \<Longrightarrow> clean (TxnManager_init m)"
  by (simp add: clean_def TxnManager_init_def)

lemma clean_release [simp]: "clean (TxnManager_release e m)"
  by (simp add: clean_def TxnManager_release_def release_all_messages_def)

lemma clean_ids [simp]: "clean (m\<lparr>tm_txn_id := i, tm_batch_id := b, tm_propmsg := p\<rparr>) = clean m"
  by (simp add: clean_def)

lemma wiped_new [simp]: "wiped (new_TxnManager e)"
  by (simp add: wiped_def new_TxnManager_def new_QC_def)

lemma wiped_init [simp]:
  "wiped ((TxnManager_init m)\<lparr>tm_txn_id := i, tm_batch_id := b, tm_propmsg := p\<rparr>) = wiped m"
  by (simp add: wiped_def TxnManager_init_def)

lemma wiped_release [simp]: "last_of_batch e (TxnManager_release e m) \<Longrightarrow> wiped (TxnManager_release e m)"
  by (auto simp: wiped_def last_of_batch_def TxnManager_release_def release_all_messages_def clear_shares_def
      QC_release_def split: if_splits)

lemma TxnManPool_get_clean: "tt_inv e t \<Longrightarrow> TxnManPool_get e i t = (m, t') \<Longrightarrow> clean m"
  by (auto simp: TxnManPool_get_def Let_def tt_inv_def split: list.splits)
     (metis clean_init list.set_intros(1))

lemma TxnManPool_get_inv: "tt_inv e t \<Longrightarrow> TxnManPool_get e i t = (m, t') \<Longrightarrow> tt_inv e t' \<and> tt_list t' = tt_list t"
  by (auto simp: TxnManPool_get_def Let_def tt_inv_def split: list.splits if_splits)
     (metis list.set_intros(2))+

lemma tt_lookup_None:
  "tt_lookup e t i b = None \<longleftrightarrow> (\<forall>m \<in> set (tt_list t (i mod pool_size e)). (tm_txn_id m, tm_batch_id m) \<noteq> (i, b))"
  by (auto simp: tt_lookup_def find_None_iff is_matching_txn_node_def)

lemma tt_lookup_SomeD:
  "tt_lookup e t i b = Some m \<Longrightarrow> m \<in> set (tt_list t (i mod pool_size e)) \<and> tm_txn_id m = i \<and> tm_batch_id m = b"
  by (auto simp: tt_lookup_def find_Some_iff is_matching_txn_node_def)

lemma get_new:
  assumes "tt_lookup e t i b = None" and "TxnManPool_get e i t = (m, t')"
  shows "get_transaction_manager e i b t =
    t'\<lparr>tt_list := (tt_list t')(i mod pool_size e := tt_list t' (i mod pool_size e) @
          [m\<lparr>tm_txn_id := i, tm_batch_id := b, tm_propmsg := None\<rparr>]),
       tt_cnt := (tt_cnt t')(i mod pool_size e := tt_cnt t' (i mod pool_size e) + 1)\<rparr>"
  using assms by (simp add: get_transaction_manager_def Let_def)

lemma get_inv:
  assumes inv: "tt_inv e t"
  shows "tt_inv e (get_transaction_manager e i b t)"
proof (cases "tt_lookup e t i b")
  case (Some m)
  with inv show ?thesis by (simp add: get_transaction_manager_def)
next
  case None
  obtain m t' where get: "TxnManPool_get e i t = (m, t')" by force
  then have inv': "tt_inv e t'" and l: "tt_list t' = tt_list t" using TxnManPool_get_inv [OF inv] by auto
  have new: "\<forall>m \<in> set (tt_list t (i mod pool_size e)). (tm_txn_id m, tm_batch_id m) \<noteq> (i, b)"
    using None by (simp add: tt_lookup_None)
  show ?thesis
    unfolding get_new [OF None get] using inv' new
    by (auto simp: tt_inv_def l)
qed

lemma get_lookup_other:
  assumes "tt_inv e t" and "(j, c) \<noteq> (i, b)"
  shows "tt_lookup e (get_transaction_manager e i b t) j c = tt_lookup e t j c"
proof (cases "tt_lookup e t i b")
  case (Some m)
  then show ?thesis by (simp add: get_transaction_manager_def)
next
  case None
  obtain m t' where get: "TxnManPool_get e i t = (m, t')" by force
  have app: "find P (xs @ [x]) = find P xs" if "\<not> P x" for P and x :: TxnManager and xs
    using that by (induction xs) auto
  show ?thesis
    unfolding get_new [OF None get] using TxnManPool_get_inv [OF assms(1) get] assms(2)
    by (auto simp: tt_lookup_def app is_matching_txn_node_def)
qed

lemma get_lookup_same:
  assumes "tt_inv e t"
  shows "case tt_lookup e t i b of
      Some m \<Rightarrow> tt_lookup e (get_transaction_manager e i b t) i b = Some m
    | None \<Rightarrow> \<exists>m. tt_lookup e (get_transaction_manager e i b t) i b = Some m \<and> clean m"
proof (cases "tt_lookup e t i b")
  case (Some m)
  then show ?thesis by (simp add: get_transaction_manager_def)
next
  case None
  obtain m t' where get: "TxnManPool_get e i t = (m, t')" by force
  have app: "find P (xs @ [x]) = Some x" if "P x" and "find P xs = None" for P and x :: TxnManager and xs
    using that by (induction xs) (auto split: if_splits)
  have "clean m" by (rule TxnManPool_get_clean [OF assms get])
  moreover have "tt_list t' = tt_list t" using TxnManPool_get_inv [OF assms get] by simp
  ultimately show ?thesis
    unfolding get_new [OF None get] using None app
    by (simp add: tt_lookup_def is_matching_txn_node_def)
qed

text \<open>Where the manager comes from that is created on demand.\<close>

lemma get_lookup_new:
  assumes "tt_inv e t" and "tt_lookup e t i b = None"
  shows "\<exists>old. tt_lookup e (get_transaction_manager e i b t) i b =
      Some ((TxnManager_init old)\<lparr>tm_txn_id := i, tm_batch_id := b, tm_propmsg := None\<rparr>) \<and>
    (old = new_TxnManager e \<or> old \<in> set (tt_free t (i mod ucast (g_total_thread_cnt e))))"
proof -
  obtain m t' where get: "TxnManPool_get e i t = (m, t')" by force
  have app: "find P (xs @ [x]) = Some x" if "P x" and "find P xs = None" for P and x :: TxnManager and xs
    using that by (induction xs) (auto split: if_splits)
  obtain old where old: "m = TxnManager_init old"
      "old = new_TxnManager e \<or> old \<in> set (tt_free t (i mod ucast (g_total_thread_cnt e)))"
    using get that by (auto simp: TxnManPool_get_def Let_def split: list.splits)
  moreover have "tt_list t' = tt_list t" using TxnManPool_get_inv [OF assms(1) get] by simp
  ultimately show ?thesis
    unfolding get_new [OF assms(2) get] using assms(2) app
    by (intro exI [of _ old]) (simp add: tt_lookup_def is_matching_txn_node_def)
qed

lemma find_map_same:
  assumes "\<And>m. P (f m) = P m"
  shows "find P (map (\<lambda>m. if P m then f m else m) xs) = map_option f (find P xs)"
  using assms by (induction xs) simp_all

lemma find_map_other:
  assumes "\<And>m. P m \<Longrightarrow> \<not> Q m" and "\<And>m. P m \<Longrightarrow> \<not> Q (f m)"
  shows "find Q (map (\<lambda>m. if P m then f m else m) xs) = find Q xs"
  using assms by (induction xs) simp_all

lemma update_lookup_same:
  assumes "\<And>m. tm_txn_id (f m) = tm_txn_id m" and "\<And>m. tm_batch_id (f m) = tm_batch_id m"
  shows "tt_lookup e (tt_update e i b f t) i b = map_option f (tt_lookup e t i b)"
  using find_map_same [of "is_matching_txn_node i b" f] assms
  by (simp add: tt_lookup_def tt_update_def is_matching_txn_node_def)

lemma update_lookup_other:
  assumes "\<And>m. tm_txn_id (f m) = tm_txn_id m" and "\<And>m. tm_batch_id (f m) = tm_batch_id m" and "(j, c) \<noteq> (i, b)"
  shows "tt_lookup e (tt_update e i b f t) j c = tt_lookup e t j c"
proof -
  have "find (is_matching_txn_node j c) (map (\<lambda>m. if is_matching_txn_node i b m then f m else m) xs) =
      find (is_matching_txn_node j c) xs" for xs
    using assms by (intro find_map_other) (auto simp: is_matching_txn_node_def)
  then show ?thesis by (simp add: tt_lookup_def tt_update_def)
qed

lemma update_inv:
  assumes "\<And>m. tm_txn_id (f m) = tm_txn_id m" and "\<And>m. tm_batch_id (f m) = tm_batch_id m" and "tt_inv e t"
  shows "tt_inv e (tt_update e i b f t)"
proof -
  let ?g = "\<lambda>m. if is_matching_txn_node i b m then f m else m"
  have "map (\<lambda>m. (tm_txn_id m, tm_batch_id m)) (map ?g xs) = map (\<lambda>m. (tm_txn_id m, tm_batch_id m)) xs" for xs
    using assms(1,2) by (induction xs) auto
  with assms show ?thesis
    by (auto simp: tt_inv_def tt_update_def simp del: map_map)
qed

lemma remove_first_filter:
  assumes "distinct (map g xs)" and "\<And>x. P x \<longleftrightarrow> g x = k"
  shows "remove_first P xs = filter (\<lambda>x. \<not> P x) xs"
  using assms(1)
proof (induction xs)
  case (Cons x xs)
  have "filter (\<lambda>y. \<not> P y) xs = xs" if "P x"
    using that Cons.prems assms(2) by (intro filter_True) (force simp: image_iff)
  with Cons show ?case by simp
qed simp

lemma release_eq:
  assumes "tt_inv e t" and "tt_lookup e t i b = Some m"
  shows "release_transaction_manager e i b t = TxnManPool_put e i m
    (t\<lparr>tt_list := (tt_list t)(i mod pool_size e :=
         filter (\<lambda>m. \<not> is_matching_txn_node i b m) (tt_list t (i mod pool_size e))),
       tt_cnt := (tt_cnt t)(i mod pool_size e := tt_cnt t (i mod pool_size e) - 1)\<rparr>)"
  using assms remove_first_filter [of "\<lambda>m. (tm_txn_id m, tm_batch_id m)"
      "tt_list t (i mod pool_size e)" "is_matching_txn_node i b" "(i, b)"]
  by (simp add: release_transaction_manager_def Let_def tt_inv_def is_matching_txn_node_def)

lemma release_lookup:
  assumes "tt_inv e t"
  shows "tt_lookup e (release_transaction_manager e i b t) j c = (if (j, c) = (i, b) then None else tt_lookup e t j c)"
proof (cases "tt_lookup e t i b")
  case None
  then show ?thesis by (auto simp: release_transaction_manager_def)
next
  case (Some m)
  have f: "find Q (filter R xs) = find Q xs" if "\<And>x. Q x \<Longrightarrow> R x" for Q R and xs :: "TxnManager list"
    using that by (induction xs) auto
  have "find (is_matching_txn_node i b) (filter (\<lambda>m. \<not> is_matching_txn_node i b m) xs) = None" for xs
    by (simp add: find_None_iff)
  then show ?thesis
    unfolding release_eq [OF assms Some]
    using f [of "is_matching_txn_node j c" "\<lambda>m. \<not> is_matching_txn_node i b m"]
    by (auto simp: tt_lookup_def TxnManPool_put_def Let_def is_matching_txn_node_def)
qed

lemma length_filter_distinct:
  assumes "distinct (map g xs)" and "\<And>x. P x \<longleftrightarrow> g x = k" and "x \<in> set xs" and "P x"
  shows "length xs = Suc (length (filter (\<lambda>x. \<not> P x) xs))"
proof -
  have "x \<in> set xs \<Longrightarrow> P x \<Longrightarrow> length xs = Suc (length (remove_first P xs))"
    by (induction xs) auto
  with assms show ?thesis by (simp add: remove_first_filter [of g xs P k])
qed

lemma release_inv:
  assumes "tt_inv e t"
  shows "tt_inv e (release_transaction_manager e i b t)"
proof (cases "tt_lookup e t i b")
  case None
  with assms show ?thesis by (simp add: release_transaction_manager_def)
next
  case (Some m)
  let ?q = "i mod pool_size e"
  have "length (tt_list t ?q) = Suc (length (filter (\<lambda>m. \<not> is_matching_txn_node i b m) (tt_list t ?q)))"
    using assms tt_lookup_SomeD [OF Some]
    by (intro length_filter_distinct [where g = "\<lambda>m. (tm_txn_id m, tm_batch_id m)" and k = "(i, b)" and x = m])
       (auto simp: tt_inv_def is_matching_txn_node_def)
  with assms show ?thesis
    unfolding release_eq [OF assms Some]
    by (auto simp: tt_inv_def TxnManPool_put_def Let_def distinct_map_filter)
qed

section \<open>The interface of the table\<close>

text \<open>
  What the worker threads rely on, for the batch identifier 0 that they all use: a
  finite map from identifiers to managers that creates a clean manager on demand.
\<close>

locale txn_store =
  fixes inv :: "'t \<Rightarrow> bool"
    and lookup :: "'t \<Rightarrow> u64 \<Rightarrow> TxnManager option"
    and get :: "u64 \<Rightarrow> 't \<Rightarrow> 't"
    and update :: "u64 \<Rightarrow> (TxnManager \<Rightarrow> TxnManager) \<Rightarrow> 't \<Rightarrow> 't"
    and release :: "u64 \<Rightarrow> 't \<Rightarrow> 't"
    and keeps_id :: "(TxnManager \<Rightarrow> TxnManager) \<Rightarrow> bool"
  assumes get_inv: "inv t \<Longrightarrow> inv (get i t)"
    and update_inv: "inv t \<Longrightarrow> keeps_id f \<Longrightarrow> inv (update i f t)"
    and release_inv: "inv t \<Longrightarrow> inv (release i t)"
    and get_present: "inv t \<Longrightarrow> lookup t i = Some m \<Longrightarrow> lookup (get i t) i = Some m"
    and get_absent: "inv t \<Longrightarrow> lookup t i = None \<Longrightarrow> \<exists>m. lookup (get i t) i = Some m \<and> clean m"
    and get_other: "inv t \<Longrightarrow> j \<noteq> i \<Longrightarrow> lookup (get i t) j = lookup t j"
    and update_same: "keeps_id f \<Longrightarrow> lookup (update i f t) i = map_option f (lookup t i)"
    and update_other: "keeps_id f \<Longrightarrow> j \<noteq> i \<Longrightarrow> lookup (update i f t) j = lookup t j"
    and release_lookup: "inv t \<Longrightarrow> lookup (release i t) j = (if j = i then None else lookup t j)"
begin

text \<open>A manager survives everything but its own release.\<close>

lemma get_keeps: "inv t \<Longrightarrow> lookup t j = Some m \<Longrightarrow> lookup (get i t) j = Some m"
  using get_present get_other by metis

lemma get_defined: "inv t \<Longrightarrow> \<exists>m. lookup (get i t) i = Some m"
  using get_present get_absent by (cases "lookup t i") blast+

text \<open>A manager that is released and fetched again carries nothing over.\<close>

lemma recycle_clean: "inv t \<Longrightarrow> \<exists>m. lookup (get i (release i t)) i = Some m \<and> clean m"
  by (intro get_absent release_inv) (simp_all add: release_lookup)

end

definition keeps_ids :: "(TxnManager \<Rightarrow> TxnManager) \<Rightarrow> bool" where
  "keeps_ids f \<longleftrightarrow> (\<forall>m. tm_txn_id (f m) = tm_txn_id m \<and> tm_batch_id (f m) = tm_batch_id m)"

interpretation tt: txn_store "tt_inv e" "\<lambda>t i. tt_lookup e t i 0" "\<lambda>i. get_transaction_manager e i 0"
    "\<lambda>i. tt_update e i 0" "\<lambda>i. release_transaction_manager e i 0" keeps_ids for e
proof (unfold_locales, goal_cases)
  case (4 t i m)
  with get_lookup_same [OF 4(1), of i 0] show ?case by simp
next
  case (5 t i)
  with get_lookup_same [OF 5(1), of i 0] show ?case by simp
qed (simp_all add: get_inv update_inv release_inv get_lookup_other update_lookup_same update_lookup_other
      release_lookup keeps_ids_def)

end
