(* ===== verification/Database.thy ===== *)
theory Database
  imports Prelude
begin

text \<open>
  The key-value store behind \<open>DataBase\<close>: \<open>InMemoryDB\<close> of \<^verbatim>\<open>db/in_memory_db.cpp\<close>, a
  hash map of tables, each a hash map of strings.  \<open>operator[]\<close> inserts an empty table
  or an empty string under a missing key, so even \<open>Get\<close> changes the object.  The locale
  \<open>kv_store\<close> is what the transactions rely on.
\<close>

record InMemoryDB =
  db_tables :: "string \<rightharpoonup> string \<rightharpoonup> string"
  activeTable :: string

definition InMemoryDB_Open :: "InMemoryDB \<Rightarrow> int \<times> InMemoryDB" where
  "InMemoryDB_Open d = (0, d\<lparr>db_tables := Map.empty, activeTable := ''table1''\<rparr>)"

definition table_at :: "string \<Rightarrow> InMemoryDB \<Rightarrow> string \<rightharpoonup> string" where
  "table_at n d = (case db_tables d n of None \<Rightarrow> Map.empty | Some t \<Rightarrow> t)"

definition InMemoryDB_Get :: "string \<Rightarrow> InMemoryDB \<Rightarrow> string \<times> InMemoryDB" where
  "InMemoryDB_Get key d =
     (let t = table_at (activeTable d) d
      in case t key of
           Some v \<Rightarrow> (v, d)
         | None \<Rightarrow> ('''', d\<lparr>db_tables := (db_tables d)(activeTable d \<mapsto> t(key \<mapsto> ''''))\<rparr>))"

definition InMemoryDB_Put :: "string \<Rightarrow> string \<Rightarrow> InMemoryDB \<Rightarrow> string \<times> InMemoryDB" where
  "InMemoryDB_Put key v d =
     (let (oldValue, d) = InMemoryDB_Get key d
      in (oldValue, d\<lparr>db_tables := (db_tables d)(activeTable d \<mapsto> (table_at (activeTable d) d)(key \<mapsto> v))\<rparr>))"

definition InMemoryDB_SelectTable :: "string \<Rightarrow> InMemoryDB \<Rightarrow> int \<times> InMemoryDB" where
  "InMemoryDB_SelectTable tableName d =
     (if tableName = activeTable d then (1, d) else (0, d\<lparr>activeTable := tableName\<rparr>))"

section \<open>The interface\<close>

text \<open>
  A key-value store: reads return the last value written to the key (\<open>''''\<close> when there
  is none), and neither reads nor writes disturb other keys.
\<close>

locale kv_store =
  fixes get :: "string \<Rightarrow> 's \<Rightarrow> string \<times> 's"
    and put :: "string \<Rightarrow> string \<Rightarrow> 's \<Rightarrow> string \<times> 's"
    and content :: "'s \<Rightarrow> string \<Rightarrow> string"
  assumes get_value: "fst (get k s) = content s k"
    and get_content: "content (snd (get k s)) = content s"
    and put_value: "fst (put k v s) = content s k"
    and put_content: "content (snd (put k v s)) = (content s)(k := v)"
begin

definition put_all :: "(string \<times> string) list \<Rightarrow> 's \<Rightarrow> 's" where
  "put_all kvs s = fold (\<lambda>(k, v) s. snd (put k v s)) kvs s"

lemma put_all_append: "put_all (xs @ ys) s = put_all ys (put_all xs s)"
  by (simp add: put_all_def)

lemma put_all_content: "content (put_all kvs s) = fold (\<lambda>(k, v) f. f(k := v)) kvs (content s)"
  unfolding put_all_def by (induction kvs arbitrary: s) (auto simp: put_content)

text \<open>The last write to a key wins.\<close>

lemma fold_upd: "fold (\<lambda>(k, v) f. f(k := v)) kvs f k = (case map_of (rev kvs) k of None \<Rightarrow> f k | Some v \<Rightarrow> v)"
  by (induction kvs arbitrary: f) (auto simp: map_add_def split: option.splits)

lemma put_all_last: "content (put_all kvs s) k = (case map_of (rev kvs) k of None \<Rightarrow> content s k | Some v \<Rightarrow> v)"
  by (simp add: put_all_content fold_upd)

lemma put_all_read: "fst (get k (put_all kvs s)) = (case map_of (rev kvs) k of None \<Rightarrow> content s k | Some v \<Rightarrow> v)"
  by (simp add: get_value put_all_last)

end

text \<open>The abstract content of the active table.\<close>

definition db_content :: "InMemoryDB \<Rightarrow> string \<Rightarrow> string" where
  "db_content d k = (case table_at (activeTable d) d k of None \<Rightarrow> '''' | Some v \<Rightarrow> v)"

lemma Get_active [simp]: "activeTable (snd (InMemoryDB_Get k d)) = activeTable d"
  by (simp add: InMemoryDB_Get_def Let_def split: option.splits)

lemma table_at_upd [simp]: "table_at n (d\<lparr>db_tables := (db_tables d)(n \<mapsto> t)\<rparr>) = t"
  by (simp add: table_at_def)

lemma Get_content: "db_content (snd (InMemoryDB_Get k d)) = db_content d"
  by (auto simp: InMemoryDB_Get_def db_content_def Let_def fun_eq_iff split: option.splits)

lemma Put_content: "db_content (snd (InMemoryDB_Put k v d)) = (db_content d)(k := v)"
proof -
  obtain old d' where g: "InMemoryDB_Get k d = (old, d')" by force
  then have "db_content d' = db_content d" using Get_content [of k d] by simp
  then show ?thesis
    by (auto simp: InMemoryDB_Put_def g db_content_def fun_eq_iff split: option.splits)
qed

interpretation kv: kv_store InMemoryDB_Get InMemoryDB_Put db_content
proof (unfold_locales, goal_cases)
  case (1 k s)
  show ?case by (simp add: InMemoryDB_Get_def db_content_def Let_def split: option.splits)
next
  case (3 k v s)
  show ?case
    by (simp add: InMemoryDB_Put_def InMemoryDB_Get_def db_content_def Let_def split: option.splits)
qed (simp_all add: Get_content Put_content)

end
