(* ===== verification/Node_State.thy ===== *)
theory Node_State
  imports Txn_Table Database
begin

text \<open>
  The mutable process-wide state of a replica: the global variables of
  \<^verbatim>\<open>system/global.cpp\<close> with their accessor functions, the queues of
  \<^verbatim>\<open>system/work_queue.h\<close>, the transaction table, the keys, the key-value store, and
  the calls made to the message queue (\<open>outbox\<close>, in order).

  Every handler runs as one atomic step: the mutexes around single variables, which
  only make these accessors atomic, are not represented.  A semaphore is its value.
  Array arguments are instance or thread numbers; an array is a function on them.
\<close>

record node =
  newView :: "u64 \<Rightarrow> u64"
  hash_to_QC :: "u64 \<Rightarrow> string \<rightharpoonup> QuorumCertificate"
  hash_to_txnid :: "u64 \<Rightarrow> string \<rightharpoonup> u64"
  txnid_to_hash :: "u64 \<Rightarrow> u64 \<rightharpoonup> string"
  g_preparedQC :: "u64 \<Rightarrow> QuorumCertificate"
  g_lockedQC :: "u64 \<Rightarrow> QuorumCertificate"
  g_last_stable_new_viewed :: "u64 \<Rightarrow> u32"
  g_last_stable_chkpt :: u32
  last_deleted_txn_man :: u64
  txn_chkpt_holding :: "u64 \<Rightarrow> u64"
  is_chkpt_holding :: "u64 \<Rightarrow> bool"
  is_chkpt_stalled :: "u64 \<Rightarrow> bool"
  chkpt_semaphore :: "u64 \<Rightarrow> nat"
  g_next_index :: u64
  expectedExecuteCount :: u64
  execute_msg_heap :: "u64 list"
  next_send_view :: "u64 \<Rightarrow> u64"
  last_sent_view :: "u64 \<Rightarrow> u64"
  incomplete_proposal_cnt :: "u64 \<Rightarrow> u64"
  expectedInstance :: u64
  proposalInstance :: u64
  work_queue :: "u64 \<Rightarrow> msg list"
  new_txn_queue :: "u64 \<Rightarrow> msg list"
  temp_queue :: "u64 \<Rightarrow> msg list"
  prior_queue :: "u64 \<Rightarrow> msg list"
  prior_cnt :: "u64 \<Rightarrow> u64"
  clb_cnt :: "u64 \<Rightarrow> u64"
  clb_idx :: u64
  worker_queue_semaphore :: "u64 \<Rightarrow> nat"
  new_txn_semaphore :: nat
  proposal_semaphore :: nat
  execute_semaphore :: nat
  txn_table :: TxnTable
  keys :: keystore
  secp_keys :: "u64 set"
  receivedKeys :: "u64 \<Rightarrow> u64"
  db :: InMemoryDB
  outbox :: "(msg \<times> u64 list) list"

section \<open>Accessors of global.cpp\<close>

definition get_current_view :: "node \<Rightarrow> u64 \<Rightarrow> u64" where
  "get_current_view s thd_id = newView s thd_id"

definition inc_next_index :: "u64 \<Rightarrow> node \<Rightarrow> node" where
  "inc_next_index val s = s\<lparr>g_next_index := g_next_index s + val\<rparr>"

definition curr_next_index :: "node \<Rightarrow> u64" where
  "curr_next_index s = g_next_index s"

text \<open>The variable is 32 bits wide: the identifier is truncated.\<close>

definition set_curr_new_viewed :: "u64 \<Rightarrow> u64 \<Rightarrow> node \<Rightarrow> node" where
  "set_curr_new_viewed txn_id instance_id s =
     s\<lparr>g_last_stable_new_viewed := (g_last_stable_new_viewed s)(instance_id := ucast txn_id)\<rparr>"

definition get_curr_new_viewed :: "node \<Rightarrow> u64 \<Rightarrow> u64" where
  "get_curr_new_viewed s instance_id = ucast (g_last_stable_new_viewed s instance_id)"

definition get_curr_chkpt :: "node \<Rightarrow> u64" where
  "get_curr_chkpt s = ucast (g_last_stable_chkpt s)"

definition set_curr_chkpt :: "u64 \<Rightarrow> node \<Rightarrow> node" where
  "set_curr_chkpt txn_id s =
     (if txn_id > ucast (g_last_stable_chkpt s) then s\<lparr>g_last_stable_chkpt := ucast txn_id\<rparr> else s)"

definition get_last_deleted_txn :: "node \<Rightarrow> u64" where
  "get_last_deleted_txn s = last_deleted_txn_man s"

definition inc_last_deleted_txn :: "u64 \<Rightarrow> node \<Rightarrow> node" where
  "inc_last_deleted_txn del_range s =
     (if del_range > last_deleted_txn_man s then s\<lparr>last_deleted_txn_man := del_range\<rparr> else s)"

text \<open>The min-heap of execute messages is an ascending list.\<close>

definition execute_msg_heap_push :: "u64 \<Rightarrow> node \<Rightarrow> node" where
  "execute_msg_heap_push txn_id s = s\<lparr>execute_msg_heap := insort txn_id (execute_msg_heap s)\<rparr>"

definition execute_msg_heap_top :: "env \<Rightarrow> node \<Rightarrow> u64" where
  "execute_msg_heap_top e s = (case execute_msg_heap s of [] \<Rightarrow> empty_heap_top e | x # _ \<Rightarrow> x)"

definition execute_msg_heap_pop :: "node \<Rightarrow> node" where
  "execute_msg_heap_pop s = s\<lparr>execute_msg_heap := tl (execute_msg_heap s)\<rparr>"

definition get_expectedExecuteCount :: "node \<Rightarrow> u64" where
  "get_expectedExecuteCount s = expectedExecuteCount s"

definition set_expectedExecuteCount :: "env \<Rightarrow> u64 \<Rightarrow> node \<Rightarrow> node" where
  "set_expectedExecuteCount e val s =
     (let s = execute_msg_heap_pop (s\<lparr>expectedExecuteCount := val\<rparr>)
      in if val = execute_msg_heap_top e s then s\<lparr>execute_semaphore := execute_semaphore s + 1\<rparr> else s)"

definition SafeNode :: "node \<Rightarrow> QuorumCertificate \<Rightarrow> u64 \<Rightarrow> bool" where
  "SafeNode s highQC instance_id =
     (let l = g_lockedQC s instance_id
      in if viewNumber highQC = viewNumber l \<and> batch_hash highQC = batch_hash l then True
         else if viewNumber highQC > viewNumber l \<or> (viewNumber highQC = 0 \<and> genesis l) then True
         else False)"

definition inc_next_send_view :: "env \<Rightarrow> u64 \<Rightarrow> node \<Rightarrow> node" where
  "inc_next_send_view e i s = s\<lparr>next_send_view := (next_send_view s)(i := next_send_view s i + node_cnt e)\<rparr>"

definition get_next_send_view :: "node \<Rightarrow> u64 \<Rightarrow> u64" where
  "get_next_send_view s i = next_send_view s i"

definition set_last_sent_view :: "u64 \<Rightarrow> u64 \<Rightarrow> node \<Rightarrow> node" where
  "set_last_sent_view i val s = s\<lparr>last_sent_view := (last_sent_view s)(i := val)\<rparr>"

definition get_last_sent_view :: "node \<Rightarrow> u64 \<Rightarrow> u64" where
  "get_last_sent_view s i = last_sent_view s i"

definition inc_incomplete_proposal_cnt :: "u64 \<Rightarrow> node \<Rightarrow> node" where
  "inc_incomplete_proposal_cnt i s =
     s\<lparr>incomplete_proposal_cnt := (incomplete_proposal_cnt s)(i := incomplete_proposal_cnt s i + 1)\<rparr>"

definition dec_incomplete_proposal_cnt :: "u64 \<Rightarrow> node \<Rightarrow> node" where
  "dec_incomplete_proposal_cnt i s =
     s\<lparr>incomplete_proposal_cnt := (incomplete_proposal_cnt s)(i := incomplete_proposal_cnt s i - 1)\<rparr>"

definition get_incomplete_proposal_cnt :: "node \<Rightarrow> u64 \<Rightarrow> u64" where
  "get_incomplete_proposal_cnt s i = incomplete_proposal_cnt s i"

text \<open>\<open>operator[]\<close> of the maps: a missing key is inserted with the default value.\<close>

definition hash_to_QC_at :: "u64 \<Rightarrow> string \<Rightarrow> node \<Rightarrow> QuorumCertificate \<times> node" where
  "hash_to_QC_at i h s =
     (case hash_to_QC s i h of
        Some q \<Rightarrow> (q, s)
      | None \<Rightarrow> (new_QC 0, s\<lparr>hash_to_QC := (hash_to_QC s)(i := (hash_to_QC s i)(h \<mapsto> new_QC 0))\<rparr>))"

definition put_hash_to_QC :: "u64 \<Rightarrow> string \<Rightarrow> QuorumCertificate \<Rightarrow> node \<Rightarrow> node" where
  "put_hash_to_QC i h q s = s\<lparr>hash_to_QC := (hash_to_QC s)(i := (hash_to_QC s i)(h \<mapsto> q))\<rparr>"

definition erase_hash_to_QC :: "u64 \<Rightarrow> string \<Rightarrow> node \<Rightarrow> node" where
  "erase_hash_to_QC i h s = s\<lparr>hash_to_QC := (hash_to_QC s)(i := (hash_to_QC s i)(h := None))\<rparr>"

definition hash_to_txnid_at :: "u64 \<Rightarrow> string \<Rightarrow> node \<Rightarrow> u64 \<times> node" where
  "hash_to_txnid_at i h s =
     (case hash_to_txnid s i h of
        Some t \<Rightarrow> (t, s)
      | None \<Rightarrow> (0, s\<lparr>hash_to_txnid := (hash_to_txnid s)(i := (hash_to_txnid s i)(h \<mapsto> 0))\<rparr>))"

definition put_hash_to_txnid :: "u64 \<Rightarrow> string \<Rightarrow> u64 \<Rightarrow> node \<Rightarrow> node" where
  "put_hash_to_txnid i h t s = s\<lparr>hash_to_txnid := (hash_to_txnid s)(i := (hash_to_txnid s i)(h \<mapsto> t))\<rparr>"

definition insert_hash_to_txnid :: "u64 \<Rightarrow> string \<Rightarrow> u64 \<Rightarrow> node \<Rightarrow> node" where
  \<comment> \<open>\<open>insert\<close> keeps an existing entry\<close>
  "insert_hash_to_txnid i h t s =
     (if hash_to_txnid s i h = None then put_hash_to_txnid i h t s else s)"

definition erase_hash_to_txnid :: "u64 \<Rightarrow> string \<Rightarrow> node \<Rightarrow> node" where
  "erase_hash_to_txnid i h s = s\<lparr>hash_to_txnid := (hash_to_txnid s)(i := (hash_to_txnid s i)(h := None))\<rparr>"

definition insert_txnid_to_hash :: "u64 \<Rightarrow> u64 \<Rightarrow> string \<Rightarrow> node \<Rightarrow> node" where
  "insert_txnid_to_hash i t h s =
     (if txnid_to_hash s i t = None
      then s\<lparr>txnid_to_hash := (txnid_to_hash s)(i := (txnid_to_hash s i)(t \<mapsto> h))\<rparr> else s)"

definition erase_txnid_to_hash :: "u64 \<Rightarrow> u64 \<Rightarrow> node \<Rightarrow> node" where
  "erase_txnid_to_hash i t s = s\<lparr>txnid_to_hash := (txnid_to_hash s)(i := (txnid_to_hash s i)(t := None))\<rparr>"

definition get_next_idx_hotstuff :: "env \<Rightarrow> u64 \<Rightarrow> node \<Rightarrow> u64 \<times> node" where
  "get_next_idx_hotstuff e i s =
     (if genesis (g_preparedQC s i) then (i, s)
      else case hash_to_txnid_at i (batch_hash (g_preparedQC s i)) s of
             (t, s) \<Rightarrow> (t div get_batch_size e + get_totInstances e, s))"

definition set_g_preparedQC :: "QuorumCertificate \<Rightarrow> u64 \<Rightarrow> u64 \<Rightarrow> node \<Rightarrow> node" where
  "set_g_preparedQC q instance_id txn_id s =
     (if viewNumber q > viewNumber (g_preparedQC s instance_id) \<or> genesis (g_preparedQC s instance_id)
      then s\<lparr>g_preparedQC := (g_preparedQC s)(instance_id := q)\<rparr> else s)"

definition set_g_lockedQC :: "QuorumCertificate \<Rightarrow> u64 \<Rightarrow> u64 \<Rightarrow> node \<Rightarrow> node" where
  "set_g_lockedQC q instance_id txn_id s =
     (if viewNumber q > viewNumber (g_lockedQC s instance_id) \<or> genesis (g_lockedQC s instance_id)
      then s\<lparr>g_lockedQC := (g_lockedQC s)(instance_id := q)\<rparr> else s)"

section \<open>Transaction managers of the node\<close>

definition get_tman :: "env \<Rightarrow> u64 \<Rightarrow> node \<Rightarrow> node" where
  \<comment> \<open>\<open>WorkerThread::get_transaction_manager(txn_id, 0)\<close>\<close>
  "get_tman e txn_id s = s\<lparr>txn_table := get_transaction_manager e txn_id 0 (txn_table s)\<rparr>"

definition release_txn_man :: "env \<Rightarrow> u64 \<Rightarrow> node \<Rightarrow> node" where
  "release_txn_man e txn_id s = s\<lparr>txn_table := release_transaction_manager e txn_id 0 (txn_table s)\<rparr>"

definition upd_tman :: "env \<Rightarrow> u64 \<Rightarrow> (TxnManager \<Rightarrow> TxnManager) \<Rightarrow> node \<Rightarrow> node" where
  "upd_tman e txn_id f s = s\<lparr>txn_table := tt_update e txn_id 0 f (txn_table s)\<rparr>"

text \<open>The object behind a pointer obtained from \<open>get_tman\<close>; the default is never reached then.\<close>

definition tman :: "env \<Rightarrow> node \<Rightarrow> u64 \<Rightarrow> TxnManager" where
  "tman e s txn_id = (case tt_lookup e (txn_table s) txn_id 0 of Some m \<Rightarrow> m | None \<Rightarrow> new_TxnManager e)"

section \<open>Initial state\<close>

text \<open>
  Static initialisers and the loop at the end of \<open>parser()\<close>; \<open>k\<close> holds the keys that
  \<open>main\<close> generates.
\<close>

definition genesis_QC :: "env \<Rightarrow> QCType \<Rightarrow> QuorumCertificate" where
  "genesis_QC e ty = (new_QC (g_node_cnt e))\<lparr>qc_type := ty\<rparr>"

text \<open>\<open>main\<close> opens the store and writes one entry.\<close>

definition init_db :: InMemoryDB where
  "init_db = snd (InMemoryDB_Put ''K1'' ''V1''
     (snd (InMemoryDB_Open \<lparr>db_tables = Map.empty, activeTable = ''''\<rparr>)))"

definition init_proposals :: "env \<Rightarrow> nat" where
  "init_proposals e = length (filter (\<lambda>j. \<exists>i \<in> set (map word_of_nat [0..<unat (ROUNDS_IN_ADVANCE e) + 1]).
     (i + j) mod node_cnt e = node_id e) (map word_of_nat [0..<unat (totInstances e)]))"

definition init_node :: "env \<Rightarrow> keystore \<Rightarrow> node" where
  "init_node e k =
    \<lparr>newView = (\<lambda>_. 0),
     hash_to_QC = (\<lambda>i. if i < get_totInstances e then [batch_hash (genesis_QC e PRECOMMIT) \<mapsto> genesis_QC e PRECOMMIT]
                       else Map.empty),
     hash_to_txnid = (\<lambda>_. Map.empty), txnid_to_hash = (\<lambda>_. Map.empty),
     g_preparedQC = (\<lambda>i. if i < get_totInstances e then genesis_QC e PREPARE else new_QC 0),
     g_lockedQC = (\<lambda>i. if i < get_totInstances e then genesis_QC e PRECOMMIT else new_QC 0),
     g_last_stable_new_viewed = (\<lambda>_. 0), g_last_stable_chkpt = 0, last_deleted_txn_man = 0,
     txn_chkpt_holding = (\<lambda>_. 0), is_chkpt_holding = (\<lambda>_. False),
     is_chkpt_stalled = (\<lambda>_. False), chkpt_semaphore = (\<lambda>_. 0),
     g_next_index = 0, expectedExecuteCount = get_batch_size e - 2, execute_msg_heap = [],
     next_send_view = (\<lambda>i. if i < get_totInstances e
        then ucast ((g_node_cnt e + g_node_id e - ucast i) mod g_node_cnt e) else 0),
     last_sent_view = (\<lambda>_. 0), incomplete_proposal_cnt = (\<lambda>_. 0),
     expectedInstance = 0, proposalInstance = 0,
     work_queue = (\<lambda>_. []), new_txn_queue = (\<lambda>_. []), temp_queue = (\<lambda>_. []), prior_queue = (\<lambda>_. []),
     prior_cnt = (\<lambda>_. 0), clb_cnt = (\<lambda>_. 0), clb_idx = node_id e,
     worker_queue_semaphore = (\<lambda>_. 0),
     new_txn_semaphore = (if node_id e < totInstances e then 1 else 0),
     proposal_semaphore = init_proposals e, execute_semaphore = 0,
     txn_table = TxnTable_init, keys = k, secp_keys = {node_id e},
     receivedKeys = (\<lambda>i. if i < ucast (g_node_cnt e + g_client_node_cnt e) \<and> i \<noteq> node_id e then 2 else 0),
     db = init_db, outbox = []\<rparr>"

section \<open>Lemmas: the managers of a node\<close>

text \<open>Is there a manager for this identifier?\<close>

definition has_tman :: "env \<Rightarrow> node \<Rightarrow> u64 \<Rightarrow> bool" where
  "has_tman e s i \<longleftrightarrow> tt_lookup e (txn_table s) i 0 \<noteq> None"

abbreviation table_inv :: "env \<Rightarrow> node \<Rightarrow> bool" where
  "table_inv e s \<equiv> tt_inv e (txn_table s)"

lemma table_inv_get [simp]: "table_inv e s \<Longrightarrow> table_inv e (get_tman e i s)"
  by (simp add: get_tman_def tt.get_inv)

lemma table_inv_upd [simp]: "table_inv e s \<Longrightarrow> keeps_ids f \<Longrightarrow> table_inv e (upd_tman e i f s)"
  by (simp add: upd_tman_def tt.update_inv)

lemma table_inv_release [simp]: "table_inv e s \<Longrightarrow> table_inv e (release_txn_man e i s)"
  by (simp add: release_txn_man_def tt.release_inv)

lemma has_tman_get [simp]: "table_inv e s \<Longrightarrow> has_tman e (get_tman e i s) j \<longleftrightarrow> j = i \<or> has_tman e s j"
proof -
  assume inv: "table_inv e s"
  show ?thesis
  proof (cases "j = i")
    case True
    with tt.get_defined [OF inv, of i] show ?thesis by (auto simp: has_tman_def get_tman_def)
  next
    case False
    with tt.get_other [OF inv, of j i] show ?thesis by (simp add: has_tman_def get_tman_def)
  qed
qed

lemma has_tman_upd [simp]: "keeps_ids f \<Longrightarrow> has_tman e (upd_tman e i f s) j \<longleftrightarrow> has_tman e s j"
  using tt.update_same [of f e i "txn_table s"] tt.update_other [of f j i e "txn_table s"]
  by (cases "j = i") (simp_all add: has_tman_def upd_tman_def)

lemma tman_get [simp]: "table_inv e s \<Longrightarrow> has_tman e s j \<Longrightarrow> tman e (get_tman e i s) j = tman e s j"
  using tt.get_keeps [of e "txn_table s" j _ i] by (auto simp: has_tman_def tman_def get_tman_def)

lemma tman_get_other: "table_inv e s \<Longrightarrow> j \<noteq> i \<Longrightarrow> tman e (get_tman e i s) j = tman e s j"
  using tt.get_other [of e "txn_table s" j i] by (simp add: tman_def get_tman_def)

lemma tman_get_new: "table_inv e s \<Longrightarrow> \<not> has_tman e s i \<Longrightarrow> clean (tman e (get_tman e i s) i)"
  using tt.get_absent [of e "txn_table s" i] by (auto simp: has_tman_def tman_def get_tman_def)

lemma tman_get_old:
  assumes "table_inv e s" and "\<not> has_tman e s i"
  obtains old where "tman e (get_tman e i s) i = (TxnManager_init old)\<lparr>tm_txn_id := i, tm_batch_id := 0, tm_propmsg := None\<rparr>"
    and "old = new_TxnManager e \<or> old \<in> set (tt_free (txn_table s) (i mod ucast (g_total_thread_cnt e)))"
    and "last_of_batch e old \<Longrightarrow> wiped (tman e (get_tman e i s) i)"
proof -
  obtain old where old: "tman e (get_tman e i s) i = (TxnManager_init old)\<lparr>tm_txn_id := i, tm_batch_id := 0, tm_propmsg := None\<rparr>"
      "old = new_TxnManager e \<or> old \<in> set (tt_free (txn_table s) (i mod ucast (g_total_thread_cnt e)))"
    using get_lookup_new [OF assms(1), of i 0] assms(2) by (auto simp: has_tman_def tman_def get_tman_def)
  then have "last_of_batch e old \<Longrightarrow> wiped old" using assms(1) by (auto simp: tt_inv_def)
  with old show ?thesis using that [of old] by simp
qed

lemma tman_upd [simp]:
  "keeps_ids f \<Longrightarrow> has_tman e s i \<Longrightarrow> tman e (upd_tman e i f s) i = f (tman e s i)"
  using tt.update_same [of f e i "txn_table s"] by (auto simp: has_tman_def tman_def upd_tman_def)

lemma tman_upd_other [simp]: "keeps_ids f \<Longrightarrow> j \<noteq> i \<Longrightarrow> tman e (upd_tman e i f s) j = tman e s j"
  using tt.update_other [of f j i e "txn_table s"] by (simp add: tman_def upd_tman_def)

lemma tman_id [simp]: "has_tman e s i \<Longrightarrow> tm_txn_id (tman e s i) = i"
  using tt_lookup_SomeD [of e "txn_table s" i 0] by (auto simp: has_tman_def tman_def)

lemma release_has [simp]: "table_inv e s \<Longrightarrow> has_tman e (release_txn_man e i s) j \<longleftrightarrow> j \<noteq> i \<and> has_tman e s j"
  by (simp add: has_tman_def release_txn_man_def tt.release_lookup)

lemma tman_release [simp]: "table_inv e s \<Longrightarrow> j \<noteq> i \<Longrightarrow> tman e (release_txn_man e i s) j = tman e s j"
  by (simp add: tman_def release_txn_man_def tt.release_lookup)

lemma keeps_ids_intro: "(\<And>m. tm_txn_id (f m) = tm_txn_id m) \<Longrightarrow> (\<And>m. tm_batch_id (f m) = tm_batch_id m) \<Longrightarrow> keeps_ids f"
  by (simp add: keeps_ids_def)

lemma keeps_ids_ready [simp]: "keeps_ids (snd \<circ> unset_ready)" "keeps_ids (snd \<circ> set_ready)"
  by (simp_all add: keeps_ids_def unset_ready_def set_ready_def)

lemma keeps_ids_comp [simp]: "keeps_ids f \<Longrightarrow> keeps_ids g \<Longrightarrow> keeps_ids (f \<circ> g)"
  by (simp add: keeps_ids_def)

text \<open>What these functions leave alone.\<close>

lemma get_tman_frame [simp]:
  "db (get_tman e i s) = db s" "outbox (get_tman e i s) = outbox s" "keys (get_tman e i s) = keys s"
  "work_queue (get_tman e i s) = work_queue s" "prior_queue (get_tman e i s) = prior_queue s"
  "newView (get_tman e i s) = newView s" "g_next_index (get_tman e i s) = g_next_index s"
  "g_lockedQC (get_tman e i s) = g_lockedQC s" "g_preparedQC (get_tman e i s) = g_preparedQC s"
  "hash_to_QC (get_tman e i s) = hash_to_QC s" "hash_to_txnid (get_tman e i s) = hash_to_txnid s"
  "expectedExecuteCount (get_tman e i s) = expectedExecuteCount s"
  "execute_msg_heap (get_tman e i s) = execute_msg_heap s"
  by (simp_all add: get_tman_def)

lemma upd_tman_frame [simp]:
  "db (upd_tman e i f s) = db s" "outbox (upd_tman e i f s) = outbox s" "keys (upd_tman e i f s) = keys s"
  "work_queue (upd_tman e i f s) = work_queue s" "prior_queue (upd_tman e i f s) = prior_queue s"
  "newView (upd_tman e i f s) = newView s" "g_next_index (upd_tman e i f s) = g_next_index s"
  "g_lockedQC (upd_tman e i f s) = g_lockedQC s" "g_preparedQC (upd_tman e i f s) = g_preparedQC s"
  "hash_to_QC (upd_tman e i f s) = hash_to_QC s" "hash_to_txnid (upd_tman e i f s) = hash_to_txnid s"
  "expectedExecuteCount (upd_tman e i f s) = expectedExecuteCount s"
  "execute_msg_heap (upd_tman e i f s) = execute_msg_heap s"
  by (simp_all add: upd_tman_def)

lemma release_txn_man_frame [simp]:
  "db (release_txn_man e i s) = db s" "outbox (release_txn_man e i s) = outbox s"
  "last_deleted_txn_man (release_txn_man e i s) = last_deleted_txn_man s"
  "txn_chkpt_holding (release_txn_man e i s) = txn_chkpt_holding s"
  "is_chkpt_holding (release_txn_man e i s) = is_chkpt_holding s"
  by (simp_all add: release_txn_man_def)

lemma tman_cong: "txn_table s = txn_table s' \<Longrightarrow> tman e s i = tman e s' i"
  by (simp add: tman_def)

lemma has_tman_cong: "txn_table s = txn_table s' \<Longrightarrow> has_tman e s i = has_tman e s' i"
  by (simp add: has_tman_def)

end
