(* ===== verification/Work_Queue.thy ===== *)
theory Work_Queue
  imports Node_State
begin

text \<open>
  The work queues between the input threads and the worker threads
  (\<^verbatim>\<open>system/work_queue_pvp.cpp\<close>): \<open>enqueue\<close>, \<open>dequeue\<close>, \<open>check_view\<close>,
  \<open>reenqueue\<close>, and \<open>set_view\<close> of \<^verbatim>\<open>global.cpp\<close>, which calls the latter.

  A lock-free queue is a list, oldest entry first; a push succeeds.  An entry is its
  message (the other members of \<open>work_queue_entry\<close> repeat the message's or serve the
  statistics).  The loops of \<open>enqueue\<close> and \<open>dequeue\<close> that search the instances until
  they find one are given a number of rounds; \<open>None\<close> means that they are still searching.
\<close>

abbreviation inst_id :: "msg \<Rightarrow> u64" where
  "inst_id m \<equiv> m_instance_id (msg_base m)"

abbreviation txn_id :: "msg \<Rightarrow> u64" where
  "txn_id m \<equiv> m_txn_id (msg_base m)"

definition sem_post_worker :: "u64 \<Rightarrow> node \<Rightarrow> node" where
  "sem_post_worker q s =
     s\<lparr>worker_queue_semaphore := (worker_queue_semaphore s)(q := worker_queue_semaphore s q + 1)\<rparr>"

definition push_work :: "u64 \<Rightarrow> msg \<Rightarrow> node \<Rightarrow> node" where
  "push_work q m s = s\<lparr>work_queue := (work_queue s)(q := work_queue s q @ [m])\<rparr>"

definition push_prior :: "u64 \<Rightarrow> msg \<Rightarrow> node \<Rightarrow> node" where
  "push_prior q m s = s\<lparr>prior_queue := (prior_queue s)(q := prior_queue s q @ [m]),
     prior_cnt := (prior_cnt s)(q := prior_cnt s q + 1)\<rparr>"

text \<open>The search of the least loaded instance for a client batch.\<close>

fun clb_search :: "nat \<Rightarrow> u64 \<Rightarrow> (u64 \<Rightarrow> u64) \<Rightarrow> u64 \<Rightarrow> u64 \<Rightarrow> u64 \<Rightarrow> u64 \<Rightarrow> u64 option" where
  "clb_search 0 n cnt start_idx idx min_cnt min_cnt' = None"
| "clb_search (Suc fuel) n cnt start_idx idx min_cnt min_cnt' =
     (if cnt idx \<le> min_cnt then Some idx
      else let min_cnt' = (if cnt idx < min_cnt' then cnt idx else min_cnt');
               idx = (idx + 1) mod n;
               min_cnt = (if idx = start_idx then min_cnt' else min_cnt)
           in clb_search fuel n cnt start_idx idx min_cnt min_cnt')"

definition enqueue_client_batch :: "env \<Rightarrow> msg \<Rightarrow> node \<Rightarrow> node option" where
  "enqueue_client_batch e m s =
     (let n = get_totInstances e
      in case clb_search (2 * unat n) n (clb_cnt s) (clb_idx s) (clb_idx s) 0 0xFFFFF of
           None \<Rightarrow> None
         | Some i \<Rightarrow> Some (sem_post_worker (get_multi_threads e) (sem_post_worker (get_multi_threads e + 1)
             (s\<lparr>new_txn_queue := (new_txn_queue s)(i := new_txn_queue s i @ [m]),
                clb_cnt := (clb_cnt s)(i := clb_cnt s i + 1),
                clb_idx := (i + 1) mod n\<rparr>))))"

definition execute_qid :: "env \<Rightarrow> u64 \<Rightarrow> u64" where
  "execute_qid e tid =
     (let bid = ((tid + 2) - get_batch_size e) div get_batch_size e
      in bid mod indexSize e + get_multi_threads e)"

definition enqueue :: "env \<Rightarrow> msg \<Rightarrow> node \<Rightarrow> node option" where
  "enqueue e m s =
     (if \<not> ISSERVER e \<and> \<not> ISREPLICAN e (g_node_id e) then None
      else if msg_rtype m = CL_BATCH then enqueue_client_batch e m s
      else if msg_rtype m = EXECUTE_MSG then
        Some (let s = execute_msg_heap_push (txn_id m)
                        (sem_post_worker (get_multi_threads e + 2) (push_work (execute_qid e (txn_id m)) m s))
              in if txn_id m = get_expectedExecuteCount s
                 then s\<lparr>execute_semaphore := execute_semaphore s + 1\<rparr> else s)
      else if msg_rtype m = PBFT_CHKPT_MSG then
        Some (sem_post_worker (get_multi_threads e + 3) (push_work (get_multi_threads e + indexSize e) m s))
      else if msg_rtype m = SpotLess_GENERIC_MSG \<or> msg_rtype m = SpotLess_PROPOSAL_MSG then
        Some (let q = inst_id m mod get_multi_threads e in sem_post_worker q (push_prior q m s))
      else
        Some (let q = inst_id m mod get_multi_threads e in sem_post_worker q (push_work q m s)))"

section \<open>dequeue\<close>

definition pop_work :: "u64 \<Rightarrow> node \<Rightarrow> msg option \<times> node" where
  "pop_work q s = (case work_queue s q of
      [] \<Rightarrow> (None, s)
    | m # ms \<Rightarrow> (Some m, s\<lparr>work_queue := (work_queue s)(q := ms)\<rparr>))"

definition pop_prior :: "u64 \<Rightarrow> node \<Rightarrow> msg option \<times> node" where
  "pop_prior q s =
     (if prior_cnt s q = 0 then (None, s)
      else case prior_queue s q of
        [] \<Rightarrow> (None, s)
      | m # ms \<Rightarrow> (Some m, s\<lparr>prior_queue := (prior_queue s)(q := ms),
                             prior_cnt := (prior_cnt s)(q := prior_cnt s q - 1)\<rparr>))"

definition dequeue_worker :: "u64 \<Rightarrow> node \<Rightarrow> msg option \<times> node" where
  "dequeue_worker thd_id s =
     (case pop_prior thd_id s of
        (Some m, s) \<Rightarrow> (Some m, s)
      | (None, s) \<Rightarrow> pop_work thd_id s)"

definition dequeue_execute :: "env \<Rightarrow> node \<Rightarrow> msg option \<times> node" where
  "dequeue_execute e s = pop_work (execute_qid e (get_expectedExecuteCount s)) s"

definition dequeue_checkpoint :: "env \<Rightarrow> u64 \<Rightarrow> node \<Rightarrow> msg option \<times> node" where
  "dequeue_checkpoint e thd_id s =
     (case pop_work (indexSize e + get_multi_threads e) s of
        (Some m, s) \<Rightarrow> (Some m, s\<lparr>txn_chkpt_holding := (txn_chkpt_holding s)(thd_id mod 2 := txn_id m),
                                   is_chkpt_holding := (is_chkpt_holding s)(thd_id mod 2 := True)\<rparr>)
      | (None, s) \<Rightarrow> (None, s))"

definition prev_instance :: "env \<Rightarrow> u64 \<Rightarrow> u64" where
  "prev_instance e i = (i + get_totInstances e - 1) mod get_totInstances e"

text \<open>The generic thread: an instance led by this node with a proposal already sent.\<close>

definition generic_ready :: "env \<Rightarrow> node \<Rightarrow> u64 \<Rightarrow> bool" where
  "generic_ready e s i \<longleftrightarrow> get_incomplete_proposal_cnt s i \<noteq> 0 \<and>
     node_id e = get_view_primary e (get_current_view s i) i"

definition generic_p_msg :: "env \<Rightarrow> u64 \<Rightarrow> msg" where
  "generic_p_msg e tid = MGeneric ((new_Generic e SpotLess_GENERIC_MSG)
     \<lparr>gen_base := (new_Message e SpotLess_GENERIC_MSG_P)\<lparr>m_txn_id := tid\<rparr>\<rparr>)"

fun dequeue_generic :: "env \<Rightarrow> nat \<Rightarrow> node \<Rightarrow> (msg \<times> node) option" where
  "dequeue_generic e 0 s = None"
| "dequeue_generic e (Suc fuel) s =
     (let i = expectedInstance s; s' = s\<lparr>expectedInstance := prev_instance e i\<rparr>
      in if generic_ready e s i
         then Some (generic_p_msg e ((get_last_sent_view s i * get_totInstances e + i) * get_batch_size e
                     + get_batch_size e - 1),
                    dec_incomplete_proposal_cnt i s')
         else dequeue_generic e fuel s')"

text \<open>The proposal thread: a queue to take a client batch from, starting at \<open>i\<close>.\<close>

definition batch_available :: "node \<Rightarrow> u64 \<Rightarrow> u64 \<Rightarrow> bool" where
  "batch_available s p i \<longleftrightarrow> clb_cnt s i > 0 \<and> (i = p \<or> get_current_view s i \<ge> get_current_view s p) \<and>
     new_txn_queue s i \<noteq> []"

fun find_batch :: "nat \<Rightarrow> u64 \<Rightarrow> node \<Rightarrow> u64 \<Rightarrow> u64 \<Rightarrow> u64 option" where
  "find_batch 0 n s p i = None"
| "find_batch (Suc fuel) n s p i =
     (if batch_available s p i then Some i
      else let i = (i + 1) mod n in if i = p then None else find_batch fuel n s p i)"

definition take_batch :: "env \<Rightarrow> u64 \<Rightarrow> u64 \<Rightarrow> node \<Rightarrow> msg \<times> node" where
  "take_batch e p i s =
     (let view = get_next_send_view s p;
          m = upd_base (\<lambda>b. b\<lparr>m_txn_id := view * get_totInstances e + p\<rparr>) (hd (new_txn_queue s i));
          s = s\<lparr>new_txn_queue := (new_txn_queue s)(i := tl (new_txn_queue s i)),
                clb_cnt := (clb_cnt s)(i := clb_cnt s i - 1)\<rparr>
      in (m, (inc_next_send_view e p (set_last_sent_view p view s))\<lparr>proposalInstance := prev_instance e p\<rparr>))"

fun dequeue_proposal :: "env \<Rightarrow> nat \<Rightarrow> node \<Rightarrow> (msg \<times> node) option" where
  "dequeue_proposal e 0 s = None"
| "dequeue_proposal e (Suc fuel) s =
     (let p = proposalInstance s; next = dequeue_proposal e fuel (s\<lparr>proposalInstance := prev_instance e p\<rparr>)
      in if get_next_send_view s p \<le> get_current_view s p + ROUNDS_IN_ADVANCE e
         then (case find_batch (unat (get_totInstances e)) (get_totInstances e) s p p of
                 Some i \<Rightarrow> Some (take_batch e p i s)
               | None \<Rightarrow> next)
         else next)"

definition tcount :: "env \<Rightarrow> u64" where
  "tcount e = ucast (g_thread_cnt e - g_execute_thd e - g_checkpointing_thd e)"

definition dequeue :: "env \<Rightarrow> nat \<Rightarrow> u64 \<Rightarrow> node \<Rightarrow> (msg option \<times> node) option" where
  "dequeue e fuel thd_id s =
     (if \<not> ISSERVER e \<and> \<not> ISREPLICAN e (g_node_id e) then None
      else
        let (r, s) = (if thd_id < get_multi_threads e then dequeue_worker thd_id s else (None, s));
            (r, s) = (if thd_id \<ge> tcount e \<and> thd_id < tcount e + ucast (g_execute_thd e) then dequeue_execute e s
                      else if thd_id \<ge> tcount e + ucast (g_execute_thd e) then dequeue_checkpoint e thd_id s
                      else (r, s))
        in if r \<noteq> None then Some (r, s)
           else if thd_id > get_multi_threads e \<and> thd_id < tcount e
             then map_option (apfst Some) (dequeue_generic e fuel s)
           else if thd_id = get_multi_threads e then map_option (apfst Some) (dequeue_proposal e fuel s)
           else Some (None, s))"

section \<open>Messages that arrive early\<close>

definition check_view :: "msg \<Rightarrow> node \<Rightarrow> bool \<times> node" where
  "check_view m s =
     (case m of
        MGeneric g \<Rightarrow>
          if m_rtype (gen_base g) = SpotLess_GENERIC_MSG \<and> get_current_view s (inst_id m) < gen_view g
          then (True, s\<lparr>temp_queue := (temp_queue s)(inst_id m := temp_queue s (inst_id m) @ [m])\<rparr>)
          else (False, s)
      | _ \<Rightarrow> (False, s))"

definition reenqueue_one :: "u64 \<Rightarrow> msg \<Rightarrow> node \<Rightarrow> node" where
  "reenqueue_one q m s = sem_post_worker q
     (if msg_rtype m = SpotLess_GENERIC_MSG \<or> msg_rtype m = SpotLess_PROPOSAL_MSG
      then push_prior q m s else push_work q m s)"

definition reenqueue :: "env \<Rightarrow> u64 \<Rightarrow> node \<Rightarrow> node" where
  "reenqueue e instance_id s =
     fold (reenqueue_one (instance_id mod get_multi_threads e)) (temp_queue s instance_id)
       (s\<lparr>temp_queue := (temp_queue s)(instance_id := [])\<rparr>)"

definition set_view :: "env \<Rightarrow> u64 \<Rightarrow> u64 \<Rightarrow> node \<Rightarrow> node" where
  "set_view e thd_id val s =
     (let s = s\<lparr>newView := (newView s)(thd_id := val)\<rparr>
      in if thd_id < get_totInstances e then reenqueue e thd_id s else s)"

section \<open>Lemmas: what the queue operations leave alone\<close>

lemma reenqueue_one_frame [simp]:
  "outbox (reenqueue_one q m s) = outbox s" "g_lockedQC (reenqueue_one q m s) = g_lockedQC s"
  "g_preparedQC (reenqueue_one q m s) = g_preparedQC s" "newView (reenqueue_one q m s) = newView s"
  "txn_table (reenqueue_one q m s) = txn_table s" "hash_to_QC (reenqueue_one q m s) = hash_to_QC s"
  "temp_queue (reenqueue_one q m s) = temp_queue s" "db (reenqueue_one q m s) = db s"
  "execute_msg_heap (reenqueue_one q m s) = execute_msg_heap s" "keys (reenqueue_one q m s) = keys s"
  by (simp_all add: reenqueue_one_def sem_post_worker_def push_prior_def push_work_def)

lemma fold_frame:
  assumes "\<And>x s. f (g x s) = f s"
  shows "f (fold g xs s) = f s"
  using assms by (induction xs arbitrary: s) simp_all

lemma reenqueue_frame [simp]:
  "outbox (reenqueue e i s) = outbox s" "g_lockedQC (reenqueue e i s) = g_lockedQC s"
  "g_preparedQC (reenqueue e i s) = g_preparedQC s" "newView (reenqueue e i s) = newView s"
  "txn_table (reenqueue e i s) = txn_table s" "hash_to_QC (reenqueue e i s) = hash_to_QC s"
  "db (reenqueue e i s) = db s" "execute_msg_heap (reenqueue e i s) = execute_msg_heap s"
  "keys (reenqueue e i s) = keys s"
  by (simp_all add: reenqueue_def fold_frame [where f = outbox] fold_frame [where f = g_lockedQC]
      fold_frame [where f = g_preparedQC] fold_frame [where f = newView] fold_frame [where f = txn_table]
      fold_frame [where f = hash_to_QC] fold_frame [where f = db] fold_frame [where f = execute_msg_heap]
      fold_frame [where f = keys])

lemma set_view_frame [simp]:
  "outbox (set_view e i v s) = outbox s" "g_lockedQC (set_view e i v s) = g_lockedQC s"
  "g_preparedQC (set_view e i v s) = g_preparedQC s" "newView (set_view e i v s) = (newView s)(i := v)"
  "txn_table (set_view e i v s) = txn_table s" "hash_to_QC (set_view e i v s) = hash_to_QC s"
  "db (set_view e i v s) = db s" "execute_msg_heap (set_view e i v s) = execute_msg_heap s"
  "keys (set_view e i v s) = keys s"
  by (simp_all add: set_view_def Let_def)

text \<open>An execute message is always accepted by a replica.\<close>

definition after_execute_enqueue :: "env \<Rightarrow> msg \<Rightarrow> node \<Rightarrow> node" where
  "after_execute_enqueue e m s = the (enqueue e m s)"

lemma enqueue_execute_Some:
  assumes "ISSERVER e" and "msg_rtype m = EXECUTE_MSG"
  shows "enqueue e m s = Some (after_execute_enqueue e m s)"
  using assms by (simp add: after_execute_enqueue_def enqueue_def)

lemma after_execute_enqueue_frame:
  assumes "ISSERVER e" and "msg_rtype m = EXECUTE_MSG"
  shows "outbox (after_execute_enqueue e m s) = outbox s"
    and "g_lockedQC (after_execute_enqueue e m s) = g_lockedQC s"
    and "g_preparedQC (after_execute_enqueue e m s) = g_preparedQC s"
    and "newView (after_execute_enqueue e m s) = newView s"
    and "txn_table (after_execute_enqueue e m s) = txn_table s"
    and "hash_to_QC (after_execute_enqueue e m s) = hash_to_QC s"
    and "hash_to_txnid (after_execute_enqueue e m s) = hash_to_txnid s"
    and "keys (after_execute_enqueue e m s) = keys s"
    and "db (after_execute_enqueue e m s) = db s"
    and "execute_msg_heap (after_execute_enqueue e m s) = insort (txn_id m) (execute_msg_heap s)"
    and "work_queue (after_execute_enqueue e m s) =
      (work_queue s)(execute_qid e (txn_id m) := work_queue s (execute_qid e (txn_id m)) @ [m])"
  using assms
  by (simp_all add: after_execute_enqueue_def enqueue_def Let_def execute_msg_heap_push_def sem_post_worker_def
      push_work_def)

end
