(* ===== verification/Txn_Messages.thy ===== *)
theory Txn_Messages
  imports Work_Queue
begin

text \<open>
  Messages made from a transaction manager: the \<open>copy_from_txn\<close> methods of
  \<^verbatim>\<open>transport/message.cpp\<close>, \<open>create_message(txn, rtype)\<close>, and the methods of
  \<open>TxnManager\<close> that send (\<^verbatim>\<open>system/txn.cpp\<close>).  A method of the manager \<open>tid\<close> is a
  function of the node's state; sending is appending to \<open>outbox\<close>.
\<close>

section \<open>copy_from_txn\<close>

definition mcopy_from_txn :: "TxnManager \<Rightarrow> Message \<Rightarrow> Message" where
  "mcopy_from_txn t b = b\<lparr>m_txn_id := tm_txn_id t, m_instance_id := tm_instance_id t\<rparr>"

definition copy_latency :: "TxnManager \<Rightarrow> Message \<Rightarrow> Message" where
  "copy_latency t b = b\<lparr>
     lat_work_queue_time := work_queue_time_short (tm_stats t),
     lat_msg_queue_time := msg_queue_time_short (tm_stats t),
     lat_cc_block_time := cc_block_time_short (tm_stats t),
     lat_cc_time := cc_time_short (tm_stats t),
     lat_process_time := process_time_short (tm_stats t),
     lat_network_time := lat_network_time_start (tm_stats t),
     lat_other_time := lat_other_time_start (tm_stats t)\<rparr>"

definition Sync_copy_from_txn :: "env \<Rightarrow> node \<Rightarrow> TxnManager \<Rightarrow> SpotLessSyncMsg \<Rightarrow> SpotLessSyncMsg" where
  "Sync_copy_from_txn e s t m =
     (let b = mcopy_from_txn t (sync_base m)
      in m\<lparr>sync_base := b\<lparr>m_psig_share := tm_psig_share t\<rparr>,
           sync_view := get_current_view s (m_instance_id b),
           sync_end_index := m_txn_id b,
           sync_index := m_txn_id b + 1 - get_batch_size e,
           sync_hash := tm_hash t,
           sync_hashSize := word_of_nat (length (tm_hash t)),
           sync_return_node := node_id e,
           sync_batch_size := ucast (get_batch_size e),
           sync_highQC := (tm_highQC t)\<lparr>grand_empty := True, signature_share_map := []\<rparr>\<rparr>)"

definition Generic_copy_from_txn :: "env \<Rightarrow> node \<Rightarrow> TxnManager \<Rightarrow> SpotLessGenericMsg \<Rightarrow> SpotLessGenericMsg" where
  "Generic_copy_from_txn e s t m =
     (let b = mcopy_from_txn t (gen_base m)
      in m\<lparr>gen_base := b\<lparr>m_psig_share := tm_psig_share t\<rparr>,
           gen_view := get_current_view s (m_instance_id b),
           gen_end_index := tm_txn_id t,
           gen_index := tm_txn_id t + 1 - get_batch_size e,
           gen_hash := tm_hash t,
           gen_hashSize := tm_hashSize t,
           gen_return_node := node_id e,
           gen_batch_size := ucast (get_batch_size e)\<rparr>)"

definition Ask_copy_from_txn :: "env \<Rightarrow> node \<Rightarrow> TxnManager \<Rightarrow> SpotLessAskMsg \<Rightarrow> SpotLessAskMsg" where
  "Ask_copy_from_txn e s t m =
     (let b = mcopy_from_txn t (ask_base m)
      in m\<lparr>ask_base := b, ask_view := get_current_view s (m_instance_id b), ask_hash := '''',
           ask_hashSize := 0, ask_return_node := node_id e\<rparr>)"

definition Execute_copy_from_txn :: "env \<Rightarrow> node \<Rightarrow> TxnManager \<Rightarrow> ExecuteMessage \<Rightarrow> ExecuteMessage" where
  "Execute_copy_from_txn e s t m =
     (let tid = tm_txn_id t - 1
      in m\<lparr>ex_base := (ex_base m)\<lparr>m_txn_id := tid\<rparr>,
           ex_view := get_current_view s (tid div get_batch_size e mod get_totInstances e),
           ex_index := tm_txn_id t + 1 - get_batch_size e,
           ex_end_index := tm_txn_id t,
           ex_batch_size := get_batch_size e,
           ex_hash := tm_hash t,
           ex_hashSize := tm_hashSize t,
           ex_return_node := node_id e\<rparr>)"

definition Checkpoint_copy_from_txn :: "env \<Rightarrow> node \<Rightarrow> TxnManager \<Rightarrow> CheckpointMessage \<Rightarrow> CheckpointMessage" where
  "Checkpoint_copy_from_txn e s t m =
     m\<lparr>ck_base := (ck_base m)\<lparr>m_txn_id := tm_txn_id t - 5\<rparr>,
       ck_index := curr_next_index s - get_batch_size e,
       ck_return_node := node_id e,
       ck_end_index := curr_next_index s - 1\<rparr>"

text \<open>\<open>index.add\<close> and \<open>client_ts.add\<close> assert that the arrays, of batch size, are not full.\<close>

definition CR_copy_from_txn :: "env \<Rightarrow> TxnManager \<Rightarrow> ClientResponseMessage \<Rightarrow> ClientResponseMessage option" where
  "CR_copy_from_txn e t m =
     (if length (cr_index m) < batch_n e \<and> length (cr_client_ts m) < batch_n e
      then Some (m\<lparr>cr_base := mcopy_from_txn t (cr_base m), cr_view := tm_view t,
                   cr_index := cr_index m @ [tm_txn_id t],
                   cr_client_ts := cr_client_ts m @ [tm_client_startts t]\<rparr>)
      else None)"

definition Proposal_init :: "env \<Rightarrow> node \<Rightarrow> u64 \<Rightarrow> SpotLessProposalMsg \<Rightarrow> SpotLessProposalMsg option" where
  "Proposal_init e s instance_id m =
     (if get_view_primary e (get_last_sent_view s instance_id) instance_id = node_id e
      then Some (m\<lparr>prop_base := (prop_base m)\<lparr>m_instance_id := instance_id\<rparr>,
                   prop_view := get_last_sent_view s instance_id,
                   prop_index := [],
                   prop_requestMsg := take (batch_n e) (prop_requestMsg m) @
                      replicate (batch_n e - length (prop_requestMsg m)) None\<rparr>)
      else None)"

text \<open>One client request of the batch: a deep copy at its position.\<close>

definition Proposal_copy_request :: "env \<Rightarrow> TxnManager \<Rightarrow> YCSBClientQueryMessage \<Rightarrow> SpotLessProposalMsg \<Rightarrow>
    SpotLessProposalMsg option" where
  "Proposal_copy_request e t clqry m = do {
     bfr \<leftarrow> YCSB_copy_to_buf e clqry (replicate (YCSB_get_size clqry) CHR 0x00);
     yqry \<leftarrow> create_query e bfr;
     m \<leftarrow> add_request_msg (unat (tm_txn_id t mod get_batch_size e)) yqry m;
     if length (prop_index m) < batch_n e
     then Some (m\<lparr>prop_index := prop_index m @ [tm_txn_id t]\<rparr>) else None }"

definition Proposal_copy_from_txn :: "env \<Rightarrow> TxnManager \<Rightarrow> SpotLessProposalMsg \<Rightarrow> SpotLessProposalMsg" where
  "Proposal_copy_from_txn e t m =
     m\<lparr>prop_base := (prop_base m)\<lparr>m_txn_id := tm_txn_id t - 2\<rparr>,
       prop_batch_size := ucast (get_batch_size e), prop_hash := tm_hash t, prop_hashSize := tm_hashSize t\<rparr>"

section \<open>create_message(txn, rtype)\<close>

definition new_Sync_txn :: "env \<Rightarrow> node \<Rightarrow> TxnManager \<Rightarrow> SpotLessSyncMsg" where
  "new_Sync_txn e s t =
     (let m = Sync_copy_from_txn e s t (new_Sync e SpotLess_SYNC_MSG)
      in m\<lparr>sync_base := copy_latency t (sync_base m)\<rparr>)"

definition new_Generic_txn :: "env \<Rightarrow> node \<Rightarrow> TxnManager \<Rightarrow> SpotLessGenericMsg" where
  "new_Generic_txn e s t =
     (let m = Generic_copy_from_txn e s t (new_Generic e SpotLess_GENERIC_MSG)
      in m\<lparr>gen_base := copy_latency t (gen_base m)\<rparr>)"

definition new_Ask_txn :: "env \<Rightarrow> node \<Rightarrow> TxnManager \<Rightarrow> SpotLessAskMsg" where
  "new_Ask_txn e s t =
     (let m = Ask_copy_from_txn e s t (new_Ask e SpotLess_ASK_MSG)
      in m\<lparr>ask_base := copy_latency t (ask_base m)\<rparr>)"

definition new_Execute_txn :: "env \<Rightarrow> node \<Rightarrow> TxnManager \<Rightarrow> ExecuteMessage" where
  "new_Execute_txn e s t =
     (let m = new_Execute e EXECUTE_MSG;
          m = Execute_copy_from_txn e s t (m\<lparr>ex_base := mcopy_from_txn t (ex_base m)\<rparr>)
      in m\<lparr>ex_base := copy_latency t (ex_base m)\<rparr>)"

definition new_Checkpoint_txn :: "env \<Rightarrow> node \<Rightarrow> TxnManager \<Rightarrow> CheckpointMessage" where
  "new_Checkpoint_txn e s t =
     (let m = new_Checkpoint e PBFT_CHKPT_MSG;
          m = Checkpoint_copy_from_txn e s t (m\<lparr>ck_base := mcopy_from_txn t (ck_base m)\<rparr>)
      in m\<lparr>ck_base := copy_latency t (ck_base m)\<rparr>)"

section \<open>Sending\<close>

definition send_out :: "msg \<Rightarrow> u64 list \<Rightarrow> node \<Rightarrow> node" where
  \<comment> \<open>\<open>msg_queue.enqueue(thd_id, msg, dest)\<close>\<close>
  "send_out m dest s = s\<lparr>outbox := outbox s @ [(m, dest)]\<rparr>"

definition send_checkpoint_msgs :: "env \<Rightarrow> u64 \<Rightarrow> node \<Rightarrow> node option" where
  "send_checkpoint_msgs e tid s = enqueue e (MCheckpoint (new_Checkpoint_txn e s (tman e s tid))) s"

text \<open>\<open>hash_voters[h].push_back(v)\<close> and the size of the entry.\<close>

fun hv_push :: "string \<Rightarrow> u64 \<Rightarrow> (string \<times> u64 list) list \<Rightarrow> (string \<times> u64 list) list" where
  "hv_push h v [] = [(h, [v])]"
| "hv_push h v ((h', vs) # hv) = (if h' = h then (h', vs @ [v]) # hv else (h', vs) # hv_push h v hv)"

definition hv_voters :: "string \<Rightarrow> (string \<times> u64 list) list \<Rightarrow> u64 list" where
  "hv_voters h hv = (case map_of hv h of None \<Rightarrow> [] | Some vs \<Rightarrow> vs)"

definition vote_own :: "env \<Rightarrow> TxnManager \<Rightarrow> TxnManager" where
  \<comment> \<open>the last part of \<open>send_hotstuff_newview\<close>: counting one's own vote\<close>
  "vote_own e t =
     (let hv = hv_push (tm_hash t) (node_id e) (tm_hash_voters t);
          val = word_of_nat (length (hv_voters (tm_hash t) hv));
          cnt = (if val > tm_new_view_vote_cnt t then val else tm_new_view_vote_cnt t);
          t = t\<lparr>tm_hash_voters := hv, tm_new_view_vote_cnt := cnt\<rparr>
      in if cnt = nf e then set_new_viewed t else t)"

definition sync_dests :: "env \<Rightarrow> u64 \<Rightarrow> u64 list" where
  "sync_dests e dest_node_id =
     filter (\<lambda>i. i \<noteq> node_id e \<and> i \<noteq> dest_node_id) (map word_of_nat [0..<unat (node_cnt e)])"

definition send_hotstuff_newview :: "env \<Rightarrow> SpotLessSyncMsg option \<Rightarrow> u64 \<Rightarrow> node \<Rightarrow> node" where
  "send_hotstuff_newview e nmsg tid s =
     (let t = tman e s tid;
          view = (case nmsg of Some m \<Rightarrow> sync_view m | None \<Rightarrow> get_current_view s (tm_instance_id t))
      in if tm_sync_sent t then s
         else
           let s = upd_tman e tid (\<lambda>t. t\<lparr>tm_sync_sent := True\<rparr>) s;
               dest_node_id = get_view_primary e (view + 1) (tm_instance_id t);
               s = (case nmsg of Some m \<Rightarrow> upd_tman e tid (set_hash (sync_hash m)) s | None \<Rightarrow> s);
               base = new_Sync_txn e s (tman e s tid);
               nv = (case nmsg of None \<Rightarrow> base
                     | Some m \<Rightarrow> base\<lparr>sync_hash := sync_hash m, sync_highQC := sync_highQC m,
                         sync_hashSize := sync_hashSize m, sync_view := view\<rparr>);
               frc = (m_instance_id (sync_base nv) = 0);
               nvmsg = Sync_digital_sign e (keys s) nv;
               nvmsg = nvmsg\<lparr>sync_base := (sync_base nvmsg)\<lparr>m_sig_empty := False\<rparr>\<rparr>;
               force = (\<lambda>m. m\<lparr>sync_base := (sync_base m)\<lparr>m_force := (frc \<or> m_force (sync_base m))\<rparr>\<rparr>);
               s = (if node_id e \<noteq> dest_node_id
                    then send_out (MSync (force nvmsg)) [dest_node_id] s
                    else upd_tman e tid (\<lambda>t. t\<lparr>tm_genericQC := (tm_genericQC t)\<lparr>signature_share_map :=
                           map_put (node_id e) (m_sig_share (sync_base nvmsg))
                             (signature_share_map (tm_genericQC t))\<rparr>\<rparr>) s);
               s = send_out (MSync (force nv)) (sync_dests e dest_node_id) s
           in upd_tman e tid (vote_own e) s)"

definition send_hotstuff_generic :: "env \<Rightarrow> u64 \<Rightarrow> node \<Rightarrow> node option" where
  "send_hotstuff_generic e tid s =
     (let t = tman e s tid;
          qc = g_preparedQC s (tm_instance_id t);
          gene = Generic_digital_sign e (keys s) ((new_Generic_txn e s t)\<lparr>gen_highQC := qc\<rparr>)
      in if tm_hash t = '''' then None
         else Some (send_out (MGeneric gene) (nodes_to_send e 0 (node_cnt e))
                (upd_tman e tid (\<lambda>t. t\<lparr>tm_highQC := qc, tm_psig_share := m_psig_share (gen_base gene)\<rparr>) s)))"

definition send_spotless_ask :: "env \<Rightarrow> SpotLessSyncMsg \<Rightarrow> u64 \<Rightarrow> node \<Rightarrow> node" where
  "send_spotless_ask e nvmsg tid s =
     (let t = tman e s tid;
          ask = (new_Ask_txn e s t)\<lparr>ask_hash := sync_hash nvmsg, ask_hashSize := sync_hashSize nvmsg,
                  ask_view := sync_view nvmsg\<rparr>;
          ask = ask\<lparr>ask_base := (ask_base ask)\<lparr>m_instance_id := m_instance_id (sync_base nvmsg)\<rparr>\<rparr>
      in send_out (MAsk ask) (tl (tm_vote_new_view t))
           (upd_tman e tid (\<lambda>t. t\<lparr>tm_highQC := sync_highQC nvmsg\<rparr>) s))"

text \<open>\<open>TxnManager::set_primarybatch\<close>: keep a deep copy of the proposal.\<close>

definition set_primarybatch :: "env \<Rightarrow> u64 \<Rightarrow> msg \<Rightarrow> u64 \<Rightarrow> node \<Rightarrow> node option" where
  "set_primarybatch e now prop tid s = do {
     sz \<leftarrow> msg_get_size e prop;
     m \<leftarrow> deep_copy_msg e now (replicate sz CHR 0x00) prop;
     Some (upd_tman e tid (\<lambda>t. t\<lparr>tm_propmsg := Some m\<rparr>) s) }"

end
