(* ===== verification/Execution.thy ===== *)
theory Execution
  imports Txn_Messages
begin

text \<open>
  The execute and checkpoint threads: \<open>YCSBTxnManager::run_txn\<close>
  (\<^verbatim>\<open>benchmarks/ycsb_txn.cpp\<close>), \<open>process_hotstuff_execute\<close>
  (\<^verbatim>\<open>system/worker_thread_hotstuff.cpp\<close>), \<open>send_checkpoints\<close> and
  \<open>process_pbft_chkpt_msg\<close> (\<^verbatim>\<open>system/worker_thread.cpp\<close>).

  \<open>unset_ready_txn\<close> spins until the manager is ready; a manager that is held when the
  step starts is \<open>None\<close>, as are failed assertions.  \<open>sem_wait\<close> on a semaphore that is
  zero when the step reaches it is \<open>None\<close> too.
\<close>

section \<open>Acquiring managers\<close>

definition unset_ready_txn :: "env \<Rightarrow> u64 \<Rightarrow> node \<Rightarrow> node option" where
  "unset_ready_txn e tid s =
     (if fst (unset_ready (tman e s tid)) then Some (upd_tman e tid (snd \<circ> unset_ready) s) else None)"

definition set_ready_txn :: "env \<Rightarrow> u64 \<Rightarrow> node \<Rightarrow> node option" where
  \<comment> \<open>\<open>bool ready = txn_man->set_ready(); assert(ready);\<close>\<close>
  "set_ready_txn e tid s =
     (if fst (set_ready (tman e s tid)) then Some (upd_tman e tid (snd \<circ> set_ready) s) else None)"

definition u64_upto :: "u64 \<Rightarrow> u64 \<Rightarrow> u64 list" where
  \<comment> \<open>the values of \<open>i\<close> in \<open>for (i = a; i < b; i++)\<close>\<close>
  "u64_upto a b = map word_of_nat [unat a..<unat b]"

section \<open>Execution\<close>

definition request_put :: "ycsb_request \<Rightarrow> InMemoryDB \<Rightarrow> InMemoryDB" where
  "request_put r d = snd (InMemoryDB_Put (to_string (req_key r)) (to_string (req_value r)) d)"

definition run_txn :: "env \<Rightarrow> u64 \<Rightarrow> node \<Rightarrow> node" where
  "run_txn e tid s = s\<lparr>db := fold request_put (tm_requests (tman e s tid)) (db s)\<rparr>"

text \<open>The bodies of the two loops: without and with acquiring the manager.\<close>

definition execute_one :: "env \<Rightarrow> u64 \<Rightarrow> ClientResponseMessage \<times> node \<Rightarrow> (ClientResponseMessage \<times> node) option" where
  "execute_one e i = (\<lambda>(crsp, s). do {
     let s = run_txn e i (get_tman e i s);
     crsp \<leftarrow> CR_copy_from_txn e (tman e s i) crsp;
     Some (crsp, s) })"

definition execute_one_held :: "env \<Rightarrow> u64 \<Rightarrow> ClientResponseMessage \<times> node \<Rightarrow> (ClientResponseMessage \<times> node) option" where
  "execute_one_held e i = (\<lambda>(crsp, s). do {
     s \<leftarrow> unset_ready_txn e i (get_tman e i s);
     let s = run_txn e i s;
     crsp \<leftarrow> CR_copy_from_txn e (tman e s i) crsp;
     s \<leftarrow> set_ready_txn e i s;
     Some (crsp, s) })"

definition send_checkpoints :: "env \<Rightarrow> u64 \<Rightarrow> node \<Rightarrow> node option" where
  "send_checkpoints e tid s =
     (if (tid + 1) mod txn_per_chkpt e = 0 then send_checkpoint_msgs e tid (get_tman e tid s) else Some s)"

text \<open>
  The whole handler; it returns what \<open>txn_man\<close> points to in the end.  The loop variable
  \<open>i\<close> leaves the first loop at \<open>i1\<close> and the second at \<open>i2\<close>.
\<close>

definition process_hotstuff_execute :: "env \<Rightarrow> ExecuteMessage \<Rightarrow> node \<Rightarrow> (u64 option \<times> node) option" where
  "process_hotstuff_execute e emsg s =
     (let tid = m_txn_id (ex_base emsg)
      in if \<not> ex_valid emsg then do {
           s \<leftarrow> send_checkpoints e (tid + 1) (inc_next_index (get_batch_size e) s);
           Some (None, set_expectedExecuteCount e (get_batch_size e + tid) s) }
         else do {
           let s = get_tman e (tid + 1) s;
           let crsp = new_CR e CL_RSP;
           let i0 = ex_index emsg;
           let i1 = max i0 (ex_end_index emsg - 4);
           let i2 = max i1 (ex_end_index emsg);
           (crsp, s) \<leftarrow> fold_option (execute_one e) (u64_upto i0 i1) (crsp, s);
           (crsp, s) \<leftarrow> fold_option (execute_one_held e) (u64_upto i1 i2) (crsp, s);
           s \<leftarrow> unset_ready_txn e i2 (get_tman e i2 s);
           let s = run_txn e i2 s;
           crsp \<leftarrow> CR_copy_from_txn e (tman e s i2) crsp;
           let s = inc_next_index (get_batch_size e) s;
           let s = send_out (MClientResponse crsp) [tm_client_id (tman e s i2)] s;
           s \<leftarrow> send_checkpoints e (tid + 1) s;
           Some (Some i2, set_expectedExecuteCount e (get_batch_size e + tid) s) })"

section \<open>Checkpoints\<close>

definition sem_wait_chkpt :: "u64 \<Rightarrow> node \<Rightarrow> node option" where
  "sem_wait_chkpt k s =
     (case chkpt_semaphore s k of
        0 \<Rightarrow> None
      | Suc n \<Rightarrow> Some (s\<lparr>chkpt_semaphore := (chkpt_semaphore s)(k := n)\<rparr>))"

definition release_range :: "env \<Rightarrow> u64 \<Rightarrow> u64 \<Rightarrow> node \<Rightarrow> node" where
  "release_range e a b s = fold (release_txn_man e) (u64_upto a b) s"

definition chkpt_del_range :: "env \<Rightarrow> u64 \<Rightarrow> u64" where
  "chkpt_del_range e tid = tid - 16 * get_batch_size e * node_cnt e"

text \<open>\<open>tid\<close> is the manager of the message, which the caller has acquired.\<close>

definition process_pbft_chkpt_msg :: "env \<Rightarrow> u64 \<Rightarrow> CheckpointMessage \<Rightarrow> u64 \<Rightarrow> node \<Rightarrow> node option" where
  "process_pbft_chkpt_msg e thd_id m tid s =
     (if tm_chkpt_flag (tman e s tid) then Some s
      else
        let s = upd_tman e tid decr_chkpt_cnt s
        in if tm_chkpt_cnt (tman e s tid) \<noteq> 0 then Some s
           else
             let s = upd_tman e tid (\<lambda>t. t\<lparr>tm_chkpt_flag := True\<rparr>) s;
                 s = set_curr_chkpt (m_txn_id (ck_base m)) s;
                 del_range = chkpt_del_range e (m_txn_id (ck_base m));
                 other = (thd_id + 1) mod 2; own = thd_id mod 2;
                 start = get_last_deleted_txn s;
                 holding2 = txn_chkpt_holding s other;
                 s = inc_last_deleted_txn del_range s;
                 s = release_range e start (min holding2 del_range) s;
                 s = release_range e (holding2 + 1) del_range s
             in if holding2 < del_range then
                  (if txn_chkpt_holding s other = start \<and> is_chkpt_holding s other then do {
                     s \<leftarrow> sem_wait_chkpt own (s\<lparr>is_chkpt_stalled := (is_chkpt_stalled s)(own := True)\<rparr>);
                     Some (release_txn_man e start (s\<lparr>is_chkpt_stalled := (is_chkpt_stalled s)(own := False)\<rparr>)) }
                   else Some (release_txn_man e start s))
                else Some s)"

end
