(* ===== verification/Worker.thy ===== *)
theory Worker
  imports Execution
begin

text \<open>
  The worker threads: the handlers of \<^verbatim>\<open>system/worker_thread_hotstuff.cpp\<close> and
  \<^verbatim>\<open>system/worker_thread.cpp\<close>, and one iteration of \<open>WorkerThread::run\<close>.

  The member \<open>txn_man\<close> is the identifier \<open>tid\<close> of the manager it points to.  A failed
  assertion, an out-of-range access and a wait that no other thread ends (a manager
  that is not ready in \<open>unset_ready_txn\<close>) are \<open>None\<close>.
\<close>

section \<open>Validation\<close>

text \<open>A check that fails runs into \<open>assert(0)\<close>.\<close>

definition validate_msg :: "env \<Rightarrow> keystore \<Rightarrow> msg \<Rightarrow> bool option" where
  "validate_msg e k m =
     Option.bind (case m of
         MClientResponse r \<Rightarrow> CR_validate e k r
       | MClientBatch b \<Rightarrow> CB_validate e k b
       | MCheckpoint c \<Rightarrow> Checkpoint_validate e k c
       | MSync n \<Rightarrow> Sync_validate e k n
       | MProposal p \<Rightarrow> Proposal_validate e k p
       | MGeneric g \<Rightarrow> if m_rtype (gen_base g) = SpotLess_GENERIC_MSG then Generic_validate e k g else Some True
       | MAsk a \<Rightarrow> Ask_validate e k a
       | MAskResponse p \<Rightarrow> Proposal_validate e k p
       | _ \<Rightarrow> Some True)
     (\<lambda>valid. if valid then Some True else None)"

definition checkMsg :: "env \<Rightarrow> msg \<Rightarrow> u64 \<Rightarrow> node \<Rightarrow> bool" where
  "checkMsg e m tid s =
     (case m of
        MSync n \<Rightarrow> tm_hash (tman e s tid) = sync_hash n \<and>
                   get_current_view s (m_instance_id (sync_base n)) = sync_view n
      | _ \<Rightarrow> False)"

section \<open>Votes and certificates\<close>

text \<open>The part of \<open>hotstuff_new_viewed\<close> that changes the manager: has the quorum been completed?\<close>

definition record_share :: "SpotLessSyncMsg \<Rightarrow> TxnManager \<Rightarrow> TxnManager" where
  "record_share m t =
     (if \<not> m_sig_empty (sync_base m) \<and> (tm_hash t = '''' \<or> tm_hash t = sync_hash m)
      then t\<lparr>tm_genericQC := (tm_genericQC t)\<lparr>signature_share_map :=
             map_put (m_return_node_id (sync_base m)) (m_sig_share (sync_base m))
               (signature_share_map (tm_genericQC t))\<rparr>\<rparr>
      else t)"

definition erase_other_shares :: "string \<Rightarrow> TxnManager \<Rightarrow> TxnManager" where
  "erase_other_shares h t =
     t\<lparr>tm_genericQC := (tm_genericQC t)\<lparr>signature_share_map :=
        fold (\<lambda>(h', vs) m. if h' \<noteq> h then fold map_erase vs m else m) (tm_hash_voters t)
          (signature_share_map (tm_genericQC t))\<rparr>\<rparr>"

definition count_vote :: "env \<Rightarrow> SpotLessSyncMsg \<Rightarrow> TxnManager \<Rightarrow> bool \<times> TxnManager" where
  "count_vote e m t =
     (let sender = m_return_node_id (sync_base m)
      in if tm_new_viewed t then (False, t)
         else
           let t = (if tm_vote_new_view t = [] then t\<lparr>tm_vote_new_view := [node_id e]\<rparr> else t)
           in if sender \<in> set (tm_vote_new_view t) then (False, t)
              else
                let t = record_share m t;
                    hv = hv_push (sync_hash m) sender (tm_hash_voters t);
                    val = word_of_nat (length (hv_voters (sync_hash m) hv));
                    cnt = (if val > tm_new_view_vote_cnt t then val else tm_new_view_vote_cnt t);
                    t = t\<lparr>tm_vote_new_view := tm_vote_new_view t @ [sender], tm_hash_voters := hv,
                          tm_new_view_vote_cnt := cnt\<rparr>
                in if cnt = nf e then (True, set_new_viewed (erase_other_shares (sync_hash m) t))
                   else (False, t))"

text \<open>Is this vote counted, and is it the first one for its hash?\<close>

definition vote_fresh :: "env \<Rightarrow> SpotLessSyncMsg \<Rightarrow> TxnManager \<Rightarrow> bool" where
  "vote_fresh e m t \<longleftrightarrow> \<not> tm_new_viewed t \<and>
     m_return_node_id (sync_base m) \<notin>
       set (if tm_vote_new_view t = [] then [node_id e] else tm_vote_new_view t)"

definition hotstuff_new_viewed :: "env \<Rightarrow> SpotLessSyncMsg \<Rightarrow> u64 \<Rightarrow> node \<Rightarrow> bool \<times> node" where
  "hotstuff_new_viewed e m tid s =
     (let t = tman e s tid;
          first = (vote_fresh e m t \<and> hv_voters (sync_hash m) (tm_hash_voters t) = []);
          s = upd_tman e tid (\<lambda>t. snd (count_vote e m t)) s
      in (fst (count_vote e m t),
          if first then put_hash_to_txnid (m_instance_id (sync_base m)) (sync_hash m) (m_txn_id (sync_base m)) s
          else s))"

section \<open>Committing: the chain of certificates\<close>

definition enqueue_execute :: "env \<Rightarrow> u64 \<Rightarrow> node \<Rightarrow> node option" where
  \<comment> \<open>\<open>tmsg = create_message(tman, EXECUTE_MSG); work_queue.enqueue(\<dots>, tmsg, false);\<close>\<close>
  "enqueue_execute e tid s = enqueue e (MExecute (new_Execute_txn e s (tman e s tid))) s"

text \<open>
  One round of the loop of \<open>send_execute_msg_hotstuff\<close> on the certificate \<open>QC\<close>, and the
  loop: it follows \<open>parent_hash\<close> as long as that certificate is stored, and may run
  forever on a map whose entries are not filed under their own hash.
\<close>

definition execute_ancestor :: "env \<Rightarrow> u64 \<Rightarrow> QuorumCertificate \<Rightarrow> node \<Rightarrow> node option" where
  "execute_ancestor e instance_id qc s = do {
     let (tid, s) = hash_to_txnid_at instance_id (batch_hash qc) s;
     let s = get_tman e tid s;
     s \<leftarrow> enqueue_execute e tid s;
     Some (erase_txnid_to_hash instance_id tid
       (erase_hash_to_txnid instance_id (batch_hash qc)
         (erase_hash_to_QC instance_id (batch_hash qc) s))) }"

partial_function (option) execute_ancestors :: "env \<Rightarrow> u64 \<Rightarrow> QuorumCertificate \<Rightarrow> node \<Rightarrow> node option" where
  "execute_ancestors e instance_id qc s =
     Option.bind (execute_ancestor e instance_id qc s) (\<lambda>s.
       case hash_to_QC s instance_id (parent_hash qc) of
         None \<Rightarrow> Some s
       | Some qc' \<Rightarrow> execute_ancestors e instance_id qc' s)"

definition send_execute_msg_hotstuff :: "env \<Rightarrow> u64 \<Rightarrow> u64 \<Rightarrow> node \<Rightarrow> node option" where
  "send_execute_msg_hotstuff e tid instance_id s = do {
     let (qc, s) = hash_to_QC_at instance_id (tm_hash (tman e s tid)) s;
     s \<leftarrow> (case hash_to_QC s instance_id (parent_hash qc) of
             None \<Rightarrow> Some s
           | Some qc' \<Rightarrow> execute_ancestors e instance_id qc' s);
     let t = tman e s tid;
     let s = erase_txnid_to_hash instance_id tid
       (fold (\<lambda>p. erase_hash_to_txnid instance_id (fst p)) (tm_hash_voters t)
         (erase_hash_to_QC instance_id (tm_hash t) s));
     enqueue_execute e tid s }"

definition set_qc_type :: "u64 \<Rightarrow> string \<Rightarrow> QCType \<Rightarrow> node \<Rightarrow> node" where
  \<comment> \<open>\<open>hash_to_QC[i][h].type = ty\<close>\<close>
  "set_qc_type i h ty s = (case hash_to_QC_at i h s of (q, s) \<Rightarrow> put_hash_to_QC i h (q\<lparr>qc_type := ty\<rparr>) s)"

definition update_lockQC :: "env \<Rightarrow> QuorumCertificate \<Rightarrow> u64 \<Rightarrow> u64 \<Rightarrow> u64 \<Rightarrow> node \<Rightarrow> node option" where
  "update_lockQC e qc view txnid instance_id s =
     (let b1 = qc;
          (b2, s) = hash_to_QC_at instance_id (parent_hash b1) s;
          (b3, s) = hash_to_QC_at instance_id (parent_hash b2) s;
          one = (viewNumber b1 + 1 = view);
          two = (one \<and> viewNumber b2 + 2 = view);
          three = (two \<and> viewNumber b3 + 3 = view);
          s = (if one then set_g_preparedQC b1 instance_id txnid s else s);
          s = (if two then set_g_lockedQC b2 instance_id (txnid - get_totInstances e * get_batch_size e) s else s)
      in if three then
           (let s = set_qc_type instance_id (batch_hash b3) COMMIT s;
                t_man = txnid - 2 * get_totInstances e * get_batch_size e
            in send_execute_msg_hotstuff e t_man instance_id (get_tman e t_man s))
         else Some s)"

section \<open>Views\<close>

definition make_genericQC :: "u64 \<Rightarrow> TxnManager \<Rightarrow> QuorumCertificate" where
  \<comment> \<open>\<open>view\<close> is the view being left\<close>
  "make_genericQC view t =
     (let h = tm_highQC t
      in (tm_genericQC t)\<lparr>batch_hash := tm_hash t, qc_type := PREPARE,
           viewNumber := (if genesis h then 0 else view),
           parent_hash := batch_hash h, parent_view := viewNumber h,
           grand_hash := parent_hash h, grand_view := parent_view h\<rparr>)"

definition advance_view :: "env \<Rightarrow> u64 \<Rightarrow> node \<Rightarrow> node option" where
  "advance_view e tid s =
     (let t = tman e s tid;
          instance_id = tm_instance_id t;
          view = get_current_view s instance_id + 1;
          qc = make_genericQC (view - 1) t
      in if tm_hash t = '''' then None
         else do {
           let s = upd_tman e tid (\<lambda>t. t\<lparr>tm_genericQC := qc\<rparr>) s;
           let s = put_hash_to_QC instance_id (tm_hash t) qc s;
           s \<leftarrow> update_lockQC e qc view tid instance_id s;
           let s = set_curr_new_viewed tid instance_id (set_view e instance_id view s);
           let s = (if node_id e = get_view_primary e view instance_id
                    then s\<lparr>new_txn_semaphore := new_txn_semaphore s + 1\<rparr> else s);
           Some (if node_id e = get_view_primary e (view + ROUNDS_IN_ADVANCE e) instance_id
                 then s\<lparr>proposal_semaphore := proposal_semaphore s + 1\<rparr> else s) })"

text \<open>\<open>skip_view\<close>; \<open>MULTI_INSTANCES\<close> initialises \<open>totInstances\<close>.\<close>

definition skip_view :: "env \<Rightarrow> SpotLessGenericMsg \<Rightarrow> u64 \<Rightarrow> node \<Rightarrow> node option" where
  "skip_view e gene tid s =
     (let instance_id = m_instance_id (gen_base gene);
          prev = tid - get_batch_size e * get_totInstances e;
          qc = gen_highQC gene
      in do {
        let s = upd_tman e prev (\<lambda>t. t\<lparr>tm_genericQC := qc\<rparr>) (get_tman e prev s);
        let s = put_hash_to_QC instance_id (batch_hash qc) qc s;
        s \<leftarrow> update_lockQC e qc (viewNumber qc) prev instance_id s;
        Some (set_curr_new_viewed prev instance_id (set_view e instance_id (gen_view gene) s)) })"

section \<open>Handlers\<close>

definition process_hotstuff_new_view :: "env \<Rightarrow> SpotLessSyncMsg \<Rightarrow> u64 \<Rightarrow> node \<Rightarrow> node option" where
  "process_hotstuff_new_view e nvmsg tid s = do {
     ok \<leftarrow> validate_msg e (keys s) (MSync nvmsg);
     let t = tman e s tid;
     if tm_hash t \<noteq> '''' \<and> sync_hash nvmsg \<noteq> tm_hash t then Some s
     else
       let (quorum, s) = hotstuff_new_viewed e nvmsg tid s; t = tman e s tid
       in if quorum \<and> tm_proposal_received t \<and> tm_generic_received t then advance_view e tid s
          else Some s }"

definition process_hotstuff_generic :: "env \<Rightarrow> SpotLessGenericMsg \<Rightarrow> u64 \<Rightarrow> node \<Rightarrow> node option" where
  "process_hotstuff_generic e gene tid s =
     (let instance_id = m_instance_id (gen_base gene)
      in if tm_generic_received (tman e s tid) then Some s
         else do {
           s \<leftarrow> (if gen_view gene > get_current_view s instance_id then skip_view e gene tid s else Some s);
           if get_view_primary e (get_current_view s instance_id) instance_id \<noteq> m_return_node_id (gen_base gene)
           then Some s
           else do {
             ok \<leftarrow> validate_msg e (keys s) (MGeneric gene);
             if \<not> SafeNode s (gen_highQC gene) instance_id then Some s
             else do {
               let t = tman e s tid;
               s \<leftarrow> (if tm_hash t = ''''
                     then Some (upd_tman e tid (\<lambda>t. (set_hash (gen_hash gene) t)
                            \<lparr>tm_view := gen_view gene, tm_instance_id := instance_id\<rparr>) s)
                     else if tm_hash t \<noteq> gen_hash gene then None else Some s);
               let s = upd_tman e tid (\<lambda>t. t\<lparr>tm_highQC := gen_highQC gene, tm_generic_received := True\<rparr>) s;
               let s = put_hash_to_QC instance_id (batch_hash (gen_highQC gene)) (gen_highQC gene) s;
               s \<leftarrow> (if viewNumber (gen_highQC gene) > viewNumber (g_preparedQC s instance_id)
                     then update_lockQC e (gen_highQC gene) (gen_view gene)
                            (tid - get_totInstances e * get_batch_size e) instance_id s
                     else Some s);
               let s = send_hotstuff_newview e None tid s;
               if tm_new_viewed (tman e s tid) \<and> tm_proposal_received (tman e s tid)
               then advance_view e tid s else Some s } } })"

definition process_hotstuff_generic_p :: "env \<Rightarrow> u64 \<Rightarrow> node \<Rightarrow> node option" where
  "process_hotstuff_generic_p e tid s = do {
     s \<leftarrow> send_hotstuff_generic e tid s;
     let s = upd_tman e tid (\<lambda>t. t\<lparr>tm_generic_received := True\<rparr>) s;
     Some (send_hotstuff_newview e None tid s) }"

text \<open>\<open>init_txn_man\<close>; \<open>requests\<close> has capacity \<open>g_req_per_query\<close>.\<close>

definition init_txn_man :: "env \<Rightarrow> YCSBClientQueryMessage \<Rightarrow> u64 \<Rightarrow> node \<Rightarrow> node option" where
  "init_txn_man e clqry tid s =
     (if length (tm_requests (tman e s tid)) + length (yc_requests clqry) \<le> unat (g_req_per_query e)
      then Some (upd_tman e tid (\<lambda>t. t\<lparr>tm_client_id := yc_return_node clqry,
             tm_client_startts := yc_client_startts clqry,
             tm_requests := tm_requests t @ yc_requests clqry\<rparr>) s)
      else None)"

text \<open>The body of the loop that sets up one transaction of a batch.\<close>

definition setup_txn :: "env \<Rightarrow> u64 \<Rightarrow> u64 \<Rightarrow> u64 \<Rightarrow> u64 \<Rightarrow> YCSBClientQueryMessage \<Rightarrow> node \<Rightarrow> node option" where
  "setup_txn e ret view instance_id tid clqry s = do {
     s \<leftarrow> unset_ready_txn e tid (get_tman e tid s);
     let s = upd_tman e tid (\<lambda>t. t\<lparr>tm_return_id := ret, tm_view := view, tm_instance_id := instance_id\<rparr>) s;
     s \<leftarrow> init_txn_man e clqry tid s;
     set_ready_txn e tid s }"

definition setup_txns :: "env \<Rightarrow> u64 \<Rightarrow> u64 \<Rightarrow> u64 \<Rightarrow> (u64 \<times> YCSBClientQueryMessage) list \<Rightarrow> node \<Rightarrow> node option" where
  "setup_txns e ret view instance_id = fold_option (\<lambda>(tid, q). setup_txn e ret view instance_id tid q)"

text \<open>The manager of the last transaction stays acquired and gets the batch's hash.\<close>

definition set_txn_man_fields :: "env \<Rightarrow> SpotLessProposalMsg \<Rightarrow> u64 \<Rightarrow> node \<Rightarrow> (u64 \<times> node) option" where
  "set_txn_man_fields e prop tid0 s = do {
     idx \<leftarrow> first_n (batch_n e) (prop_index prop);
     qs \<leftarrow> prop_requests e prop;
     s \<leftarrow> setup_txns e (m_return_node_id (prop_base prop)) (prop_view prop) (m_instance_id (prop_base prop))
            (zip idx qs) s;
     let tid = (if idx = [] then tid0 else last idx);
     s \<leftarrow> unset_ready_txn e tid s;
     Some (tid, upd_tman e tid (set_hash (prop_hash prop)) s) }"

text \<open>The handlers that move \<open>txn_man\<close> return the manager it points to in the end.\<close>

definition process_hotstuff_proposal :: "env \<Rightarrow> u64 \<Rightarrow> SpotLessProposalMsg \<Rightarrow> node \<Rightarrow> (u64 option \<times> node) option" where
  "process_hotstuff_proposal e now prop s =
     (let tid0 = m_txn_id (prop_base prop) + 2;
          instance_id = m_instance_id (prop_base prop);
          s = get_tman e tid0 s;
          t = tman e s tid0
      in if tm_proposal_received t then Some (None, s)
         else if tm_generic_received t \<and> prop_hash prop \<noteq> tm_hash t then None
         else do {
           ok \<leftarrow> validate_msg e (keys s) (MProposal prop);
           (tid, s) \<leftarrow> set_txn_man_fields e prop tid0 s;
           s \<leftarrow> set_primarybatch e now (MProposal prop) tid s;
           let hash = tm_hash (tman e s tid);
           let s = insert_hash_to_txnid instance_id hash tid (insert_txnid_to_hash instance_id tid hash s);
           let s = upd_tman e tid (\<lambda>t. t\<lparr>tm_proposal_received := True\<rparr>) s;
           s \<leftarrow> (if tm_new_viewed (tman e s tid) \<and> tm_generic_received (tman e s tid)
                 then advance_view e tid s else Some s);
           s \<leftarrow> set_ready_txn e tid s;
           let tid' = m_txn_id (prop_base prop);
           s \<leftarrow> unset_ready_txn e tid' (get_tman e tid' s);
           Some (Some tid', s) })"

section \<open>The primary: proposing a batch\<close>

definition get_next_txn_id :: "env \<Rightarrow> u64 \<Rightarrow> u64" where
  "get_next_txn_id e next_set = get_batch_size e * next_set"

text \<open>The body of the loop that allocates the managers of the batch and fills the proposal.\<close>

definition prepare_txn :: "env \<Rightarrow> u64 \<Rightarrow> u64 \<Rightarrow> u64 \<Rightarrow> u64 \<times> YCSBClientQueryMessage \<Rightarrow>
    SpotLessProposalMsg \<times> node \<Rightarrow> (SpotLessProposalMsg \<times> node) option" where
  "prepare_txn e ret view instance_id = (\<lambda>(tid, clqry) (prep, s). do {
     s \<leftarrow> unset_ready_txn e tid (get_tman e tid s);
     let s = upd_tman e tid (\<lambda>t. t\<lparr>tm_return_id := ret, tm_view := view, tm_instance_id := instance_id\<rparr>) s;
     s \<leftarrow> init_txn_man e clqry tid s;
     prep \<leftarrow> Proposal_copy_request e (tman e s tid) clqry prep;
     s \<leftarrow> set_ready_txn e tid s;
     Some (prep, s) })"

definition create_and_send_hotstuff_prepare :: "env \<Rightarrow> u64 \<Rightarrow> ClientQueryBatch \<Rightarrow> node \<Rightarrow> (u64 option \<times> node) option" where
  "create_and_send_hotstuff_prepare e now msg s =
     (let next_set = m_txn_id (cb_base msg);
          instance_id = next_set mod get_totInstances e;
          view = get_last_sent_view s instance_id;
          tids = map (\<lambda>i. get_next_txn_id e next_set + word_of_nat i) [0..<batch_n e]
      in do {
        prep \<leftarrow> Proposal_init e s instance_id (new_Proposal e SpotLess_PROPOSAL_MSG);
        qs \<leftarrow> first_n (batch_n e) (cqrySet msg);
        if qs = [] then None
        else do {
          (prep, s) \<leftarrow> fold_option (prepare_txn e (cb_return_node msg) view instance_id) (zip tids qs) (prep, s);
          let tid = last tids;
          s \<leftarrow> unset_ready_txn e tid s;
          let hash = calculateHash e (concat (map YCSB_getString qs));
          if hash = '''' then None
          else do {
            let s = upd_tman e tid (set_hash hash) s;
            let s = put_hash_to_txnid instance_id hash tid s;
            let prep = Proposal_copy_from_txn e (tman e s tid) prep;
            s \<leftarrow> set_primarybatch e now (MProposal prep) tid s;
            let s = upd_tman e tid (\<lambda>t. t\<lparr>tm_proposal_received := True\<rparr>) s;
            Some (Some tid, send_out (MProposal prep) (nodes_to_send e 0 (node_cnt e)) s) } } })"

definition process_client_batch_hotstuff :: "env \<Rightarrow> u64 \<Rightarrow> ClientQueryBatch \<Rightarrow> node \<Rightarrow> (u64 option \<times> node) option" where
  "process_client_batch_hotstuff e now msg s = do {
     ok \<leftarrow> validate_msg e (keys s) (MClientBatch msg);
     create_and_send_hotstuff_prepare e now msg s }"

end
