(* ===== verification/Votes.thy ===== *)
theory Votes
  imports Worker
begin

text \<open>
  The votes that a transaction manager collects: the invariant of \<open>vote_new_view\<close>,
  \<open>hash_voters\<close> and \<open>new_view_vote_cnt\<close>, kept by \<open>hotstuff_new_viewed\<close> (a vote from another
  replica) and by the end of \<open>send_hotstuff_newview\<close> (the replica's own vote), and what
  it means that a quorum has been reported.
\<close>

section \<open>The voters of a hash\<close>

lemma hv_voters_push: "hv_voters h (hv_push h' v hv) = (if h = h' then hv_voters h hv @ [v] else hv_voters h hv)"
  by (induction h' v hv rule: hv_push.induct) (auto simp: hv_voters_def split: option.splits)

lemma hv_voters_Nil [simp]: "hv_voters h [] = []"
  by (simp add: hv_voters_def)

lemma nf_bounds:
  assumes "NODE_CNT e \<noteq> 0"
  shows "0 < unat (nf e)" and "unat (nf e) \<le> unat (NODE_CNT e)"
proof -
  let ?n = "unat (NODE_CNT e)"
  have n: "unat (NODE_CNT e - 1) = ?n - 1" "0 < ?n"
    using assms by (simp_all add: unat_minus_one unat_gt_0)
  have "(?n - 1) div 3 + 1 < 2 ^ 32" using n(2) unat_u32_less [of "NODE_CNT e"] by linarith
  then have "unat ((NODE_CNT e - 1) div 3 + 1) = (?n - 1) div 3 + 1"
    by (simp add: unat_word_ariths unat_div n(1))
  then have g: "unat (g_min_invalid_nodes e) = (if NODE_CNT e mod 3 = 1 then (?n - 1) div 3 else (?n - 1) div 3 + 1)"
    by (simp add: g_min_invalid_nodes_def unat_div n(1))
  have "?n \<noteq> 1" if "NODE_CNT e mod 3 \<noteq> 1"
  proof
    assume "?n = 1"
    then have "NODE_CNT e = 1" by (simp add: word_unat_eq_iff)
    with that show False by simp
  qed
  then have "unat (g_min_invalid_nodes e) < ?n"
    using g n(2) by (simp split: if_splits)
  moreover from this have "g_min_invalid_nodes e \<le> ucast (NODE_CNT e)"
    by (simp add: word_le_nat_alt)
  ultimately show "0 < unat (nf e)" "unat (nf e) \<le> ?n"
    by (simp_all add: nf_def unat_sub)
qed

section \<open>The invariant\<close>

text \<open>
  Every replica has at most one vote, for one hash; a voter other than this replica is
  recorded in \<open>vote_new_view\<close> and this replica's own vote implies \<open>sync_sent\<close>; the counter
  bounds the number of votes of every hash and is below \<open>nf\<close> until a hash has \<open>nf\<close> votes.
\<close>

definition own_voted :: "env \<Rightarrow> TxnManager \<Rightarrow> bool" where
  "own_voted e t \<longleftrightarrow> (\<exists>h. node_id e \<in> set (hv_voters h (tm_hash_voters t)))"

definition vote_inv :: "env \<Rightarrow> TxnManager \<Rightarrow> bool" where
  "vote_inv e t \<longleftrightarrow>
     (\<forall>h. distinct (hv_voters h (tm_hash_voters t))) \<and>
     (\<forall>h h'. h \<noteq> h' \<longrightarrow> set (hv_voters h (tm_hash_voters t)) \<inter> set (hv_voters h' (tm_hash_voters t)) = {}) \<and>
     (\<forall>h. set (hv_voters h (tm_hash_voters t)) \<subseteq> insert (node_id e) (set (tm_vote_new_view t))) \<and>
     (tm_vote_new_view t \<noteq> [] \<longrightarrow> node_id e \<in> set (tm_vote_new_view t)) \<and>
     (own_voted e t \<longrightarrow> tm_sync_sent t) \<and>
     (\<forall>h. length (hv_voters h (tm_hash_voters t)) \<le> unat (tm_new_view_vote_cnt t)) \<and>
     (\<not> tm_new_viewed t \<longrightarrow> unat (tm_new_view_vote_cnt t) < unat (nf e)) \<and>
     unat (tm_new_view_vote_cnt t) \<le> unat (nf e) + (if own_voted e t then 1 else 0) \<and>
     (tm_new_viewed t \<longrightarrow> (\<exists>h. unat (nf e) \<le> length (hv_voters h (tm_hash_voters t))))"

text \<open>
  Both handlers push one vote and update the counter the same way; \<open>t\<close> is the manager
  after the push.
\<close>

definition push_vote :: "string \<Rightarrow> u64 \<Rightarrow> TxnManager \<Rightarrow> TxnManager" where
  "push_vote h v t =
     (let hv = hv_push h v (tm_hash_voters t);
          val = word_of_nat (length (hv_voters h hv))
      in t\<lparr>tm_hash_voters := hv,
           tm_new_view_vote_cnt := (if val > tm_new_view_vote_cnt t then val else tm_new_view_vote_cnt t)\<rparr>)"

lemma vote_own_push:
  "vote_own e t =
     (let t = push_vote (tm_hash t) (node_id e) t
      in if tm_new_view_vote_cnt t = nf e then set_new_viewed t else t)"
  by (simp add: vote_own_def push_vote_def Let_def)

lemma record_share_votes [simp]:
  "tm_hash_voters (record_share m t) = tm_hash_voters t"
  "tm_vote_new_view (record_share m t) = tm_vote_new_view t"
  "tm_new_view_vote_cnt (record_share m t) = tm_new_view_vote_cnt t"
  "tm_new_viewed (record_share m t) = tm_new_viewed t"
  "tm_sync_sent (record_share m t) = tm_sync_sent t"
  "tm_hash (record_share m t) = tm_hash t"
  by (simp_all add: record_share_def)

lemma erase_other_shares_votes [simp]:
  "tm_hash_voters (erase_other_shares h t) = tm_hash_voters t"
  "tm_vote_new_view (erase_other_shares h t) = tm_vote_new_view t"
  "tm_new_view_vote_cnt (erase_other_shares h t) = tm_new_view_vote_cnt t"
  "tm_new_viewed (erase_other_shares h t) = tm_new_viewed t"
  "tm_sync_sent (erase_other_shares h t) = tm_sync_sent t"
  by (simp_all add: erase_other_shares_def)

lemma push_vote_simps [simp]:
  "hv_voters h (tm_hash_voters (push_vote h' v t)) =
     (if h = h' then hv_voters h (tm_hash_voters t) @ [v] else hv_voters h (tm_hash_voters t))"
  "tm_vote_new_view (push_vote h' v t) = tm_vote_new_view t"
  "tm_new_viewed (push_vote h' v t) = tm_new_viewed t"
  "tm_sync_sent (push_vote h' v t) = tm_sync_sent t"
  by (simp_all add: push_vote_def Let_def hv_voters_push)

lemma push_vote_cnt:
  assumes "unat (tm_new_view_vote_cnt t) + 1 < 2 ^ 64"
    and "\<forall>h. length (hv_voters h (tm_hash_voters t)) \<le> unat (tm_new_view_vote_cnt t)"
  shows "unat (tm_new_view_vote_cnt (push_vote h v t)) =
    max (unat (tm_new_view_vote_cnt t)) (length (hv_voters h (tm_hash_voters t)) + 1)"
proof -
  have "length (hv_voters h (tm_hash_voters t)) + 1 < 2 ^ 64"
    using assms by (meson add_le_mono1 le_less_trans)
  then have "unat (word_of_nat (length (hv_voters h (tm_hash_voters t)) + 1) :: u64) =
      length (hv_voters h (tm_hash_voters t)) + 1"
    by (rule unat_of_nat_u64)
  then show ?thesis
    by (auto simp: push_vote_def Let_def hv_voters_push word_less_nat_alt simp del: of_nat_Suc of_nat_add)
qed

lemma vote_inv_cnt:
  assumes "vote_inv e t" and "NODE_CNT e \<noteq> 0"
  shows "unat (tm_new_view_vote_cnt t) + 1 < 2 ^ 64"
proof -
  have "unat (tm_new_view_vote_cnt t) \<le> unat (nf e) + 1"
    using assms(1) by (auto simp: vote_inv_def split: if_splits)
  moreover have "unat (nf e) < 2 ^ 32"
    using nf_bounds(2) [OF assms(2)] unat_u32_less [of "NODE_CNT e"] by simp
  ultimately show ?thesis by simp
qed

text \<open>One more vote, from a replica that has not voted yet.\<close>

definition after_vote :: "env \<Rightarrow> string \<Rightarrow> u64 \<Rightarrow> TxnManager \<Rightarrow> TxnManager" where
  "after_vote e h v t =
     (let t = push_vote h v t in if tm_new_view_vote_cnt t = nf e then set_new_viewed t else t)"

lemma after_vote_simps [simp]:
  "hv_voters h' (tm_hash_voters (after_vote e h v t)) =
     (if h' = h then hv_voters h (tm_hash_voters t) @ [v] else hv_voters h' (tm_hash_voters t))"
  "tm_vote_new_view (after_vote e h v t) = tm_vote_new_view t"
  "tm_sync_sent (after_vote e h v t) = tm_sync_sent t"
  "tm_new_view_vote_cnt (after_vote e h v t) = tm_new_view_vote_cnt (push_vote h v t)"
  by (simp_all add: after_vote_def Let_def set_new_viewed_def)

lemma after_vote_new_viewed:
  "tm_new_viewed (after_vote e h v t) \<longleftrightarrow> tm_new_viewed t \<or> tm_new_view_vote_cnt (push_vote h v t) = nf e"
  by (simp add: after_vote_def Let_def set_new_viewed_def)

lemma own_voted_after [simp]: "own_voted e (after_vote e h v t) \<longleftrightarrow> own_voted e t \<or> v = node_id e"
  by (auto simp: own_voted_def)

text \<open>The quorum is complete exactly when the hash voted for has \<open>nf\<close> voters.\<close>

lemma push_vote_quorum:
  assumes "vote_inv e t" and "NODE_CNT e \<noteq> 0" and "\<not> tm_new_viewed t"
  shows "tm_new_view_vote_cnt (push_vote h v t) = nf e \<longleftrightarrow>
    length (hv_voters h (tm_hash_voters (push_vote h v t))) = unat (nf e)"
proof -
  have c: "unat (tm_new_view_vote_cnt (push_vote h v t)) =
      max (unat (tm_new_view_vote_cnt t)) (length (hv_voters h (tm_hash_voters t)) + 1)"
    using assms vote_inv_cnt by (intro push_vote_cnt) (auto simp: vote_inv_def)
  have "unat (tm_new_view_vote_cnt t) < unat (nf e)" "length (hv_voters h (tm_hash_voters t)) \<le> unat (tm_new_view_vote_cnt t)"
    using assms by (auto simp: vote_inv_def)
  with c show ?thesis by (auto simp: word_unat_eq_iff)
qed

lemma after_vote_inv:
  assumes inv: "vote_inv e t" and n: "NODE_CNT e \<noteq> 0"
    and fresh: "\<forall>h'. v \<notin> set (hv_voters h' (tm_hash_voters t))"
    and own: "v = node_id e \<and> tm_sync_sent t \<or> v \<noteq> node_id e \<and> v \<in> set (tm_vote_new_view t) \<and> \<not> tm_new_viewed t"
  shows "vote_inv e (after_vote e h v t)"
proof -
  let ?t = "after_vote e h v t" and ?hv = "tm_hash_voters t"
  have c: "unat (tm_new_view_vote_cnt ?t) = max (unat (tm_new_view_vote_cnt t)) (length (hv_voters h ?hv) + 1)"
    unfolding after_vote_simps(4)
    using inv vote_inv_cnt [OF inv n] by (intro push_vote_cnt) (auto simp: vote_inv_def)
  have le: "length (hv_voters h' ?hv) \<le> unat (tm_new_view_vote_cnt t)" for h'
    using inv by (simp add: vote_inv_def)
  have lt: "unat (tm_new_view_vote_cnt t) < unat (nf e)" if "\<not> tm_new_viewed t"
    using inv that by (simp add: vote_inv_def)
  have ub: "unat (tm_new_view_vote_cnt t) \<le> unat (nf e)" if "\<not> own_voted e t"
    using inv that by (simp add: vote_inv_def)
  have 1: "\<forall>h'. length (hv_voters h' (tm_hash_voters ?t)) \<le> unat (tm_new_view_vote_cnt ?t)"
    using c le by (auto simp: le_max_iff_disj)
  have 2: "\<not> tm_new_viewed ?t \<longrightarrow> unat (tm_new_view_vote_cnt ?t) < unat (nf e)"
  proof
    assume "\<not> tm_new_viewed ?t"
    then have "\<not> tm_new_viewed t" "tm_new_view_vote_cnt ?t \<noteq> nf e" by (auto simp: after_vote_new_viewed)
    then show "unat (tm_new_view_vote_cnt ?t) < unat (nf e)"
      using c le [of h] lt unfolding word_unat_eq_iff by linarith
  qed
  have 3: "unat (tm_new_view_vote_cnt ?t) \<le> unat (nf e) + (if own_voted e ?t then 1 else 0)"
  proof (cases "tm_new_viewed t")
    case True
    then have "\<not> own_voted e t" "own_voted e ?t" using own fresh by (auto simp: own_voted_def)
    then show ?thesis using c le [of h] ub by simp
  next
    case False
    then show ?thesis using c le [of h] lt by simp
  qed
  have 4: "tm_new_viewed ?t \<longrightarrow> (\<exists>h'. unat (nf e) \<le> length (hv_voters h' (tm_hash_voters ?t)))"
  proof (cases "tm_new_viewed t")
    case True
    then obtain h' where "unat (nf e) \<le> length (hv_voters h' ?hv)" using inv by (auto simp: vote_inv_def)
    then show ?thesis by (intro impI exI [of _ h']) auto
  next
    case False
    then show ?thesis using push_vote_quorum [OF inv n False, of h v]
      by (intro impI exI [of _ h]) (simp add: after_vote_new_viewed)
  qed
  have 5: "\<forall>h'. distinct (hv_voters h' (tm_hash_voters ?t))"
    using inv fresh by (auto simp: vote_inv_def)
  have 6: "\<forall>h1 h2. h1 \<noteq> h2 \<longrightarrow> set (hv_voters h1 (tm_hash_voters ?t)) \<inter> set (hv_voters h2 (tm_hash_voters ?t)) = {}"
    using inv fresh unfolding vote_inv_def by simp
  have 7: "\<forall>h'. set (hv_voters h' (tm_hash_voters ?t)) \<subseteq> insert (node_id e) (set (tm_vote_new_view ?t))"
    using inv own unfolding vote_inv_def by auto
  have 8: "own_voted e ?t \<longrightarrow> tm_sync_sent ?t" "tm_vote_new_view ?t \<noteq> [] \<longrightarrow> node_id e \<in> set (tm_vote_new_view ?t)"
    using inv own unfolding vote_inv_def by auto
  show ?thesis
    unfolding vote_inv_def [of e ?t] using 1 2 3 4 5 6 7 8 by blast
qed

section \<open>The handlers keep the invariant\<close>

lemma vote_inv_cong:
  assumes "tm_hash_voters t = tm_hash_voters u" and "tm_vote_new_view t = tm_vote_new_view u"
    and "tm_new_view_vote_cnt t = tm_new_view_vote_cnt u" and "tm_new_viewed t = tm_new_viewed u"
    and "tm_sync_sent t = tm_sync_sent u"
  shows "vote_inv e t = vote_inv e u"
  unfolding vote_inv_def own_voted_def using assms by simp

definition voters_seen :: "env \<Rightarrow> TxnManager \<Rightarrow> u64 list" where
  "voters_seen e t = (if tm_vote_new_view t = [] then [node_id e] else tm_vote_new_view t)"

lemma vote_fresh_iff:
  "vote_fresh e m t \<longleftrightarrow> \<not> tm_new_viewed t \<and> m_return_node_id (sync_base m) \<notin> set (voters_seen e t)"
  by (simp add: vote_fresh_def voters_seen_def)

lemma count_vote_stale:
  assumes "\<not> vote_fresh e m t"
  shows "count_vote e m t = (False, if tm_new_viewed t then t else t\<lparr>tm_vote_new_view := voters_seen e t\<rparr>)"
  using assms by (auto simp: vote_fresh_def count_vote_def Let_def voters_seen_def)

definition counted :: "env \<Rightarrow> SpotLessSyncMsg \<Rightarrow> TxnManager \<Rightarrow> TxnManager" where
  "counted e m t = after_vote e (sync_hash m) (m_return_node_id (sync_base m))
     (t\<lparr>tm_vote_new_view := voters_seen e t @ [m_return_node_id (sync_base m)]\<rparr>)"

lemma record_share_vote_new_view: "record_share m (t\<lparr>tm_vote_new_view := vs\<rparr>) = (record_share m t)\<lparr>tm_vote_new_view := vs\<rparr>"
  by (simp add: record_share_def)

lemma count_vote_fresh_eq:
  assumes "vote_fresh e m t"
  shows "count_vote e m t =
    (let u = push_vote (sync_hash m) (m_return_node_id (sync_base m))
               ((record_share m t)\<lparr>tm_vote_new_view := voters_seen e t @ [m_return_node_id (sync_base m)]\<rparr>)
     in if tm_new_view_vote_cnt u = nf e then (True, set_new_viewed (erase_other_shares (sync_hash m) u)) else (False, u))"
proof -
  have "m_return_node_id (sync_base m) \<notin> set (voters_seen e t)" "\<not> tm_new_viewed t"
    using assms by (simp_all add: vote_fresh_iff)
  moreover have "(if tm_vote_new_view t = [] then t\<lparr>tm_vote_new_view := [node_id e]\<rparr> else t) =
      t\<lparr>tm_vote_new_view := voters_seen e t\<rparr>"
    by (simp add: voters_seen_def)
  ultimately show ?thesis
    unfolding count_vote_def by (simp add: Let_def push_vote_def record_share_vote_new_view)
qed

lemma count_vote_fresh:
  assumes "vote_fresh e m t"
  shows "fst (count_vote e m t) \<longleftrightarrow> tm_new_viewed (snd (count_vote e m t))"
    and "tm_hash_voters (snd (count_vote e m t)) = tm_hash_voters (counted e m t)"
    and "tm_vote_new_view (snd (count_vote e m t)) = tm_vote_new_view (counted e m t)"
    and "tm_new_view_vote_cnt (snd (count_vote e m t)) = tm_new_view_vote_cnt (counted e m t)"
    and "tm_new_viewed (snd (count_vote e m t)) = tm_new_viewed (counted e m t)"
    and "tm_sync_sent (snd (count_vote e m t)) = tm_sync_sent (counted e m t)"
proof -
  have nv: "\<not> tm_new_viewed t" using assms by (simp add: vote_fresh_iff)
  have c: "tm_new_view_vote_cnt (push_vote h v ((record_share m t)\<lparr>tm_vote_new_view := vs\<rparr>)) =
      tm_new_view_vote_cnt (push_vote h v (t\<lparr>tm_vote_new_view := vs\<rparr>))"
    "tm_hash_voters (push_vote h v ((record_share m t)\<lparr>tm_vote_new_view := vs\<rparr>)) =
      tm_hash_voters (push_vote h v (t\<lparr>tm_vote_new_view := vs\<rparr>))" for h v vs
    by (simp_all add: push_vote_def Let_def)
  show "fst (count_vote e m t) \<longleftrightarrow> tm_new_viewed (snd (count_vote e m t))"
    "tm_hash_voters (snd (count_vote e m t)) = tm_hash_voters (counted e m t)"
    "tm_vote_new_view (snd (count_vote e m t)) = tm_vote_new_view (counted e m t)"
    "tm_new_view_vote_cnt (snd (count_vote e m t)) = tm_new_view_vote_cnt (counted e m t)"
    "tm_new_viewed (snd (count_vote e m t)) = tm_new_viewed (counted e m t)"
    "tm_sync_sent (snd (count_vote e m t)) = tm_sync_sent (counted e m t)"
    using nv unfolding count_vote_fresh_eq [OF assms] counted_def after_vote_def Let_def
    by (simp_all add: set_new_viewed_def c)
qed

lemma seen_inv: "vote_inv e t \<Longrightarrow> vote_inv e (t\<lparr>tm_vote_new_view := voters_seen e t @ vs\<rparr>)"
  by (cases "tm_vote_new_view t") (auto simp: vote_inv_def own_voted_def voters_seen_def)

lemma seen_own: "vote_inv e t \<Longrightarrow> node_id e \<in> set (voters_seen e t)"
  by (auto simp: vote_inv_def voters_seen_def)

lemma fresh_voter:
  assumes "vote_inv e t" and "vote_fresh e m t"
  shows "m_return_node_id (sync_base m) \<notin> set (hv_voters h (tm_hash_voters t))"
proof -
  have "set (hv_voters h (tm_hash_voters t)) \<subseteq> set (voters_seen e t)"
    using assms(1) seen_own [OF assms(1)] by (auto simp: vote_inv_def voters_seen_def split: if_splits)
  with assms(2) show ?thesis by (auto simp: vote_fresh_iff)
qed

lemma counted_inv:
  assumes "vote_inv e t" and "NODE_CNT e \<noteq> 0" and "vote_fresh e m t"
  shows "vote_inv e (counted e m t)"
  unfolding counted_def
proof (rule after_vote_inv [OF seen_inv [OF assms(1)] assms(2)])
  show "\<forall>h'. m_return_node_id (sync_base m) \<notin> set (hv_voters h'
      (tm_hash_voters (t\<lparr>tm_vote_new_view := voters_seen e t @ [m_return_node_id (sync_base m)]\<rparr>)))"
    using fresh_voter [OF assms(1,3)] by simp
qed (use assms seen_own [OF assms(1)] in \<open>auto simp: vote_fresh_iff\<close>)

lemma count_vote_inv:
  assumes "vote_inv e t" and "NODE_CNT e \<noteq> 0"
  shows "vote_inv e (snd (count_vote e m t))"
proof (cases "vote_fresh e m t")
  case True
  have "vote_inv e (snd (count_vote e m t)) = vote_inv e (counted e m t)"
    by (intro vote_inv_cong count_vote_fresh True)
  then show ?thesis using counted_inv [OF assms True] by simp
next
  case False
  then show ?thesis using assms(1) seen_inv [OF assms(1), of "[]"] by (simp add: count_vote_stale)
qed

lemma vote_own_inv:
  assumes "vote_inv e t" and "NODE_CNT e \<noteq> 0" and "\<not> own_voted e t" and "tm_sync_sent t"
  shows "vote_inv e (vote_own e t)"
proof -
  have "vote_own e t = after_vote e (tm_hash t) (node_id e) t"
    by (simp add: vote_own_push after_vote_def)
  then show ?thesis using assms after_vote_inv by (simp add: own_voted_def)
qed

text \<open>A reported quorum: exactly \<open>nf\<close> different replicas have voted for the message's hash.\<close>

lemma count_vote_quorum:
  assumes "vote_inv e t" and "NODE_CNT e \<noteq> 0" and "fst (count_vote e m t)"
  shows "length (hv_voters (sync_hash m) (tm_hash_voters (snd (count_vote e m t)))) = unat (nf e)"
    and "distinct (hv_voters (sync_hash m) (tm_hash_voters (snd (count_vote e m t))))"
    and "tm_new_viewed (snd (count_vote e m t)) \<and> \<not> tm_new_viewed t"
proof -
  have fresh: "vote_fresh e m t"
    using assms(3) count_vote_stale by (metis fst_conv)
  let ?t = "t\<lparr>tm_vote_new_view := voters_seen e t @ [m_return_node_id (sync_base m)]\<rparr>"
  have nv: "\<not> tm_new_viewed t" using fresh by (simp add: vote_fresh_iff)
  have "tm_new_viewed (counted e m t)"
    using assms(3) count_vote_fresh [OF fresh] by simp
  then have "tm_new_view_vote_cnt (push_vote (sync_hash m) (m_return_node_id (sync_base m)) ?t) = nf e"
    using nv by (simp add: counted_def after_vote_new_viewed)
  then show "length (hv_voters (sync_hash m) (tm_hash_voters (snd (count_vote e m t)))) = unat (nf e)"
    using push_vote_quorum [OF seen_inv [OF assms(1)] assms(2)] nv count_vote_fresh(2) [OF fresh]
    by (simp add: counted_def)
  show "tm_new_viewed (snd (count_vote e m t)) \<and> \<not> tm_new_viewed t"
    using count_vote_fresh(1) [OF fresh] assms(3) nv by simp
  show "distinct (hv_voters (sync_hash m) (tm_hash_voters (snd (count_vote e m t))))"
    using count_vote_inv [OF assms(1,2)] by (simp add: vote_inv_def)
qed

text \<open>A clean manager satisfies the invariant.\<close>

lemma clean_vote_inv:
  assumes "clean t" and "NODE_CNT e \<noteq> 0" and "tm_vote_new_view t \<noteq> [] \<longrightarrow> node_id e \<in> set (tm_vote_new_view t)"
  shows "vote_inv e t"
  using assms nf_bounds(1) [OF assms(2)] by (simp add: vote_inv_def clean_def own_voted_def)

section \<open>One hash per manager\<close>

text \<open>
  The interface of a ballot box in which every replica has at most one vote: two
  hashes cannot both have a majority of the replicas.
\<close>

locale vote_box =
  fixes inv :: "'t \<Rightarrow> bool" and votes :: "'t \<Rightarrow> string \<Rightarrow> u64 set"
  assumes votes_finite: "finite (votes t h)"
    and votes_disjoint: "inv t \<Longrightarrow> h \<noteq> h' \<Longrightarrow> votes t h \<inter> votes t h' = {}"
begin

lemma majority_unique:
  assumes "inv t" and "votes t h \<subseteq> R" and "votes t h' \<subseteq> R" and "finite R"
    and "q \<le> card (votes t h)" and "q \<le> card (votes t h')" and "card R < 2 * q"
  shows "h = h'"
proof (rule ccontr)
  assume "h \<noteq> h'"
  then have "card (votes t h \<union> votes t h') = card (votes t h) + card (votes t h')"
    using votes_disjoint [OF assms(1)] votes_finite by (intro card_Un_disjoint) auto
  moreover have "card (votes t h \<union> votes t h') \<le> card R"
    using assms by (intro card_mono) auto
  ultimately show False using assms by simp
qed

end

definition votes_for :: "TxnManager \<Rightarrow> string \<Rightarrow> u64 set" where
  "votes_for t h = set (hv_voters h (tm_hash_voters t))"

interpretation vb: vote_box "vote_inv e" votes_for for e
  by unfold_locales (simp_all add: votes_for_def vote_inv_def)

end
