(* ===== verification/Protocol.thy ===== *)
theory Protocol
  imports Votes
begin

text \<open>
  The consensus handlers as a whole: casting and counting votes on the node's managers,
  prepared and locked certificates, committing a chain of certificates, and the guards of
  the handler of generic messages.
\<close>

section \<open>Frame lemmas\<close>


lemma table_frame [simp]:
  "txn_table (send_out m d s) = txn_table s"
  "txn_table (put_hash_to_txnid i h t s) = txn_table s"
  "txn_table (put_hash_to_QC i h q s) = txn_table s"
  "txn_table (erase_hash_to_QC i h s) = txn_table s"
  "txn_table (erase_hash_to_txnid i h s) = txn_table s"
  "txn_table (erase_txnid_to_hash i t s) = txn_table s"
  "txn_table (snd (hash_to_QC_at i h s)) = txn_table s"
  "txn_table (snd (hash_to_txnid_at i h s)) = txn_table s"
  by (simp_all add: send_out_def put_hash_to_txnid_def put_hash_to_QC_def erase_hash_to_QC_def
      erase_hash_to_txnid_def erase_txnid_to_hash_def hash_to_QC_at_def hash_to_txnid_at_def split: option.splits)

lemma tman_frame [simp]:
  "tman e (send_out m d s) i = tman e s i"
  "tman e (put_hash_to_txnid i' h t s) i = tman e s i"
  "has_tman e (send_out m d s) i = has_tman e s i"
  "has_tman e (put_hash_to_txnid i' h t s) i = has_tman e s i"
  by (simp_all add: tman_def has_tman_def)

lemma keeps_ids_votes [simp]:
  "keeps_ids (\<lambda>t. snd (count_vote e m t))" "keeps_ids (vote_own e)"
  by (simp_all add: keeps_ids_def count_vote_def vote_own_def set_new_viewed_def record_share_def
      erase_other_shares_def Let_def)

lemma keeps_ids_fields [simp]:
  "keeps_ids (\<lambda>t. t\<lparr>tm_sync_sent := b\<rparr>)" "keeps_ids (set_hash h)"
  "keeps_ids (\<lambda>t. t\<lparr>tm_genericQC := f t\<rparr>)" "keeps_ids (\<lambda>t. t\<lparr>tm_highQC := q\<rparr>)"
  "keeps_ids (\<lambda>t. t\<lparr>tm_chkpt_flag := b\<rparr>)" "keeps_ids decr_chkpt_cnt"
  by (simp_all add: keeps_ids_def set_hash_def decr_chkpt_cnt_def)

section \<open>Votes on the node\<close>

lemma hotstuff_new_viewed_eq:
  "fst (hotstuff_new_viewed e m tid s) = fst (count_vote e m (tman e s tid))"
  "has_tman e s tid \<Longrightarrow> tman e (snd (hotstuff_new_viewed e m tid s)) tid = snd (count_vote e m (tman e s tid))"
  "j \<noteq> tid \<Longrightarrow> tman e (snd (hotstuff_new_viewed e m tid s)) j = tman e s j"
  by (simp_all add: hotstuff_new_viewed_def Let_def)

text \<open>A vote that has been cast is not cast again.\<close>

definition cast :: "env \<Rightarrow> SpotLessSyncMsg option \<Rightarrow> bool \<Rightarrow> string \<Rightarrow> TxnManager \<Rightarrow> TxnManager" where
  \<comment> \<open>what \<open>send_hotstuff_newview\<close> does to the manager: \<open>own\<close> when this replica is the next primary\<close>
  "cast e nmsg own share t =
     (let t = t\<lparr>tm_sync_sent := True\<rparr>;
          t = (case nmsg of Some m \<Rightarrow> set_hash (sync_hash m) t | None \<Rightarrow> t);
          t = (if own then t\<lparr>tm_genericQC := (tm_genericQC t)\<lparr>signature_share_map :=
                 map_put (node_id e) share (signature_share_map (tm_genericQC t))\<rparr>\<rparr> else t)
      in vote_own e t)"

lemma send_hotstuff_newview_tman:
  assumes "has_tman e s tid" and "\<not> tm_sync_sent (tman e s tid)"
  shows "\<exists>own share. tman e (send_hotstuff_newview e nmsg tid s) tid = cast e nmsg own share (tman e s tid)"
  using assms unfolding send_hotstuff_newview_def cast_def
  by (cases nmsg) (auto simp: Let_def intro: exI [of _ True] exI [of _ False])

lemma vote_own_sync_sent [simp]: "tm_sync_sent (vote_own e t) = tm_sync_sent t"
  by (simp add: vote_own_def Let_def set_new_viewed_def)

lemma cast_sync_sent [simp]: "tm_sync_sent (cast e nmsg own share t)"
  by (simp add: cast_def Let_def set_hash_def split: option.splits)

lemma cast_inv:
  assumes "vote_inv e t" and "NODE_CNT e \<noteq> 0" and "\<not> tm_sync_sent t"
  shows "vote_inv e (cast e nmsg own share t)"
proof -
  define u where "u = (let t = t\<lparr>tm_sync_sent := True\<rparr>;
          t = (case nmsg of Some m \<Rightarrow> set_hash (sync_hash m) t | None \<Rightarrow> t)
      in if own then t\<lparr>tm_genericQC := (tm_genericQC t)\<lparr>signature_share_map :=
                 map_put (node_id e) share (signature_share_map (tm_genericQC t))\<rparr>\<rparr> else t)"
  have u: "tm_hash_voters u = tm_hash_voters t" "tm_vote_new_view u = tm_vote_new_view t"
      "tm_new_view_vote_cnt u = tm_new_view_vote_cnt t" "tm_new_viewed u = tm_new_viewed t" "tm_sync_sent u"
    by (simp_all add: u_def Let_def set_hash_def split: option.splits)
  have "vote_inv e u"
    using assms(1) u unfolding vote_inv_def own_voted_def by simp
  moreover have "\<not> own_voted e u"
    using assms(1,3) u(1) by (auto simp: vote_inv_def own_voted_def)
  moreover have "cast e nmsg own share t = vote_own e u"
    by (simp add: cast_def u_def Let_def)
  ultimately show ?thesis using vote_own_inv assms(2) u(5) by simp
qed

lemma send_hotstuff_newview_again:
  assumes "has_tman e s tid"
  shows "send_hotstuff_newview e n2 tid (send_hotstuff_newview e n1 tid s) = send_hotstuff_newview e n1 tid s"
proof (cases "tm_sync_sent (tman e s tid)")
  case True
  then show ?thesis by (simp add: send_hotstuff_newview_def Let_def)
next
  case False
  then obtain own share where "tman e (send_hotstuff_newview e n1 tid s) tid = cast e n1 own share (tman e s tid)"
    using send_hotstuff_newview_tman [OF assms] by blast
  then have "tm_sync_sent (tman e (send_hotstuff_newview e n1 tid s) tid)" by simp
  then show ?thesis by (simp add: send_hotstuff_newview_def [of e n2] Let_def)
qed

lemma send_hotstuff_newview_inv:
  assumes "has_tman e s tid" and "vote_inv e (tman e s tid)" and "NODE_CNT e \<noteq> 0"
  shows "vote_inv e (tman e (send_hotstuff_newview e nmsg tid s) tid)"
proof (cases "tm_sync_sent (tman e s tid)")
  case True
  with assms show ?thesis by (simp add: send_hotstuff_newview_def Let_def)
next
  case False
  then show ?thesis using send_hotstuff_newview_tman [OF assms(1) False, of nmsg] cast_inv assms by fastforce
qed

end
