(* ===== verification/Commit.thy ===== *)
theory Commit
  imports Protocol
begin

text \<open>
  Committing: the loop of \<open>send_execute_msg_hotstuff\<close> over the stored ancestors of a
  certificate ends and equals a walk along a list; \<open>update_lockQC\<close> follows the
  one-, two- and three-chain rules; prepared and locked certificates only advance.
\<close>

section \<open>The map of certificates\<close>

text \<open>
  An entry is filed under its own hash, or is the default certificate that
  \<open>operator[]\<close> has inserted.
\<close>

definition qc_map_ok :: "(string \<rightharpoonup> QuorumCertificate) \<Rightarrow> bool" where
  "qc_map_ok M \<longleftrightarrow> finite (dom M) \<and>
     (\<forall>h q. M h = Some q \<longrightarrow> batch_hash q = h \<or> (batch_hash q = '''' \<and> parent_hash q = ''''))"

lemma qc_map_ok_erase: "qc_map_ok M \<Longrightarrow> qc_map_ok (M(h := None))"
  by (simp add: qc_map_ok_def)

lemma qc_map_ok_put: "qc_map_ok M \<Longrightarrow> qc_map_ok (M(batch_hash q \<mapsto> q))"
  by (simp add: qc_map_ok_def)

lemma qc_map_ok_default: "qc_map_ok M \<Longrightarrow> qc_map_ok (M(h \<mapsto> new_QC 0))"
  by (simp add: qc_map_ok_def new_QC_def)

lemma hash_to_QC_put [simp]: "hash_to_QC (put_hash_to_QC i h q s) = (hash_to_QC s)(i := (hash_to_QC s i)(h \<mapsto> q))"
  by (simp add: put_hash_to_QC_def)

lemma hash_to_QC_erase [simp]: "hash_to_QC (erase_hash_to_QC i h s) = (hash_to_QC s)(i := (hash_to_QC s i)(h := None))"
  by (simp add: erase_hash_to_QC_def)

lemma hash_to_QC_other [simp]:
  "hash_to_QC (erase_hash_to_txnid i h s) = hash_to_QC s"
  "hash_to_QC (erase_txnid_to_hash i t s) = hash_to_QC s"
  "hash_to_QC (snd (hash_to_txnid_at i h s)) = hash_to_QC s"
  by (simp_all add: erase_hash_to_txnid_def erase_txnid_to_hash_def hash_to_txnid_at_def split: option.splits)

lemma hash_to_QC_at_ok:
  "qc_map_ok (hash_to_QC s j) \<Longrightarrow> qc_map_ok (hash_to_QC (snd (hash_to_QC_at i h s)) j)"
  by (auto simp: hash_to_QC_at_def qc_map_ok_default split: option.splits)

section \<open>The ancestors of a certificate\<close>

lemma Execute_txn_rtype [simp]: "m_rtype (ex_base (new_Execute_txn e s t)) = EXECUTE_MSG"
  by (simp add: new_Execute_txn_def Execute_copy_from_txn_def copy_latency_def mcopy_from_txn_def
      new_Execute_def new_Message_def Let_def)

lemma Execute_txn_id [simp]: "m_txn_id (ex_base (new_Execute_txn e s t)) = tm_txn_id t - 1"
  by (simp add: new_Execute_txn_def Execute_copy_from_txn_def copy_latency_def mcopy_from_txn_def
      new_Execute_def new_Message_def Let_def)

definition run_execute :: "env \<Rightarrow> u64 \<Rightarrow> node \<Rightarrow> node" where
  "run_execute e tid s = after_execute_enqueue e (MExecute (new_Execute_txn e s (tman e s tid))) s"

lemma enqueue_execute_eq: "ISSERVER e \<Longrightarrow> enqueue_execute e tid s = Some (run_execute e tid s)"
  by (simp add: enqueue_execute_def run_execute_def enqueue_execute_Some)

lemmas run_execute_frame =
  after_execute_enqueue_frame [of e "MExecute (new_Execute_txn e s (tman e s tid))" s for e s tid,
    simplified, folded run_execute_def]

definition step_ancestor :: "env \<Rightarrow> u64 \<Rightarrow> QuorumCertificate \<Rightarrow> node \<Rightarrow> node" where
  "step_ancestor e i qc s =
     (let (tid, s) = hash_to_txnid_at i (batch_hash qc) s
      in erase_txnid_to_hash i tid (erase_hash_to_txnid i (batch_hash qc)
           (erase_hash_to_QC i (batch_hash qc) (run_execute e tid (get_tman e tid s)))))"

lemma execute_ancestor_eq: "ISSERVER e \<Longrightarrow> execute_ancestor e i qc s = Some (step_ancestor e i qc s)"
  by (simp add: execute_ancestor_def step_ancestor_def enqueue_execute_eq Let_def split: prod.splits)

lemma step_ancestor_hash_to_QC:
  assumes "ISSERVER e"
  shows "hash_to_QC (step_ancestor e i qc s) = (hash_to_QC s)(i := (hash_to_QC s i)(batch_hash qc := None))"
proof -
  obtain tid s1 where a: "hash_to_txnid_at i (batch_hash qc) s = (tid, s1)" by force
  then have "hash_to_QC s1 = hash_to_QC s" using hash_to_QC_other(3) [of i "batch_hash qc" s] by simp
  then show ?thesis using assms by (simp add: step_ancestor_def a run_execute_frame)
qed

text \<open>The certificates that the loop visits, on the map alone; every one is erased when it is visited.\<close>

fun chain :: "nat \<Rightarrow> (string \<rightharpoonup> QuorumCertificate) \<Rightarrow> QuorumCertificate \<Rightarrow> QuorumCertificate list" where
  "chain 0 M qc = [qc]"
| "chain (Suc n) M qc =
     (let M = M(batch_hash qc := None)
      in qc # (case M (parent_hash qc) of None \<Rightarrow> [] | Some qc' \<Rightarrow> chain n M qc'))"

lemma execute_ancestors_chain:
  assumes "qc_map_ok (hash_to_QC s i)" and "hash_to_QC s i h = Some qc" and "ISSERVER e"
    and "card (dom (hash_to_QC s i)) \<le> Suc n"
  shows "execute_ancestors e i qc s = Some (fold (step_ancestor e i) (chain n (hash_to_QC s i) qc) s)"
  using assms
proof (induction n arbitrary: s h qc)
  case 0
  let ?s = "step_ancestor e i qc s"
  have M: "hash_to_QC ?s i = (hash_to_QC s i)(batch_hash qc := None)"
    using assms(3) by (simp add: step_ancestor_hash_to_QC)
  have fin: "finite (dom (hash_to_QC s i))" and key: "batch_hash qc = h \<or> batch_hash qc = '''' \<and> parent_hash qc = ''''"
    using "0.prems" by (auto simp: qc_map_ok_def)
  have "dom (hash_to_QC s i) = {h}"
  proof -
    have "h \<in> dom (hash_to_QC s i)" using "0.prems" by auto
    moreover have "card (dom (hash_to_QC s i)) \<le> 1" using "0.prems" by simp
    ultimately show ?thesis using fin by (auto simp: card_le_Suc0_iff_eq)
  qed
  then have "hash_to_QC ?s i (parent_hash qc) = None"
    using key M by (auto simp: dom_def)
  then show ?case
    using assms(3) by (subst execute_ancestors.simps) (simp add: execute_ancestor_eq)
next
  case (Suc n)
  let ?s = "step_ancestor e i qc s"
  have M: "hash_to_QC ?s i = (hash_to_QC s i)(batch_hash qc := None)"
    using assms(3) by (simp add: step_ancestor_hash_to_QC)
  show ?case
  proof (cases "hash_to_QC ?s i (parent_hash qc)")
    case None
    then show ?thesis
      using assms(3) M by (subst execute_ancestors.simps) (simp add: execute_ancestor_eq)
  next
    case (Some qc')
    have key: "batch_hash qc = h"
      using Suc.prems(1,2) Some M unfolding qc_map_ok_def by (metis fun_upd_same option.distinct(1))
    have "card (dom (hash_to_QC ?s i)) \<le> Suc n"
    proof -
      have "dom (hash_to_QC ?s i) = dom (hash_to_QC s i) - {h}" using M key by auto
      moreover have "h \<in> dom (hash_to_QC s i)" "finite (dom (hash_to_QC s i))"
        using Suc.prems by (auto simp: qc_map_ok_def)
      ultimately show ?thesis using Suc.prems(4) by (simp add: card_Diff_singleton)
    qed
    moreover have "qc_map_ok (hash_to_QC ?s i)" using Suc.prems(1) M by (simp add: qc_map_ok_erase)
    ultimately have "execute_ancestors e i qc' ?s = Some (fold (step_ancestor e i) (chain n (hash_to_QC ?s i) qc') ?s)"
      using Suc.IH [OF _ Some Suc.prems(3)] by simp
    then show ?thesis
      using assms(3) Some M by (subst execute_ancestors.simps) (simp add: execute_ancestor_eq)
  qed
qed

section \<open>The certificates of the node\<close>

text \<open>What the walk leaves alone, and what it asks the execute thread to run.\<close>

lemma step_ancestor_frame [simp]:
  assumes "ISSERVER e"
  shows "g_lockedQC (step_ancestor e i qc s) = g_lockedQC s" "g_preparedQC (step_ancestor e i qc s) = g_preparedQC s"
    "newView (step_ancestor e i qc s) = newView s" "outbox (step_ancestor e i qc s) = outbox s"
    "db (step_ancestor e i qc s) = db s" "keys (step_ancestor e i qc s) = keys s"
  using assms
  by (simp_all add: step_ancestor_def Let_def run_execute_frame erase_txnid_to_hash_def erase_hash_to_txnid_def
      erase_hash_to_QC_def hash_to_txnid_at_def split: option.splits)

lemma fold_ancestors_frame [simp]:
  assumes "ISSERVER e"
  shows "g_lockedQC (fold (step_ancestor e i) qcs s) = g_lockedQC s"
    "g_preparedQC (fold (step_ancestor e i) qcs s) = g_preparedQC s"
    "newView (fold (step_ancestor e i) qcs s) = newView s" "outbox (fold (step_ancestor e i) qcs s) = outbox s"
    "db (fold (step_ancestor e i) qcs s) = db s" "keys (fold (step_ancestor e i) qcs s) = keys s"
  using assms by (induction qcs arbitrary: s) simp_all

lemma erase_voters_frame [simp]:
  "g_lockedQC (fold (\<lambda>p. erase_hash_to_txnid i (fst p)) ps s) = g_lockedQC s"
  "g_preparedQC (fold (\<lambda>p. erase_hash_to_txnid i (fst p)) ps s) = g_preparedQC s"
  "newView (fold (\<lambda>p. erase_hash_to_txnid i (fst p)) ps s) = newView s"
  "outbox (fold (\<lambda>p. erase_hash_to_txnid i (fst p)) ps s) = outbox s"
  "db (fold (\<lambda>p. erase_hash_to_txnid i (fst p)) ps s) = db s"
  "keys (fold (\<lambda>p. erase_hash_to_txnid i (fst p)) ps s) = keys s"
  "hash_to_QC (fold (\<lambda>p. erase_hash_to_txnid i (fst p)) ps s) = hash_to_QC s"
  by (induction ps arbitrary: s) (simp_all add: erase_hash_to_txnid_def)

lemma hash_to_QC_at_frame [simp]:
  "g_lockedQC (snd (hash_to_QC_at i h s)) = g_lockedQC s" "g_preparedQC (snd (hash_to_QC_at i h s)) = g_preparedQC s"
  "newView (snd (hash_to_QC_at i h s)) = newView s" "outbox (snd (hash_to_QC_at i h s)) = outbox s"
  "db (snd (hash_to_QC_at i h s)) = db s" "keys (snd (hash_to_QC_at i h s)) = keys s"
  "execute_msg_heap (snd (hash_to_QC_at i h s)) = execute_msg_heap s"
  by (simp_all add: hash_to_QC_at_def split: option.splits)

text \<open>The part of the state that committing does not change.\<close>

definition same_consensus :: "node \<Rightarrow> node \<Rightarrow> bool" where
  "same_consensus s s' \<longleftrightarrow> g_lockedQC s' = g_lockedQC s \<and> g_preparedQC s' = g_preparedQC s \<and>
     newView s' = newView s \<and> outbox s' = outbox s \<and> db s' = db s \<and> keys s' = keys s"

lemma send_execute_msg_hotstuff_returns:
  assumes "ISSERVER e" and "qc_map_ok (hash_to_QC s i)"
  shows "\<exists>s'. send_execute_msg_hotstuff e tid i s = Some s' \<and> same_consensus s s'"
proof -
  obtain qc s1 where a: "hash_to_QC_at i (tm_hash (tman e s tid)) s = (qc, s1)" by force
  have s1: "same_consensus s s1" "qc_map_ok (hash_to_QC s1 i)"
    using hash_to_QC_at_frame [of i "tm_hash (tman e s tid)" s] hash_to_QC_at_ok [OF assms(2)] a
    by (auto simp: same_consensus_def dest: arg_cong [where f = snd]) (metis snd_conv)
  obtain s2 where s2: "(case hash_to_QC s1 i (parent_hash qc) of None \<Rightarrow> Some s1
        | Some qc' \<Rightarrow> execute_ancestors e i qc' s1) = Some s2" "same_consensus s1 s2"
  proof (cases "hash_to_QC s1 i (parent_hash qc)")
    case None
    then show ?thesis using that [of s1] by (simp add: same_consensus_def)
  next
    case (Some qc')
    obtain n where "card (dom (hash_to_QC s1 i)) \<le> Suc n" by (meson le_SucI order_refl)
    from execute_ancestors_chain [OF s1(2) Some assms(1) this] show ?thesis
      using that Some assms(1) by (simp add: same_consensus_def)
  qed
  show ?thesis
    using s1(1) s2 assms(1)
    by (simp add: send_execute_msg_hotstuff_def a enqueue_execute_eq same_consensus_def run_execute_frame
        erase_txnid_to_hash_def erase_hash_to_QC_def Let_def)
qed

section \<open>Preparing, locking and committing\<close>

definition qc_at :: "node \<Rightarrow> u64 \<Rightarrow> string \<Rightarrow> QuorumCertificate" where
  "qc_at s i h = (case hash_to_QC s i h of Some q \<Rightarrow> q | None \<Rightarrow> new_QC 0)"

lemma hash_to_QC_at_fst [simp]: "fst (hash_to_QC_at i h s) = qc_at s i h"
  by (simp add: hash_to_QC_at_def qc_at_def split: option.splits)

lemma qc_at_at [simp]: "qc_at (snd (hash_to_QC_at i h s)) i h' = qc_at s i h'"
  by (auto simp: hash_to_QC_at_def qc_at_def split: option.splits)

text \<open>One, two and three consecutive views below \<open>view\<close>.\<close>

definition one_chain :: "QuorumCertificate \<Rightarrow> u64 \<Rightarrow> bool" where
  "one_chain qc view \<longleftrightarrow> viewNumber qc + 1 = view"

definition two_chain :: "node \<Rightarrow> u64 \<Rightarrow> QuorumCertificate \<Rightarrow> u64 \<Rightarrow> bool" where
  "two_chain s i qc view \<longleftrightarrow> one_chain qc view \<and> viewNumber (qc_at s i (parent_hash qc)) + 2 = view"

definition three_chain :: "node \<Rightarrow> u64 \<Rightarrow> QuorumCertificate \<Rightarrow> u64 \<Rightarrow> bool" where
  "three_chain s i qc view \<longleftrightarrow> two_chain s i qc view \<and>
     viewNumber (qc_at s i (parent_hash (qc_at s i (parent_hash qc)))) + 3 = view"

lemma set_qc_frame [simp]:
  "newView (set_g_preparedQC q i t s) = newView s" "outbox (set_g_preparedQC q i t s) = outbox s"
  "db (set_g_preparedQC q i t s) = db s" "keys (set_g_preparedQC q i t s) = keys s"
  "g_lockedQC (set_g_preparedQC q i t s) = g_lockedQC s" "hash_to_QC (set_g_preparedQC q i t s) = hash_to_QC s"
  "execute_msg_heap (set_g_preparedQC q i t s) = execute_msg_heap s"
  "newView (set_g_lockedQC q i t s) = newView s" "outbox (set_g_lockedQC q i t s) = outbox s"
  "db (set_g_lockedQC q i t s) = db s" "keys (set_g_lockedQC q i t s) = keys s"
  "g_preparedQC (set_g_lockedQC q i t s) = g_preparedQC s" "hash_to_QC (set_g_lockedQC q i t s) = hash_to_QC s"
  "execute_msg_heap (set_g_lockedQC q i t s) = execute_msg_heap s"
  by (simp_all add: set_g_preparedQC_def set_g_lockedQC_def)

text \<open>The new value of a prepared or locked certificate.\<close>

definition newer :: "QuorumCertificate \<Rightarrow> QuorumCertificate \<Rightarrow> QuorumCertificate" where
  "newer q old = (if viewNumber q > viewNumber old \<or> genesis old then q else old)"

lemma set_g_prepared [simp]: "g_preparedQC (set_g_preparedQC q i t s) = (g_preparedQC s)(i := newer q (g_preparedQC s i))"
  by (simp add: set_g_preparedQC_def newer_def)

lemma set_g_locked [simp]: "g_lockedQC (set_g_lockedQC q i t s) = (g_lockedQC s)(i := newer q (g_lockedQC s i))"
  by (simp add: set_g_lockedQC_def newer_def)

lemma put_hash_to_QC_frame [simp]:
  "g_lockedQC (put_hash_to_QC i h q s) = g_lockedQC s" "g_preparedQC (put_hash_to_QC i h q s) = g_preparedQC s"
  "newView (put_hash_to_QC i h q s) = newView s" "outbox (put_hash_to_QC i h q s) = outbox s"
  "db (put_hash_to_QC i h q s) = db s" "keys (put_hash_to_QC i h q s) = keys s"
  "execute_msg_heap (put_hash_to_QC i h q s) = execute_msg_heap s"
  by (simp_all add: put_hash_to_QC_def)

lemma set_qc_type_consensus: "same_consensus s (set_qc_type i h ty s)"
  by (simp add: set_qc_type_def same_consensus_def case_prod_beta)

lemma set_qc_type_ok:
  assumes "qc_map_ok (hash_to_QC s i)"
  shows "qc_map_ok (hash_to_QC (set_qc_type i h ty s) i)"
proof -
  obtain q0 s1 where a: "hash_to_QC_at i h s = (q0, s1)" by force
  have ok: "qc_map_ok (hash_to_QC s1 i)" using hash_to_QC_at_ok [OF assms, of i h] a by simp
  have q0: "q0 = qc_at s i h" using hash_to_QC_at_fst [of i h s] a by simp
  have "batch_hash q0 = h \<or> batch_hash q0 = '''' \<and> parent_hash q0 = ''''"
    using assms q0 by (auto simp: qc_at_def qc_map_ok_def new_QC_def split: option.splits)
  then show ?thesis
    using ok by (auto simp: set_qc_type_def a qc_map_ok_def)
qed

lemma update_lockQC_returns:
  assumes "ISSERVER e" and "qc_map_ok (hash_to_QC s i)"
  shows "\<exists>s'. update_lockQC e qc view txnid i s = Some s' \<and>
    newView s' = newView s \<and> outbox s' = outbox s \<and> db s' = db s \<and> keys s' = keys s \<and>
    g_preparedQC s' = (if one_chain qc view then (g_preparedQC s)(i := newer qc (g_preparedQC s i)) else g_preparedQC s) \<and>
    g_lockedQC s' = (if two_chain s i qc view
       then (g_lockedQC s)(i := newer (qc_at s i (parent_hash qc)) (g_lockedQC s i)) else g_lockedQC s) \<and>
    (\<not> three_chain s i qc view \<longrightarrow> execute_msg_heap s' = execute_msg_heap s)"
proof -
  define b2 where "b2 = qc_at s i (parent_hash qc)"
  define s1 where "s1 = snd (hash_to_QC_at i (parent_hash qc) s)"
  define b3 where "b3 = qc_at s i (parent_hash b2)"
  define s2 where "s2 = snd (hash_to_QC_at i (parent_hash b2) s1)"
  have a: "hash_to_QC_at i (parent_hash qc) s = (b2, s1)" "hash_to_QC_at i (parent_hash b2) s1 = (b3, s2)"
    by (simp_all add: prod_eq_iff b2_def s1_def b3_def s2_def)
  define s3 where "s3 = (if one_chain qc view then set_g_preparedQC qc i txnid s2 else s2)"
  define s4 where "s4 = (if two_chain s i qc view
      then set_g_lockedQC b2 i (txnid - get_totInstances e * get_batch_size e) s3 else s3)"
  have ok2: "qc_map_ok (hash_to_QC s2 i)"
    unfolding s1_def s2_def by (intro hash_to_QC_at_ok assms(2))
  have s4: "newView s4 = newView s" "outbox s4 = outbox s" "db s4 = db s" "keys s4 = keys s"
      "g_preparedQC s4 = (if one_chain qc view then (g_preparedQC s)(i := newer qc (g_preparedQC s i)) else g_preparedQC s)"
      "g_lockedQC s4 = (if two_chain s i qc view then (g_lockedQC s)(i := newer b2 (g_lockedQC s i)) else g_lockedQC s)"
      "execute_msg_heap s4 = execute_msg_heap s" "hash_to_QC s4 = hash_to_QC s2"
    by (simp_all add: s4_def s3_def s2_def s1_def)
  have upd: "update_lockQC e qc view txnid i s =
      (if three_chain s i qc view
       then let s = set_qc_type i (batch_hash b3) COMMIT s4; t = txnid - 2 * get_totInstances e * get_batch_size e
            in send_execute_msg_hotstuff e t i (get_tman e t s)
       else Some s4)"
    using a by (simp add: update_lockQC_def Let_def s4_def s3_def one_chain_def two_chain_def three_chain_def b2_def b3_def)
  show ?thesis
  proof (cases "three_chain s i qc view")
    case False
    then show ?thesis using upd s4 by (simp add: b2_def)
  next
    case True
    let ?t = "txnid - 2 * get_totInstances e * get_batch_size e"
    let ?s5 = "get_tman e ?t (set_qc_type i (batch_hash b3) COMMIT s4)"
    have "qc_map_ok (hash_to_QC (set_qc_type i (batch_hash b3) COMMIT s4) i)"
      using ok2 s4(8) by (intro set_qc_type_ok) simp
    then have "qc_map_ok (hash_to_QC ?s5 i)" by simp
    from send_execute_msg_hotstuff_returns [OF assms(1) this, of ?t]
    show ?thesis using True upd s4 set_qc_type_consensus [of s4 i "batch_hash b3" COMMIT]
      by (auto simp: same_consensus_def Let_def b2_def)
  qed
qed

section \<open>What a commit hands to the execute thread\<close>

text \<open>Messages are only added to the queues and identifiers to the heap, and the managers are kept.\<close>

definition only_adds :: "env \<Rightarrow> node \<Rightarrow> node \<Rightarrow> bool" where
  "only_adds e s s' \<longleftrightarrow> (table_inv e s \<longrightarrow> table_inv e s' \<and> (\<forall>t. has_tman e s t \<longrightarrow> has_tman e s' t \<and> tman e s' t = tman e s t)) \<and>
     set (execute_msg_heap s) \<subseteq> set (execute_msg_heap s') \<and> (\<forall>q. \<exists>ms. work_queue s' q = work_queue s q @ ms)"

lemma only_adds_refl: "only_adds e s s"
  by (simp add: only_adds_def)

lemma only_adds_trans: "only_adds e s s1 \<Longrightarrow> only_adds e s1 s2 \<Longrightarrow> only_adds e s s2"
proof -
  assume a: "only_adds e s s1" and b: "only_adds e s1 s2"
  have "\<exists>ms. work_queue s2 q = work_queue s q @ ms" for q
    using a b unfolding only_adds_def by (metis append.assoc)
  moreover have "set (execute_msg_heap s) \<subseteq> set (execute_msg_heap s2)" using a b by (auto simp: only_adds_def)
  moreover have "table_inv e s2 \<and> (\<forall>t. has_tman e s t \<longrightarrow> has_tman e s2 t \<and> tman e s2 t = tman e s t)" if "table_inv e s"
    using a b that by (simp add: only_adds_def)
  ultimately show "only_adds e s s2" by (simp add: only_adds_def)
qed

lemma only_adds_cong:
  assumes "txn_table s' = txn_table s" and "execute_msg_heap s' = execute_msg_heap s" and "work_queue s' = work_queue s"
  shows "only_adds e s s'"
  using assms tman_cong [of s' s e] has_tman_cong [of s' s e] by (simp add: only_adds_def)

lemma run_execute_adds: "ISSERVER e \<Longrightarrow> only_adds e s (run_execute e tid s)"
  using tman_cong [of "run_execute e tid s" s e] has_tman_cong [of "run_execute e tid s" s e]
  by (auto simp: only_adds_def run_execute_frame set_insort_key)

lemma get_tman_adds: "only_adds e s (get_tman e tid s)"
  by (simp add: only_adds_def)

lemma erase_adds [simp]:
  "only_adds e s (erase_txnid_to_hash i t s)" "only_adds e s (erase_hash_to_txnid i h s)"
  "only_adds e s (erase_hash_to_QC i h s)" "only_adds e s (snd (hash_to_txnid_at i h s))"
  "only_adds e s (snd (hash_to_QC_at i h s))"
  by (intro only_adds_cong; simp add: erase_txnid_to_hash_def erase_hash_to_txnid_def erase_hash_to_QC_def
      hash_to_txnid_at_def hash_to_QC_at_def split: option.split)+

lemma step_ancestor_adds: "ISSERVER e \<Longrightarrow> only_adds e s (step_ancestor e i qc s)"
proof -
  assume srv: "ISSERVER e"
  obtain tid s1 where a: "hash_to_txnid_at i (batch_hash qc) s = (tid, s1)" by force
  have "only_adds e s s1" using erase_adds(4) [of e s i "batch_hash qc"] a by simp
  then show ?thesis
    unfolding step_ancestor_def a Let_def prod.case
    using only_adds_trans run_execute_adds [OF srv] get_tman_adds erase_adds(1-3) by meson
qed

lemma fold_adds: "(\<And>x s. only_adds e s (f x s)) \<Longrightarrow> only_adds e s (fold f xs s)"
  by (induction xs arbitrary: s) (auto intro: only_adds_refl only_adds_trans)

lemma send_execute_msg_hotstuff_commits:
  assumes "ISSERVER e" and "qc_map_ok (hash_to_QC s i)" and "table_inv e s" and "has_tman e s tid"
  shows "\<exists>s' q x. send_execute_msg_hotstuff e tid i s = Some s' \<and> only_adds e s s' \<and>
    tid - 1 \<in> set (execute_msg_heap s') \<and> work_queue s' (execute_qid e (tid - 1)) = q @ [MExecute x] \<and>
    m_txn_id (ex_base x) = tid - 1 \<and> ex_end_index x = tid \<and> ex_hash x = tm_hash (tman e s tid)"
proof -
  obtain qc s1 where a: "hash_to_QC_at i (tm_hash (tman e s tid)) s = (qc, s1)" by force
  have s1: "only_adds e s s1" "qc_map_ok (hash_to_QC s1 i)"
    using erase_adds(5) [of e s i "tm_hash (tman e s tid)"] hash_to_QC_at_ok [OF assms(2), of i "tm_hash (tman e s tid)"] a by auto
  obtain s2 where s2: "(case hash_to_QC s1 i (parent_hash qc) of None \<Rightarrow> Some s1
        | Some qc' \<Rightarrow> execute_ancestors e i qc' s1) = Some s2" "only_adds e s1 s2"
  proof (cases "hash_to_QC s1 i (parent_hash qc)")
    case None
    then show ?thesis using that [of s1] by (simp add: only_adds_refl)
  next
    case (Some qc')
    obtain n where "card (dom (hash_to_QC s1 i)) \<le> Suc n" by (meson le_SucI order_refl)
    from execute_ancestors_chain [OF s1(2) Some assms(1) this] show ?thesis
      using that Some fold_adds [where f = "step_ancestor e i", OF step_ancestor_adds [OF assms(1)]] by simp
  qed
  define s3 where "s3 = erase_txnid_to_hash i tid
    (fold (\<lambda>p. erase_hash_to_txnid i (fst p)) (tm_hash_voters (tman e s2 tid)) (erase_hash_to_QC i (tm_hash (tman e s2 tid)) s2))"
  have "only_adds e s2 s3"
    unfolding s3_def by (intro only_adds_trans [OF erase_adds(3) only_adds_trans [OF fold_adds erase_adds(1)]] erase_adds(2))
  then have s3: "only_adds e s s3" using s1(1) s2(2) only_adds_trans by blast
  then have t: "has_tman e s3 tid" "tman e s3 tid = tman e s tid" using assms(3,4) by (auto simp: only_adds_def)
  let ?x = "new_Execute_txn e s3 (tman e s3 tid)"
  have "ex_end_index ?x = tid" "ex_hash ?x = tm_hash (tman e s tid)"
    using t tman_id [OF assms(4)] by (simp_all add: new_Execute_txn_def Execute_copy_from_txn_def Let_def)
  moreover have "send_execute_msg_hotstuff e tid i s = Some (run_execute e tid s3)"
    using s2(1) assms(1) by (simp add: send_execute_msg_hotstuff_def a Let_def s3_def enqueue_execute_eq)
  ultimately show ?thesis
    using only_adds_trans [OF s3 run_execute_adds [OF assms(1)]] t tman_id [OF assms(4)] assms(1)
    by (intro exI [of _ "run_execute e tid s3"] exI [of _ "work_queue s3 (execute_qid e (tid - 1))"] exI [of _ ?x])
       (simp add: run_execute_frame set_insort_key)
qed

lemma set_qc_type_adds: "only_adds e s (set_qc_type i h ty s)"
  by (rule only_adds_cong) (simp_all add: set_qc_type_def hash_to_QC_at_def put_hash_to_QC_def split: option.split)

lemma set_qc_adds: "only_adds e s (set_g_preparedQC q i t s)" "only_adds e s (set_g_lockedQC q i t s)"
  by (rule only_adds_cong; simp add: set_g_preparedQC_def set_g_lockedQC_def)+

text \<open>The third certificate of a chain commits the batch two views before: it goes to the execute thread.\<close>

lemma update_lockQC_commits:
  fixes txnid :: u64 and e :: env
  defines "t \<equiv> txnid - 2 * get_totInstances e * get_batch_size e"
  assumes "ISSERVER e" and "qc_map_ok (hash_to_QC s i)" and "table_inv e s" and "three_chain s i qc view"
  shows "\<exists>s' q x. update_lockQC e qc view txnid i s = Some s' \<and> only_adds e s s' \<and>
    t - 1 \<in> set (execute_msg_heap s') \<and> work_queue s' (execute_qid e (t - 1)) = q @ [MExecute x] \<and>
    m_txn_id (ex_base x) = t - 1 \<and> ex_end_index x = t \<and> ex_hash x = tm_hash (tman e (get_tman e t s) t)"
proof -
  define b2 where "b2 = qc_at s i (parent_hash qc)"
  define s1 where "s1 = snd (hash_to_QC_at i (parent_hash qc) s)"
  define b3 where "b3 = qc_at s i (parent_hash b2)"
  define s2 where "s2 = snd (hash_to_QC_at i (parent_hash b2) s1)"
  have a: "hash_to_QC_at i (parent_hash qc) s = (b2, s1)" "hash_to_QC_at i (parent_hash b2) s1 = (b3, s2)"
    by (simp_all add: prod_eq_iff b2_def s1_def b3_def s2_def)
  define s4 where "s4 = set_g_lockedQC b2 i (txnid - get_totInstances e * get_batch_size e) (set_g_preparedQC qc i txnid s2)"
  define s5 where "s5 = set_qc_type i (batch_hash b3) COMMIT s4"
  have ok: "qc_map_ok (hash_to_QC s5 i)"
    unfolding s5_def s4_def s1_def s2_def by (intro set_qc_type_ok) (simp add: hash_to_QC_at_ok assms(3))
  have s5: "only_adds e s s5"
    unfolding s5_def s4_def s1_def s2_def using only_adds_trans erase_adds(5) set_qc_adds set_qc_type_adds by meson
  then have inv: "table_inv e s5" using assms(4) by (simp add: only_adds_def)
  have tt: "txn_table s5 = txn_table s"
    by (simp add: s5_def s4_def s2_def s1_def set_qc_type_def hash_to_QC_at_def put_hash_to_QC_def set_g_lockedQC_def
        set_g_preparedQC_def split: option.split)
  have "tman e (get_tman e t s5) t = tman e (get_tman e t s) t"
    by (rule tman_cong) (simp add: get_tman_def tt)
  moreover have "update_lockQC e qc view txnid i s = send_execute_msg_hotstuff e t i (get_tman e t s5)"
    using a assms(5)
    by (simp add: update_lockQC_def Let_def s5_def s4_def one_chain_def two_chain_def three_chain_def b2_def b3_def t_def)
  moreover have "only_adds e s s'" if "only_adds e (get_tman e t s5) s'" for s'
    using only_adds_trans [OF s5 only_adds_trans [OF get_tman_adds that]] .
  ultimately show ?thesis
    using send_execute_msg_hotstuff_commits [OF assms(2), of "get_tman e t s5" i t] ok inv by auto
qed

lemma newer_view:
  assumes "genesis old \<longrightarrow> viewNumber old = 0"
  shows "viewNumber old \<le> viewNumber (newer q old)"
  using assms by (auto simp: newer_def)

section \<open>Changing views\<close>

lemma set_curr_new_viewed_frame [simp]:
  "g_lockedQC (set_curr_new_viewed t i s) = g_lockedQC s" "g_preparedQC (set_curr_new_viewed t i s) = g_preparedQC s"
  "newView (set_curr_new_viewed t i s) = newView s" "outbox (set_curr_new_viewed t i s) = outbox s"
  "db (set_curr_new_viewed t i s) = db s" "keys (set_curr_new_viewed t i s) = keys s"
  "txn_table (set_curr_new_viewed t i s) = txn_table s" "hash_to_QC (set_curr_new_viewed t i s) = hash_to_QC s"
  by (simp_all add: set_curr_new_viewed_def)

lemma update_lockQC_no_chain:
  assumes "\<not> one_chain qc view"
  shows "\<exists>s'. update_lockQC e qc view txnid i s = Some s' \<and> same_consensus s s'"
  using assms
  by (simp add: update_lockQC_def one_chain_def Let_def same_consensus_def case_prod_beta)

lemma skip_view_frame:
  assumes "skip_view e gene tid s = Some s'"
  shows "g_lockedQC s' = g_lockedQC s" and "g_preparedQC s' = g_preparedQC s" and "outbox s' = outbox s"
    and "keys s' = keys s" and "db s' = db s"
    and "newView s' = (newView s)(m_instance_id (gen_base gene) := gen_view gene)"
proof -
  let ?i = "m_instance_id (gen_base gene)" and ?qc = "gen_highQC gene"
  let ?prev = "tid - get_batch_size e * get_totInstances e"
  define s1 where "s1 = put_hash_to_QC ?i (batch_hash ?qc) ?qc
      (upd_tman e ?prev (\<lambda>t. t\<lparr>tm_genericQC := ?qc\<rparr>) (get_tman e ?prev s))"
  have "\<not> one_chain ?qc (viewNumber ?qc)" by (simp add: one_chain_def)
  from update_lockQC_no_chain [OF this, of e ?prev ?i s1] obtain s2 where
    s2: "update_lockQC e ?qc (viewNumber ?qc) ?prev ?i s1 = Some s2" "same_consensus s1 s2" by blast
  have "s' = set_curr_new_viewed ?prev ?i (set_view e ?i (gen_view gene) s2)"
    using assms s2(1) by (simp add: skip_view_def Let_def s1_def)
  then show "g_lockedQC s' = g_lockedQC s" "g_preparedQC s' = g_preparedQC s" "outbox s' = outbox s"
      "keys s' = keys s" "db s' = db s" "newView s' = (newView s)(?i := gen_view gene)"
    using s2(2) by (simp_all add: same_consensus_def s1_def)
qed

text \<open>\<open>advance_view\<close>: the view of the instance grows by one, the certificate of the manager is prepared.\<close>

lemma advance_view_returns:
  assumes "ISSERVER e" and "qc_map_ok (hash_to_QC s i)" and "tm_instance_id (tman e s tid) = i"
    and "tm_hash (tman e s tid) \<noteq> ''''"
  shows "\<exists>s'. advance_view e tid s = Some s' \<and>
    newView s' = (newView s)(i := newView s i + 1) \<and> outbox s' = outbox s \<and> db s' = db s \<and> keys s' = keys s \<and>
    (let qc = make_genericQC (newView s i) (tman e s tid)
     in g_preparedQC s' = (if one_chain qc (newView s i + 1)
          then (g_preparedQC s)(i := newer qc (g_preparedQC s i)) else g_preparedQC s)) \<and>
    (\<exists>q. g_lockedQC s' = g_lockedQC s \<or> g_lockedQC s' = (g_lockedQC s)(i := newer q (g_lockedQC s i)))"
proof -
  let ?t = "tman e s tid"
  define qc where "qc = make_genericQC (newView s i) ?t"
  define s1 where "s1 = put_hash_to_QC i (tm_hash ?t) qc (upd_tman e tid (\<lambda>t. t\<lparr>tm_genericQC := qc\<rparr>) s)"
  have "batch_hash qc = tm_hash ?t" by (simp add: qc_def make_genericQC_def Let_def)
  then have "qc_map_ok (hash_to_QC s1 i)"
    using qc_map_ok_put [OF assms(2), of qc] by (simp add: s1_def)
  from update_lockQC_returns [OF assms(1) this, of qc "newView s i + 1" tid] obtain s2 where
    s2: "update_lockQC e qc (newView s i + 1) tid i s1 = Some s2" "newView s2 = newView s1" "outbox s2 = outbox s1"
      "db s2 = db s1" "keys s2 = keys s1"
      "g_preparedQC s2 = (if one_chain qc (newView s i + 1)
        then (g_preparedQC s1)(i := newer qc (g_preparedQC s1 i)) else g_preparedQC s1)"
      "g_lockedQC s2 = (if two_chain s1 i qc (newView s i + 1)
        then (g_lockedQC s1)(i := newer (qc_at s1 i (parent_hash qc)) (g_lockedQC s1 i)) else g_lockedQC s1)"
    by blast
  have "advance_view e tid s = Some (let s = set_curr_new_viewed tid i (set_view e i (newView s i + 1) s2);
      s = (if node_id e = get_view_primary e (newView s2 i + 1) i
           then s\<lparr>new_txn_semaphore := new_txn_semaphore s + 1\<rparr> else s)
      in if node_id e = get_view_primary e (newView s2 i + 1 + ROUNDS_IN_ADVANCE e) i
         then s\<lparr>proposal_semaphore := proposal_semaphore s + 1\<rparr> else s)"
    using assms(3,4) s2(1,2)
    by (simp add: advance_view_def get_current_view_def Let_def qc_def [symmetric] s1_def)
  then show ?thesis
    using s2 by (auto simp: Let_def s1_def qc_def [symmetric])
qed

section \<open>Generic messages\<close>

text \<open>
  The handler of a generic message sends something only after all its checks: the
  sender leads the view, the message verifies, and its certificate is safe.
\<close>

lemma generic_guard:
  assumes "process_hotstuff_generic e gene tid s = Some s'" and "outbox s' \<noteq> outbox s"
  shows "\<not> tm_generic_received (tman e s tid)"
    and "get_view_primary e (max (newView s (m_instance_id (gen_base gene))) (gen_view gene))
           (m_instance_id (gen_base gene)) = m_return_node_id (gen_base gene)"
    and "validate_msg e (keys s) (MGeneric gene) = Some True"
    and "SafeNode s (gen_highQC gene) (m_instance_id (gen_base gene))"
proof -
  let ?i = "m_instance_id (gen_base gene)"
  show recv: "\<not> tm_generic_received (tman e s tid)"
    using assms by (auto simp: process_hotstuff_generic_def)
  define r where "r = (if gen_view gene > newView s ?i then skip_view e gene tid s else Some s)"
  obtain s1 where r: "r = Some s1"
    using assms(1) recv by (cases r) (auto simp: process_hotstuff_generic_def r_def get_current_view_def)
  have s1: "outbox s1 = outbox s" "keys s1 = keys s" "g_lockedQC s1 = g_lockedQC s"
      "newView s1 ?i = max (newView s ?i) (gen_view gene)"
    using r skip_view_frame [of e gene tid s s1] by (auto simp: r_def max_def split: if_splits)
  have run: "process_hotstuff_generic e gene tid s =
      (if get_view_primary e (newView s1 ?i) ?i \<noteq> m_return_node_id (gen_base gene) then Some s1
       else Option.bind (validate_msg e (keys s1) (MGeneric gene)) (\<lambda>ok.
         if \<not> SafeNode s1 (gen_highQC gene) ?i then Some s1 else
           process_hotstuff_generic e gene tid s))"
    using recv r
    by (simp add: process_hotstuff_generic_def get_current_view_def r_def [symmetric] Let_def
        split: Option.bind_splits)
  have prim: "get_view_primary e (newView s1 ?i) ?i = m_return_node_id (gen_base gene)"
    using run assms s1(1) by (auto split: if_splits)
  then show "get_view_primary e (max (newView s ?i) (gen_view gene)) ?i = m_return_node_id (gen_base gene)"
    using s1(4) by simp
  obtain ok where ok: "validate_msg e (keys s1) (MGeneric gene) = Some ok"
    using run prim assms(1) by (cases "validate_msg e (keys s1) (MGeneric gene)") auto
  then show "validate_msg e (keys s) (MGeneric gene) = Some True"
    using s1(2) by (auto simp: validate_msg_def split: Option.bind_splits if_splits)
  have "SafeNode s1 (gen_highQC gene) ?i"
    using run prim ok assms s1(1) by (auto split: if_splits)
  then show "SafeNode s (gen_highQC gene) ?i"
    using s1(3) by (simp add: SafeNode_def)
qed


section \<open>Certificates are taken on trust\<close>

lemma update_lockQC_one_chain:
  assumes "one_chain qc view" and "\<not> two_chain s i qc view"
  shows "\<exists>s'. update_lockQC e qc view txnid i s = Some s' \<and> txn_table s' = txn_table s \<and>
    g_preparedQC s' = (g_preparedQC s)(i := newer qc (g_preparedQC s i)) \<and> g_lockedQC s' = g_lockedQC s"
proof -
  obtain b2 s1 where 1: "hash_to_QC_at i (parent_hash qc) s = (b2, s1)" by force
  obtain b3 s2 where 2: "hash_to_QC_at i (parent_hash b2) s1 = (b3, s2)" by force
  have "b2 = qc_at s i (parent_hash qc)" using hash_to_QC_at_fst [of i "parent_hash qc" s] 1 by simp
  then have "\<not> viewNumber b2 + 2 = view" using assms by (simp add: two_chain_def)
  then have "update_lockQC e qc view txnid i s = Some (set_g_preparedQC qc i txnid s2)"
    using assms(1) by (simp add: update_lockQC_def 1 2 one_chain_def)
  moreover have "txn_table s2 = txn_table s" "g_preparedQC s2 = g_preparedQC s" "g_lockedQC s2 = g_lockedQC s"
    using 1 2 by (auto simp: hash_to_QC_at_def split: option.splits)
  ultimately show ?thesis by (simp add: set_g_preparedQC_def newer_def)
qed

lemma newview_certificates [simp]:
  "g_preparedQC (send_hotstuff_newview e n tid s) = g_preparedQC s"
  by (simp add: send_hotstuff_newview_def Let_def send_out_def split: option.splits)

lemma cast_proposal_received: "tm_proposal_received (cast e n own share t) = tm_proposal_received t"
proof -
  have "tm_proposal_received (vote_own e t) = tm_proposal_received t" for t
    by (simp add: vote_own_def Let_def set_new_viewed_def)
  then show ?thesis by (simp add: cast_def Let_def set_hash_def split: option.splits)
qed

lemma newview_proposal_received:
  assumes "has_tman e s tid"
  shows "tm_proposal_received (tman e (send_hotstuff_newview e n tid s) tid) = tm_proposal_received (tman e s tid)"
proof (cases "tm_sync_sent (tman e s tid)")
  case True
  then show ?thesis by (simp add: send_hotstuff_newview_def Let_def)
next
  case False
  from send_hotstuff_newview_tman [OF assms this, of n] show ?thesis by (auto simp: cast_proposal_received)
qed

lemma generic_accepts_certificate:
  fixes gene :: SpotLessGenericMsg
  defines "i \<equiv> m_instance_id (gen_base gene)" and "qc \<equiv> gen_highQC gene"
  assumes "has_tman e s tid" and "\<not> tm_generic_received (tman e s tid)" and "\<not> tm_proposal_received (tman e s tid)"
    and "tm_hash (tman e s tid) \<in> {'''', gen_hash gene}"
    and "gen_view gene \<le> newView s i" and "get_view_primary e (newView s i) i = m_return_node_id (gen_base gene)"
    and "validate_msg e (keys s) (MGeneric gene) = Some True"
    and "viewNumber (g_lockedQC s i) < viewNumber qc" and "viewNumber (g_preparedQC s i) < viewNumber qc"
    and "one_chain qc (gen_view gene)" and "\<not> two_chain (put_hash_to_QC i (batch_hash qc) qc s) i qc (gen_view gene)"
  shows "\<exists>s'. process_hotstuff_generic e gene tid s = Some s' \<and> g_preparedQC s' i = qc"
proof -
  define s1 where "s1 = (if tm_hash (tman e s tid) = '''' then upd_tman e tid (\<lambda>t. (set_hash (gen_hash gene) t)
      \<lparr>tm_view := gen_view gene, tm_instance_id := i\<rparr>) s else s)"
  define s2 where "s2 = upd_tman e tid (\<lambda>t. t\<lparr>tm_highQC := qc, tm_generic_received := True\<rparr>) s1"
  define s3 where "s3 = put_hash_to_QC i (batch_hash qc) qc s2"
  have s3: "g_preparedQC s3 = g_preparedQC s" "hash_to_QC s3 = hash_to_QC (put_hash_to_QC i (batch_hash qc) qc s)"
    by (simp_all add: s3_def s2_def s1_def put_hash_to_QC_def)
  have "has_tman e s2 tid" "\<not> tm_proposal_received (tman e s2 tid)"
    using assms(3,5) by (simp_all add: s2_def s1_def keeps_ids_def set_hash_def)
  then have t: "has_tman e s3 tid" "\<not> tm_proposal_received (tman e s3 tid)"
    using tman_cong [of s3 s2] has_tman_cong [of s3 s2] by (simp_all add: s3_def)
  have "\<not> two_chain s3 i qc (gen_view gene)" using assms(13) by (simp add: two_chain_def qc_at_def s3(2))
  then obtain s4 where s4: "update_lockQC e qc (gen_view gene) (tid - get_totInstances e * get_batch_size e) i s3 = Some s4"
      "txn_table s4 = txn_table s3" "g_preparedQC s4 i = qc"
    using update_lockQC_one_chain [OF assms(12), of s3 i] assms(11) s3(1) by (fastforce simp: newer_def)
  have "has_tman e s4 tid" "\<not> tm_proposal_received (tman e s4 tid)" using t s4(2) by (simp_all add: has_tman_def tman_def)
  then have p: "\<not> tm_proposal_received (tman e (send_hotstuff_newview e None tid s4) tid)"
    by (simp add: newview_proposal_received)
  have safe: "SafeNode s qc i" using assms(10) by (simp add: SafeNode_def)
  have "process_hotstuff_generic e gene tid s = Some (send_hotstuff_newview e None tid s4)"
    using assms(4,6-9,11) safe s4(1) [unfolded s3_def s2_def s1_def] p
    by (auto simp: process_hotstuff_generic_def Let_def get_current_view_def i_def [symmetric] qc_def [symmetric])
  then show ?thesis using s4(3) by simp
qed

end
