(* ===== verification/Queue_Facts.thy ===== *)
theory Queue_Facts
  imports Work_Queue
begin

text \<open>
  The work queues: the search for the least loaded instance ends and finds it, each kind
  of message travels through a queue of its own in order, early messages come back when
  the view advances, and the proposals of a replica are for views that it leads.
\<close>

section \<open>Walking round the instances\<close>

text \<open>The \<open>k\<close>-th position of the loop \<open>idx = (idx + 1) % n\<close> that starts at \<open>start\<close>.\<close>

definition pos :: "u64 \<Rightarrow> u64 \<Rightarrow> nat \<Rightarrow> u64" where
  "pos n start k = word_of_nat ((unat start + k) mod unat n)"

lemma unat_pos: "n \<noteq> 0 \<Longrightarrow> unat (pos n start k) = (unat start + k) mod unat n"
proof -
  assume "n \<noteq> 0"
  then have "(unat start + k) mod unat n < unat n" by (simp add: unat_gt_0)
  also have "\<dots> < 2 ^ 64" by (rule unat_u64_less)
  finally show ?thesis by (simp add: pos_def unat_of_nat_u64)
qed

lemma pos_0: "start < n \<Longrightarrow> pos n start 0 = start"
  by (simp add: pos_def word_less_nat_alt)

lemma pos_less: "n \<noteq> 0 \<Longrightarrow> pos n start k < n"
  by (simp add: word_less_nat_alt unat_pos unat_gt_0)

lemma pos_Suc:
  assumes "n \<noteq> 0"
  shows "(pos n start k + 1) mod n = pos n start (Suc k)"
proof -
  have "unat (pos n start k) < unat n" using pos_less [OF assms] by (simp add: word_less_nat_alt)
  then have "unat (pos n start k + 1) = unat (pos n start k) + 1"
    using unat_u64_less [of n] unat_add_u64 [of "pos n start k" 1] by simp
  then have "unat ((pos n start k + 1) mod n) = ((unat start + k) mod unat n + 1) mod unat n"
    by (simp add: unat_mod unat_pos [OF assms])
  also have "\<dots> = unat (pos n start (Suc k))"
    by (simp add: unat_pos [OF assms] mod_Suc_eq)
  finally show ?thesis by (simp add: word_unat_eq_iff)
qed

lemma pos_surj:
  assumes "start < n" and "i < n"
  shows "\<exists>k < unat n. i = pos n start k"
proof -
  let ?N = "unat n" and ?S = "unat start" and ?I = "unat i"
  have N: "?S < ?N" "?I < ?N" using assms by (simp_all add: word_less_nat_alt)
  let ?k = "(?I + ?N - ?S) mod ?N"
  have "(?S + ?k) mod ?N = (?S + (?I + ?N - ?S)) mod ?N" by (simp add: mod_add_right_eq)
  also have "\<dots> = ?I" using N by simp
  finally have "unat (pos n start ?k) = ?I" using assms by (subst unat_pos) auto
  moreover have "?k < ?N" using N by simp
  ultimately show ?thesis by (metis word_unat_eq_iff)
qed

lemma pos_start:
  assumes "start < n" and "0 < k" and "k < unat n"
  shows "pos n start k \<noteq> start"
proof
  assume "pos n start k = start"
  moreover have "n \<noteq> 0" using assms(1) by auto
  ultimately have "(unat start + k) mod unat n = unat start" using unat_pos [of n start k] by metis
  moreover have "unat start < unat n" using assms by (simp add: word_less_nat_alt)
  ultimately show False using assms
    by (metis add.commute add_diff_cancel_right' le_add2 mod_less mod_eq_dvd_iff_nat nat_dvd_not_less)
qed

lemma pos_N: "start < n \<Longrightarrow> pos n start (unat n) = start"
  by (simp add: pos_def word_less_nat_alt)

section \<open>The least loaded instance\<close>

text \<open>The second round: \<open>min_cnt\<close> is known, the search stops at the first instance within it.\<close>

lemma clb_search_second:
  assumes "start < n" and "k \<le> j" and "j < unat n" and "cnt (pos n start j) \<le> c" and "unat n - k \<le> fuel"
  shows "\<exists>j' < unat n. clb_search fuel n cnt start (pos n start k) c m = Some (pos n start j') \<and> cnt (pos n start j') \<le> c"
  using assms(2-5)
proof (induction "j - k" arbitrary: k fuel m)
  case 0
  then have "k = j" by simp
  moreover obtain f where "fuel = Suc f" using 0 by (cases fuel) auto
  ultimately show ?case using 0 by auto
next
  case (Suc d)
  obtain f where f: "fuel = Suc f" using Suc.prems by (cases fuel) auto
  show ?case
  proof (cases "cnt (pos n start k) \<le> c")
    case True
    then show ?thesis using f Suc.prems Suc.hyps by (intro exI [of _ k]) auto
  next
    case False
    have n0: "n \<noteq> 0" using assms(1) by auto
    have lt: "Suc k < unat n" using Suc.hyps(2) Suc.prems by linarith
    have "pos n start (Suc k) \<noteq> start" using pos_start [OF assms(1) _ lt] by simp
    then have "clb_search fuel n cnt start (pos n start k) c m =
        clb_search f n cnt start (pos n start (Suc k)) c (if cnt (pos n start k) < m then cnt (pos n start k) else m)"
      using False f by (simp add: Let_def pos_Suc [OF n0])
    moreover have "d = j - Suc k" "Suc k \<le> j" "unat n - Suc k \<le> f"
      using Suc.hyps(2) Suc.prems f by auto
    ultimately show ?thesis using Suc.hyps(1) [of "Suc k" f] Suc.prems by metis
  qed
qed

definition min_seen :: "(u64 \<Rightarrow> u64) \<Rightarrow> u64 \<Rightarrow> u64 \<Rightarrow> nat \<Rightarrow> u64" where
  "min_seen cnt n start k = Min (insert 0xFFFFF ((\<lambda>j. cnt (pos n start j)) ` {..<k}))"

lemma min_seen_Suc:
  "min_seen cnt n start (Suc k) =
     (if cnt (pos n start k) < min_seen cnt n start k then cnt (pos n start k) else min_seen cnt n start k)"
proof -
  have "insert 0xFFFFF ((\<lambda>j. cnt (pos n start j)) ` {..<Suc k}) =
      insert (cnt (pos n start k)) (insert 0xFFFFF ((\<lambda>j. cnt (pos n start j)) ` {..<k}))"
    by (auto simp: lessThan_Suc)
  then have "min_seen cnt n start (Suc k) = min (cnt (pos n start k)) (min_seen cnt n start k)"
    unfolding min_seen_def by (simp del: Min_insert add: Min_insert [of "insert _ _"])
  then show ?thesis by (auto simp: min_def)
qed

text \<open>The first round: it stops at an empty instance or computes the minimum.\<close>

lemma clb_search_first:
  assumes "start < n" and "k < unat n" and "\<forall>j < k. 0 < cnt (pos n start j)"
    and "\<exists>j < unat n. cnt (pos n start j) \<le> 0xFFFFF" and "2 * unat n - k \<le> fuel"
  shows "\<exists>j < unat n. clb_search fuel n cnt start (pos n start k) 0 (min_seen cnt n start k) = Some (pos n start j) \<and>
    (\<forall>j' < unat n. cnt (pos n start j) \<le> cnt (pos n start j'))"
  using assms(2,3,5)
proof (induction "unat n - k" arbitrary: k fuel)
  case (Suc d)
  have n0: "n \<noteq> 0" using assms(1) by auto
  obtain f where f: "fuel = Suc f" using Suc.prems by (cases fuel) auto
  show ?case
  proof (cases "cnt (pos n start k) = 0")
    case True
    then show ?thesis using f Suc.prems by (intro exI [of _ k]) auto
  next
    case False
    let ?m = "min_seen cnt n start (Suc k)"
    have step: "clb_search fuel n cnt start (pos n start k) 0 (min_seen cnt n start k) =
        clb_search f n cnt start (pos n start (Suc k)) (if pos n start (Suc k) = start then ?m else 0) ?m"
      using False f by (simp add: Let_def pos_Suc [OF n0] min_seen_Suc word_gt_0)
    have seen: "\<forall>j < Suc k. 0 < cnt (pos n start j)"
      using Suc.prems(2) False by (auto simp: less_Suc_eq word_gt_0)
    show ?thesis
    proof (cases "Suc k = unat n")
      case False
      then have lt: "Suc k < unat n" using Suc.prems by simp
      then have "pos n start (Suc k) \<noteq> start" using pos_start [OF assms(1)] by simp
      then show ?thesis
        using step Suc.hyps(1) [of "Suc k" f] Suc.hyps(2) Suc.prems(3) f lt seen by auto
    next
      case True
      have all: "?m \<le> cnt (pos n start j)" if "j < unat n" for j
        using that True unfolding min_seen_def by (intro Min_le) auto
      have "\<exists>j < unat n. cnt (pos n start j) \<le> ?m"
      proof -
        have "?m \<in> insert 0xFFFFF ((\<lambda>j. cnt (pos n start j)) ` {..<Suc k})"
          unfolding min_seen_def by (intro Min_in) auto
        then consider "?m = 0xFFFFF" | j where "j < unat n" "?m = cnt (pos n start j)" using True by auto
        then show ?thesis using assms(4) by cases auto
      qed
      then obtain j where j: "j < unat n" "cnt (pos n start j) \<le> ?m" by blast
      have start: "pos n start (Suc k) = start" "pos n start 0 = start"
        using True pos_N [OF assms(1)] pos_0 [OF assms(1)] by simp_all
      have "unat n - 0 \<le> f" using f Suc.prems True by simp
      from clb_search_second [of start n 0 j cnt ?m f ?m, OF assms(1) le0 j this] obtain j' where
        "j' < unat n" "clb_search f n cnt start start ?m ?m = Some (pos n start j')" "cnt (pos n start j') \<le> ?m"
        using start by auto
      then show ?thesis using step start all by (auto intro: order_trans)
    qed
  qed
qed simp

lemma clb_search_min:
  assumes "start < n" and "\<exists>i < n. cnt i \<le> 0xFFFFF"
  shows "\<exists>i < n. clb_search (2 * unat n) n cnt start start 0 0xFFFFF = Some i \<and> (\<forall>j < n. cnt i \<le> cnt j)"
proof -
  have n0: "n \<noteq> 0" using assms by auto
  obtain i0 k0 where "cnt i0 \<le> 0xFFFFF" "k0 < unat n" "i0 = pos n start k0"
    using assms pos_surj by blast
  then obtain j where j: "clb_search (2 * unat n) n cnt start (pos n start 0) 0 (min_seen cnt n start 0) = Some (pos n start j)"
      "\<forall>j' < unat n. cnt (pos n start j) \<le> cnt (pos n start j')"
    using clb_search_first [of start n 0 cnt "2 * unat n"] assms(1) n0 by (auto simp: unat_gt_0)
  show ?thesis
  proof (intro exI [of _ "pos n start j"] conjI allI impI)
    show "clb_search (2 * unat n) n cnt start start 0 0xFFFFF = Some (pos n start j)"
      using j(1) pos_0 [OF assms(1)] by (simp add: min_seen_def)
    show "cnt (pos n start j) \<le> cnt i" if "i < n" for i
      using j(2) pos_surj [OF assms(1) that] by auto
  qed (use n0 pos_less in auto)
qed

section \<open>Queues keep their order\<close>

text \<open>Taking from a queue \<open>n\<close> times.\<close>

fun drain :: "('s \<Rightarrow> 'm option \<times> 's) \<Rightarrow> nat \<Rightarrow> 's \<Rightarrow> 'm option list \<times> 's" where
  "drain pop 0 s = ([], s)"
| "drain pop (Suc n) s = (case pop s of (r, s) \<Rightarrow> case drain pop n s of (rs, s) \<Rightarrow> (r # rs, s))"

text \<open>The interface of a source of messages that is part of a larger state.\<close>

locale source =
  fixes content :: "'s \<Rightarrow> 'm list" and inv :: "'s \<Rightarrow> bool" and pop :: "'s \<Rightarrow> 'm option \<times> 's"
  assumes pop_Nil: "content s = [] \<Longrightarrow> pop s = (None, s)"
    and pop_Cons: "inv s \<Longrightarrow> content s = m # ms \<Longrightarrow> \<exists>s'. pop s = (Some m, s') \<and> content s' = ms \<and> inv s'"
begin

lemma drain_content:
  "inv s \<Longrightarrow> content s = ms @ rest \<Longrightarrow>
     \<exists>s'. drain pop (length ms) s = (map Some ms, s') \<and> content s' = rest \<and> inv s'"
proof (induction ms arbitrary: s)
  case (Cons m ms)
  obtain s1 where s1: "pop s = (Some m, s1)" "content s1 = ms @ rest" "inv s1"
    using pop_Cons [OF Cons.prems(1)] Cons.prems(2) by auto
  from Cons.IH [OF s1(3,2)] show ?case using s1(1) by auto
qed simp

lemma drain_all: "inv s \<Longrightarrow> fst (drain pop (length (content s)) s) = map Some (content s)"
  using drain_content [of s "content s" "[]"] by auto

end

text \<open>
  A first-in-first-out queue: pushing appends; \<open>cap\<close> says which lengths the state can
  represent.
\<close>

locale fifo = source content inv pop
  for content :: "'s \<Rightarrow> 'm list" and inv :: "'s \<Rightarrow> bool" and pop :: "'s \<Rightarrow> 'm option \<times> 's" +
  fixes cap :: "nat \<Rightarrow> bool" and push :: "'m \<Rightarrow> 's \<Rightarrow> 's"
  assumes push_content: "content (push m s) = content s @ [m]"
    and push_inv: "inv s \<Longrightarrow> cap (Suc (length (content s))) \<Longrightarrow> inv (push m s)"
    and cap_down: "cap n \<Longrightarrow> k \<le> n \<Longrightarrow> cap k"
begin

lemma push_all_content: "content (fold push ms s) = content s @ ms"
  by (induction ms arbitrary: s) (simp_all add: push_content)

lemma push_all_inv: "inv s \<Longrightarrow> cap (length (content s) + length ms) \<Longrightarrow> inv (fold push ms s)"
proof (induction ms arbitrary: s)
  case (Cons m ms)
  have "cap (Suc (length (content s)))" using Cons.prems(2) by (rule cap_down) simp
  then show ?case using Cons push_inv push_content by simp
qed simp

text \<open>What is pushed comes out, in order, after what was there before.\<close>

lemma push_then_drain:
  assumes "inv s" and "cap (length (content s) + length ms)"
  shows "fst (drain pop (length (content s) + length ms) (fold push ms s)) = map Some (content s @ ms)"
  using drain_all [OF push_all_inv [OF assms]] push_all_content [of ms s] by simp

end

definition prior_inv :: "u64 \<Rightarrow> node \<Rightarrow> bool" where
  "prior_inv q s \<longleftrightarrow> prior_cnt s q = word_of_nat (length (prior_queue s q)) \<and> length (prior_queue s q) < 2 ^ 64"

interpretation wkq: fifo "\<lambda>s. work_queue s q" "\<lambda>_. True" "pop_work q" "\<lambda>_. True" "push_work q" for q
  by unfold_locales (simp_all add: push_work_def pop_work_def)

lemma of_nat_u64_0: "n < 2 ^ 64 \<Longrightarrow> (word_of_nat n :: u64) = 0 \<longleftrightarrow> n = 0"
  by (metis unat_0 unat_of_nat_u64 unat_eq_zero)

interpretation prq: fifo "\<lambda>s. prior_queue s q" "prior_inv q" "pop_prior q" "\<lambda>n. n < 2 ^ 64" "push_prior q" for q
proof (unfold_locales, goal_cases)
  case (2 s m ms)
  then have "prior_cnt s q \<noteq> 0" using of_nat_u64_0 [of "length (prior_queue s q)"] by (simp add: prior_inv_def)
  with 2 show ?case by (simp add: pop_prior_def prior_inv_def)
qed (simp_all add: push_prior_def pop_prior_def prior_inv_def)

text \<open>A worker thread serves its priority queue first, then its work queue, each in order.\<close>

lemma pop_prior_work: "pop_prior q s = (r, s') \<Longrightarrow> work_queue s' = work_queue s"
  by (auto simp: pop_prior_def split: if_splits list.splits)

interpretation wdq: source "\<lambda>s. prior_queue s q @ work_queue s q" "prior_inv q" "dequeue_worker q" for q
proof (unfold_locales, goal_cases)
  case (1 s)
  then show ?case by (simp add: dequeue_worker_def prq.pop_Nil wkq.pop_Nil)
next
  case (2 s m ms)
  show ?case
  proof (cases "prior_queue s q")
    case Nil
    then have "pop_prior q s = (None, s)" by (rule prq.pop_Nil)
    moreover obtain s' where "pop_work q s = (Some m, s')" "work_queue s' q = ms"
      using wkq.pop_Cons [of s q m ms] 2 Nil by auto
    moreover from this have "prior_queue s' = prior_queue s" "prior_cnt s' = prior_cnt s"
      by (auto simp: pop_work_def split: list.splits)
    ultimately show ?thesis using Nil 2(1) by (simp add: dequeue_worker_def prior_inv_def)
  next
    case (Cons m' ps)
    obtain s' where "pop_prior q s = (Some m', s')" "prior_queue s' q = ps" "prior_inv q s'"
      using prq.pop_Cons [OF 2(1) Cons] by blast
    then show ?thesis using 2(2) Cons pop_prior_work [of q s] by (auto simp: dequeue_worker_def)
  qed
qed

section \<open>Messages that arrived early\<close>

definition is_prior :: "msg \<Rightarrow> bool" where
  "is_prior m \<longleftrightarrow> msg_rtype m = SpotLess_GENERIC_MSG \<or> msg_rtype m = SpotLess_PROPOSAL_MSG"

lemma reenqueue_one_queues:
  "prior_queue (reenqueue_one q m s) q = prior_queue s q @ (if is_prior m then [m] else [])"
  "work_queue (reenqueue_one q m s) q = work_queue s q @ (if is_prior m then [] else [m])"
  "worker_queue_semaphore (reenqueue_one q m s) q = worker_queue_semaphore s q + 1"
  by (simp_all add: reenqueue_one_def is_prior_def sem_post_worker_def push_prior_def push_work_def)

lemma fold_reenqueue_queues:
  "prior_queue (fold (reenqueue_one q) ms s) q = prior_queue s q @ filter is_prior ms"
  "work_queue (fold (reenqueue_one q) ms s) q = work_queue s q @ filter (\<lambda>m. \<not> is_prior m) ms"
  "worker_queue_semaphore (fold (reenqueue_one q) ms s) q = worker_queue_semaphore s q + length ms"
  by (induction ms arbitrary: s) (simp_all add: reenqueue_one_queues)

lemma reenqueue_temp: "temp_queue (reenqueue e i s) = (temp_queue s)(i := [])"
  by (simp add: reenqueue_def fold_frame [where f = temp_queue])

lemma set_view_queues:
  assumes "i < get_totInstances e"
  defines "q \<equiv> i mod get_multi_threads e"
  shows "prior_queue (set_view e i v s) q = prior_queue s q @ filter is_prior (temp_queue s i)"
    and "work_queue (set_view e i v s) q = work_queue s q @ filter (\<lambda>m. \<not> is_prior m) (temp_queue s i)"
    and "temp_queue (set_view e i v s) i = []"
    and "worker_queue_semaphore (set_view e i v s) q = worker_queue_semaphore s q + length (temp_queue s i)"
  using assms by (simp_all add: set_view_def reenqueue_temp) (simp_all add: reenqueue_def fold_reenqueue_queues)

section \<open>From enqueue to dequeue\<close>

text \<open>The messages that \<open>enqueue\<close> places in the queues of worker thread \<open>q\<close>.\<close>

definition for_worker :: "env \<Rightarrow> u64 \<Rightarrow> msg \<Rightarrow> bool" where
  "for_worker e q m \<longleftrightarrow> msg_rtype m \<noteq> CL_BATCH \<and> msg_rtype m \<noteq> EXECUTE_MSG \<and> msg_rtype m \<noteq> PBFT_CHKPT_MSG \<and>
     inst_id m mod get_multi_threads e = q"

text \<open>The queues of the execute thread lie between those of the workers and the checkpoint queue.\<close>

lemma execute_qid_range:
  assumes "indexSize e \<noteq> 0" and "unat (get_multi_threads e) + unat (indexSize e) < 2 ^ 64"
  shows "get_multi_threads e \<le> execute_qid e tid" and "execute_qid e tid < get_multi_threads e + indexSize e"
proof -
  let ?b = "((tid + 2) - get_batch_size e) div get_batch_size e mod indexSize e"
  have b: "unat ?b < unat (indexSize e)" using assms(1) by (simp add: unat_mod unat_gt_0)
  then have "unat (?b + get_multi_threads e) = unat ?b + unat (get_multi_threads e)"
    using assms(2) by (intro unat_add_u64) simp
  moreover have "unat (get_multi_threads e + indexSize e) = unat (get_multi_threads e) + unat (indexSize e)"
    using assms(2) by (rule unat_add_u64)
  ultimately show "get_multi_threads e \<le> execute_qid e tid" "execute_qid e tid < get_multi_threads e + indexSize e"
    using b by (simp_all add: execute_qid_def Let_def word_le_nat_alt word_less_nat_alt)
qed

lemma enqueue_worker_queues:
  assumes "enqueue e m s = Some s'" and "q < get_multi_threads e"
    and "indexSize e \<noteq> 0" and "unat (get_multi_threads e) + unat (indexSize e) < 2 ^ 64"
  shows "prior_queue s' q = prior_queue s q @ filter (\<lambda>m. for_worker e q m \<and> is_prior m) [m]"
    and "work_queue s' q = work_queue s q @ filter (\<lambda>m. for_worker e q m \<and> \<not> is_prior m) [m]"
    and "prior_cnt s' q = prior_cnt s q + (if for_worker e q m \<and> is_prior m then 1 else 0)"
proof -
  have x: "execute_qid e (txn_id m) \<noteq> q" using execute_qid_range(1) [OF assms(3,4), of "txn_id m"] assms(2) by auto
  have "get_multi_threads e \<le> get_multi_threads e + indexSize e"
    using unat_add_u64 [OF assms(4)] by (simp add: word_le_nat_alt)
  then have c: "get_multi_threads e + indexSize e \<noteq> q" using assms(2) by auto
  show "prior_queue s' q = prior_queue s q @ filter (\<lambda>m. for_worker e q m \<and> is_prior m) [m]"
    and "work_queue s' q = work_queue s q @ filter (\<lambda>m. for_worker e q m \<and> \<not> is_prior m) [m]"
    and "prior_cnt s' q = prior_cnt s q + (if for_worker e q m \<and> is_prior m then 1 else 0)"
    using assms(1) x c
    by (auto simp: enqueue_def enqueue_client_batch_def for_worker_def is_prior_def Let_def sem_post_worker_def
        push_prior_def push_work_def execute_msg_heap_push_def split: if_splits option.splits)
qed

lemma enqueues_worker_queues:
  assumes "q < get_multi_threads e" and "indexSize e \<noteq> 0" and "unat (get_multi_threads e) + unat (indexSize e) < 2 ^ 64"
  shows "fold_option (enqueue e) ms s = Some s' \<Longrightarrow>
    prior_queue s' q = prior_queue s q @ filter is_prior (filter (for_worker e q) ms) \<and>
    work_queue s' q = work_queue s q @ filter (\<lambda>m. \<not> is_prior m) (filter (for_worker e q) ms) \<and>
    prior_cnt s' q = prior_cnt s q + word_of_nat (length (filter is_prior (filter (for_worker e q) ms)))"
proof (induction ms arbitrary: s)
  case (Cons m ms)
  then obtain s1 where s1: "enqueue e m s = Some s1" "fold_option (enqueue e) ms s1 = Some s'"
    by (auto simp: bind_eq_Some_conv)
  from Cons.IH [OF s1(2)] enqueue_worker_queues [OF s1(1) assms] show ?case by auto
qed simp

lemma enqueues_then_drain:
  assumes "fold_option (enqueue e) ms s = Some s'" and "prior_inv q s" and "length (prior_queue s q) + length ms < 2 ^ 64"
    and "q < get_multi_threads e" and "indexSize e \<noteq> 0" and "unat (get_multi_threads e) + unat (indexSize e) < 2 ^ 64"
    and "ms' = filter (for_worker e q) ms"
    and "content = prior_queue s q @ filter is_prior ms' @ work_queue s q @ filter (\<lambda>m. \<not> is_prior m) ms'"
  shows "\<exists>s''. drain (dequeue_worker q) (length content) s' = (map Some content, s'')"
proof -
  note q = enqueues_worker_queues [OF assms(4-6,1)]
  have "length (prior_queue s q) + length (filter (\<lambda>m. for_worker e q m \<and> is_prior m) ms) < 2 ^ 64"
    using assms(3) length_filter_le [of "\<lambda>m. for_worker e q m \<and> is_prior m" ms] by linarith
  then have "prior_inv q s'" using assms(2,7) q by (simp add: prior_inv_def)
  moreover have "prior_queue s' q @ work_queue s' q = content" using q assms(7,8) by simp
  ultimately show ?thesis using wdq.drain_content [of q s' content "[]"] by auto
qed

lemma dequeue_is_worker:
  assumes "ISSERVER e" and "q < get_multi_threads e" and "q < tcount e"
  shows "dequeue e fuel q s = Some (dequeue_worker q s)"
proof -
  have "unat (tcount e) < 2 ^ 32" "unat (ucast (g_execute_thd e) :: u64) < 2 ^ 32"
    unfolding tcount_def
    using unsigned_less [of "g_thread_cnt e - g_execute_thd e - g_checkpointing_thd e"] unsigned_less [of "g_execute_thd e"]
    by simp_all
  then have "tcount e \<le> tcount e + ucast (g_execute_thd e)"
    using unat_add_u64 [of "tcount e" "ucast (g_execute_thd e)"] by (simp add: word_le_nat_alt)
  then have "\<not> q \<ge> tcount e + ucast (g_execute_thd e)" using assms(3) by auto
  then show ?thesis using assms by (auto simp: dequeue_def Let_def split: prod.splits)
qed

section \<open>Execute messages\<close>

lemma execute_delivered:
  assumes "ISSERVER e" and "msg_rtype m = EXECUTE_MSG" and "txn_id m = expectedExecuteCount s"
    and "work_queue s (execute_qid e (txn_id m)) = []"
  obtains s' where "enqueue e m s = Some s'" and "fst (dequeue_execute e s') = Some m"
    and "execute_semaphore s' = execute_semaphore s + 1"
proof -
  have "expectedExecuteCount (after_execute_enqueue e m s) = expectedExecuteCount s"
    "execute_semaphore (after_execute_enqueue e m s) = execute_semaphore s + 1"
    using assms(1-3)
    by (simp_all add: after_execute_enqueue_def enqueue_def Let_def execute_msg_heap_push_def sem_post_worker_def
        push_work_def get_expectedExecuteCount_def)
  then show ?thesis
    using that [OF enqueue_execute_Some [OF assms(1,2)]] assms after_execute_enqueue_frame(11) [OF assms(1,2), of s]
    by (simp add: dequeue_execute_def get_expectedExecuteCount_def pop_work_def)
qed

section \<open>Proposals are made for the views a replica leads\<close>

text \<open>
  The next view in which this replica proposes for an instance is one that it leads.
  The second conjunct keeps the view numbers away from wrap-around.
\<close>

definition send_inv :: "env \<Rightarrow> node \<Rightarrow> bool" where
  "send_inv e s \<longleftrightarrow> (\<forall>i < get_totInstances e. get_view_primary e (next_send_view s i) i = node_id e)"

definition views_small :: "env \<Rightarrow> node \<Rightarrow> bool" where
  "views_small e s \<longleftrightarrow> (\<forall>i < get_totInstances e. unat (next_send_view s i) + unat i + unat (g_node_cnt e) < 2 ^ 64)"

lemma unat_view_primary:
  "unat v + unat i < 2 ^ 64 \<Longrightarrow> unat (get_view_primary e v i) = (unat v + unat i) mod unat (g_node_cnt e)"
  by (simp add: get_view_primary_def unat_mod unat_add_u64)

lemma next_primary:
  assumes "unat v + unat i + unat (g_node_cnt e) < 2 ^ 64"
  shows "get_view_primary e (v + node_cnt e) i = get_view_primary e v i"
proof -
  have v: "unat (v + node_cnt e) = unat v + unat (g_node_cnt e)"
    using assms by (subst unat_add_u64) auto
  have "unat (get_view_primary e (v + node_cnt e) i) = unat (get_view_primary e v i)"
  proof -
    have "(unat v + unat (g_node_cnt e) + unat i) mod unat (g_node_cnt e) = (unat v + unat i) mod unat (g_node_cnt e)"
      using mod_add_self2 [of "unat v + unat i" "unat (g_node_cnt e)"] by (simp only: ac_simps)
    then show ?thesis using assms v by (simp add: unat_view_primary)
  qed
  then show ?thesis by (simp add: word_unat_eq_iff)
qed

lemma init_send_inv:
  assumes "g_node_id e < g_node_cnt e" and "unat (get_totInstances e) \<le> unat (g_node_cnt e)"
    and "unat (g_node_cnt e) < 2 ^ 31"
  shows "send_inv e (init_node e k)"
  unfolding send_inv_def
proof (intro allI impI)
  fix i assume i: "i < get_totInstances e"
  let ?N = "unat (g_node_cnt e)" and ?D = "unat (g_node_id e)" and ?I = "unat i"
  have I: "?I < ?N" using i assms(2) by (simp add: word_less_nat_alt)
  have D: "?D < ?N" using assms(1) by (simp add: word_less_nat_alt)
  have ui: "unat (ucast i :: u32) = ?I"
    using I assms(3) by (simp add: unsigned_ucast_eq take_bit_nat_eq_self)
  have "unat (g_node_cnt e + g_node_id e) = ?N + ?D"
    using D assms(3) by (simp add: unat_word_ariths)
  then have "unat (g_node_cnt e + g_node_id e - ucast i) = ?N + ?D - ?I"
    using I ui by (subst unat_sub) (auto simp: word_le_nat_alt)
  then have "unat (next_send_view (init_node e k) i) = (?N + ?D - ?I) mod ?N"
    using i by (simp add: init_node_def unat_mod)
  moreover have "(?N + ?D - ?I) mod ?N + ?I < 2 ^ 64"
  proof -
    have "(?N + ?D - ?I) mod ?N < ?N" using I by (intro mod_less_divisor) simp
    then have "(?N + ?D - ?I) mod ?N + ?I < ?N + ?N" using I by (rule add_strict_mono)
    also have "\<dots> < 2 ^ 64" using assms(3) by simp
    finally show ?thesis .
  qed
  ultimately have "unat (get_view_primary e (next_send_view (init_node e k) i) i) = ((?N + ?D - ?I) mod ?N + ?I) mod ?N"
    by (simp add: unat_view_primary)
  also have "\<dots> = (?N + ?D - ?I + ?I) mod ?N" by (rule mod_add_left_eq)
  also have "\<dots> = unat (node_id e)" using I D by simp
  finally show "get_view_primary e (next_send_view (init_node e k) i) i = node_id e"
    by (simp add: word_unat_eq_iff)
qed

text \<open>What \<open>dequeue_proposal\<close> hands to the proposal thread.\<close>

lemma prev_instance_less: "get_totInstances e \<noteq> 0 \<Longrightarrow> prev_instance e i < get_totInstances e"
  by (simp add: prev_instance_def word_mod_less_divisor word_gt_0)

lemma find_batch_Some: "find_batch fuel n s p i = Some j \<Longrightarrow> batch_available s p j"
  by (induction fuel n s p i rule: find_batch.induct) (auto simp: Let_def split: if_splits)

lemma take_batch_frame:
  assumes "take_batch e p i s = (m, s')"
  shows "m = upd_base (\<lambda>b. b\<lparr>m_txn_id := next_send_view s p * get_totInstances e + p\<rparr>) (hd (new_txn_queue s i))"
    and "next_send_view s' = (next_send_view s)(p := next_send_view s p + node_cnt e)"
    and "last_sent_view s' = (last_sent_view s)(p := next_send_view s p)"
    and "new_txn_queue s' = (new_txn_queue s)(i := tl (new_txn_queue s i))"
    and "clb_cnt s' = (clb_cnt s)(i := clb_cnt s i - 1)"
  using assms
  by (auto simp: take_batch_def Let_def get_next_send_view_def inc_next_send_view_def set_last_sent_view_def)

lemma dequeue_proposal_batch:
  assumes "dequeue_proposal e fuel s = Some (m, s')" and "proposalInstance s < get_totInstances e"
  obtains p i s0 where "p < get_totInstances e" and "take_batch e p i s0 = (m, s')"
    and "next_send_view s0 = next_send_view s" and "new_txn_queue s0 = new_txn_queue s"
    and "clb_cnt s0 = clb_cnt s" and "batch_available s p i"
    and "next_send_view s p \<le> get_current_view s p + ROUNDS_IN_ADVANCE e"
  using assms
proof (induction fuel arbitrary: s thesis)
  case (Suc fuel)
  let ?p = "proposalInstance s" and ?s = "s\<lparr>proposalInstance := prev_instance e (proposalInstance s)\<rparr>"
  have tot: "get_totInstances e \<noteq> 0" using Suc.prems(3) by auto
  show ?case
  proof (cases "get_next_send_view s ?p \<le> get_current_view s ?p + ROUNDS_IN_ADVANCE e \<and>
      find_batch (unat (get_totInstances e)) (get_totInstances e) s ?p ?p \<noteq> None")
    case True
    then obtain i where i: "find_batch (unat (get_totInstances e)) (get_totInstances e) s ?p ?p = Some i" by auto
    with True Suc.prems(2) have "take_batch e ?p i s = (m, s')" by (simp add: Let_def)
    with True i show ?thesis
      using Suc.prems(1) [of ?p i s] Suc.prems(3) find_batch_Some [OF i] by (simp add: get_next_send_view_def)
  next
    case False
    then have rec: "dequeue_proposal e fuel ?s = Some (m, s')"
      using Suc.prems(2) by (auto simp: Let_def split: if_splits option.splits)
    have lt: "proposalInstance ?s < get_totInstances e" using prev_instance_less [OF tot] by simp
    obtain p i s0 where "p < get_totInstances e" "take_batch e p i s0 = (m, s')"
        "next_send_view s0 = next_send_view ?s" "new_txn_queue s0 = new_txn_queue ?s" "clb_cnt s0 = clb_cnt ?s"
        "batch_available ?s p i" "next_send_view ?s p \<le> get_current_view ?s p + ROUNDS_IN_ADVANCE e"
      by (rule Suc.IH [OF _ rec lt])
    then show ?thesis
      using Suc.prems(1) [of p i s0] by (simp add: batch_available_def get_current_view_def)
  qed
qed simp

text \<open>
  The scan of the client queues goes once round the instances from the one that is due, and the
  search for an instance that is due goes once round them backwards.
\<close>

lemma find_batch_walk:
  assumes "p < n" and "k \<le> j" and "j < unat n" and "batch_available s p (pos n p j)" and "unat n - k \<le> fuel"
  shows "find_batch fuel n s p (pos n p k) \<noteq> None"
  using assms(2-5)
proof (induction "j - k" arbitrary: k fuel)
  case 0
  then have "k = j" "fuel \<noteq> 0" by auto
  then show ?case using 0 by (cases fuel) auto
next
  case (Suc d)
  obtain f where f: "fuel = Suc f" using Suc.prems by (cases fuel) auto
  have n0: "n \<noteq> 0" using assms(1) by auto
  have lt: "Suc k < unat n" using Suc.hyps(2) Suc.prems by linarith
  then have "pos n p (Suc k) \<noteq> p" using pos_start [OF assms(1)] by simp
  moreover have "find_batch f n s p (pos n p (Suc k)) \<noteq> None"
    using Suc.hyps Suc.prems f by (intro Suc.hyps(1)) auto
  ultimately show ?case using f by (simp add: Let_def pos_Suc [OF n0])
qed

lemma find_batch_finds:
  assumes "p < n" and "i < n" and "batch_available s p i"
  shows "find_batch (unat n) n s p p \<noteq> None"
proof -
  obtain j where "j < unat n" "i = pos n p j" using pos_surj [OF assms(1,2)] by blast
  then show ?thesis using find_batch_walk [OF assms(1), of 0 j s "unat n"] assms by (simp add: pos_0)
qed

lemma find_batch_instance [simp]: "find_batch fuel n (s\<lparr>proposalInstance := x\<rparr>) p i = find_batch fuel n s p i"
  by (induction fuel arbitrary: i) (auto simp: Let_def batch_available_def get_current_view_def)

definition back_dist :: "nat \<Rightarrow> nat \<Rightarrow> nat \<Rightarrow> nat" where
  "back_dist n i p = (if p \<le> i then i - p else i + n - p)"

lemma unat_prev_instance:
  assumes "i < get_totInstances e" and "unat (get_totInstances e) < 2 ^ 63"
  shows "unat (prev_instance e i) = (if i = 0 then unat (get_totInstances e) - 1 else unat i - 1)"
proof -
  let ?n = "unat (get_totInstances e)"
  have i: "unat i < ?n" using assms(1) by (simp add: word_less_nat_alt)
  have s: "unat (i + get_totInstances e) = unat i + ?n" using i assms(2) by (intro unat_add_u64) simp
  then have "unat (i + get_totInstances e - 1) = unat i + ?n - 1"
    using i by (subst unat_sub) (auto simp: word_le_nat_alt)
  then have "unat (prev_instance e i) = (unat i + ?n - 1) mod ?n" by (simp add: prev_instance_def unat_mod)
  also have "\<dots> = (if i = 0 then ?n - 1 else unat i - 1)"
  proof (cases "i = 0")
    case False
    then have "0 < unat i" by (simp add: unat_gt_0)
    then have "unat i + ?n - 1 = (unat i - 1) + ?n" "unat i - 1 < ?n" using i by linarith+
    then show ?thesis using False by (simp only: mod_add_self2 mod_less if_False)
  qed (use i in simp)
  finally show ?thesis .
qed

lemma back_dist_prev:
  assumes "i < get_totInstances e" and "p < get_totInstances e" and "unat (get_totInstances e) < 2 ^ 63" and "i \<noteq> p"
  shows "Suc (back_dist (unat (get_totInstances e)) (unat (prev_instance e i)) (unat p)) =
    back_dist (unat (get_totInstances e)) (unat i) (unat p)"
proof -
  have "unat i \<noteq> unat p" using assms(4) by (simp add: word_unat_eq_iff)
  moreover have "unat i < unat (get_totInstances e)" "unat p < unat (get_totInstances e)"
    using assms(1,2) by (simp_all add: word_less_nat_alt)
  moreover have "i = 0 \<longleftrightarrow> unat i = 0" by (simp add: unat_eq_0)
  ultimately show ?thesis unfolding back_dist_def unat_prev_instance [OF assms(1,3)] by auto
qed

lemma dequeue_proposal_finds:
  assumes "p < get_totInstances e" and "unat (get_totInstances e) < 2 ^ 63"
    and "find_batch (unat (get_totInstances e)) (get_totInstances e) s p p \<noteq> None"
    and "next_send_view s p \<le> get_current_view s p + ROUNDS_IN_ADVANCE e"
    and "proposalInstance s < get_totInstances e"
    and "back_dist (unat (get_totInstances e)) (unat (proposalInstance s)) (unat p) < fuel"
  shows "dequeue_proposal e fuel s \<noteq> None"
  using assms(3-6)
proof (induction fuel arbitrary: s)
  case (Suc fuel)
  let ?i = "proposalInstance s" and ?s = "s\<lparr>proposalInstance := prev_instance e (proposalInstance s)\<rparr>"
  have n0: "get_totInstances e \<noteq> 0" using assms(1) by auto
  show ?case
  proof (cases "?i = p")
    case True
    then show ?thesis using Suc.prems by (auto simp: Let_def get_next_send_view_def)
  next
    case False
    have "dequeue_proposal e fuel ?s \<noteq> None"
    proof (rule Suc.IH)
      show "back_dist (unat (get_totInstances e)) (unat (proposalInstance ?s)) (unat p) < fuel"
        using back_dist_prev [OF Suc.prems(3) assms(1,2) False] Suc.prems(4) by simp
    qed (use Suc.prems prev_instance_less [OF n0] in \<open>simp_all add: get_current_view_def\<close>)
    then show ?thesis by (simp add: Let_def split: option.split)
  qed
qed simp

lemma waiting_batch_found:
  assumes "p < get_totInstances e" and "i < get_totInstances e" and "unat (get_totInstances e) < 2 ^ 63"
    and "batch_available s p i" and "next_send_view s p \<le> get_current_view s p + ROUNDS_IN_ADVANCE e"
    and "proposalInstance s < get_totInstances e" and "unat (get_totInstances e) \<le> fuel"
  shows "dequeue_proposal e fuel s \<noteq> None"
proof (rule dequeue_proposal_finds [OF assms(1,3) find_batch_finds [OF assms(1,2,4)] assms(5,6)])
  show "back_dist (unat (get_totInstances e)) (unat (proposalInstance s)) (unat p) < fuel"
    using assms(1,6,7) by (auto simp: back_dist_def word_less_nat_alt)
qed

lemma take_batch_send_inv:
  assumes "take_batch e p i s0 = (m, s')" and "next_send_view s0 = next_send_view s"
    and "send_inv e s" and "views_small e s" and "p < get_totInstances e"
  shows "send_inv e s'" and "get_view_primary e (last_sent_view s' p) p = node_id e"
proof -
  show "get_view_primary e (last_sent_view s' p) p = node_id e"
    using assms by (simp add: take_batch_frame(3) [OF assms(1)] send_inv_def)
  show "send_inv e s'"
    unfolding send_inv_def
  proof (intro allI impI)
    fix j assume j: "j < get_totInstances e"
    then have "get_view_primary e (next_send_view s j + node_cnt e) j = get_view_primary e (next_send_view s j) j"
      using assms(4) by (intro next_primary) (simp add: views_small_def)
    then show "get_view_primary e (next_send_view s' j) j = node_id e"
      using assms(2,3) j by (auto simp: take_batch_frame(2) [OF assms(1)] send_inv_def)
  qed
qed

end
