(* ===== verification/Execution_Facts.thy ===== *)
theory Execution_Facts
  imports Execution Queue_Facts
begin

text \<open>
  Executing a batch: \<open>process_hotstuff_execute\<close> applies the requests of the batch's
  transactions to the store in the order of their identifiers and answers the client once,
  and a checkpoint releases the managers below its range and no others.
\<close>

section \<open>Loops over a range of identifiers\<close>

lemma set_u64_upto: "set (u64_upto a b) = {i. a \<le> i \<and> i < b}"
proof (intro set_eqI iffI)
  fix i assume "i \<in> set (u64_upto a b)"
  then obtain k where k: "i = word_of_nat k" "unat a \<le> k" "k < unat b" by (auto simp: u64_upto_def)
  then have "unat i = k" using unat_u64_less [of b] by (simp add: unat_of_nat_u64)
  with k show "i \<in> {i. a \<le> i \<and> i < b}" by (simp add: word_le_nat_alt word_less_nat_alt)
next
  fix i assume "i \<in> {i. a \<le> i \<and> i < b}"
  then have "unat i \<in> set [unat a..<unat b]" by (simp add: word_le_nat_alt word_less_nat_alt)
  then have "word_of_nat (unat i) \<in> set (u64_upto a b)" unfolding u64_upto_def set_map by (rule imageI)
  then show "i \<in> set (u64_upto a b)" by simp
qed

lemma u64_upto_append: "a \<le> b \<Longrightarrow> b \<le> c \<Longrightarrow> u64_upto a b @ u64_upto b c = u64_upto a c"
  by (simp add: u64_upto_def word_le_nat_alt flip: map_append)
     (metis le_add_diff_inverse upt_add_eq_append)

lemma length_u64_upto [simp]: "length (u64_upto a b) = unat b - unat a"
  by (simp add: u64_upto_def)

section \<open>The managers during execution\<close>

lemma get_tman_present [simp]: "has_tman e s i \<Longrightarrow> get_tman e i s = s"
  by (auto simp: has_tman_def get_tman_def get_transaction_manager_def)

text \<open>The managers \<open>T i\<close> of the identifiers in \<open>I\<close> are there and nobody holds them.\<close>

definition managers :: "env \<Rightarrow> u64 set \<Rightarrow> (u64 \<Rightarrow> TxnManager) \<Rightarrow> node \<Rightarrow> bool" where
  "managers e I T s \<longleftrightarrow> table_inv e s \<and>
     (\<forall>i \<in> I. has_tman e s i \<and> tman e s i = T i \<and> tm_txn_ready (T i))"

definition same_io :: "node \<Rightarrow> node \<Rightarrow> bool" where
  "same_io s s' \<longleftrightarrow> outbox s' = outbox s \<and> g_next_index s' = g_next_index s \<and>
     expectedExecuteCount s' = expectedExecuteCount s \<and> execute_msg_heap s' = execute_msg_heap s"

lemma same_io_trans: "same_io s s' \<Longrightarrow> same_io s' s'' \<Longrightarrow> same_io s s''"
  by (simp add: same_io_def)

definition respond :: "TxnManager \<Rightarrow> ClientResponseMessage \<Rightarrow> ClientResponseMessage" where
  "respond t c = c\<lparr>cr_base := mcopy_from_txn t (cr_base c), cr_view := tm_view t,
     cr_index := cr_index c @ [tm_txn_id t], cr_client_ts := cr_client_ts c @ [tm_client_startts t]\<rparr>"

definition room :: "env \<Rightarrow> nat \<Rightarrow> ClientResponseMessage \<Rightarrow> bool" where
  "room e n c \<longleftrightarrow> length (cr_index c) + n \<le> batch_n e \<and> length (cr_client_ts c) + n \<le> batch_n e"

lemma CR_copy_from_txn_room:
  "room e 1 c \<Longrightarrow> CR_copy_from_txn e t c = Some (respond t c)"
  by (simp add: room_def CR_copy_from_txn_def respond_def)

lemma run_txn_frame [simp]:
  "txn_table (run_txn e i s) = txn_table s" "outbox (run_txn e i s) = outbox s"
  "g_next_index (run_txn e i s) = g_next_index s" "expectedExecuteCount (run_txn e i s) = expectedExecuteCount s"
  "execute_msg_heap (run_txn e i s) = execute_msg_heap s"
  "db (run_txn e i s) = fold request_put (tm_requests (tman e s i)) (db s)"
  by (simp_all add: run_txn_def)

lemma tman_run_txn [simp]: "tman e (run_txn e i s) j = tman e s j" "has_tman e (run_txn e i s) j = has_tman e s j"
  by (simp_all add: tman_def has_tman_def)

definition exec_step :: "env \<Rightarrow> u64 set \<Rightarrow> (u64 \<Rightarrow> TxnManager) \<Rightarrow>
    (u64 \<Rightarrow> ClientResponseMessage \<times> node \<Rightarrow> (ClientResponseMessage \<times> node) option) \<Rightarrow> bool" where
  "exec_step e I T F \<longleftrightarrow> (\<forall>i \<in> I. \<forall>c s. room e 1 c \<longrightarrow> managers e I T s \<longrightarrow>
     (\<exists>s'. F i (c, s) = Some (respond (T i) c, s') \<and> managers e I T s' \<and> same_io s s' \<and>
        db s' = fold request_put (tm_requests (T i)) (db s)))"

lemma execute_one_step: "exec_step e I T (execute_one e)"
  by (auto simp: exec_step_def execute_one_def Let_def managers_def same_io_def CR_copy_from_txn_room)

lemma unset_ready_eq: "fst (unset_ready t) = tm_txn_ready t" "fst (set_ready t) = (\<not> tm_txn_ready t)"
  by (simp_all add: unset_ready_def set_ready_def)

lemma held_and_back: "tm_txn_ready t \<Longrightarrow> snd (set_ready (snd (unset_ready t))) = t"
  by (simp add: unset_ready_def set_ready_def)

lemma acquired [simp]:
  "tm_txn_ready t \<Longrightarrow> tm_requests (snd (unset_ready t)) = tm_requests t"
  "tm_txn_ready t \<Longrightarrow> respond (snd (unset_ready t)) c = respond t c"
  "tm_txn_ready t \<Longrightarrow> \<not> tm_txn_ready (snd (unset_ready t))"
  "tm_txn_ready t \<Longrightarrow> tm_client_id (snd (unset_ready t)) = tm_client_id t"
  by (simp_all add: unset_ready_def respond_def mcopy_from_txn_def)

lemma execute_one_held_step: "exec_step e I T (execute_one_held e)"
  unfolding exec_step_def
proof (intro ballI allI impI)
  fix i c s
  assume i: "i \<in> I" and room: "room e 1 c" and ms: "managers e I T s"
  let ?s1 = "upd_tman e i (snd \<circ> unset_ready) s"
  let ?s3 = "upd_tman e i (snd \<circ> set_ready) (run_txn e i ?s1)"
  have i': "has_tman e s i" "tman e s i = T i" "tm_txn_ready (T i)" "table_inv e s"
    using ms i by (auto simp: managers_def)
  have t1: "tman e ?s1 i = snd (unset_ready (T i))" "has_tman e ?s1 i" using i' by simp_all
  have "unset_ready_txn e i s = Some ?s1" using i' by (simp add: unset_ready_txn_def unset_ready_eq)
  moreover have "CR_copy_from_txn e (tman e (run_txn e i ?s1) i) c = Some (respond (T i) c)"
    using CR_copy_from_txn_room [OF room] t1 i' by simp
  moreover have "set_ready_txn e i (run_txn e i ?s1) = Some ?s3"
    using t1 i' by (simp add: set_ready_txn_def unset_ready_eq)
  ultimately have run: "execute_one_held e i (c, s) = Some (respond (T i) c, ?s3)"
    using i' by (simp add: execute_one_held_def)
  have "tman e ?s3 j = T j \<and> has_tman e ?s3 j \<and> tm_txn_ready (T j)" if "j \<in> I" for j
    using that ms i' t1 held_and_back by (cases "j = i") (auto simp: managers_def)
  then have "managers e I T ?s3" using i'(4) by (simp add: managers_def)
  then show "\<exists>s'. execute_one_held e i (c, s) = Some (respond (T i) c, s') \<and> managers e I T s' \<and> same_io s s' \<and>
      db s' = fold request_put (tm_requests (T i)) (db s)"
    using run t1 i' by (auto simp: same_io_def)
qed

lemma exec_loop:
  assumes "exec_step e I T F" and "set xs \<subseteq> I" and "managers e I T s" and "room e (length xs) c"
  shows "\<exists>s'. fold_option F xs (c, s) = Some (fold (\<lambda>i. respond (T i)) xs c, s') \<and> managers e I T s' \<and> same_io s s' \<and>
    db s' = fold (\<lambda>i. fold request_put (tm_requests (T i))) xs (db s)"
  using assms(2-)
proof (induction xs arbitrary: c s)
  case Nil
  then show ?case by (simp add: same_io_def)
next
  case (Cons i xs)
  have "room e 1 c" "room e (length xs) (respond (T i) c)"
    using Cons.prems(3) by (auto simp: room_def respond_def)
  then obtain s1 where s1: "F i (c, s) = Some (respond (T i) c, s1)" "managers e I T s1" "same_io s s1"
      "db s1 = fold request_put (tm_requests (T i)) (db s)"
    using assms(1) Cons.prems unfolding exec_step_def by fastforce
  from Cons.IH [of s1 "respond (T i) c"] Cons.prems s1(2) \<open>room e (length xs) (respond (T i) c)\<close> obtain s2 where
    s2: "fold_option F xs (respond (T i) c, s1) = Some (fold (\<lambda>i. respond (T i)) xs (respond (T i) c), s2)" "managers e I T s2"
      "same_io s1 s2" "db s2 = fold (\<lambda>i. fold request_put (tm_requests (T i))) xs (db s1)"
    by auto
  show ?case using s1 s2 same_io_trans by (auto simp: same_io_def)
qed

lemma respond_fields:
  "cr_index (fold (\<lambda>i. respond (T i)) xs c) = cr_index c @ map (tm_txn_id \<circ> T) xs"
  "cr_client_ts (fold (\<lambda>i. respond (T i)) xs c) = cr_client_ts c @ map (tm_client_startts \<circ> T) xs"
  by (induction xs arbitrary: c) (simp_all add: respond_def)

section \<open>Executing a batch\<close>

lemma Checkpoint_txn_rtype [simp]: "m_rtype (ck_base (new_Checkpoint_txn e s t)) = PBFT_CHKPT_MSG"
  by (simp add: new_Checkpoint_txn_def Checkpoint_copy_from_txn_def copy_latency_def mcopy_from_txn_def
      new_Checkpoint_def new_Message_def Let_def)

lemma send_checkpoints_returns:
  assumes "ISSERVER e"
  shows "\<exists>s'. send_checkpoints e tid s = Some s' \<and> same_io s s' \<and> db s' = db s"
  using assms
  by (auto simp: send_checkpoints_def send_checkpoint_msgs_def enqueue_def same_io_def sem_post_worker_def
      push_work_def)

text \<open>The identifiers of the batch that an execute message names.\<close>

definition batch_ids :: "ExecuteMessage \<Rightarrow> u64 list" where
  "batch_ids x = u64_upto (ex_index x) (ex_end_index x) @ [ex_end_index x]"

lemma set_batch_ids: "ex_index x \<le> ex_end_index x \<Longrightarrow> set (batch_ids x) = {i. ex_index x \<le> i \<and> i \<le> ex_end_index x}"
  by (auto simp: batch_ids_def set_u64_upto)

lemma set_expectedExecuteCount_frame [simp]:
  "expectedExecuteCount (set_expectedExecuteCount e v s) = v"
  "db (set_expectedExecuteCount e v s) = db s" "outbox (set_expectedExecuteCount e v s) = outbox s"
  "g_next_index (set_expectedExecuteCount e v s) = g_next_index s"
  by (simp_all add: set_expectedExecuteCount_def execute_msg_heap_pop_def Let_def)

lemma execute_batch:
  assumes srv: "ISSERVER e" and valid: "ex_valid x"
    and range: "ex_index x \<le> ex_end_index x" "4 \<le> ex_end_index x"
    and size: "length (batch_ids x) \<le> batch_n e"
    and last: "m_txn_id (ex_base x) + 1 = ex_end_index x"
    and ms: "managers e (set (batch_ids x)) T s"
  shows "\<exists>s' c. process_hotstuff_execute e x s = Some (Some (ex_end_index x), s') \<and>
    db s' = fold (\<lambda>i. fold request_put (tm_requests (T i))) (batch_ids x) (db s) \<and>
    outbox s' = outbox s @ [(MClientResponse c, [tm_client_id (T (ex_end_index x))])] \<and>
    cr_index c = batch_ids x \<and> cr_client_ts c = map (tm_client_startts \<circ> T) (batch_ids x) \<and>
    g_next_index s' = g_next_index s + get_batch_size e \<and>
    expectedExecuteCount s' = get_batch_size e + m_txn_id (ex_base x)"
proof -
  let ?I = "set (batch_ids x)" and ?a = "ex_index x" and ?z = "ex_end_index x"
  define i1 where "i1 = max ?a (?z - 4)"
  have "?z - 4 \<le> ?z" using range(2) by (simp add: word_le_nat_alt unat_sub)
  then have i1: "?a \<le> i1" "i1 \<le> ?z" "max i1 ?z = ?z" using range(1) by (auto simp: i1_def)
  have I: "set (u64_upto ?a i1) \<subseteq> ?I" "set (u64_upto i1 ?z) \<subseteq> ?I" "?z \<in> ?I"
    using i1 by (auto simp: set_batch_ids [OF range(1)] set_u64_upto range(1))
  have z: "has_tman e s ?z" using ms I(3) by (auto simp: managers_def)
  have c0: "cr_index (new_CR e CL_RSP) = []" "cr_client_ts (new_CR e CL_RSP) = []" by (simp_all add: new_CR_def)
  have sz: "unat ?z - unat ?a < batch_n e" using size by (simp add: batch_ids_def)
  have nat: "unat ?a \<le> unat i1" "unat i1 \<le> unat ?z" using i1 by (simp_all add: word_le_nat_alt)
  have "room e (length (u64_upto ?a i1)) (new_CR e CL_RSP)" using sz nat c0 by (simp add: room_def)
  from exec_loop [OF execute_one_step I(1) ms this] obtain s1 where
    s1: "fold_option (execute_one e) (u64_upto ?a i1) (new_CR e CL_RSP, s) =
        Some (fold (\<lambda>i. respond (T i)) (u64_upto ?a i1) (new_CR e CL_RSP), s1)" "managers e ?I T s1" "same_io s s1"
      "db s1 = fold (\<lambda>i. fold request_put (tm_requests (T i))) (u64_upto ?a i1) (db s)" by blast
  let ?c1 = "fold (\<lambda>i. respond (T i)) (u64_upto ?a i1) (new_CR e CL_RSP)"
  have "room e (length (u64_upto i1 ?z)) ?c1" using sz nat c0 by (simp add: room_def respond_fields)
  from exec_loop [OF execute_one_held_step I(2) s1(2) this] obtain s2 where
    s2: "fold_option (execute_one_held e) (u64_upto i1 ?z) (?c1, s1) =
        Some (fold (\<lambda>i. respond (T i)) (u64_upto i1 ?z) ?c1, s2)" "managers e ?I T s2" "same_io s1 s2"
      "db s2 = fold (\<lambda>i. fold request_put (tm_requests (T i))) (u64_upto i1 ?z) (db s1)" by blast
  let ?c2 = "fold (\<lambda>i. respond (T i)) (u64_upto i1 ?z) ?c1"
  have c2: "?c2 = fold (\<lambda>i. respond (T i)) (u64_upto ?a ?z) (new_CR e CL_RSP)"
    using u64_upto_append [OF i1(1,2)] by (metis fold_append comp_apply)
  have "room e 1 ?c2" using sz c0 by (simp add: c2 room_def respond_fields)
  have tz: "has_tman e s2 ?z" "tman e s2 ?z = T ?z" "tm_txn_ready (T ?z)"
    using s2(2) I(3) by (auto simp: managers_def)
  let ?s3 = "run_txn e ?z (upd_tman e ?z (snd \<circ> unset_ready) s2)"
  have s3: "unset_ready_txn e ?z s2 = Some (upd_tman e ?z (snd \<circ> unset_ready) s2)"
      "tman e ?s3 ?z = snd (unset_ready (T ?z))" "db ?s3 = fold request_put (tm_requests (T ?z)) (db s2)"
      "same_io s2 ?s3"
    using tz by (simp_all add: unset_ready_txn_def unset_ready_eq same_io_def)
  have cr: "CR_copy_from_txn e (tman e ?s3 ?z) ?c2 = Some (respond (T ?z) ?c2)"
    using CR_copy_from_txn_room [OF \<open>room e 1 ?c2\<close>] s3(2) tz(3) by simp
  define s4 where "s4 = send_out (MClientResponse (respond (T ?z) ?c2)) [tm_client_id (T ?z)] (inc_next_index (get_batch_size e) ?s3)"
  obtain s5 where s5: "send_checkpoints e ?z s4 = Some s5" "same_io s4 s5" "db s5 = db s4"
    using send_checkpoints_returns [OF srv] by blast
  have tm4: "tman e (inc_next_index (get_batch_size e) ?s3) ?z = snd (unset_ready (T ?z))"
    using s3(2) by (simp add: inc_next_index_def tman_def)
  have run: "process_hotstuff_execute e x s =
      Some (Some ?z, set_expectedExecuteCount e (get_batch_size e + m_txn_id (ex_base x)) s5)"
    using valid last z s1(1) s2(1) s3(1) tz(1) tz(3) cr s5(1) i1 tm4
    by (simp add: process_hotstuff_execute_def Let_def i1_def [symmetric] s4_def)
  have ids: "map (tm_txn_id \<circ> T) (batch_ids x) = batch_ids x"
  proof (rule map_idI)
    fix i assume "i \<in> set (batch_ids x)"
    then have "has_tman e s i" "tman e s i = T i" using ms by (auto simp: managers_def)
    then show "(tm_txn_id \<circ> T) i = i" using tman_id [of e s i] by simp
  qed
  have "cr_index (respond (T ?z) ?c2) = map (tm_txn_id \<circ> T) (batch_ids x)"
    "cr_client_ts (respond (T ?z) ?c2) = map (tm_client_startts \<circ> T) (batch_ids x)"
    using c0 by (simp_all add: c2 batch_ids_def respond_def respond_fields)
  moreover have "db s5 = fold (\<lambda>i. fold request_put (tm_requests (T i))) (batch_ids x) (db s)"
    using s5(3) s3(3) s2(4) s1(4) u64_upto_append [OF i1(1,2), symmetric]
    by (simp add: s4_def send_out_def inc_next_index_def batch_ids_def)
  ultimately show ?thesis
    using run s5(2) s3(4) s2(3) s1(3) ids
    by (auto simp: same_io_def s4_def send_out_def inc_next_index_def)
qed


section \<open>Checkpoints\<close>

lemma release_range_has:
  assumes "table_inv e s"
  shows "table_inv e (release_range e a b s) \<and>
    (has_tman e (release_range e a b s) i \<longleftrightarrow> has_tman e s i \<and> \<not> (a \<le> i \<and> i < b))"
proof -
  have "table_inv e (fold (release_txn_man e) xs s) \<and>
      (has_tman e (fold (release_txn_man e) xs s) i \<longleftrightarrow> has_tman e s i \<and> i \<notin> set xs)" if "table_inv e s" for xs s
    using that by (induction xs arbitrary: s) auto
  then show ?thesis using assms by (simp add: release_range_def set_u64_upto)
qed

lemma release_range_frame [simp]:
  "txn_chkpt_holding (release_range e a b s) = txn_chkpt_holding s"
  "is_chkpt_holding (release_range e a b s) = is_chkpt_holding s"
  "last_deleted_txn_man (release_range e a b s) = last_deleted_txn_man s"
  by (simp_all add: release_range_def fold_frame [where f = txn_chkpt_holding] fold_frame [where f = is_chkpt_holding]
      fold_frame [where f = last_deleted_txn_man])

lemma chkpt_fields [simp]:
  "txn_table (set_curr_chkpt t s) = txn_table s" "txn_table (inc_last_deleted_txn t s) = txn_table s"
  "last_deleted_txn_man (set_curr_chkpt t s) = last_deleted_txn_man s"
  "txn_chkpt_holding (set_curr_chkpt t s) = txn_chkpt_holding s"
  "txn_chkpt_holding (inc_last_deleted_txn t s) = txn_chkpt_holding s"
  "last_deleted_txn_man (upd_tman e i f s) = last_deleted_txn_man s"
  "txn_chkpt_holding (upd_tman e i f s) = txn_chkpt_holding s"
  by (simp_all add: set_curr_chkpt_def inc_last_deleted_txn_def upd_tman_def)

lemma keeps_ids_chkpt [simp]: "keeps_ids decr_chkpt_cnt" "keeps_ids (\<lambda>t. t\<lparr>tm_chkpt_flag := b\<rparr>)"
  by (simp_all add: keeps_ids_def decr_chkpt_cnt_def)

lemma checkpoint_releases:
  assumes inv: "table_inv e s" and tid: "has_tman e s tid"
    and first: "\<not> tm_chkpt_flag (tman e s tid)" "tm_chkpt_cnt (tman e s tid) = 1"
    and run: "process_pbft_chkpt_msg e thd m tid s = Some s'"
  defines "d \<equiv> chkpt_del_range e (m_txn_id (ck_base m))" and "a \<equiv> last_deleted_txn_man s"
    and "h \<equiv> txn_chkpt_holding s ((thd + 1) mod 2)"
  shows "has_tman e s' i \<longleftrightarrow> has_tman e s i \<and> \<not> (a \<le> i \<and> i < min h d) \<and> \<not> (h + 1 \<le> i \<and> i < d) \<and> \<not> (h < d \<and> i = a)"
    and "last_deleted_txn_man s' = max a d"
proof -
  define s1 where "s1 = upd_tman e tid (\<lambda>t. t\<lparr>tm_chkpt_flag := True\<rparr>) (upd_tman e tid decr_chkpt_cnt s)"
  define s2 where "s2 = inc_last_deleted_txn d (set_curr_chkpt (m_txn_id (ck_base m)) s1)"
  define s3 where "s3 = release_range e (h + 1) d (release_range e a (min h d) s2)"
  have cnt: "tm_chkpt_cnt (tman e (upd_tman e tid decr_chkpt_cnt s) tid) = 0"
    using tid first(2) by (simp add: decr_chkpt_cnt_def)
  have s1: "table_inv e s1" "has_tman e s1 i = has_tman e s i" "last_deleted_txn_man s1 = a"
      "txn_chkpt_holding s1 = txn_chkpt_holding s"
    using inv by (simp_all add: s1_def a_def)
  have s2: "table_inv e s2" "has_tman e s2 i = has_tman e s i" "last_deleted_txn_man s2 = max a d"
      "txn_chkpt_holding s2 = txn_chkpt_holding s"
    using s1 has_tman_cong [of s2 s1 e i]
    by (simp_all add: s2_def) (auto simp: inc_last_deleted_txn_def set_curr_chkpt_def max_def)
  have s3: "table_inv e s3" "has_tman e s3 i \<longleftrightarrow> has_tman e s i \<and> \<not> (a \<le> i \<and> i < min h d) \<and> \<not> (h + 1 \<le> i \<and> i < d)"
      "last_deleted_txn_man s3 = max a d" "txn_chkpt_holding s3 = txn_chkpt_holding s"
    using release_range_has [OF s2(1), of a "min h d" i] release_range_has [of e "release_range e a (min h d) s2" "h + 1" d i] s2
    by (simp_all add: s3_def)
  have "process_pbft_chkpt_msg e thd m tid s =
      (if h < d then
         (if txn_chkpt_holding s3 ((thd + 1) mod 2) = a \<and> is_chkpt_holding s3 ((thd + 1) mod 2) then do {
            s \<leftarrow> sem_wait_chkpt (thd mod 2) (s3\<lparr>is_chkpt_stalled := (is_chkpt_stalled s3)(thd mod 2 := True)\<rparr>);
            Some (release_txn_man e a (s\<lparr>is_chkpt_stalled := (is_chkpt_stalled s)(thd mod 2 := False)\<rparr>)) }
          else Some (release_txn_man e a s3))
       else Some s3)"
    using first(1) cnt
    by (simp add: process_pbft_chkpt_msg_def Let_def s1_def d_def h_def get_last_deleted_txn_def a_def s2_def s3_def)
  then have "s' = s3 \<and> \<not> h < d \<or> h < d \<and> (\<exists>s4. txn_table s4 = txn_table s3 \<and> last_deleted_txn_man s4 = max a d \<and>
      s' = release_txn_man e a s4)"
    using run s3(3)
    by (auto simp: sem_wait_chkpt_def bind_eq_Some_conv split: if_splits nat.splits)
      (rule exI, rule conjI [OF _ conjI [OF _ refl]]; simp)
  then consider "s' = s3" "\<not> h < d"
    | s4 where "h < d" "txn_table s4 = txn_table s3" "last_deleted_txn_man s4 = max a d" "s' = release_txn_man e a s4"
    by blast
  then show "has_tman e s' i \<longleftrightarrow> has_tman e s i \<and> \<not> (a \<le> i \<and> i < min h d) \<and> \<not> (h + 1 \<le> i \<and> i < d) \<and> \<not> (h < d \<and> i = a)"
  proof cases
    case 1
    then show ?thesis using s3(2) by simp
  next
    case (2 s4)
    then have "table_inv e s4" "has_tman e s4 i = has_tman e s3 i"
      using s3(1) has_tman_cong [of s4 s3 e i] by simp_all
    then show ?thesis using 2 s3(2) by auto
  qed
  show "last_deleted_txn_man s' = max a d"
    using \<open>s' = s3 \<and> \<not> h < d \<or> _\<close> s3(3) by auto
qed

text \<open>The deletion range of a checkpoint does not wrap with the period of \<^verbatim>\<open>config.h\<close>.\<close>

lemma chkpt_range_bounds:
  assumes per: "unat (txn_per_chkpt e) = 32 * (unat (get_batch_size e) * unat (g_node_cnt e))"
    and small: "32 * (unat (get_batch_size e) * unat (g_node_cnt e)) < 2 ^ 64" "0 < unat (get_batch_size e) * unat (g_node_cnt e)"
    and mult: "(tid + 1) mod txn_per_chkpt e = 0" "tid \<noteq> UINT64_MAX"
  shows "unat (chkpt_del_range e (tid - 5)) + 16 * (unat (get_batch_size e) * unat (g_node_cnt e)) + 5 = unat tid"
proof -
  let ?p = "unat (get_batch_size e) * unat (g_node_cnt e)"
  have "unat tid \<noteq> 2 ^ 64 - 1"
  proof
    assume "unat tid = 2 ^ 64 - 1"
    then have "unat (tid + 1) = 0" by (simp add: unat_word_ariths)
    then have "tid = UINT64_MAX" by (metis add_eq_0_iff2 unat_eq_zero)
    with mult(2) show False ..
  qed
  then have t1: "unat (tid + 1) = unat tid + 1"
    using unat_u64_less [of tid] unat_add_u64 [of tid 1] by simp
  have "32 * ?p dvd unat tid + 1"
    using mult(1) per t1 by (metis dvd_eq_mod_eq_0 unat_0 unat_mod)
  then have ge: "32 * ?p \<le> unat tid + 1" by (rule dvd_imp_le) simp
  have w: "unat (16 * get_batch_size e * node_cnt e) = 16 * ?p"
  proof -
    have "unat (16 * get_batch_size e) = 16 * unat (get_batch_size e)"
    proof (subst unat_mult_u64)
      have "unat (get_batch_size e) * 1 \<le> ?p" using small(2) by (intro mult_le_mono) simp_all
      then have "16 * unat (get_batch_size e) < 2 ^ 64" using small(1) by linarith
      then show "unat (16 :: u64) * unat (get_batch_size e) < 2 ^ 64" by simp
    qed simp
    then show ?thesis using small by (subst unat_mult_u64) simp_all
  qed
  have p: "1 \<le> ?p" using small(2) by linarith
  then have tid: "31 \<le> unat tid" using ge by linarith
  then have five: "unat (tid - 5) = unat tid - 5"
    by (subst unat_sub_u64) (simp_all add: word_le_nat_alt)
  have ge': "16 * ?p \<le> unat tid - 5" using ge p by linarith
  have "unat (tid - 5 - 16 * get_batch_size e * node_cnt e) = unat tid - 5 - 16 * ?p"
    using ge' w five by (subst unat_sub_u64) (simp_all add: word_le_nat_alt)
  then show ?thesis using ge' tid by (simp add: chkpt_del_range_def)
qed

section \<open>The effect of a transaction\<close>

text \<open>A transaction is a sequence of writes and the last one wins: after \<open>run_txn\<close> a key of the store
  has the value of the last request for it, or its old value if there is none.\<close>

lemma last_write_wins:
  "db_content (db (run_txn e tid s)) key =
     (case map_of (rev (map (\<lambda>r. (to_string (req_key r), to_string (req_value r))) (tm_requests (tman e s tid)))) key of
        None \<Rightarrow> db_content (db s) key | Some v \<Rightarrow> v)"
proof -
  have "request_put = (\<lambda>r d. snd (InMemoryDB_Put (to_string (req_key r)) (to_string (req_value r)) d))"
    by (simp add: fun_eq_iff request_put_def)
  then have "fold request_put rs d = kv.put_all (map (\<lambda>r. (to_string (req_key r), to_string (req_value r))) rs) d" for rs d
    by (simp add: kv.put_all_def fold_map comp_def)
  then show ?thesis by (simp add: kv.put_all_last)
qed

end
