(* ===== verification/Worker_Thread.thy ===== *)
theory Worker_Thread
  imports Worker
begin

text \<open>
  The rest of \<open>WorkerThread\<close> (\<^verbatim>\<open>system/worker_thread.cpp\<close>): the exchange of keys,
  the ask messages, \<open>process\<close>, \<open>exception_msg_handling\<close> and one iteration of the loop
  of \<open>run\<close>.  \<open>txn_man\<close> is the identifier of the manager it points to, if any.
\<close>

section \<open>Key exchange\<close>

definition other_nodes :: "env \<Rightarrow> u32 \<Rightarrow> u64 list" where
  \<comment> \<open>the loops over all node identifiers that skip \<open>g_node_id\<close>\<close>
  "other_nodes e n = filter (\<lambda>i. i \<noteq> node_id e) (u64_upto 0 (ucast n))"

definition send_public_key :: "env \<Rightarrow> string \<Rightarrow> node \<Rightarrow> node" where
  \<comment> \<open>\<open>public_key\<close> is the node's own libsecp256k1 key\<close>
  "send_public_key e public_key s =
     fold (\<lambda>i. send_out (MKeyExchange ((new_KX e KEYEX)\<lparr>pkey := ''SECP'', public_share := public_key,
              pkeySz := 4, kx_return_node := node_id e\<rparr>)) [i])
       (other_nodes e (g_node_cnt e)) s"

definition keyex_msg :: "env \<Rightarrow> string \<Rightarrow> msg" where
  "keyex_msg e key = MKeyExchange ((new_KX e KEYEX)\<lparr>pkey := key, pkeySz := word_of_nat (length key),
     kx_return_node := node_id e\<rparr>)"

text \<open>The vector \<open>dest\<close> is cleared between the two calls, so the second one gets an empty vector.\<close>

definition send_key :: "env \<Rightarrow> node \<Rightarrow> node" where
  "send_key e s =
     fold (\<lambda>i s. send_out (keyex_msg e (''CMA-'' @ cmacPrivateKeys (keys s) i)) []
              (send_out (keyex_msg e (''ED2-'' @ g_public_key (keys s))) [i] s))
       (other_nodes e (g_node_cnt e + g_client_node_cnt e)) s"

definition store_key :: "string \<Rightarrow> KeyExchange \<Rightarrow> node \<Rightarrow> node" where
  \<comment> \<open>\<open>keyex->pkey\<close> has lost its first four characters, \<open>algorithm\<close>\<close>
  "store_key algorithm keyex s =
     (let i = kx_return_node keyex; k = keys s
      in if algorithm = ''CMA-''
         then s\<lparr>keys := k\<lparr>cmacOthersKeys := (cmacOthersKeys k)(i := pkey keyex)\<rparr>,
                receivedKeys := (receivedKeys s)(i := receivedKeys s i - 1)\<rparr>
         else if algorithm = ''ED2-''
         then s\<lparr>keys := k\<lparr>g_pub_keys := (g_pub_keys k)(i := pkey keyex), verifier := (verifier k)(i := pkey keyex)\<rparr>,
                receivedKeys := (receivedKeys s)(i := receivedKeys s i - 1)\<rparr>
         else if algorithm = ''SECP''
         then s\<lparr>keys := k\<lparr>public_keys := (public_keys k)(i := public_share keyex)\<rparr>,
                secp_keys := insert i (secp_keys s)\<rparr>
         else s)"

definition totnodes :: "env \<Rightarrow> u64" where
  "totnodes e = ucast (g_node_cnt e + g_client_node_cnt e)"

definition all_keys :: "env \<Rightarrow> node \<Rightarrow> bool" where
  "all_keys e s \<longleftrightarrow> list_all (\<lambda>i. receivedKeys s i = 0) (u64_upto 0 (totnodes e)) \<and>
     \<not> card (secp_keys s) < unat (g_node_cnt e)"

definition process_key_exchange :: "env \<Rightarrow> KeyExchange \<Rightarrow> node \<Rightarrow> node option" where
  \<comment> \<open>\<open>substr\<close> throws on a shorter string, and the arrays have \<open>totnodes\<close> elements\<close>
  "process_key_exchange e keyex s =
     (if length (pkey keyex) < 4 \<or> kx_return_node keyex \<ge> totnodes e then None
      else
        let algorithm = take 4 (pkey keyex);
            s = store_key algorithm (keyex\<lparr>pkey := drop 4 (pkey keyex)\<rparr>) s
        in Some (if all_keys e s
                 then fold (\<lambda>i. send_out (MReady (new_Message e READY)) [i]) (u64_upto (node_cnt e) (totnodes e)) s
                 else s))"

section \<open>Ask messages\<close>

text \<open>
  \<open>SpotLessAskResponseMsg\<close>: \<open>copy_from_txn\<close> fills the index with the identifiers of the
  batch (\<open>i <= txn_id\<close> never fails for the largest identifier) and
  \<open>copy_from_txn_manager\<close> copies the first request of a manager.
\<close>

definition AskResponse_copy_from_txn :: "env \<Rightarrow> TxnManager \<Rightarrow> SpotLessProposalMsg \<Rightarrow> SpotLessProposalMsg option" where
  "AskResponse_copy_from_txn e t m =
     (let idx = u64_upto (tm_txn_id t + 1 - get_batch_size e) (tm_txn_id t + 1)
      in if tm_txn_id t = UINT64_MAX \<or> length idx > batch_n e then None
         else Some (m\<lparr>prop_base := (prop_base m)\<lparr>m_instance_id := tm_instance_id t, m_txn_id := tm_txn_id t - 2\<rparr>,
           prop_batch_size := ucast (get_batch_size e), prop_hash := tm_hash t, prop_hashSize := tm_hashSize t,
           prop_index := idx,
           prop_requestMsg := take (batch_n e) (prop_requestMsg m) @
              replicate (batch_n e - length (prop_requestMsg m)) None,
           prop_view := tm_view t\<rparr>))"

definition new_AskResponse_txn :: "env \<Rightarrow> TxnManager \<Rightarrow> SpotLessProposalMsg option" where
  "new_AskResponse_txn e t = do {
     let m = new_Proposal e SpotLess_ASK_RESPONSE_MSG;
     m \<leftarrow> AskResponse_copy_from_txn e t (m\<lparr>prop_base := mcopy_from_txn t (prop_base m)\<rparr>);
     Some (m\<lparr>prop_base := copy_latency t (prop_base m)\<rparr>) }"

definition AskResponse_copy_from_txn_manager :: "env \<Rightarrow> TxnManager \<Rightarrow> SpotLessProposalMsg \<Rightarrow>
    SpotLessProposalMsg option" where
  "AskResponse_copy_from_txn_manager e t m =
     (case tm_requests t of
        [] \<Rightarrow> None
      | req # _ \<Rightarrow>
          if g_req_per_query e = 0 then None
          else add_request_msg (unat (tm_txn_id t mod get_batch_size e))
                 ((new_YCSB e CL_QRY)\<lparr>yc_requests := [req], yc_return_node := tm_client_id t,
                    yc_client_startts := tm_client_startts t\<rparr>) m)"

definition fill_ask_response :: "env \<Rightarrow> u64 list \<Rightarrow> SpotLessProposalMsg \<times> node \<Rightarrow> (SpotLessProposalMsg \<times> node) option" where
  "fill_ask_response e = fold_option (\<lambda>i (m, s). do {
     let s = get_tman e i s;
     m \<leftarrow> AskResponse_copy_from_txn_manager e (tman e s i) m;
     Some (m, s) })"

definition send_ask_response :: "env \<Rightarrow> u64 \<Rightarrow> u64 \<Rightarrow> u64 \<Rightarrow> u64 \<Rightarrow> node \<Rightarrow> node option" where
  "send_ask_response e dest_node start_id view tid s = do {
     ares \<leftarrow> new_AskResponse_txn e (tman e s tid);
     (ares, s) \<leftarrow> fill_ask_response e (map (\<lambda>i. start_id + word_of_nat i) [0..<batch_n e])
                    (ares\<lparr>prop_view := view\<rparr>, s);
     Some (send_out (MAskResponse ares) [dest_node] s) }"

definition process_spotless_ask :: "env \<Rightarrow> SpotLessAskMsg \<Rightarrow> u64 \<Rightarrow> node \<Rightarrow> node option" where
  "process_spotless_ask e ask tid s =
     (if tm_hash (tman e s tid) = ask_hash ask
      then send_ask_response e (m_return_node_id (ask_base ask))
             (m_txn_id (ask_base ask) + 1 - get_batch_size e) (ask_view ask) tid s
      else Some s)"

definition process_spotless_ask_response :: "env \<Rightarrow> u64 \<Rightarrow> SpotLessProposalMsg \<Rightarrow> node \<Rightarrow> (u64 option \<times> node) option" where
  "process_spotless_ask_response e now ares s =
     (let tid0 = m_txn_id (prop_base ares) + 2;
          instance_id = m_instance_id (prop_base ares);
          s = get_tman e tid0 s
      in if tm_proposal_received (tman e s tid0) then Some (None, s)
         else do {
           ok \<leftarrow> validate_msg e (keys s) (MAskResponse ares);
           (tid, s) \<leftarrow> set_txn_man_fields e ares tid0 s;
           s \<leftarrow> set_primarybatch e now (MAskResponse ares) tid s;
           let txnid = tm_txn_id (tman e s tid);
           let hash = tm_hash (tman e s tid);
           let s = upd_tman e tid (\<lambda>t. t\<lparr>tm_proposal_received := True, tm_generic_received := True\<rparr>) s;
           let s = insert_hash_to_txnid instance_id hash txnid (insert_txnid_to_hash instance_id txnid hash s);
           s \<leftarrow> (if tm_new_viewed (tman e s tid) then do {
                    s \<leftarrow> (if viewNumber (tm_highQC (tman e s tid)) > viewNumber (g_preparedQC s instance_id)
                          then update_lockQC e (tm_highQC (tman e s tid)) (prop_view ares)
                                 (txnid - get_totInstances e * get_batch_size e) instance_id s
                          else Some s);
                    advance_view e tid s }
                 else Some s);
           s \<leftarrow> set_ready_txn e tid s;
           let tid' = m_txn_id (prop_base ares);
           s \<leftarrow> unset_ready_txn e tid' (get_tman e tid' s);
           Some (Some tid', s) })"

section \<open>process and exception_msg_handling\<close>

text \<open>
  The \<open>switch\<close> on the message type; the class of a message is the one \<open>create_message\<close>
  gives to its type.  The handlers that use \<open>txn_man\<close> without setting it get it from the
  caller.
\<close>

definition with_txn_man :: "u64 option \<Rightarrow> (u64 \<Rightarrow> node option) \<Rightarrow> (u64 option \<times> node) option" where
  "with_txn_man txn_man f = (case txn_man of None \<Rightarrow> None | Some tid \<Rightarrow> map_option (Pair (Some tid)) (f tid))"

definition process :: "env \<Rightarrow> u64 \<Rightarrow> u64 \<Rightarrow> msg \<Rightarrow> u64 option \<Rightarrow> node \<Rightarrow> (u64 option \<times> node) option" where
  "process e now thd_id m txn_man s =
     (case m of
        MKeyExchange k \<Rightarrow> map_option (Pair txn_man) (process_key_exchange e k s)
      | MClientBatch b \<Rightarrow> process_client_batch_hotstuff e now b s
      | MCheckpoint c \<Rightarrow> with_txn_man txn_man (\<lambda>tid. process_pbft_chkpt_msg e thd_id c tid s)
      | MExecute x \<Rightarrow> process_hotstuff_execute e x s
      | MSync n \<Rightarrow> with_txn_man txn_man (\<lambda>tid. process_hotstuff_new_view e n tid s)
      | MGeneric g \<Rightarrow>
          if m_rtype (gen_base g) = SpotLess_GENERIC_MSG_P
          then with_txn_man txn_man (\<lambda>tid. process_hotstuff_generic_p e tid s)
          else with_txn_man txn_man (\<lambda>tid. process_hotstuff_generic e g tid s)
      | MProposal p \<Rightarrow> process_hotstuff_proposal e now p s
      | MAsk a \<Rightarrow> with_txn_man txn_man (\<lambda>tid. process_spotless_ask e a tid s)
      | MAskResponse p \<Rightarrow> process_spotless_ask_response e now p s
      | _ \<Rightarrow> None)"

text \<open>Has the message arrived too late?\<close>

definition late_msg :: "env \<Rightarrow> node \<Rightarrow> msg \<Rightarrow> bool" where
  "late_msg e s m =
     (case m of
        MClientBatch _ \<Rightarrow> False
      | MAsk _ \<Rightarrow> txn_id m + 1 - get_batch_size e \<le> get_curr_chkpt s
      | MSync n \<Rightarrow> sync_view n < get_current_view s (inst_id m) \<or>
          (sync_view n = get_current_view s (inst_id m) \<and> txn_id m \<le> get_curr_new_viewed s (inst_id m) \<and>
           \<not> sync_non_vote n)
      | MCheckpoint _ \<Rightarrow> txn_id m \<le> get_curr_chkpt s
      | _ \<Rightarrow> txn_id m \<le> curr_next_index s)"

definition exception_msg_handling :: "env \<Rightarrow> msg \<Rightarrow> node \<Rightarrow> (bool \<times> node) option" where
  "exception_msg_handling e m s =
     (case m of
        MKeyExchange k \<Rightarrow> map_option (Pair True) (process_key_exchange e k s)
      | _ \<Rightarrow> Some (late_msg e s m, s))"

section \<open>One iteration of run\<close>

definition wait_index :: "env \<Rightarrow> u64 \<Rightarrow> u64" where
  "wait_index e thd_id = (if thd_id > get_multi_threads e + 3 then get_multi_threads e + 3 else thd_id)"

definition sem_wait_worker :: "u64 \<Rightarrow> node \<Rightarrow> node option" where
  "sem_wait_worker q s = (case worker_queue_semaphore s q of
      0 \<Rightarrow> None
    | Suc n \<Rightarrow> Some (s\<lparr>worker_queue_semaphore := (worker_queue_semaphore s)(q := n)\<rparr>))"

text \<open>The waits at the head of the loop; \<open>None\<close> means that the thread still waits.\<close>

definition worker_wait :: "env \<Rightarrow> u64 \<Rightarrow> node \<Rightarrow> node option" where
  "worker_wait e q s = do {
     s \<leftarrow> sem_wait_worker q s;
     if q = get_multi_threads e + 1 then
       (case new_txn_semaphore s of 0 \<Rightarrow> None | Suc n \<Rightarrow> Some (s\<lparr>new_txn_semaphore := n\<rparr>))
     else if q = get_multi_threads e then
       (case proposal_semaphore s of 0 \<Rightarrow> None | Suc n \<Rightarrow> Some (s\<lparr>proposal_semaphore := n\<rparr>))
     else if q = get_multi_threads e + 2 then
       (case execute_semaphore s of 0 \<Rightarrow> None | Suc n \<Rightarrow> Some (s\<lparr>execute_semaphore := n\<rparr>))
     else Some s }"

definition needs_txn_man :: "msg \<Rightarrow> bool" where
  "needs_txn_man m \<longleftrightarrow> msg_rtype m \<notin> {SpotLess_PROPOSAL_MSG, CL_BATCH, EXECUTE_MSG, SpotLess_ASK_RESPONSE_MSG}"

text \<open>After \<open>process\<close>: the manager is made ready again.\<close>

definition worker_finish :: "env \<Rightarrow> u64 \<Rightarrow> u64 \<Rightarrow> msg \<Rightarrow> u64 option \<Rightarrow> node \<Rightarrow> node option" where
  "worker_finish e thd_id q m txn_man s = do {
     (iid, s) \<leftarrow> (case txn_man of
         None \<Rightarrow> Some (0, s)
       | Some tid \<Rightarrow> do {
           let iid = tm_instance_id (tman e s tid);
           s \<leftarrow> set_ready_txn e tid s;
           let other = (thd_id + 1) mod 2;
           Some (iid,
             if msg_rtype m = PBFT_CHKPT_MSG then
               (let s = s\<lparr>is_chkpt_holding := (is_chkpt_holding s)(thd_id mod 2 := False)\<rparr>
                in if is_chkpt_stalled s other
                   then s\<lparr>chkpt_semaphore := (chkpt_semaphore s)(other := chkpt_semaphore s other + 1)\<rparr> else s)
             else s) });
     Some (if q = get_multi_threads e then inc_incomplete_proposal_cnt iid s else s) }"

definition worker_process :: "env \<Rightarrow> u64 \<Rightarrow> u64 \<Rightarrow> u64 \<Rightarrow> msg \<Rightarrow> u64 option \<Rightarrow> node \<Rightarrow> node option" where
  "worker_process e now thd_id q m txn_man s = do {
     (txn_man, s) \<leftarrow> process e now thd_id m txn_man s;
     worker_finish e thd_id q m txn_man s }"

definition worker_handle :: "env \<Rightarrow> u64 \<Rightarrow> u64 \<Rightarrow> u64 \<Rightarrow> msg \<Rightarrow> node \<Rightarrow> node option" where
  "worker_handle e now thd_id q m s = do {
     (late, s) \<leftarrow> exception_msg_handling e m s;
     if late then Some s
     else if needs_txn_man m then
       (let s = get_tman e (txn_id m) s
        in if fst (unset_ready (tman e s (txn_id m)))
           then worker_process e now thd_id q m (Some (txn_id m)) (upd_tman e (txn_id m) (snd \<circ> unset_ready) s)
           else enqueue e m s)
     else if msg_rtype m = EXECUTE_MSG \<and> txn_id m \<noteq> get_expectedExecuteCount s then enqueue e m s
     else worker_process e now thd_id q m None s }"

definition worker_iteration :: "env \<Rightarrow> nat \<Rightarrow> u64 \<Rightarrow> u64 \<Rightarrow> node \<Rightarrow> node option" where
  "worker_iteration e fuel now thd_id s =
     (let q = wait_index e thd_id
      in do {
        s \<leftarrow> worker_wait e q s;
        (r, s) \<leftarrow> dequeue e fuel thd_id s;
        case r of
          None \<Rightarrow> Some (sem_post_worker q s)
        | Some m \<Rightarrow>
            if q < get_multi_threads e \<and> fst (check_view m s) then Some (snd (check_view m s))
            else worker_handle e now thd_id q m s })"

end
