(* ===== verification/Steps.thy ===== *)
theory Steps
  imports Commit Execution_Facts Worker_Thread
begin

text \<open>
  Invariants of whole handlers.  The locale \<open>node_inv\<close> is the interface of a predicate on
  the node's state that the primitive operations keep (fetching and changing managers, the
  map of certificates); it follows that committing keeps it.  \<open>node_steps\<close> adds
  voting, changing views and releasing managers: every handler but the one that executes
  keeps the predicate.  \<open>node_exec\<close> adds the store, which gives all handlers, and \<open>node_iter\<close> one
  iteration of any worker thread.
\<close>

section \<open>Postconditions of option programs\<close>

text \<open>If the program returns, its result satisfies \<open>Q\<close>.\<close>

definition wp :: "('a \<Rightarrow> bool) \<Rightarrow> 'a option \<Rightarrow> bool" where
  "wp Q x \<longleftrightarrow> (\<forall>a. x = Some a \<longrightarrow> Q a)"

lemma wpI: "(\<And>a. x = Some a \<Longrightarrow> Q a) \<Longrightarrow> wp Q x"
  by (simp add: wp_def)

lemma wpD: "wp Q x \<Longrightarrow> x = Some a \<Longrightarrow> Q a"
  by (simp add: wp_def)

lemma wp_use: "wp R x \<Longrightarrow> (\<And>a. R a \<Longrightarrow> Q a) \<Longrightarrow> wp Q x"
  by (simp add: wp_def)

lemma wp_basic:
  "wp Q None"
  "Q a \<Longrightarrow> wp Q (Some a)"
  "wp (\<lambda>a. wp Q (f a)) x \<Longrightarrow> wp Q (Option.bind x f)"
  "(b \<Longrightarrow> wp Q y) \<Longrightarrow> (\<not> b \<Longrightarrow> wp Q z) \<Longrightarrow> wp Q (if b then y else z)"
  "wp (\<lambda>a. Q (g a)) u \<Longrightarrow> wp Q (map_option g u)"
  "(\<And>c d. p = (c, d) \<Longrightarrow> wp Q (h c d)) \<Longrightarrow> wp Q (case p of (c, d) \<Rightarrow> h c d)"
  by (auto simp: wp_def bind_eq_Some_conv split: prod.splits)

lemma wp_fold_option:
  assumes "Q a" and "\<And>x a. Q a \<Longrightarrow> wp Q (f x a)"
  shows "wp Q (fold_option f xs a)"
  using assms(1)
proof (induction xs arbitrary: a)
  case (Cons x xs)
  show ?case
    unfolding fold_option.simps
    by (intro wp_basic(3) wp_use [OF assms(2) [OF Cons.prems]] Cons.IH)
qed (simp add: wp_basic)

section \<open>What the invariants depend on\<close>

text \<open>The votes a replica has sent.\<close>

definition sent_votes :: "node \<Rightarrow> (msg \<times> u64 list) list" where
  "sent_votes s = filter (\<lambda>(m, d). case m of MSync n \<Rightarrow> True | _ \<Rightarrow> False) (outbox s)"

text \<open>
  The part of the state that the invariants speak of, and the views in which the replica has
  proposed and will propose, which only the proposal thread changes when it takes a client batch.
\<close>

definition obs0 :: "node \<Rightarrow> TxnTable \<times> (u64 \<Rightarrow> string \<rightharpoonup> QuorumCertificate) \<times> InMemoryDB \<times> u64 \<times> (u64 \<Rightarrow> u64) \<times>
    (msg \<times> u64 list) list" where
  "obs0 s = (txn_table s, hash_to_QC s, db s, expectedExecuteCount s, newView s, sent_votes s)"

definition sending :: "node \<Rightarrow> (u64 \<Rightarrow> u64) \<times> (u64 \<Rightarrow> u64) \<times> u64" where
  "sending s = (next_send_view s, last_sent_view s, proposalInstance s)"

definition obs where
  "obs s = (obs0 s, sending s)"

lemma obs_obs0: "obs s' = obs s \<Longrightarrow> obs0 s' = obs0 s"
  by (simp add: obs_def)

lemma sent_votes_cong: "outbox s' = outbox s \<Longrightarrow> sent_votes s' = sent_votes s"
  by (simp add: sent_votes_def)

named_theorems obs_simps \<open>operations outside the observed part of the state\<close>

lemma obs_updates [obs_simps]:
  "obs (s\<lparr>keys := x2\<rparr>) = obs s" "obs (s\<lparr>secp_keys := x3\<rparr>) = obs s"
  "obs (s\<lparr>receivedKeys := x4\<rparr>) = obs s" "obs (s\<lparr>work_queue := x5\<rparr>) = obs s" "obs (s\<lparr>new_txn_queue := x6\<rparr>) = obs s"
  "obs (s\<lparr>temp_queue := x7\<rparr>) = obs s" "obs (s\<lparr>prior_queue := x8\<rparr>) = obs s" "obs (s\<lparr>prior_cnt := x9\<rparr>) = obs s"
  "obs (s\<lparr>clb_cnt := x10\<rparr>) = obs s" "obs (s\<lparr>clb_idx := x11\<rparr>) = obs s"
  "obs (s\<lparr>worker_queue_semaphore := x12\<rparr>) = obs s" "obs (s\<lparr>new_txn_semaphore := x13\<rparr>) = obs s"
  "obs (s\<lparr>proposal_semaphore := x14\<rparr>) = obs s" "obs (s\<lparr>execute_semaphore := x15\<rparr>) = obs s"
  "obs (s\<lparr>expectedInstance := x16\<rparr>) = obs s" "obs (s\<lparr>incomplete_proposal_cnt := x20\<rparr>) = obs s" "obs (s\<lparr>execute_msg_heap := x21\<rparr>) = obs s"
  "obs (s\<lparr>g_next_index := x22\<rparr>) = obs s" "obs (s\<lparr>chkpt_semaphore := x23\<rparr>) = obs s"
  "obs (s\<lparr>is_chkpt_stalled := x24\<rparr>) = obs s" "obs (s\<lparr>is_chkpt_holding := x25\<rparr>) = obs s"
  "obs (s\<lparr>txn_chkpt_holding := x26\<rparr>) = obs s" "obs (s\<lparr>last_deleted_txn_man := x27\<rparr>) = obs s"
  "obs (s\<lparr>g_last_stable_chkpt := x28\<rparr>) = obs s" "obs (s\<lparr>g_last_stable_new_viewed := x29\<rparr>) = obs s"
  "obs (s\<lparr>g_lockedQC := x30\<rparr>) = obs s" "obs (s\<lparr>g_preparedQC := x31\<rparr>) = obs s"
  "obs (s\<lparr>hash_to_txnid := x32\<rparr>) = obs s" "obs (s\<lparr>txnid_to_hash := x33\<rparr>) = obs s"
  by (simp_all add: obs_def obs0_def sending_def sent_votes_def)

lemma obs_send_out [obs_simps]: "(\<And>n. m \<noteq> MSync n) \<Longrightarrow> obs (send_out m d s) = obs s"
  by (cases m) (auto simp: obs_def obs0_def sending_def sent_votes_def send_out_def)

lemma obs_ops [obs_simps]:
  "obs (sem_post_worker q s) = obs s" "obs (push_work q m s) = obs s"
  "obs (push_prior q m s) = obs s" "obs (put_hash_to_txnid i h t s) = obs s"
  "obs (insert_hash_to_txnid i h t s) = obs s" "obs (erase_hash_to_txnid i h s) = obs s"
  "obs (insert_txnid_to_hash i t h s) = obs s" "obs (erase_txnid_to_hash i t s) = obs s"
  "obs (snd (hash_to_txnid_at i h s)) = obs s" "obs (set_g_preparedQC qc i t s) = obs s"
  "obs (set_g_lockedQC qc i t s) = obs s" "obs (set_curr_new_viewed t i s) = obs s"
  "obs (set_curr_chkpt t s) = obs s" "obs (inc_last_deleted_txn t s) = obs s"
  "obs (inc_next_index v s) = obs s" "obs (execute_msg_heap_push t s) = obs s"
  "obs (inc_incomplete_proposal_cnt i s) = obs s" "obs (dec_incomplete_proposal_cnt i s) = obs s"
  by (simp_all add: obs_simps sem_post_worker_def push_work_def push_prior_def put_hash_to_txnid_def
      insert_hash_to_txnid_def erase_hash_to_txnid_def insert_txnid_to_hash_def erase_txnid_to_hash_def
      hash_to_txnid_at_def set_g_preparedQC_def set_g_lockedQC_def set_curr_new_viewed_def set_curr_chkpt_def
      inc_last_deleted_txn_def inc_next_index_def execute_msg_heap_push_def inc_incomplete_proposal_cnt_def
      dec_incomplete_proposal_cnt_def split: option.splits)

lemma obs_fold: "(\<And>x s. obs (g x s) = obs s) \<Longrightarrow> obs (fold g xs s) = obs s"
  by (rule fold_frame)

lemma obs_enqueue: "enqueue e m s = Some s' \<Longrightarrow> obs s' = obs s"
  by (auto simp: enqueue_def enqueue_client_batch_def Let_def obs_simps split: if_splits option.splits)

lemma obs_pop:
  "pop_work q s = (r, s') \<Longrightarrow> obs s' = obs s" "pop_prior q s = (r, s') \<Longrightarrow> obs s' = obs s"
  by (auto simp: pop_work_def pop_prior_def obs_simps split: list.splits if_splits)

lemma obs_dequeue_worker: "dequeue_worker q s = (r, s') \<Longrightarrow> obs s' = obs s"
  by (auto simp: dequeue_worker_def split: prod.splits option.splits dest!: obs_pop)

lemma obs_dequeue_checkpoint: "dequeue_checkpoint e t s = (r, s') \<Longrightarrow> obs s' = obs s"
  by (auto simp: dequeue_checkpoint_def obs_simps split: prod.splits option.splits dest!: obs_pop)

lemma obs_dequeue_generic: "dequeue_generic e fuel s = Some (m, s') \<Longrightarrow> obs s' = obs s"
  by (induction fuel arbitrary: s) (auto simp: Let_def obs_simps split: if_splits)

lemma obs0_dequeue_proposal: "dequeue_proposal e fuel s = Some (m, s') \<Longrightarrow> obs0 s' = obs0 s"
proof (induction fuel arbitrary: s)
  case (Suc fuel)
  have "obs0 (s\<lparr>proposalInstance := p\<rparr>) = obs0 s" for p by (simp add: obs0_def sent_votes_def)
  moreover have "obs0 s' = obs0 s" if "take_batch e p i s = (m, s')" for p i
    using that by (auto simp: take_batch_def Let_def obs0_def sent_votes_def inc_next_send_view_def set_last_sent_view_def)
  ultimately show ?case using Suc by (auto simp: Let_def split: if_splits option.splits)
qed simp

text \<open>A thread changes nothing observable when it fetches a message, unless it is the proposal thread.\<close>

lemma obs_dequeue:
  assumes "dequeue e fuel t s = Some (r, s')"
  shows "obs s' = obs s \<or> (\<exists>s2 m. obs s2 = obs s \<and> r = Some m \<and> dequeue_proposal e fuel s2 = Some (m, s'))"
proof -
  obtain r1 s1 where w: "(if t < get_multi_threads e then dequeue_worker t s else (None, s)) = (r1, s1)" by force
  obtain r2 s2 where x: "(if t \<ge> tcount e \<and> t < tcount e + ucast (g_execute_thd e) then dequeue_execute e s1
      else if t \<ge> tcount e + ucast (g_execute_thd e) then dequeue_checkpoint e t s1 else (r1, s1)) = (r2, s2)" by force
  have "obs s1 = obs s" using w by (auto split: if_splits dest: obs_dequeue_worker)
  moreover have "obs s2 = obs s1"
    using x by (auto simp: dequeue_execute_def split: if_splits dest: obs_pop obs_dequeue_checkpoint)
  moreover have "obs s' = obs s2 \<or> (\<exists>m. r = Some m \<and> dequeue_proposal e fuel s2 = Some (m, s'))"
    using assms
    unfolding dequeue_def w Let_def prod.case x
    by (auto split: if_splits dest: obs_dequeue_generic)
  ultimately show ?thesis by auto
qed

lemma obs0_dequeue: "dequeue e fuel t s = Some (r, s') \<Longrightarrow> obs0 s' = obs0 s"
  using obs_dequeue [of e fuel t s r s'] obs0_dequeue_proposal obs_obs0 by metis

lemma obs_check_view [obs_simps]: "obs (snd (check_view m s)) = obs s"
  by (simp add: check_view_def obs_simps split: msg.splits)

lemma obs_worker_wait: "worker_wait e q s = Some s' \<Longrightarrow> obs s' = obs s"
  by (auto simp: worker_wait_def sem_wait_worker_def bind_eq_Some_conv obs_simps split: if_splits nat.splits)

lemma obs_key_exchange: "process_key_exchange e k s = Some s' \<Longrightarrow> obs s' = obs s"
  by (auto simp: process_key_exchange_def store_key_def Let_def obs_simps obs_fold split: if_splits)


section \<open>Changes of a manager\<close>

definition vote_step :: "env \<Rightarrow> (TxnManager \<Rightarrow> TxnManager) \<Rightarrow> bool" where
  "vote_step e f \<longleftrightarrow> keeps_ids f \<and> (NODE_CNT e \<noteq> 0 \<longrightarrow> (\<forall>t. vote_inv e t \<longrightarrow> vote_inv e (f t))) \<and>
     (\<forall>t. tm_hash_voters (f t) = tm_hash_voters t \<and> tm_sync_sent (f t) = tm_sync_sent t)"

lemma vote_stepI:
  assumes "\<And>t. tm_txn_id (f t) = tm_txn_id t" and "\<And>t. tm_batch_id (f t) = tm_batch_id t"
    and "\<And>t. tm_hash_voters (f t) = tm_hash_voters t" and "\<And>t. tm_vote_new_view (f t) = tm_vote_new_view t"
    and "\<And>t. tm_new_view_vote_cnt (f t) = tm_new_view_vote_cnt t" and "\<And>t. tm_new_viewed (f t) = tm_new_viewed t"
    and "\<And>t. tm_sync_sent (f t) = tm_sync_sent t"
  shows "vote_step e f"
  unfolding vote_step_def keeps_ids_def using assms vote_inv_cong [of "f t" t for t] by simp

lemma vote_step_fields [simp]:
  "vote_step e (\<lambda>t. t\<lparr>tm_genericQC := qc\<rparr>)" "vote_step e (\<lambda>t. t\<lparr>tm_highQC := qc\<rparr>)"
  "vote_step e (\<lambda>t. t\<lparr>tm_highQC := qc, tm_generic_received := b\<rparr>)"
  "vote_step e (\<lambda>t. t\<lparr>tm_highQC := qc, tm_psig_share := p\<rparr>)"
  "vote_step e (\<lambda>t. t\<lparr>tm_generic_received := b\<rparr>)" "vote_step e (\<lambda>t. t\<lparr>tm_proposal_received := b\<rparr>)"
  "vote_step e (\<lambda>t. t\<lparr>tm_proposal_received := b, tm_generic_received := b'\<rparr>)"
  "vote_step e (set_hash h)"
  "vote_step e (\<lambda>t. (set_hash h t)\<lparr>tm_view := v, tm_instance_id := i\<rparr>)"
  "vote_step e (\<lambda>t. t\<lparr>tm_return_id := r, tm_view := v, tm_instance_id := i\<rparr>)"
  "vote_step e (\<lambda>t. t\<lparr>tm_client_id := c, tm_client_startts := ts, tm_requests := tm_requests t @ rs\<rparr>)"
  "vote_step e (\<lambda>t. t\<lparr>tm_propmsg := pm\<rparr>)" "vote_step e (\<lambda>t. t\<lparr>tm_chkpt_flag := b\<rparr>)"
  "vote_step e decr_chkpt_cnt" "vote_step e (snd \<circ> unset_ready)" "vote_step e (snd \<circ> set_ready)"
  by (rule vote_stepI; simp add: set_hash_def decr_chkpt_cnt_def unset_ready_def set_ready_def)+

section \<open>Committing\<close>

locale node_inv =
  fixes e :: env and P :: "node \<Rightarrow> bool"
  assumes frame: "P s \<Longrightarrow> obs s' = obs s \<Longrightarrow> P s'"
    and get: "P s \<Longrightarrow> P (get_tman e i s)"
    and upd: "P s \<Longrightarrow> vote_step e f \<Longrightarrow> P (upd_tman e i f s)"
    and qc_put: "P s \<Longrightarrow> batch_hash q = h \<Longrightarrow> P (put_hash_to_QC i h q s)"
    and qc_at: "P s \<Longrightarrow> P (snd (hash_to_QC_at i h s))"
    and qc_erase: "P s \<Longrightarrow> P (erase_hash_to_QC i h s)"
    and qc_type: "P s \<Longrightarrow> P (set_qc_type i h ty s)"
begin

lemma qc_at_eq: "P s \<Longrightarrow> hash_to_QC_at i h s = (q, s') \<Longrightarrow> P s'"
  using qc_at [of s i h] by simp

lemma enqueue_keeps: "P s \<Longrightarrow> enqueue e m s = Some s' \<Longrightarrow> P s'"
  using frame obs_enqueue by blast

lemma txnid_at_eq: "P s \<Longrightarrow> hash_to_txnid_at i h s = (t, s') \<Longrightarrow> P s'"
  using frame [of s s'] obs_ops(9) [of i h s] by simp

lemma frame_ops:
  "(\<And>n. m \<noteq> MSync n) \<Longrightarrow> P (send_out m d s) = P s" "P (put_hash_to_txnid i h t s) = P s" "P (insert_hash_to_txnid i h t s) = P s"
  "P (erase_hash_to_txnid i h s) = P s" "P (insert_txnid_to_hash i t h s) = P s" "P (erase_txnid_to_hash i t s) = P s"
  "P (set_g_preparedQC q i t s) = P s" "P (set_g_lockedQC q i t s) = P s" "P (set_curr_new_viewed t i s) = P s"
  "P (set_curr_chkpt t s) = P s" "P (inc_last_deleted_txn t s) = P s" "P (inc_next_index v s) = P s"
  using frame obs_ops obs_send_out by metis+

lemma enqueue_execute_keeps: "P s \<Longrightarrow> enqueue_execute e t s = Some s' \<Longrightarrow> P s'"
  by (simp add: enqueue_execute_def enqueue_keeps)

lemma execute_ancestor_keeps:
  assumes "P s" and "execute_ancestor e i qc s = Some s'"
  shows "P s'"
proof -
  obtain t s1 where t: "hash_to_txnid_at i (batch_hash qc) s = (t, s1)" by force
  with assms(2) obtain s2 where s2: "enqueue_execute e t (get_tman e t s1) = Some s2"
      "s' = erase_txnid_to_hash i t (erase_hash_to_txnid i (batch_hash qc) (erase_hash_to_QC i (batch_hash qc) s2))"
    by (auto simp: execute_ancestor_def bind_eq_Some_conv)
  have "P s2" using enqueue_execute_keeps [OF get s2(1)] txnid_at_eq [OF assms(1) t] by blast
  with s2(2) show ?thesis by (simp add: frame_ops qc_erase)
qed

lemma execute_ancestors_keeps:
  assumes "P s" and "execute_ancestors e i qc s = Some s'"
  shows "P s'"
proof -
  have "e = e \<longrightarrow> P s \<longrightarrow> P s'"
  proof (rule execute_ancestors.raw_induct [OF _ assms(2), where P = "\<lambda>e' i qc s s'. e' = e \<longrightarrow> P s \<longrightarrow> P s'"], intro impI)
    fix f e' i qc s s'
    assume IH: "\<And>e' i qc s s'. f e' i qc s = Some s' \<Longrightarrow> e' = e \<longrightarrow> P s \<longrightarrow> P s'"
      and run: "Option.bind (execute_ancestor e' i qc s) (\<lambda>s. case hash_to_QC s i (parent_hash qc) of
          None \<Rightarrow> Some s | Some qc' \<Rightarrow> f e' i qc' s) = Some s'"
      and e: "e' = e" and P: "P s"
    from run e obtain s1 where s1: "execute_ancestor e i qc s = Some s1"
        "(case hash_to_QC s1 i (parent_hash qc) of None \<Rightarrow> Some s1 | Some qc' \<Rightarrow> f e i qc' s1) = Some s'"
      by (auto simp: bind_eq_Some_conv)
    have "P s1" by (rule execute_ancestor_keeps [OF P s1(1)])
    then show "P s'" using s1(2) IH [of e i _ s1 s'] by (cases "hash_to_QC s1 i (parent_hash qc)") simp_all
  qed
  with assms(1) show ?thesis by simp
qed

lemma erase_voters_keeps: "P (fold (\<lambda>p. erase_hash_to_txnid i (fst p)) ps s) = P s"
  by (induction ps arbitrary: s) (simp_all add: frame_ops)

lemma send_execute_keeps:
  assumes "P s" and "send_execute_msg_hotstuff e tid i s = Some s'"
  shows "P s'"
proof -
  obtain qc s1 where q: "hash_to_QC_at i (tm_hash (tman e s tid)) s = (qc, s1)" by force
  with assms(2) obtain s2 where
    s2: "(case hash_to_QC s1 i (parent_hash qc) of None \<Rightarrow> Some s1
        | Some qc' \<Rightarrow> execute_ancestors e i qc' s1) = Some s2"
    and s': "enqueue_execute e tid (erase_txnid_to_hash i tid
       (fold (\<lambda>p. erase_hash_to_txnid i (fst p)) (tm_hash_voters (tman e s2 tid))
         (erase_hash_to_QC i (tm_hash (tman e s2 tid)) s2))) = Some s'"
    by (auto simp: send_execute_msg_hotstuff_def bind_eq_Some_conv Let_def)
  have "P s1" using qc_at_eq [OF assms(1) q] .
  then have "P s2" using s2 execute_ancestors_keeps by (auto split: option.splits)
  then show ?thesis
    using enqueue_execute_keeps [OF _ s'] by (simp add: frame_ops erase_voters_keeps qc_erase)
qed

lemma update_lockQC_keeps:
  assumes "P s" and "update_lockQC e qc view txnid i s = Some s'"
  shows "P s'"
proof -
  obtain b2 s1 where 1: "hash_to_QC_at i (parent_hash qc) s = (b2, s1)" by force
  obtain b3 s2 where 2: "hash_to_QC_at i (parent_hash b2) s1 = (b3, s2)" by force
  define s3 where "s3 = (if viewNumber qc + 1 = view then set_g_preparedQC qc i txnid s2 else s2)"
  define s4 where "s4 = (if viewNumber qc + 1 = view \<and> viewNumber b2 + 2 = view
      then set_g_lockedQC b2 i (txnid - get_totInstances e * get_batch_size e) s3 else s3)"
  have "P s4"
    using qc_at_eq [OF qc_at_eq [OF assms(1) 1] 2] by (simp add: s4_def s3_def frame_ops)
  moreover have "update_lockQC e qc view txnid i s =
      (if viewNumber qc + 1 = view \<and> viewNumber b2 + 2 = view \<and> viewNumber b3 + 3 = view
       then let t = txnid - 2 * get_totInstances e * get_batch_size e
            in send_execute_msg_hotstuff e t i (get_tman e t (set_qc_type i (batch_hash b3) COMMIT s4))
       else Some s4)"
    by (simp add: update_lockQC_def 1 2 Let_def s4_def s3_def)
  ultimately show ?thesis
    using assms(2) send_execute_keeps [OF get [OF qc_type]] by (auto simp: Let_def split: if_splits)
qed

end


context node_inv
begin

lemma update_lockQC_wp: "P s \<Longrightarrow> wp P (update_lockQC e qc view txnid i s)"
  by (rule wpI) (rule update_lockQC_keeps)

lemma enqueue_wp: "P s \<Longrightarrow> wp P (enqueue e m s)"
  by (rule wpI) (rule enqueue_keeps)

lemma frame_fields:
  "P (s\<lparr>new_txn_semaphore := a\<rparr>) = P s" "P (s\<lparr>proposal_semaphore := a\<rparr>) = P s"
  "P (s\<lparr>is_chkpt_holding := b\<rparr>) = P s" "P (s\<lparr>is_chkpt_stalled := b\<rparr>) = P s" "P (s\<lparr>chkpt_semaphore := c\<rparr>) = P s"
  using frame obs_updates by metis+

lemmas keeps_basic =
  get upd qc_put qc_at qc_erase qc_type frame_ops [THEN iffD2] frame_fields [THEN iffD2]

lemma keeps_if: "(b \<Longrightarrow> P s) \<Longrightarrow> (\<not> b \<Longrightarrow> P s') \<Longrightarrow> P (if b then s else s')"
  by simp

end

text \<open>Committing does not change a view.\<close>

interpretation vw: node_inv e "\<lambda>s. newView s = v" for e v
  by unfold_locales (simp_all add: obs_def obs0_def set_qc_type_def case_prod_beta erase_hash_to_QC_def)

section \<open>Voting and changing views\<close>

text \<open>
  \<open>okv n tid\<close> says which votes of other replicas may be counted by manager \<open>tid\<close>, and \<open>rel i\<close> which
  managers may be released; a message is admissible if handling it does no more than that.
\<close>

definition admissible ::
    "env \<Rightarrow> (SpotLessSyncMsg \<Rightarrow> u64 \<Rightarrow> bool) \<Rightarrow> (u64 \<Rightarrow> bool) \<Rightarrow> msg \<Rightarrow> node \<Rightarrow> bool" where
  "admissible e okv rel m s \<longleftrightarrow>
     (case m of
        MSync n \<Rightarrow> okv n (m_txn_id (sync_base n))
      | MCheckpoint c \<Rightarrow> \<forall>i. i < chkpt_del_range e (m_txn_id (ck_base c)) \<or> i = last_deleted_txn_man s \<longrightarrow> rel i
      | _ \<Rightarrow> True)"

lemma admissible_all [simp]: "admissible e (\<lambda>_ _. True) (\<lambda>_. True) m s"
  by (simp add: admissible_def split: msg.splits)

lemma admissible_cong:
  "last_deleted_txn_man s' = last_deleted_txn_man s \<Longrightarrow> admissible e okv rel m s' = admissible e okv rel m s"
  by (simp add: admissible_def split: msg.splits)

locale node_steps = node_inv e P for e P +
  fixes okv :: "SpotLessSyncMsg \<Rightarrow> u64 \<Rightarrow> bool" and rel :: "u64 \<Rightarrow> bool"
  assumes newview: "P s \<Longrightarrow> P (send_hotstuff_newview e n tid s)"
    and vote: "P s \<Longrightarrow> okv nv tid \<Longrightarrow> P (upd_tman e tid (\<lambda>t. snd (count_vote e nv t)) s)"
    and view: "P s \<Longrightarrow> newView s i < v \<or> v = newView s i + 1 \<Longrightarrow> P (set_view e i v s)"
    and release: "P s \<Longrightarrow> rel i \<Longrightarrow> P (release_txn_man e i s)"
begin

lemma advance_view_wp:
  assumes "P s"
  shows "wp P (advance_view e tid s)"
proof (cases "tm_hash (tman e s tid) = ''''")
  case True
  then show ?thesis by (simp add: advance_view_def Let_def wp_basic)
next
  case False
  define t where "t = tman e s tid"
  define i where "i = tm_instance_id t"
  define v where "v = newView s i + 1"
  define qc where "qc = make_genericQC (v - 1) t"
  define s1 where "s1 = put_hash_to_QC i (tm_hash t) qc (upd_tman e tid (\<lambda>t. t\<lparr>tm_genericQC := qc\<rparr>) s)"
  have "batch_hash qc = tm_hash t" by (simp add: qc_def make_genericQC_def Let_def)
  then have P1: "P s1" unfolding s1_def by (intro qc_put upd assms) simp_all
  have set: "P (set_view e i v s2)" if "update_lockQC e qc v tid i s1 = Some s2" for s2
  proof (rule view)
    show "P s2" by (rule update_lockQC_keeps [OF P1 that])
    show "newView s2 i < v \<or> v = newView s2 i + 1"
      using vw.update_lockQC_keeps [OF refl that] by (simp add: s1_def v_def)
  qed
  have "advance_view e tid s = Option.bind (update_lockQC e qc v tid i s1) (\<lambda>s.
      let s = set_curr_new_viewed tid i (set_view e i v s);
          s = (if node_id e = get_view_primary e v i then s\<lparr>new_txn_semaphore := new_txn_semaphore s + 1\<rparr> else s)
      in Some (if node_id e = get_view_primary e (v + ROUNDS_IN_ADVANCE e) i
           then s\<lparr>proposal_semaphore := proposal_semaphore s + 1\<rparr> else s))"
    using False by (simp add: advance_view_def Let_def t_def i_def v_def qc_def s1_def get_current_view_def)
  moreover have "wp (\<lambda>s. P (set_view e i v s)) (update_lockQC e qc v tid i s1)"
    by (rule wpI) (rule set)
  ultimately show ?thesis
    unfolding Let_def by simp (intro wp_basic keeps_if keeps_basic; erule wp_use; intro wp_basic keeps_if keeps_basic)
qed

lemma skip_view_wp:
  assumes "P s" and "newView s (m_instance_id (gen_base gene)) < gen_view gene"
  shows "wp P (skip_view e gene tid s)"
proof -
  let ?i = "m_instance_id (gen_base gene)" and ?prev = "tid - get_batch_size e * get_totInstances e"
  define s1 where "s1 = put_hash_to_QC ?i (batch_hash (gen_highQC gene)) (gen_highQC gene)
      (upd_tman e ?prev (\<lambda>t. t\<lparr>tm_genericQC := gen_highQC gene\<rparr>) (get_tman e ?prev s))"
  have P1: "P s1" unfolding s1_def by (intro qc_put upd get assms(1)) simp_all
  have set: "P (set_view e ?i (gen_view gene) s2)"
    if "update_lockQC e (gen_highQC gene) (viewNumber (gen_highQC gene)) ?prev ?i s1 = Some s2" for s2
  proof (rule view)
    show "P s2" by (rule update_lockQC_keeps [OF P1 that])
    show "newView s2 ?i < gen_view gene \<or> gen_view gene = newView s2 ?i + 1"
      using vw.update_lockQC_keeps [OF refl that] assms(2) by (simp add: s1_def)
  qed
  then have "wp (\<lambda>s. P (set_view e ?i (gen_view gene) s))
      (update_lockQC e (gen_highQC gene) (viewNumber (gen_highQC gene)) ?prev ?i s1)"
    by (intro wpI)
  then show ?thesis
    unfolding skip_view_def Let_def s1_def by (intro wp_basic) (erule wp_use, intro wp_basic keeps_basic)
qed

lemma validate_wp: "(\<And>b. Q b) \<Longrightarrow> wp Q (validate_msg e k m)"
  by (simp add: wp_def)

lemmas steps_wp = wp_basic validate_wp wp_use [OF update_lockQC_wp] wp_use [OF enqueue_wp]
  wp_use [OF advance_view_wp] wp_use [OF skip_view_wp]

lemmas steps_keep = newview keeps_basic keeps_if

section \<open>Handlers\<close>

lemma hotstuff_new_viewed_keeps: "P s \<Longrightarrow> okv m tid \<Longrightarrow> hotstuff_new_viewed e m tid s = (b, s') \<Longrightarrow> P s'"
  using vote by (auto simp: hotstuff_new_viewed_def Let_def frame_ops)

lemma new_view_wp: "P s \<Longrightarrow> okv m tid \<Longrightarrow> wp P (process_hotstuff_new_view e m tid s)"
  unfolding process_hotstuff_new_view_def Let_def
  by (intro steps_wp steps_keep) (simp_all add: hotstuff_new_viewed_keeps)

lemma generic_wp: "P s \<Longrightarrow> wp P (process_hotstuff_generic e gene tid s)"
  unfolding process_hotstuff_generic_def Let_def get_current_view_def
  by (intro steps_wp steps_keep) simp_all

text \<open>Programs that do not return a state.\<close>

lemma any_wp: "(\<And>a. Q a) \<Longrightarrow> wp Q x"
  by (simp add: wp_def)

lemma ready_wp: "P s \<Longrightarrow> wp P (unset_ready_txn e tid s)" "P s \<Longrightarrow> wp P (set_ready_txn e tid s)"
  by (simp_all add: unset_ready_txn_def set_ready_txn_def wp_basic upd)

lemma send_generic_wp: "P s \<Longrightarrow> wp P (send_hotstuff_generic e tid s)"
  unfolding send_hotstuff_generic_def Let_def by (intro steps_wp steps_keep) simp_all

lemma primarybatch_wp: "P s \<Longrightarrow> wp P (set_primarybatch e now m tid s)"
  unfolding set_primarybatch_def by (intro wp_basic any_wp steps_keep) simp_all

lemma init_txn_wp: "P s \<Longrightarrow> wp P (init_txn_man e q tid s)"
  unfolding init_txn_man_def by (intro steps_wp steps_keep) simp_all

lemmas txn_wp = steps_wp wp_use [OF ready_wp(1)] wp_use [OF ready_wp(2)] wp_use [OF send_generic_wp]
  wp_use [OF primarybatch_wp] wp_use [OF init_txn_wp]

lemma setup_txns_wp: "P s \<Longrightarrow> wp P (setup_txns e ret v i xs s)"
  unfolding setup_txns_def setup_txn_def
  by (rule wp_fold_option) (auto intro!: txn_wp steps_keep simp: Let_def)

lemma generic_p_wp: "P s \<Longrightarrow> wp P (process_hotstuff_generic_p e tid s)"
  unfolding process_hotstuff_generic_p_def Let_def by (intro txn_wp steps_keep) simp_all

lemma set_fields_wp: "P s \<Longrightarrow> wp (\<lambda>r. P (snd r)) (set_txn_man_fields e prop tid0 s)"
  unfolding set_txn_man_fields_def Let_def
  by (intro wp_basic(3) any_wp wp_use [OF setup_txns_wp] txn_wp steps_keep) (simp_all add: upd)

lemma proposal_wp: "P s \<Longrightarrow> wp (\<lambda>r. P (snd r)) (process_hotstuff_proposal e now prop s)"
  unfolding process_hotstuff_proposal_def Let_def
  by (intro txn_wp wp_use [OF set_fields_wp] steps_keep) (simp_all add: get)

lemma prepare_txn_wp: "P (snd r) \<Longrightarrow> wp (\<lambda>r. P (snd r)) (prepare_txn e ret v i x r)"
  unfolding prepare_txn_def Let_def case_prod_beta
  by (intro wp_basic(3) any_wp [of _ "Proposal_copy_request _ _ _ _"] txn_wp steps_keep) simp_all

lemma client_batch_wp: "wp (\<lambda>r. P (snd r)) (process_client_batch_hotstuff e now b s)" if "P s"
proof -
  have *: "wp (\<lambda>r. P (snd r)) (fold_option (prepare_txn e ret v i) xs (p, s))" for ret v i xs p
    using that by (intro wp_fold_option prepare_txn_wp) simp_all
  show ?thesis
    unfolding process_client_batch_hotstuff_def create_and_send_hotstuff_prepare_def Let_def
    by (intro txn_wp any_wp [of _ "Proposal_init _ _ _ _"] any_wp [of _ "first_n _ _"] wp_use [OF *] steps_keep)
      (simp_all add: frame_ops upd)
qed

lemma release_range_keeps:
  assumes "P s" and "\<And>i. i < b \<Longrightarrow> rel i"
  shows "P (release_range e a b s)"
proof -
  have "P (fold (release_txn_man e) xs s)" if "P s" "\<forall>i \<in> set xs. rel i" for xs s
    using that by (induction xs arbitrary: s) (simp_all add: release)
  moreover have "\<forall>i \<in> set (u64_upto a b). rel i" using assms(2) by (simp add: set_u64_upto)
  ultimately show ?thesis using assms(1) by (simp add: release_range_def)
qed

lemma sem_wait_wp: "P s \<Longrightarrow> wp P (sem_wait_chkpt k s)"
  by (simp add: sem_wait_chkpt_def wp_def frame_fields split: nat.splits)

lemma chkpt_wp:
  assumes "P s" and "admissible e okv rel (MCheckpoint m) s"
  shows "wp P (process_pbft_chkpt_msg e thd m tid s)"
  unfolding process_pbft_chkpt_msg_def Let_def
  by (intro txn_wp wp_use [OF sem_wait_wp] release release_range_keeps steps_keep)
    (use assms in \<open>simp_all add: admissible_def get_last_deleted_txn_def set_curr_chkpt_def upd_tman_def\<close>)

lemma ask_wp: "P s \<Longrightarrow> wp P (process_spotless_ask e ask tid s)"
proof -
  assume P: "P s"
  have *: "wp (\<lambda>r. P (snd r)) (fill_ask_response e xs r)" if "P (snd r)" for xs r
    unfolding fill_ask_response_def
  proof (rule wp_fold_option)
    fix i and r :: "SpotLessProposalMsg \<times> node"
    assume "P (snd r)"
    then show "wp (\<lambda>r. P (snd r)) (case r of (m, s) \<Rightarrow> do {
        let s = get_tman e i s;
        m \<leftarrow> AskResponse_copy_from_txn_manager e (tman e s i) m;
        Some (m, s) })"
      unfolding Let_def by (intro wp_basic any_wp) (auto simp: get)
  qed (use that in simp)
  show ?thesis
    unfolding process_spotless_ask_def send_ask_response_def
    by (intro txn_wp any_wp [of _ "new_AskResponse_txn _ _"] wp_use [OF *] steps_keep) (auto simp: P frame_ops)
qed

lemma ask_response_wp: "P s \<Longrightarrow> wp (\<lambda>r. P (snd r)) (process_spotless_ask_response e now m s)"
  unfolding process_spotless_ask_response_def Let_def
  by (intro txn_wp wp_use [OF set_fields_wp] steps_keep) (simp_all add: get)

lemma key_exchange_keeps: "P s \<Longrightarrow> process_key_exchange e k s = Some s' \<Longrightarrow> P s'"
  using frame obs_key_exchange by blast

section \<open>One iteration of a worker thread\<close>

lemma finish_wp:
  assumes "P s"
  shows "wp P (worker_finish e thd q m tm s)"
proof -
  have "wp (\<lambda>r. P (snd r)) (case tm of
         None \<Rightarrow> Some (0, s)
       | Some tid \<Rightarrow> do {
           let iid = tm_instance_id (tman e s tid);
           s \<leftarrow> set_ready_txn e tid s;
           let other = (thd + 1) mod 2;
           Some (iid,
             if msg_rtype m = PBFT_CHKPT_MSG then
               (let s = s\<lparr>is_chkpt_holding := (is_chkpt_holding s)(thd mod 2 := False)\<rparr>
                in if is_chkpt_stalled s other
                   then s\<lparr>chkpt_semaphore := (chkpt_semaphore s)(other := chkpt_semaphore s other + 1)\<rparr> else s)
             else s) })"
    unfolding Let_def
    by (cases tm) (auto intro!: txn_wp simp: assms frame_fields)
  then show ?thesis
    unfolding worker_finish_def
    by (intro wp_basic(3)) (erule wp_use, auto intro!: wp_basic frame [OF _ obs_ops(17)])
qed

text \<open>Every message but an execute message.\<close>

lemma with_txn_man_wp: "(\<And>tid. tm = Some tid \<Longrightarrow> wp P (f tid)) \<Longrightarrow> wp (\<lambda>r. P (snd r)) (with_txn_man tm f)"
  by (cases tm) (auto simp: with_txn_man_def wp_basic)

lemma process_wp:
  assumes "P s" and "\<And>x. m \<noteq> MExecute x" and "admissible e okv rel m s" and "tm = None \<or> tm = Some (txn_id m)"
  shows "wp (\<lambda>r. P (snd r)) (process e now thd m tm s)"
proof -
  have kx: "wp P (process_key_exchange e k s)" for k
    using key_exchange_keeps [OF assms(1)] by (intro wpI)
  show ?thesis
    using assms
    by (cases m)
      (auto simp: process_def admissible_def intro!: with_txn_man_wp wp_basic client_batch_wp chkpt_wp new_view_wp
        generic_p_wp generic_wp proposal_wp ask_wp ask_response_wp kx)
qed

lemma worker_process_wp:
  assumes "P s" and "\<And>x. m \<noteq> MExecute x" and "admissible e okv rel m s" and "tm = None \<or> tm = Some (txn_id m)"
  shows "wp P (worker_process e now thd q m tm s)"
  unfolding worker_process_def
  by (intro wp_basic wp_use [OF process_wp [OF assms]]) (auto intro: finish_wp)

lemma exception_wp:
  "P s \<Longrightarrow> admissible e okv rel m s \<Longrightarrow>
     wp (\<lambda>r. P (snd r) \<and> admissible e okv rel m (snd r)) (exception_msg_handling e m s)"
proof -
  assume a: "P s" "admissible e okv rel m s"
  then have "wp P (process_key_exchange e k s)" for k
    by (intro wpI) (rule key_exchange_keeps)
  with a show ?thesis
    by (cases m) (auto simp: exception_msg_handling_def admissible_def intro!: wp_basic)
qed

lemma admissible_get: "admissible e okv rel m (get_tman e i s) = admissible e okv rel m s"
  by (rule admissible_cong) (simp add: get_tman_def)

lemma admissible_upd: "admissible e okv rel m (upd_tman e i f s) = admissible e okv rel m s"
  by (rule admissible_cong) (simp add: upd_tman_def)

lemma worker_handle_wp:
  assumes "P s" and "\<And>x. m \<noteq> MExecute x" and "admissible e okv rel m s"
  shows "wp P (worker_handle e now thd q m s)"
  unfolding worker_handle_def Let_def
  by (intro wp_basic wp_use [OF exception_wp [OF assms(1,3)]] enqueue_wp worker_process_wp assms(2) steps_keep)
    (simp_all add: admissible_get admissible_upd)

end


section \<open>Execution\<close>

locale node_exec = node_steps +
  assumes run: "P s \<Longrightarrow> P (run_txn e i s)"
    and count: "P s \<Longrightarrow> P (set_expectedExecuteCount e v s)"
begin

lemma send_checkpoints_wp: "P s \<Longrightarrow> wp P (send_checkpoints e tid s)"
  unfolding send_checkpoints_def send_checkpoint_msgs_def
  by (intro wp_basic enqueue_wp get) simp_all

lemma execute_one_wp:
  "P (snd r) \<Longrightarrow> wp (\<lambda>r. P (snd r)) (execute_one e i r)"
  "P (snd r) \<Longrightarrow> wp (\<lambda>r. P (snd r)) (execute_one_held e i r)"
  unfolding execute_one_def execute_one_held_def Let_def
  by (intro wp_basic any_wp [of _ "CR_copy_from_txn _ _ _"] txn_wp run steps_keep; simp add: run get)+

lemma execute_wp:
  assumes "P s"
  shows "wp (\<lambda>r. P (snd r)) (process_hotstuff_execute e x s)"
proof -
  have *: "wp (\<lambda>r. P (snd r)) (fold_option (execute_one e) xs r)"
    "wp (\<lambda>r. P (snd r)) (fold_option (execute_one_held e) xs r)" if "P (snd r)" for xs r
    using that by (auto intro: wp_fold_option execute_one_wp)
  show ?thesis
    unfolding process_hotstuff_execute_def Let_def
    by (intro wp_basic wp_use [OF send_checkpoints_wp] wp_use [OF *(1)] wp_use [OF *(2)] txn_wp
        any_wp [of _ "CR_copy_from_txn _ _ _"] count run steps_keep)
      (simp_all add: assms get frame_ops count run)
qed

lemma worker_process_all_wp:
  assumes "P s" and "admissible e okv rel m s" and "tm = None \<or> tm = Some (txn_id m)"
  shows "wp P (worker_process e now thd q m tm s)"
proof (cases "\<exists>x. m = MExecute x")
  case True
  with assms(1) show ?thesis
    unfolding worker_process_def
    by (auto simp: process_def intro!: wp_basic wp_use [OF execute_wp] finish_wp)
qed (use worker_process_wp [OF assms(1) _ assms(2,3)] in auto)

lemma worker_handle_all_wp:
  assumes "P s" and "admissible e okv rel m s"
  shows "wp P (worker_handle e now thd q m s)"
  unfolding worker_handle_def Let_def
  by (intro wp_basic wp_use [OF exception_wp [OF assms]] enqueue_wp worker_process_all_wp steps_keep)
    (simp_all add: admissible_get admissible_upd)

end

text \<open>Predicates that do not depend on the views in which the replica proposes.\<close>

locale node_iter = node_exec +
  assumes frame0: "P s \<Longrightarrow> obs0 s' = obs0 s \<Longrightarrow> P s'"
begin

lemma worker_iteration_wp:
  assumes "P s" and adm: "\<And>m s. admissible e okv rel m s"
  shows "wp P (worker_iteration e fuel now thd s)"
proof (rule wpI)
  fix s' assume it: "worker_iteration e fuel now thd s = Some s'"
  then obtain s1 r s2 where s1: "worker_wait e (wait_index e thd) s = Some s1"
      and s2: "dequeue e fuel thd s1 = Some (r, s2)"
      and s': "(case r of None \<Rightarrow> Some (sem_post_worker (wait_index e thd) s2)
        | Some m \<Rightarrow> if wait_index e thd < get_multi_threads e \<and> fst (check_view m s2) then Some (snd (check_view m s2))
            else worker_handle e now thd (wait_index e thd) m s2) = Some s'"
    by (auto simp: worker_iteration_def Let_def bind_eq_Some_conv)
  have "P s2" using frame0 [OF assms(1), of s2] obs_obs0 [OF obs_worker_wait [OF s1]] obs0_dequeue [OF s2] by simp
  then show "P s'"
    using s' worker_handle_all_wp [OF \<open>P s2\<close> adm] frame [OF \<open>P s2\<close>] obs_check_view obs_ops(1)
    by (auto simp: wp_def split: option.splits if_splits)
qed

end

end
