(* ===== verification/Reachability.thy ===== *)
theory Reachability
  imports Steps
begin

text \<open>
  The reachable states of a replica and their invariants: the interfaces of \<open>Steps\<close> are
  interpreted for the managers' votes, the map of certificates and the progress of execution.
  Messages arrive in any order, any number of times and with any content: the network and
  the other replicas are not restricted.
\<close>

section \<open>Certificates are filed under their hashes\<close>

definition qcs_ok :: "node \<Rightarrow> bool" where
  "qcs_ok s \<longleftrightarrow> (\<forall>i. qc_map_ok (hash_to_QC s i))"

lemma newview_hash_to_QC [simp]: "hash_to_QC (send_hotstuff_newview e n tid s) = hash_to_QC s"
  by (simp add: send_hotstuff_newview_def Let_def send_out_def split: option.splits)

lemma set_expected_frame:
  "hash_to_QC (set_expectedExecuteCount e v s) = hash_to_QC s" "txn_table (set_expectedExecuteCount e v s) = txn_table s"
  by (simp_all add: set_expectedExecuteCount_def execute_msg_heap_pop_def Let_def)

interpretation qcm: node_iter e qcs_ok "\<lambda>_ _. True" "\<lambda>_. True" for e
proof (unfold_locales, goal_cases)
  case (5 s i h)
  then show ?case using hash_to_QC_at_ok by (simp add: qcs_ok_def)
next
  case (7 s i h ty)
  have "hash_to_QC (set_qc_type i h ty s) j = hash_to_QC s j" if "j \<noteq> i" for j
    using that by (simp add: set_qc_type_def hash_to_QC_at_def split: option.splits)
  then show ?case using 7 set_qc_type_ok unfolding qcs_ok_def by metis
qed (auto simp: qcs_ok_def obs_def obs0_def qc_map_ok_put qc_map_ok_erase set_expected_frame release_txn_man_def run_txn_def)

section \<open>Votes\<close>

definition votes_ok :: "env \<Rightarrow> node \<Rightarrow> bool" where
  "votes_ok e s \<longleftrightarrow> table_inv e s \<and>
     (NODE_CNT e \<noteq> 0 \<longrightarrow> (\<forall>i. has_tman e s i \<longrightarrow> vote_inv e (tman e s i)) \<and>
        (\<forall>i. \<forall>m \<in> set (tt_free (txn_table s) i). vote_inv e m))"

lemma votes_ok_cong: "txn_table s' = txn_table s \<Longrightarrow> votes_ok e s' = votes_ok e s"
  by (simp add: votes_ok_def tman_def has_tman_def)

lemma init_vote_inv:
  assumes "vote_inv e m" and "clean m" and "NODE_CNT e \<noteq> 0"
  shows "vote_inv e ((TxnManager_init m)\<lparr>tm_txn_id := i, tm_batch_id := b, tm_propmsg := None\<rparr>)"
  using assms by (intro clean_vote_inv) (auto simp: clean_def TxnManager_init_def vote_inv_def)

lemma release_vote_inv:
  assumes "vote_inv e m" and "NODE_CNT e \<noteq> 0"
  shows "vote_inv e (TxnManager_release e m)"
proof (rule clean_vote_inv [OF clean_release assms(2)])
  show "tm_vote_new_view (TxnManager_release e m) \<noteq> [] \<longrightarrow> node_id e \<in> set (tm_vote_new_view (TxnManager_release e m))"
    using assms(1) by (simp add: TxnManager_release_def release_all_messages_def vote_inv_def)
qed

lemma find_snoc: "find Q xs = None \<Longrightarrow> Q x \<Longrightarrow> find Q (xs @ [x]) = Some x"
  by (induction xs) (auto split: if_splits)

lemma new_vote_inv: "NODE_CNT e \<noteq> 0 \<Longrightarrow> vote_inv e (new_TxnManager e)"
  by (rule clean_vote_inv [OF clean_new]) (simp_all add: new_TxnManager_def)

lemma votes_ok_get:
  assumes "votes_ok e s"
  shows "votes_ok e (get_tman e i s)"
proof (cases "has_tman e s i")
  case True
  then show ?thesis using assms by simp
next
  case False
  let ?t = "txn_table s" and ?q = "i mod pool_size e"
  have inv: "table_inv e s" using assms by (simp add: votes_ok_def)
  have none: "tt_lookup e ?t i 0 = None" using False by (simp add: has_tman_def)
  obtain m t' where g: "TxnManPool_get e i ?t = (m, t')" by force
  let ?m = "m\<lparr>tm_txn_id := i, tm_batch_id := 0, tm_propmsg := None\<rparr>"
  have "tt_list t' = tt_list ?t" using TxnManPool_get_inv [OF inv g] by simp
  then have "tt_lookup e (txn_table (get_tman e i s)) i 0 = Some ?m"
    using none find_snoc [of "is_matching_txn_node i 0" "tt_list ?t ?q" ?m]
    by (simp add: get_tman_def get_new [OF none g] tt_lookup_def is_matching_txn_node_def)
  then have new: "tman e (get_tman e i s) i = ?m" by (simp add: tman_def)
  have free: "tt_free (txn_table (get_tman e i s)) = tt_free t'"
    by (simp add: get_tman_def get_new [OF none g])
  have sub: "set (tt_free t' j) \<subseteq> set (tt_free ?t j)" for j
    using g by (auto simp: TxnManPool_get_def Let_def split: list.splits if_splits)
  have "vote_inv e ?m" if n: "NODE_CNT e \<noteq> 0"
  proof -
    obtain m0 where m0: "m = TxnManager_init m0" "m0 = new_TxnManager e \<or> (\<exists>j. m0 \<in> set (tt_free ?t j))"
    proof (cases "tt_free ?t (i mod ucast (g_total_thread_cnt e))")
      case Nil
      then show ?thesis using g that [of "new_TxnManager e"] by (simp add: TxnManPool_get_def)
    next
      case (Cons x xs)
      then have "x \<in> set (tt_free ?t (i mod ucast (g_total_thread_cnt e)))" by simp
      moreover have "m = TxnManager_init x" using Cons g by (simp add: TxnManPool_get_def)
      ultimately show ?thesis using that [of x] by blast
    qed
    then have "vote_inv e m0" "clean m0"
      using assms n new_vote_inv inv by (auto simp: votes_ok_def tt_inv_def)
    then show ?thesis unfolding m0(1) by (rule init_vote_inv [OF _ _ n])
  qed
  then have "vote_inv e (tman e (get_tman e i s) j)" if "NODE_CNT e \<noteq> 0" "has_tman e (get_tman e i s) j" for j
    using that assms inv by (cases "j = i") (auto simp: new votes_ok_def tman_get_other)
  moreover have "vote_inv e m" if "NODE_CNT e \<noteq> 0" "m \<in> set (tt_free t' j)" for m j
    using that subsetD [OF sub [of j]] assms unfolding votes_ok_def by blast
  ultimately show ?thesis using inv by (simp add: votes_ok_def free)
qed

lemma votes_ok_upd:
  assumes "votes_ok e s" and f: "keeps_ids f" and "\<And>t. NODE_CNT e \<noteq> 0 \<Longrightarrow> vote_inv e t \<Longrightarrow> vote_inv e (f t)"
  shows "votes_ok e (upd_tman e i f s)"
proof -
  have "vote_inv e (tman e (upd_tman e i f s) j)" if "NODE_CNT e \<noteq> 0" "has_tman e s j" for j
    using that assms by (cases "j = i") (simp_all add: votes_ok_def)
  moreover have "tt_free (txn_table (upd_tman e i f s)) = tt_free (txn_table s)"
    by (simp add: upd_tman_def tt_update_def)
  ultimately show ?thesis using assms(1) f by (simp add: votes_ok_def)
qed

lemma votes_ok_step: "votes_ok e s \<Longrightarrow> vote_step e f \<Longrightarrow> votes_ok e (upd_tman e i f s)"
  by (rule votes_ok_upd) (simp_all add: vote_step_def)

lemma votes_ok_count: "votes_ok e s \<Longrightarrow> votes_ok e (upd_tman e i (\<lambda>t. snd (count_vote e m t)) s)"
  by (rule votes_ok_upd) (simp_all add: count_vote_inv)

lemma votes_ok_release:
  assumes "votes_ok e s"
  shows "votes_ok e (release_txn_man e i s)"
proof (cases "tt_lookup e (txn_table s) i 0")
  case None
  then have "txn_table (release_txn_man e i s) = txn_table s"
    by (simp add: release_txn_man_def release_transaction_manager_def)
  then show ?thesis using assms votes_ok_cong by blast
next
  case (Some m)
  have inv: "table_inv e s" using assms by (simp add: votes_ok_def)
  have m: "has_tman e s i" "tman e s i = m" using Some by (simp_all add: has_tman_def tman_def)
  have "set (tt_free (txn_table (release_txn_man e i s)) j) \<subseteq> insert (TxnManager_release e m) (set (tt_free (txn_table s) j))" for j
    by (auto simp: release_txn_man_def release_eq [OF inv Some] TxnManPool_put_def Let_def)
  moreover have "vote_inv e (TxnManager_release e m)" if "NODE_CNT e \<noteq> 0"
    using assms m that release_vote_inv by (auto simp: votes_ok_def)
  ultimately have "vote_inv e m'" if "NODE_CNT e \<noteq> 0" "m' \<in> set (tt_free (txn_table (release_txn_man e i s)) j)" for m' j
    using that assms by (fastforce simp: votes_ok_def)
  then show ?thesis using assms inv by (auto simp: votes_ok_def)
qed

lemma upd_absent: "\<not> has_tman e s i \<Longrightarrow> upd_tman e i f s = s"
proof -
  assume "\<not> has_tman e s i"
  then have "\<forall>m \<in> set (tt_list (txn_table s) (i mod pool_size e)). \<not> is_matching_txn_node i 0 m"
    by (auto simp: has_tman_def tt_lookup_None is_matching_txn_node_def)
  then have "tt_update e i 0 f (txn_table s) = txn_table s"
    by (simp add: tt_update_def map_idI)
  then show ?thesis by (simp add: upd_tman_def)
qed

lemma tt_free_upd [simp]: "tt_free (txn_table (upd_tman e i f s)) = tt_free (txn_table s)"
  by (simp add: upd_tman_def tt_update_def)

lemma send_newview_other:
  "j \<noteq> tid \<Longrightarrow> tman e (send_hotstuff_newview e n tid s) j = tman e s j"
  "has_tman e (send_hotstuff_newview e n tid s) j = has_tman e s j"
  "tt_free (txn_table (send_hotstuff_newview e n tid s)) = tt_free (txn_table s)"
  "table_inv e s \<Longrightarrow> table_inv e (send_hotstuff_newview e n tid s)"
  by (simp_all add: send_hotstuff_newview_def Let_def split: option.splits)

lemma votes_ok_newview:
  assumes "votes_ok e s"
  shows "votes_ok e (send_hotstuff_newview e n tid s)"
proof -
  have "vote_inv e (tman e (send_hotstuff_newview e n tid s) j)" if "NODE_CNT e \<noteq> 0" "has_tman e s j" for j
    using that assms send_hotstuff_newview_inv [of e s tid n]
    by (cases "j = tid") (simp_all add: votes_ok_def send_newview_other(1))
  then show ?thesis using assms by (simp add: votes_ok_def send_newview_other(2-4))
qed

interpretation vts: node_iter e "votes_ok e" "\<lambda>_ _. True" "\<lambda>_. True" for e
proof (unfold_locales, goal_cases)
  case (1 s s')
  then show ?case using votes_ok_cong [of s' s e] by (simp add: obs_def obs0_def)
next
  case (4 s q h i)
  then show ?case using votes_ok_cong [of "put_hash_to_QC i h q s" s] by simp
next
  case (5 s i h)
  then show ?case using votes_ok_cong [of "snd (hash_to_QC_at i h s)" s] by simp
next
  case (6 s i h)
  then show ?case using votes_ok_cong [of "erase_hash_to_QC i h s" s] by simp
next
  case (7 s i h ty)
  then show ?case using votes_ok_cong [of "set_qc_type i h ty s" s] by (simp add: set_qc_type_def case_prod_beta)
next
  case (10 s i v)
  then show ?case using votes_ok_cong [of "set_view e i v s" s] by simp
next
  case (12 s i)
  then show ?case using votes_ok_cong [of "run_txn e i s" s] by simp
next
  case (13 s v)
  then show ?case using votes_ok_cong [of "set_expectedExecuteCount e v s" s] by (simp add: set_expected_frame)
next
  case (14 s s')
  then show ?case using votes_ok_cong [of s' s e] by (simp add: obs0_def)
qed (simp_all add: votes_ok_get votes_ok_step votes_ok_count votes_ok_release votes_ok_newview)

section \<open>Progress of execution\<close>

lemma newview_store [simp]:
  "db (send_hotstuff_newview e n tid s) = db s"
  "expectedExecuteCount (send_hotstuff_newview e n tid s) = expectedExecuteCount s"
  by (simp_all add: send_hotstuff_newview_def Let_def send_out_def split: option.splits)

lemma count_frame [simp]:
  "expectedExecuteCount (reenqueue_one q m s) = expectedExecuteCount s"
  "expectedExecuteCount (set_view e i v s) = expectedExecuteCount s"
  "expectedExecuteCount (put_hash_to_QC i h qc s) = expectedExecuteCount s"
  "expectedExecuteCount (erase_hash_to_QC i h s) = expectedExecuteCount s"
  "expectedExecuteCount (snd (hash_to_QC_at i h s)) = expectedExecuteCount s"
  "expectedExecuteCount (release_txn_man e i s) = expectedExecuteCount s"
  "db (erase_hash_to_QC i h s) = db s"
proof -
  show *: "expectedExecuteCount (reenqueue_one q m s) = expectedExecuteCount s" for q m s
    by (simp add: reenqueue_one_def sem_post_worker_def push_prior_def push_work_def)
  show "expectedExecuteCount (set_view e i v s) = expectedExecuteCount s"
    using * by (simp add: set_view_def Let_def reenqueue_def fold_frame [where f = expectedExecuteCount])
qed (simp_all add: put_hash_to_QC_def erase_hash_to_QC_def hash_to_QC_at_def release_txn_man_def split: option.splits)

interpretation prg: node_steps e "\<lambda>s. db s = d \<and> expectedExecuteCount s = c" "\<lambda>_ _. True" "\<lambda>_. True" for e d c
  by unfold_locales (simp_all add: obs_def obs0_def set_qc_type_def case_prod_beta)

text \<open>
  An iteration of a worker thread leaves the store and the counter alone, or it executes the
  batch that the counter names, and the counter moves on by one batch.
\<close>

lemma execute_count:
  "process_hotstuff_execute e x s = Some (r, s') \<Longrightarrow>
     expectedExecuteCount s' = get_batch_size e + m_txn_id (ex_base x)"
  by (auto simp: process_hotstuff_execute_def Let_def bind_eq_Some_conv split: if_splits prod.splits)

lemma worker_handle_progress:
  assumes run: "worker_handle e now thd q m s = Some s'"
    and cls: "\<And>x. m = MExecute x \<Longrightarrow> m_rtype (ex_base x) = EXECUTE_MSG"
  shows "(db s' = db s \<and> expectedExecuteCount s' = expectedExecuteCount s) \<or>
    (\<exists>x r s2. m = MExecute x \<and> m_txn_id (ex_base x) = expectedExecuteCount s \<and>
       process_hotstuff_execute e x s = Some (r, s2) \<and> db s' = db s2 \<and>
       expectedExecuteCount s' = get_batch_size e + expectedExecuteCount s)"
proof (cases "\<exists>x. m = MExecute x")
  case False
  then have "wp (\<lambda>s'. db s' = db s \<and> expectedExecuteCount s' = expectedExecuteCount s) (worker_handle e now thd q m s)"
    by (intro prg.worker_handle_wp) auto
  then show ?thesis using run by (simp add: wp_def)
next
  case True
  then obtain x where m: "m = MExecute x" by blast
  have rt: "\<not> needs_txn_man m" "msg_rtype m = EXECUTE_MSG" using cls m by (simp_all add: needs_txn_man_def)
  have "worker_handle e now thd q m s =
      (if late_msg e s m then Some s
       else if m_txn_id (ex_base x) \<noteq> expectedExecuteCount s then enqueue e m s
       else worker_process e now thd q m None s)"
    using rt unfolding worker_handle_def exception_msg_handling_def m by (simp add: get_expectedExecuteCount_def)
  then consider "s' = s" | "enqueue e m s = Some s'"
    | "m_txn_id (ex_base x) = expectedExecuteCount s" "worker_process e now thd q m None s = Some s'"
    using run by (metis option.inject)
  then show ?thesis
  proof cases
    case 2
    then show ?thesis using obs_enqueue by (auto simp: obs_def obs0_def)
  next
    case 3
    then obtain r s2 where x: "process_hotstuff_execute e x s = Some (r, s2)"
        and f: "worker_finish e thd q m r s2 = Some s'"
      by (auto simp: worker_process_def process_def m bind_eq_Some_conv)
    have "db s' = db s2 \<and> expectedExecuteCount s' = expectedExecuteCount s2"
      using wpD [OF prg.finish_wp f] by auto
    then show ?thesis using 3(1) m x execute_count [OF x] by auto
  qed auto
qed

section \<open>Reachable states\<close>

text \<open>
  Steps of a replica: the input threads hand over a message, whatever it is; a worker
  thread does one iteration; the start-up code sends the keys.
\<close>

inductive reachable :: "env \<Rightarrow> keystore \<Rightarrow> node \<Rightarrow> bool" for e k where
  init: "reachable e k (init_node e k)"
| receive: "reachable e k s \<Longrightarrow> enqueue e m s = Some s' \<Longrightarrow> reachable e k s'"
| work: "reachable e k s \<Longrightarrow> worker_iteration e fuel now thd s = Some s' \<Longrightarrow> reachable e k s'"
| start: "reachable e k s \<Longrightarrow> reachable e k (send_key e s)"
| start_secp: "reachable e k s \<Longrightarrow> reachable e k (send_public_key e pk s)"

inductive_cases reachableE: "reachable e k s"

lemma obs_send_key: "obs (send_key e s) = obs s" "obs (send_public_key e pk s) = obs s"
  by (simp_all add: send_key_def send_public_key_def keyex_msg_def obs_fold obs_simps)

context node_iter
begin

lemma reachable_keeps:
  assumes "P (init_node e k)" and "\<And>m s. admissible e okv rel m s" and "reachable e k s"
  shows "P s"
  using assms(3)
proof induction
  case (receive s m s')
  then show ?case using enqueue_keeps by blast
next
  case (work s fuel now thd s')
  then show ?case using worker_iteration_wp [of s fuel now thd] assms(2) by (simp add: wp_def)
qed (use assms(1) frame obs_send_key in blast)+

end

lemma reachable_qcs_ok: "reachable e k s \<Longrightarrow> qcs_ok s"
  by (rule qcm.reachable_keeps) (auto simp: qcs_ok_def qc_map_ok_def init_node_def)

lemma reachable_votes_ok: "reachable e k s \<Longrightarrow> votes_ok e s"
  by (rule vts.reachable_keeps)
    (auto simp: votes_ok_def init_node_def TxnTable_init_def tt_inv_def has_tman_def tt_lookup_def)

lemma reachable_vote_inv:
  "reachable e k s \<Longrightarrow> NODE_CNT e \<noteq> 0 \<Longrightarrow> has_tman e s i \<Longrightarrow> vote_inv e (tman e s i)"
  using reachable_votes_ok by (auto simp: votes_ok_def)

end
