(* ===== verification/Agreement.thy ===== *)
theory Agreement
  imports Reachability
begin

text \<open>
  Several replicas.  Correct replicas run the worker threads of the code; the others do what they
  like.  Under the assumption that a vote in the name of a correct replica is one that this replica
  has sent, no two correct replicas see quorums for different hashes in the managers of the same
  transaction identifier, that is in the same view of the same instance.
\<close>

section \<open>The votes of one replica\<close>

text \<open>The hashes that a replica has voted for with manager \<open>tid\<close>.\<close>

definition cast_votes :: "u64 \<Rightarrow> node \<Rightarrow> string set" where
  "cast_votes tid s = {sync_hash n | n d. (MSync n, d) \<in> set (outbox s) \<and> m_txn_id (sync_base n) = tid}"

lemma cast_votes_sent:
  "cast_votes tid s = {sync_hash n | n d. (MSync n, d) \<in> set (sent_votes s) \<and> m_txn_id (sync_base n) = tid}"
  by (auto simp: cast_votes_def sent_votes_def)

lemma cast_votes_obs: "obs s' = obs s \<Longrightarrow> cast_votes tid s' = cast_votes tid s"
  by (simp add: cast_votes_sent obs_def obs0_def)

lemma cast_votes_outbox: "outbox s' = outbox s \<Longrightarrow> cast_votes tid s' = cast_votes tid s"
  by (simp add: cast_votes_def)

text \<open>
  The invariant of a replica for the manager \<open>tid\<close>: it has voted for one hash at most, and if
  so the manager remembers it; a voter it has counted is known to have voted (\<open>V\<close>) or is the
  replica itself.  \<open>X\<close> are votes that have been cast before.
\<close>

definition one_vote :: "env \<Rightarrow> u64 \<Rightarrow> string set \<Rightarrow> (u64 \<Rightarrow> string \<Rightarrow> bool) \<Rightarrow> node \<Rightarrow> bool" where
  "one_vote e tid X V s \<longleftrightarrow> tid \<noteq> UINT64_MAX \<and> votes_ok e s \<and> X \<subseteq> cast_votes tid s \<and>
     (\<forall>h \<in> cast_votes tid s. \<forall>h' \<in> cast_votes tid s. h = h') \<and>
     (cast_votes tid s \<noteq> {} \<longrightarrow> has_tman e s tid \<and> tm_sync_sent (tman e s tid)) \<and>
     (has_tman e s tid \<longrightarrow> (\<forall>h. \<forall>r \<in> set (hv_voters h (tm_hash_voters (tman e s tid))).
        V r h \<or> r = node_id e \<and> h \<in> cast_votes tid s))"

lemma one_vote_cong:
  assumes "txn_table s' = txn_table s" and "outbox s' = outbox s"
  shows "one_vote e tid X V s' = one_vote e tid X V s"
  using assms votes_ok_cong [OF assms(1), of e] cast_votes_outbox [OF assms(2), of tid]
  by (simp add: one_vote_def tman_def has_tman_def)

lemma one_vote_frame: "one_vote e tid X V s \<Longrightarrow> obs s' = obs s \<Longrightarrow> one_vote e tid X V s'"
  using votes_ok_cong [of s' s e] cast_votes_obs [of s' s tid]
  by (simp add: one_vote_def tman_def has_tman_def obs_def obs0_def)

lemma one_vote_mono: "one_vote e tid X V s \<Longrightarrow> (\<And>r h. V r h \<Longrightarrow> W r h) \<Longrightarrow> one_vote e tid X W s"
  unfolding one_vote_def by blast


section \<open>The operations keep the invariant\<close>

lemma one_vote_get:
  assumes "one_vote e tid X V s"
  shows "one_vote e tid X V (get_tman e i s)"
proof -
  have inv: "table_inv e s" using assms by (simp add: one_vote_def votes_ok_def)
  have cast: "cast_votes tid (get_tman e i s) = cast_votes tid s" by (rule cast_votes_outbox) simp
  have new: "\<not> has_tman e s tid \<Longrightarrow> tm_hash_voters (tman e (get_tman e tid s) tid) = []"
    using tman_get_new [OF inv] by (simp add: clean_def)
  show ?thesis
  proof (cases "has_tman e s tid")
    case True
    then show ?thesis using assms inv votes_ok_get by (simp add: one_vote_def cast)
  next
    case False
    then show ?thesis using assms inv votes_ok_get new unfolding one_vote_def cast by (cases "i = tid") auto
  qed
qed

lemma one_vote_upd:
  assumes "one_vote e tid X V s" and "vote_step e f"
  shows "one_vote e tid X V (upd_tman e i f s)"
proof -
  have f: "keeps_ids f" "\<And>t. tm_hash_voters (f t) = tm_hash_voters t" "\<And>t. tm_sync_sent (f t) = tm_sync_sent t"
    using assms(2) by (simp_all add: vote_step_def)
  have cast: "cast_votes tid (upd_tman e i f s) = cast_votes tid s" by (rule cast_votes_outbox) (simp add: upd_tman_def)
  have "has_tman e s tid \<Longrightarrow> tm_hash_voters (tman e (upd_tman e i f s) tid) = tm_hash_voters (tman e s tid) \<and>
      tm_sync_sent (tman e (upd_tman e i f s) tid) = tm_sync_sent (tman e s tid)"
    using f by (cases "tid = i") simp_all
  then show ?thesis using assms votes_ok_step f(1) by (auto simp: one_vote_def cast)
qed

lemma count_vote_sync_sent: "tm_sync_sent (snd (count_vote e m t)) = tm_sync_sent t"
  by (cases "vote_fresh e m t") (simp_all add: count_vote_fresh(6) counted_def after_vote_def count_vote_stale set_new_viewed_def Let_def)

lemma count_vote_voters:
  "set (hv_voters h (tm_hash_voters (snd (count_vote e m t)))) \<subseteq>
     set (hv_voters h (tm_hash_voters t)) \<union> (if h = sync_hash m then {m_return_node_id (sync_base m)} else {})"
  by (cases "vote_fresh e m t")
    (auto simp: count_vote_fresh(2) counted_def after_vote_def count_vote_stale set_new_viewed_def Let_def)

lemma one_vote_count:
  assumes "one_vote e tid X V s" and "i = tid \<longrightarrow> V (m_return_node_id (sync_base m)) (sync_hash m)"
  shows "one_vote e tid X V (upd_tman e i (\<lambda>t. snd (count_vote e m t)) s)" (is "one_vote e tid X V ?s")
proof -
  have cast: "cast_votes tid ?s = cast_votes tid s" by (rule cast_votes_outbox) (simp add: upd_tman_def)
  have ok: "votes_ok e ?s" using assms(1) votes_ok_count by (simp add: one_vote_def)
  have "tm_sync_sent (tman e ?s tid) = tm_sync_sent (tman e s tid)" if "has_tman e s tid"
    using that by (cases "i = tid") (simp_all add: count_vote_sync_sent)
  moreover have "V r h \<or> r = node_id e \<and> h \<in> cast_votes tid s"
    if "has_tman e s tid" "r \<in> set (hv_voters h (tm_hash_voters (tman e ?s tid)))" for r h
  proof (cases "r \<in> set (hv_voters h (tm_hash_voters (tman e s tid)))")
    case True
    then show ?thesis using assms(1) that(1) by (auto simp: one_vote_def)
  next
    case False
    then have "i = tid" using that(2) by (cases "i = tid") simp_all
    moreover from this have "h = sync_hash m \<and> r = m_return_node_id (sync_base m)"
      using False that count_vote_voters [of h e m "tman e s tid"] by (auto split: if_splits)
    ultimately show ?thesis using assms(2) by simp
  qed
  ultimately show ?thesis using assms(1) ok by (auto simp: one_vote_def cast)
qed

lemma one_vote_release:
  assumes "one_vote e tid X V s" and "i \<noteq> tid"
  shows "one_vote e tid X V (release_txn_man e i s)"
proof -
  have inv: "table_inv e s" using assms(1) by (simp add: one_vote_def votes_ok_def)
  have "cast_votes tid (release_txn_man e i s) = cast_votes tid s" by (rule cast_votes_outbox) simp
  then show ?thesis using assms inv votes_ok_release by (simp add: one_vote_def)
qed

text \<open>What \<open>send_hotstuff_newview\<close> votes for.\<close>

definition newview_hash :: "SpotLessSyncMsg option \<Rightarrow> TxnManager \<Rightarrow> string" where
  "newview_hash n t = (case n of None \<Rightarrow> tm_hash t | Some m \<Rightarrow> sync_hash m)"

lemma new_Sync_txn_id: "m_txn_id (sync_base (new_Sync_txn e s t)) = tm_txn_id t" "sync_hash (new_Sync_txn e s t) = tm_hash t"
  by (simp_all add: new_Sync_txn_def Sync_copy_from_txn_def mcopy_from_txn_def copy_latency_def Let_def)

lemma newview_out:
  assumes "\<not> tm_sync_sent (tman e s i)"
  shows "\<exists>ms. outbox (send_hotstuff_newview e n i s) = outbox s @ ms \<and> ms \<noteq> [] \<and>
    (\<forall>(m, d) \<in> set ms. \<exists>v. m = MSync v \<and> m_txn_id (sync_base v) = tm_txn_id (tman e s i) \<and>
       sync_hash v = newview_hash n (tman e s i))"
proof -
  define s2 where "s2 = (case n of Some m \<Rightarrow> upd_tman e i (set_hash (sync_hash m)) (upd_tman e i (\<lambda>t. t\<lparr>tm_sync_sent := True\<rparr>) s)
      | None \<Rightarrow> upd_tman e i (\<lambda>t. t\<lparr>tm_sync_sent := True\<rparr>) s)"
  have t2: "tm_txn_id (tman e s2 i) = tm_txn_id (tman e s i)"
    by (cases "has_tman e s i"; cases n) (simp_all add: s2_def keeps_ids_def set_hash_def upd_absent)
  have h2: "n = None \<Longrightarrow> tm_hash (tman e s2 i) = tm_hash (tman e s i)"
    by (cases "has_tman e s i") (simp_all add: s2_def keeps_ids_def upd_absent)
  have out2: "outbox s2 = outbox s" by (simp add: s2_def split: option.splits)
  show ?thesis
  proof (cases n)
    case None
    then have s2: "s2 = upd_tman e i (\<lambda>t. t\<lparr>tm_sync_sent := True\<rparr>) s" by (simp add: s2_def)
    show ?thesis
      using assms t2 h2 [OF None] unfolding send_hotstuff_newview_def None Let_def option.case s2 [symmetric]
      by (simp add: send_out_def out2 new_Sync_txn_id newview_hash_def Sync_digital_sign_def Let_def)
  next
    case (Some m)
    then have s2: "s2 = upd_tman e i (set_hash (sync_hash m)) (upd_tman e i (\<lambda>t. t\<lparr>tm_sync_sent := True\<rparr>) s)"
      by (simp add: s2_def)
    show ?thesis
      using assms t2 unfolding send_hotstuff_newview_def Some Let_def option.case s2 [symmetric]
      by (simp add: send_out_def out2 new_Sync_txn_id newview_hash_def Sync_digital_sign_def Let_def)
  qed
qed

lemma newview_cast:
  assumes "\<not> tm_sync_sent (tman e s i)"
  shows "cast_votes tid (send_hotstuff_newview e n i s) =
    cast_votes tid s \<union> (if tm_txn_id (tman e s i) = tid then {newview_hash n (tman e s i)} else {})"
proof -
  obtain ms where ms: "outbox (send_hotstuff_newview e n i s) = outbox s @ ms" "ms \<noteq> []"
    "\<forall>(m, d) \<in> set ms. \<exists>v. m = MSync v \<and> m_txn_id (sync_base v) = tm_txn_id (tman e s i) \<and>
       sync_hash v = newview_hash n (tman e s i)"
    using newview_out [OF assms, of n] by blast
  let ?L = "\<lambda>xs. {sync_hash n | n d. (MSync n, d) \<in> set xs \<and> m_txn_id (sync_base n) = tid}"
  have "?L ms = (if tm_txn_id (tman e s i) = tid then {newview_hash n (tman e s i)} else {})" (is "_ = ?R")
  proof
    show "?L ms \<subseteq> ?R" using ms(3) by fastforce
    obtain v d where "(MSync v, d) \<in> set ms" using ms(2,3) by (cases ms) fastforce+
    moreover from this have "m_txn_id (sync_base v) = tm_txn_id (tman e s i)" "sync_hash v = newview_hash n (tman e s i)"
      using ms(3) by fastforce+
    ultimately show "?R \<subseteq> ?L ms" by (auto split: if_splits) (metis (no_types))
  qed
  moreover have "?L (outbox s @ ms) = ?L (outbox s) \<union> ?L ms" unfolding set_append by blast
  ultimately show ?thesis unfolding cast_votes_def ms(1) by simp
qed


lemma newview_voters:
  assumes "has_tman e s i" and "\<not> tm_sync_sent (tman e s i)"
  shows "set (hv_voters h (tm_hash_voters (tman e (send_hotstuff_newview e n i s) i))) \<subseteq>
    set (hv_voters h (tm_hash_voters (tman e s i))) \<union> (if h = newview_hash n (tman e s i) then {node_id e} else {})"
    and "tm_sync_sent (tman e (send_hotstuff_newview e n i s) i)"
proof -
  obtain own share where c: "tman e (send_hotstuff_newview e n i s) i = cast e n own share (tman e s i)"
    using send_hotstuff_newview_tman [OF assms] by blast
  show "tm_sync_sent (tman e (send_hotstuff_newview e n i s) i)" by (simp add: c)
  show "set (hv_voters h (tm_hash_voters (tman e (send_hotstuff_newview e n i s) i))) \<subseteq>
    set (hv_voters h (tm_hash_voters (tman e s i))) \<union> (if h = newview_hash n (tman e s i) then {node_id e} else {})"
    unfolding c cast_def
    by (cases n) (auto simp: Let_def vote_own_push set_new_viewed_def set_hash_def newview_hash_def)
qed

lemma one_vote_newview:
  assumes "one_vote e tid X V s"
  shows "one_vote e tid X V (send_hotstuff_newview e n i s)" (is "one_vote e tid X V ?s")
proof (cases "tm_sync_sent (tman e s i)")
  case True
  then show ?thesis using assms by (simp add: send_hotstuff_newview_def Let_def)
next
  case False
  have ok: "votes_ok e ?s" using assms votes_ok_newview by (simp add: one_vote_def)
  show ?thesis
  proof (cases "i = tid \<and> has_tman e s tid")
    case True
    then have none: "cast_votes tid s = {}" using False assms by (auto simp: one_vote_def)
    have cast: "cast_votes tid ?s = {newview_hash n (tman e s tid)}"
      using newview_cast [OF False, of tid n] True none by simp
    have "V r h \<or> r = node_id e \<and> h \<in> cast_votes tid ?s"
      if "r \<in> set (hv_voters h (tm_hash_voters (tman e ?s tid)))" for r h
      using that newview_voters(1) [of e s tid h n] True False assms none
      unfolding one_vote_def cast by (auto split: if_splits)
    moreover have "X = {}" "tid \<noteq> UINT64_MAX" using assms none by (simp_all add: one_vote_def)
    ultimately show ?thesis
      using True ok newview_voters(2) [of e s tid n] False cast by (simp add: one_vote_def send_newview_other(2))
  next
    case other: False
    then have "tm_txn_id (tman e s i) \<noteq> tid"
      using assms tman_id [of e s i]
      by (cases "has_tman e s i") (auto simp: one_vote_def has_tman_def tman_def new_TxnManager_def)
    then have cast: "cast_votes tid ?s = cast_votes tid s" using newview_cast [OF False, of tid n] by simp
    have "has_tman e s tid \<Longrightarrow> tman e ?s tid = tman e s tid" using other send_newview_other(1) by metis
    then show ?thesis using assms ok by (auto simp: one_vote_def cast send_newview_other(2))
  qed
qed

interpretation ovt: node_exec e "one_vote e tid X V"
  "\<lambda>m i. i = tid \<longrightarrow> V (m_return_node_id (sync_base m)) (sync_hash m)" "\<lambda>i. i \<noteq> tid" for e tid X V
proof (unfold_locales, goal_cases)
  case (1 s s')
  then show ?case by (rule one_vote_frame)
next
  case (4 s q h i)
  then show ?case using one_vote_cong [of "put_hash_to_QC i h q s" s] by simp
next
  case (5 s i h)
  then show ?case using one_vote_cong [of "snd (hash_to_QC_at i h s)" s] by simp
next
  case (6 s i h)
  then show ?case using one_vote_cong [of "erase_hash_to_QC i h s" s] by (simp add: erase_hash_to_QC_def)
next
  case (7 s i h ty)
  then show ?case using one_vote_cong [of "set_qc_type i h ty s" s] by (simp add: set_qc_type_def case_prod_beta)
next
  case (10 s i v)
  then show ?case using one_vote_cong [of "set_view e i v s" s] by simp
next
  case (12 s i)
  then show ?case using one_vote_cong [of "run_txn e i s" s] by simp
next
  case (13 s v)
  then show ?case using one_vote_cong [of "set_expectedExecuteCount e v s" s]
    by (simp add: set_expected_frame set_expectedExecuteCount_def execute_msg_heap_pop_def Let_def)
qed (simp_all add: one_vote_get one_vote_upd one_vote_count one_vote_release one_vote_newview)


section \<open>A system of replicas\<close>

text \<open>
  Replica \<open>i\<close> runs the program with its own identifier; \<open>C\<close> are the correct replicas.
  A vote is authentic if it comes from a replica and, where that one is correct, the replica has
  sent a vote for this hash with this identifier.
\<close>

definition at_replica :: "env \<Rightarrow> u32 \<Rightarrow> env" where
  "at_replica e i = e\<lparr>g_node_id := i\<rparr>"

definition has_voted :: "env \<Rightarrow> u32 set \<Rightarrow> u64 \<Rightarrow> (u32 \<Rightarrow> node) \<Rightarrow> u64 \<Rightarrow> string \<Rightarrow> bool" where
  "has_voted e C tid \<sigma> r h \<longleftrightarrow> (\<exists>j. r = ucast j \<and> j < NODE_CNT e \<and> (j \<in> C \<longrightarrow> h \<in> cast_votes tid (\<sigma> j)))"

definition authentic :: "env \<Rightarrow> u32 set \<Rightarrow> (u32 \<Rightarrow> node) \<Rightarrow> SpotLessSyncMsg \<Rightarrow> bool" where
  "authentic e C \<sigma> m \<longleftrightarrow>
     has_voted e C (m_txn_id (sync_base m)) \<sigma> (m_return_node_id (sync_base m)) (sync_hash m)"

text \<open>
  The steps of the system: a worker thread of a correct replica handles a message, at any time and
  whatever the message is, but for two restrictions: votes are authentic, and a checkpoint does
  not release the manager \<open>tid\<close>.  The queues of a replica are left out: they only restrict which
  messages a thread handles when.  The replicas outside \<open>C\<close> have no state; the messages are
  theirs.
\<close>

inductive system_run :: "env \<Rightarrow> (u32 \<Rightarrow> keystore) \<Rightarrow> u32 set \<Rightarrow> u64 \<Rightarrow> (u32 \<Rightarrow> node) \<Rightarrow> bool" for e k C tid where
  init: "system_run e k C tid (\<lambda>i. init_node (at_replica e i) (k i))"
| handle: "system_run e k C tid \<sigma> \<Longrightarrow> i \<in> C \<Longrightarrow>
    worker_handle (at_replica e i) now thd q m (\<sigma> i) = Some s' \<Longrightarrow>
    admissible (at_replica e i) (\<lambda>n _. authentic e C \<sigma> n) (\<lambda>j. j \<noteq> tid) m (\<sigma> i) \<Longrightarrow>
    system_run e k C tid (\<sigma>(i := s'))"

inductive_cases system_runE: "system_run e k C tid \<sigma>"

lemma at_replica_simps [simp]:
  "NODE_CNT (at_replica e i) = NODE_CNT e" "nf (at_replica e i) = nf e" "fp1 (at_replica e i) = fp1 e"
  "node_id (at_replica e i) = ucast i"
  by (simp_all add: at_replica_def nf_def fp1_def g_min_invalid_nodes_def)

lemma one_vote_init: "tid \<noteq> UINT64_MAX \<Longrightarrow> one_vote e tid {} V (init_node e k)"
  using reachable_votes_ok [OF reachable.init, of e k]
  by (simp add: one_vote_def cast_votes_def init_node_def has_tman_def TxnTable_init_def tt_lookup_def)

lemma one_vote_handle:
  assumes "one_vote e tid X V s" and "worker_handle e now thd q m s = Some s'"
    and "admissible e (\<lambda>n i. i = tid \<longrightarrow> V (m_return_node_id (sync_base n)) (sync_hash n)) (\<lambda>j. j \<noteq> tid) m s"
  shows "one_vote e tid X V s'"
  using ovt.worker_handle_all_wp [OF assms(1,3)] assms(2) by (rule wpD)

lemma one_vote_keep: "one_vote e tid X V s \<Longrightarrow> one_vote e tid (cast_votes tid s) V s"
  by (simp add: one_vote_def)

lemma system_one_vote:
  assumes "system_run e k C tid \<sigma>" and "tid \<noteq> UINT64_MAX"
  shows "one_vote (at_replica e a) tid {} (has_voted e C tid \<sigma>) (\<sigma> a)"
  using assms(1)
proof (induction arbitrary: a)
  case init
  show ?case by (rule one_vote_init [OF assms(2)])
next
  case (handle \<sigma> i now thd q m s')
  have "one_vote (at_replica e i) tid (cast_votes tid (\<sigma> i)) (has_voted e C tid \<sigma>) s'"
  proof (rule one_vote_handle)
    show "one_vote (at_replica e i) tid (cast_votes tid (\<sigma> i)) (has_voted e C tid \<sigma>) (\<sigma> i)"
      by (rule one_vote_keep [OF handle.IH])
    show "worker_handle (at_replica e i) now thd q m (\<sigma> i) = Some s'" by (rule handle.hyps(3))
    show "admissible (at_replica e i) (\<lambda>n j. j = tid \<longrightarrow> has_voted e C tid \<sigma> (m_return_node_id (sync_base n)) (sync_hash n))
        (\<lambda>j. j \<noteq> tid) m (\<sigma> i)"
      using handle.hyps(4) by (auto simp: admissible_def authentic_def split: msg.splits)
  qed
  then have s': "one_vote (at_replica e i) tid {} (has_voted e C tid \<sigma>) s'" "cast_votes tid (\<sigma> i) \<subseteq> cast_votes tid s'"
    by (auto simp: one_vote_def)
  have grow: "has_voted e C tid \<sigma> r h \<Longrightarrow> has_voted e C tid (\<sigma>(i := s')) r h" for r h
    using s'(2) by (auto simp: has_voted_def)
  show ?case
  proof (cases "a = i")
    case True
    have "one_vote (at_replica e i) tid {} (has_voted e C tid (\<sigma>(i := s'))) s'"
      by (rule one_vote_mono [OF s'(1)]) (rule grow)
    with True show ?thesis by (simp only: fun_upd_same)
  next
    case False
    have "one_vote (at_replica e a) tid {} (has_voted e C tid (\<sigma>(i := s'))) (\<sigma> a)"
      by (rule one_vote_mono [OF handle.IH]) (rule grow)
    with False show ?thesis by (simp only: fun_upd_other not_False_eq_True)
  qed
qed

section \<open>Agreement\<close>

text \<open>The voters that a correct replica has counted are replicas, and the correct ones did vote.\<close>

lemma system_voters:
  assumes "system_run e k C tid \<sigma>" and "tid \<noteq> UINT64_MAX" and "a \<in> C" and "a < NODE_CNT e"
    and "has_tman (at_replica e a) (\<sigma> a) tid"
    and "r \<in> set (hv_voters h (tm_hash_voters (tman (at_replica e a) (\<sigma> a) tid)))"
  shows "has_voted e C tid \<sigma> r h"
proof -
  have "has_voted e C tid \<sigma> r h \<or> r = ucast a \<and> h \<in> cast_votes tid (\<sigma> a)"
    using system_one_vote [OF assms(1,2), of a] assms(5,6) by (simp add: one_vote_def)
  then show ?thesis using assms(4) by (auto simp: has_voted_def)
qed

lemma system_distinct:
  assumes "system_run e k C tid \<sigma>" and "tid \<noteq> UINT64_MAX" and "NODE_CNT e \<noteq> 0"
    and "has_tman (at_replica e a) (\<sigma> a) tid"
  shows "distinct (hv_voters h (tm_hash_voters (tman (at_replica e a) (\<sigma> a) tid)))"
  using system_one_vote [OF assms(1,2), of a] assms(3,4) by (simp add: one_vote_def votes_ok_def vote_inv_def)

lemma has_voted_correct: "has_voted e C tid \<sigma> (ucast j) h \<Longrightarrow> j \<in> C \<Longrightarrow> h \<in> cast_votes tid (\<sigma> j)"
proof -
  assume v: "has_voted e C tid \<sigma> (ucast j) h" and "j \<in> C"
  then obtain j' where j': "(ucast j :: u64) = ucast j'" "j' \<in> C \<longrightarrow> h \<in> cast_votes tid (\<sigma> j')"
    by (auto simp: has_voted_def)
  have "j' = j" using arg_cong [OF j'(1), of unat] by (simp add: word_unat_eq_iff)
  with j'(2) \<open>j \<in> C\<close> show "h \<in> cast_votes tid (\<sigma> j)" by simp
qed

lemma agreement_holds:
  assumes run: "system_run e k C tid \<sigma>" and tid: "tid \<noteq> UINT64_MAX" and n: "NODE_CNT e mod 3 = 1"
    and faulty: "card {j. j < NODE_CNT e \<and> j \<notin> C} < unat (fp1 e)"
    and a: "a \<in> C" "a < NODE_CNT e" "has_tman (at_replica e a) (\<sigma> a) tid"
    and b: "b \<in> C" "b < NODE_CNT e" "has_tman (at_replica e b) (\<sigma> b) tid"
    and qa: "unat (nf e) \<le> length (hv_voters h (tm_hash_voters (tman (at_replica e a) (\<sigma> a) tid)))"
    and qb: "unat (nf e) \<le> length (hv_voters h' (tm_hash_voters (tman (at_replica e b) (\<sigma> b) tid)))"
  shows "h = h'"
proof -
  let ?A = "set (hv_voters h (tm_hash_voters (tman (at_replica e a) (\<sigma> a) tid)))"
  let ?B = "set (hv_voters h' (tm_hash_voters (tman (at_replica e b) (\<sigma> b) tid)))"
  let ?F = "{j. j < NODE_CNT e \<and> j \<notin> C}"
  have n0: "NODE_CNT e \<noteq> 0" using n by auto
  have A: "\<And>r. r \<in> ?A \<Longrightarrow> has_voted e C tid \<sigma> r h" and B: "\<And>r. r \<in> ?B \<Longrightarrow> has_voted e C tid \<sigma> r h'"
    using system_voters [OF run tid a] system_voters [OF run tid b] by blast+
  have less: "(ucast j :: u64) < ucast (NODE_CNT e)" if "j < NODE_CNT e" for j
    using that by (simp add: word_less_nat_alt)
  have "unat (fp1 e) \<le> card (?A \<inter> ?B)"
  proof (rule quorum_overlap [OF _ _ _ _ n])
    show "?A \<subseteq> {i. i < ucast (NODE_CNT e)}" "?B \<subseteq> {i. i < ucast (NODE_CNT e)}"
      using A B less by (auto simp: has_voted_def)
    show "unat (nf e) \<le> card ?A" "unat (nf e) \<le> card ?B"
      using qa qb system_distinct [OF run tid n0 a(3)] system_distinct [OF run tid n0 b(3)]
      by (simp_all add: distinct_card)
  qed
  moreover have "card (ucast ` ?F :: u64 set) \<le> card ?F" by (rule card_image_le) simp
  ultimately have "card (ucast ` ?F :: u64 set) < card (?A \<inter> ?B)" using faulty by linarith
  then have "\<not> ?A \<inter> ?B \<subseteq> ucast ` ?F" using card_mono [of "ucast ` ?F :: u64 set" "?A \<inter> ?B"] by auto
  then obtain r where r: "r \<in> ?A" "r \<in> ?B" "r \<notin> ucast ` ?F" by blast
  obtain j where j: "r = ucast j" "j < NODE_CNT e" using A [OF r(1)] by (auto simp: has_voted_def)
  with r(3) have "j \<in> C" by blast
  have "h \<in> cast_votes tid (\<sigma> j)" "h' \<in> cast_votes tid (\<sigma> j)"
    using has_voted_correct [OF _ \<open>j \<in> C\<close>] A [OF r(1)] B [OF r(2)] j(1) by blast+
  then show ?thesis using system_one_vote [OF run tid, of j] by (auto simp: one_vote_def)
qed

end
