(* ===== verification/Message_Queue.thy ===== *)
theory Message_Queue
  imports Packets
begin

text \<open>
  The queues between the worker threads and the sending threads of a replica
  (\<^verbatim>\<open>system/msg_queue.cpp\<close>): \<open>enqueue\<close> signs the message and places it, or deep
  copies of it, in the queues of the sending threads; \<open>dequeue\<close> takes the oldest entry.

  A lock-free queue is a list, oldest entry first, and a push succeeds.  An entry is the
  message with the list \<open>allsign\<close>.  \<open>clock j\<close> is the time at which the copy for sending
  thread \<open>j\<close> is made.  \<open>dest[0]\<close> of an empty vector is \<open>None\<close>.
\<close>

record MessageQueue =
  m_queue :: "u64 \<Rightarrow> (msg \<times> string list) list"
  output_semaphore :: "u64 \<Rightarrow> nat"

abbreviation send_threads :: "env \<Rightarrow> u64" where
  "send_threads e \<equiv> ucast (g_send_thread_cnt e)"

section \<open>Signing\<close>

fun msg_sign :: "env \<Rightarrow> keystore \<Rightarrow> u64 \<Rightarrow> msg \<Rightarrow> msg option" where
  "msg_sign e k d (MClientResponse m) = map_option MClientResponse (CR_sign e k d m)"
| "msg_sign e k d (MClientBatch m) = map_option MClientBatch (CB_sign e k d m)"
| "msg_sign e k d (MCheckpoint m) = Some (MCheckpoint (Checkpoint_sign e k d m))"
| "msg_sign e k d (MSync m) = Some (MSync (Sync_sign e k d m))"
| "msg_sign e k d (MGeneric m) = Some (MGeneric (Generic_sign e k d m))"
| "msg_sign e k d (MProposal m) = map_option MProposal (Proposal_sign e k d m)"
| "msg_sign e k d (MAsk m) = Some (MAsk (Ask_sign e k d m))"
| "msg_sign e k d (MAskResponse m) = map_option MAskResponse (Proposal_sign e k d m)"
| "msg_sign e k d m = Some m"

abbreviation msg_signature :: "msg \<Rightarrow> string" where
  "msg_signature m \<equiv> m_signature (msg_base m)"

definition sign_each :: "env \<Rightarrow> keystore \<Rightarrow> u64 list \<Rightarrow> msg \<Rightarrow> (msg \<times> string list) option" where
  \<comment> \<open>\<open>for (i \<dots>) { msg->sign(dest[i]); entry->allsign.push_back(msg->signature); }\<close>\<close>
  "sign_each e k dest m = fold_option (\<lambda>d (m, sigs). do {
     m \<leftarrow> msg_sign e k d m;
     Some (m, sigs @ [msg_signature m]) }) dest (m, [])"

definition sign_first :: "env \<Rightarrow> keystore \<Rightarrow> u64 list \<Rightarrow> msg \<Rightarrow> msg option" where
  "sign_first e k dest m = (case dest of [] \<Rightarrow> None | d # _ \<Rightarrow> msg_sign e k d m)"

definition enqueue_sign :: "env \<Rightarrow> keystore \<Rightarrow> u64 list \<Rightarrow> msg \<Rightarrow> (msg \<times> string list) option" where
  "enqueue_sign e k dest m =
     (let rt = msg_rtype m
      in if rt = CL_RSP \<or> rt = CL_BATCH
         then map_option (\<lambda>m. (m, [msg_signature m])) (sign_first e k dest m)
         else if rt = PBFT_CHKPT_MSG \<or> rt = SpotLess_SYNC_MSG \<or> rt = SpotLess_ASK_MSG
         then sign_each e k dest m
         else if rt = SpotLess_GENERIC_MSG \<or> rt = SpotLess_PROPOSAL_MSG \<or> rt = SpotLess_ASK_RESPONSE_MSG
         then map_option (\<lambda>m. (m, [])) (sign_first e k dest m)
         else Some (m, []))"

section \<open>Distribution\<close>

definition mq_push :: "env \<Rightarrow> u64 \<Rightarrow> msg \<times> string list \<Rightarrow> MessageQueue \<Rightarrow> MessageQueue" where
  "mq_push e j ent q = q\<lparr>m_queue := (m_queue q)(j := m_queue q j @ [ent]),
     output_semaphore := (if ISSERVER e then (output_semaphore q)(j := output_semaphore q j + 1)
                          else output_semaphore q)\<rparr>"

definition add_dest :: "u64 list \<Rightarrow> msg \<Rightarrow> msg" where
  "add_dest ds = upd_base (\<lambda>b. b\<lparr>m_dest := m_dest b @ ds\<rparr>)"

text \<open>With one destination only its own sending thread gets the message.\<close>

definition skips_thread :: "env \<Rightarrow> u64 list \<Rightarrow> u64 \<Rightarrow> bool" where
  "skips_thread e dest j \<longleftrightarrow> (case dest of [d] \<Rightarrow> d mod send_threads e \<noteq> j | _ \<Rightarrow> False)"

definition push_copy :: "env \<Rightarrow> (u64 \<Rightarrow> u64) \<Rightarrow> u64 list \<Rightarrow> msg \<Rightarrow> string list \<Rightarrow> u64 \<Rightarrow> MessageQueue \<Rightarrow>
    MessageQueue option" where
  "push_copy e clock dest m allsign j q =
     (if skips_thread e dest j then Some q
      else do {
        sz \<leftarrow> msg_get_size e m;
        c \<leftarrow> deep_copy_msg e (clock j) (replicate sz CHR 0x00) m;
        Some (mq_push e j (add_dest dest c, allsign) q) })"

definition broadcast_rtype :: "RemReqType \<Rightarrow> bool" where
  "broadcast_rtype rt \<longleftrightarrow> rt \<in> {PBFT_CHKPT_MSG, SpotLess_SYNC_MSG, SpotLess_GENERIC_MSG,
     SpotLess_PROPOSAL_MSG, SpotLess_ASK_MSG, SpotLess_ASK_RESPONSE_MSG}"

definition single_rtype :: "RemReqType \<Rightarrow> bool" where
  "single_rtype rt \<longleftrightarrow> rt \<in> {INIT_DONE, READY, KEYEX, CL_RSP, CL_BATCH}"

definition distribute :: "env \<Rightarrow> (u64 \<Rightarrow> u64) \<Rightarrow> u64 list \<Rightarrow> msg \<times> string list \<Rightarrow> MessageQueue \<Rightarrow>
    MessageQueue option" where
  \<comment> \<open>the loop makes copies for all threads but the last, which gets the message itself\<close>
  "distribute e clock dest ent q =
     (case ent of (m, allsign) \<Rightarrow> do {
        let last = unat (send_threads e) - 1;
        q \<leftarrow> fold_option (push_copy e clock dest m allsign) (map word_of_nat [0..<last]) q;
        Some (if skips_thread e dest (word_of_nat last) then q
              else mq_push e (word_of_nat last) (add_dest dest m, allsign) q) })"

definition mq_enqueue :: "env \<Rightarrow> keystore \<Rightarrow> (u64 \<Rightarrow> u64) \<Rightarrow> msg \<Rightarrow> u64 list \<Rightarrow> MessageQueue \<Rightarrow>
    MessageQueue option" where
  "mq_enqueue e k clock m dest q = do {
     (m, allsign) \<leftarrow> enqueue_sign e k dest m;
     if single_rtype (msg_rtype m) then
       (case dest of
          [] \<Rightarrow> None
        | d # _ \<Rightarrow> Some (mq_push e (d mod send_threads e) (add_dest [d] m, allsign) q))
     else if broadcast_rtype (msg_rtype m) then distribute e clock dest (m, allsign) q
     else Some q }"

text \<open>\<open>dequeue\<close> by sending thread \<open>td_id\<close>; \<open>delay\<close> is the time the entry has waited.\<close>

definition mq_dequeue :: "env \<Rightarrow> u64 \<Rightarrow> u64 \<Rightarrow> MessageQueue \<Rightarrow> (msg \<times> string list) option \<times> MessageQueue" where
  "mq_dequeue e delay td_id q =
     (let j = td_id mod send_threads e
      in case m_queue q j of
           [] \<Rightarrow> (None, q)
         | (m, allsign) # es \<Rightarrow> (Some (upd_base (\<lambda>b. b\<lparr>m_mq_time := delay\<rparr>) m, allsign),
                                 q\<lparr>m_queue := (m_queue q)(j := es)\<rparr>))"

end
