(* ===== verification/Sending_Facts.thy ===== *)
theory Sending_Facts
  imports Protocol Message_Queue
begin

text \<open>
  Who gets a message: a vote goes to every other replica exactly once, and the message queue
  hands a broadcast to every sending thread that serves one of its destinations.
\<close>

section \<open>Votes reach every other replica\<close>

lemma replicas_list:
  "distinct (map word_of_nat [0..<unat (node_cnt e)] :: u64 list)"
  "set (map word_of_nat [0..<unat (node_cnt e)]) = {i :: u64. i < node_cnt e}"
proof -
  show "distinct (map word_of_nat [0..<unat (node_cnt e)] :: u64 list)"
    using inj_on_of_nat_u64 [of "unat (node_cnt e)"] unat_u64_less [of "node_cnt e"]
    by (simp add: distinct_map atLeast0LessThan)
  show "set (map word_of_nat [0..<unat (node_cnt e)]) = {i :: u64. i < node_cnt e}"
  proof (intro set_eqI iffI)
    fix i :: u64 assume "i \<in> {i. i < node_cnt e}"
    then have "unat i \<in> set [0..<unat (node_cnt e)]" by (simp add: word_less_nat_alt)
    moreover have "i = word_of_nat (unat i)" by simp
    ultimately show "i \<in> set (map word_of_nat [0..<unat (node_cnt e)])"
      unfolding set_map by (rule rev_image_eqI)
  next
    fix i :: u64 assume "i \<in> set (map word_of_nat [0..<unat (node_cnt e)])"
    then obtain n where n: "i = word_of_nat n" "n < unat (node_cnt e)" by auto
    then have "unat i = n" using unat_u64_less [of "node_cnt e"] by (simp add: unat_of_nat_u64)
    with n show "i \<in> {i. i < node_cnt e}" by (simp add: word_less_nat_alt)
  qed
qed

lemma sync_dests_count:
  "count_list (sync_dests e d) j = (if j < node_cnt e \<and> j \<noteq> node_id e \<and> j \<noteq> d then 1 else 0)"
proof -
  have "distinct (sync_dests e d)" "set (sync_dests e d) = {j. j < node_cnt e \<and> j \<noteq> node_id e \<and> j \<noteq> d}"
    using replicas_list [of e] unfolding sync_dests_def by (auto simp del: set_map)
  then show ?thesis by (simp add: count_list_distinct)
qed

definition is_vote :: "string \<Rightarrow> u64 \<Rightarrow> msg \<Rightarrow> bool" where
  "is_vote h v m \<longleftrightarrow> (case m of MSync n \<Rightarrow> sync_hash n = h \<and> sync_view n = v | _ \<Rightarrow> False)"

lemma new_Sync_txn_fields:
  "sync_hash (new_Sync_txn e s t) = tm_hash t" "sync_view (new_Sync_txn e s t) = get_current_view s (tm_instance_id t)"
  by (simp_all add: new_Sync_txn_def Sync_copy_from_txn_def mcopy_from_txn_def Let_def)

lemma vote_broadcast:
  assumes "has_tman e s tid" and "\<not> tm_sync_sent (tman e s tid)" and "g_node_cnt e \<noteq> 0"
  defines "t \<equiv> tman e s tid"
  shows "\<exists>ms. outbox (send_hotstuff_newview e None tid s) = outbox s @ ms \<and>
    (\<forall>m \<in> set ms. is_vote (tm_hash t) (get_current_view s (tm_instance_id t)) (fst m)) \<and>
    (\<forall>j. count_list (concat (map snd ms)) j = (if j < node_cnt e \<and> j \<noteq> node_id e then 1 else 0))"
proof -
  define d where "d = get_view_primary e (get_current_view s (tm_instance_id t) + 1) (tm_instance_id t)"
  have "0 < node_cnt e" using assms(3) by (simp add: word_less_nat_alt unat_gt_0)
  then have d: "d < node_cnt e" by (simp add: d_def get_view_primary_def word_mod_less_divisor)
  define s1 where "s1 = upd_tman e tid (\<lambda>t. t\<lparr>tm_sync_sent := True\<rparr>) s"
  define nv where "nv = new_Sync_txn e s1 (tman e s1 tid)"
  define force where "force = (\<lambda>m :: SpotLessSyncMsg. m\<lparr>sync_base := (sync_base m)\<lparr>m_force := (m_instance_id (sync_base nv) = 0 \<or> m_force (sync_base m))\<rparr>\<rparr>)"
  define sg where "sg = (let m = Sync_digital_sign e (keys s1) nv in m\<lparr>sync_base := (sync_base m)\<lparr>m_sig_empty := False\<rparr>\<rparr>)"
  have out: "outbox (send_hotstuff_newview e None tid s) = outbox s @
      (if node_id e \<noteq> d then [(MSync (force sg), [d])] else []) @ [(MSync (force nv), sync_dests e d)]"
    using assms(2)
    by (simp add: send_hotstuff_newview_def Let_def t_def [symmetric] d_def [symmetric] s1_def [symmetric]
        nv_def [symmetric] send_out_def) (simp add: force_def sg_def Let_def s1_def)
  have v: "sync_hash nv = tm_hash t" "sync_view nv = get_current_view s (tm_instance_id t)"
    using assms(1) by (simp_all add: nv_def new_Sync_txn_fields s1_def t_def get_current_view_def)
  show ?thesis
    unfolding out
    by (intro exI [of _ "(if node_id e \<noteq> d then [(MSync (force sg), [d])] else []) @ [(MSync (force nv), sync_dests e d)]"])
      (use v d in \<open>auto simp: is_vote_def force_def sg_def Sync_digital_sign_def Let_def sync_dests_count\<close>)
qed


section \<open>A broadcast reaches the threads of its destinations\<close>

text \<open>What sending thread \<open>j\<close> finds: a deep copy, or, for the last thread, the message itself.\<close>

definition copy_for :: "env \<Rightarrow> (u64 \<Rightarrow> u64) \<Rightarrow> msg \<Rightarrow> u64 \<Rightarrow> msg" where
  "copy_for e clock m j = (if unat j = unat (send_threads e) - 1 then m else msg_wire e (clock j) m)"

definition queue_gains :: "env \<Rightarrow> (u64 \<Rightarrow> u64) \<Rightarrow> u64 list \<Rightarrow> msg \<Rightarrow> string list \<Rightarrow> nat \<Rightarrow> MessageQueue \<Rightarrow> u64 \<Rightarrow>
    (msg \<times> string list) list" where
  "queue_gains e clock dest m allsign n q j =
     m_queue q j @ (if unat j < n \<and> \<not> skips_thread e dest j
                    then [(add_dest dest (copy_for e clock m j), allsign)] else [])"

lemma push_copies:
  assumes "msg_ok e m" and "n \<le> unat (send_threads e) - 1"
  shows "\<exists>q'. fold_option (push_copy e clock dest m allsign) (map word_of_nat [0..<n]) q = Some q' \<and>
    m_queue q' = queue_gains e clock dest m allsign n q"
  using assms(2)
proof (induction n)
  case 0
  then show ?case by (simp add: queue_gains_def fun_eq_iff)
next
  case (Suc n)
  then obtain q1 where q1: "fold_option (push_copy e clock dest m allsign) (map word_of_nat [0..<n]) q = Some q1"
      "m_queue q1 = queue_gains e clock dest m allsign n q"
    by auto
  let ?j = "word_of_nat n :: u64"
  have j: "unat ?j = n"
    using Suc.prems unat_u64_less [of "send_threads e"] by (intro unat_of_nat_u64) linarith
  have "deep_copy_msg e (clock ?j) (replicate (length (msg_enc (clock ?j) m)) CHR 0x00) m = Some (msg_wire e (clock ?j) m)"
    unfolding deep_copy_msg_def
    by (rule pk.round_trip [OF assms(1)]) (simp add: msg_size [OF assms(1), of "clock ?j"])
  then have step: "push_copy e clock dest m allsign ?j q1 =
      Some (if skips_thread e dest ?j then q1 else mq_push e ?j (add_dest dest (copy_for e clock m ?j), allsign) q1)"
    using Suc.prems j by (simp add: push_copy_def msg_size [OF assms(1), of "clock ?j"] copy_for_def)
  have less: "unat i < Suc n \<longleftrightarrow> unat i < n \<or> i = ?j" for i :: u64
    using j by (auto simp: less_Suc_eq word_unat_eq_iff)
  have "m_queue (if skips_thread e dest ?j then q1 else mq_push e ?j (add_dest dest (copy_for e clock m ?j), allsign) q1) =
      queue_gains e clock dest m allsign (Suc n) q"
    using j by (auto simp: q1(2) queue_gains_def mq_push_def fun_eq_iff less)
  then show ?case
    using q1(1) step by (auto simp: fold_option_append)
qed

lemma distribute_gains:
  assumes "msg_ok e m" and "0 < unat (send_threads e)"
  shows "\<exists>q'. distribute e clock dest (m, allsign) q = Some q' \<and>
    m_queue q' = queue_gains e clock dest m allsign (unat (send_threads e)) q"
proof -
  obtain n where n: "unat (send_threads e) = Suc n" using assms(2) gr0_implies_Suc by blast
  define j :: u64 where "j = word_of_nat n"
  obtain q1 where q1: "fold_option (push_copy e clock dest m allsign) (map word_of_nat [0..<n]) q = Some q1"
      "m_queue q1 = queue_gains e clock dest m allsign n q"
    using push_copies [OF assms(1), of n clock dest allsign q] n by auto
  have j: "unat j = n"
    unfolding j_def using unat_u64_less [of "send_threads e"] n by (intro unat_of_nat_u64) linarith
  have less: "unat i < Suc n \<longleftrightarrow> unat i < n \<or> i = j" for i
    using j by (auto simp: less_Suc_eq word_unat_eq_iff)
  have last: "copy_for e clock m j = m" using j n by (simp add: copy_for_def)
  have "distribute e clock dest (m, allsign) q =
      Some (if skips_thread e dest j then q1 else mq_push e j (add_dest dest m, allsign) q1)"
    using q1(1) unfolding distribute_def Let_def n prod.case by (simp add: j_def)
  moreover have "m_queue (if skips_thread e dest j then q1 else mq_push e j (add_dest dest m, allsign) q1) =
      queue_gains e clock dest m allsign (Suc n) q"
    using j last by (auto simp: q1(2) queue_gains_def mq_push_def fun_eq_iff less)
  ultimately show ?thesis using n by auto
qed

section \<open>What travels\<close>

lemma msg_wire_header:
  assumes "msg_ok e m" and "\<forall>q. m \<noteq> MQuery q"
  shows "msg_rtype (msg_wire e now m) = msg_rtype m \<and> txn_id (msg_wire e now m) = txn_id m \<and>
    inst_id (msg_wire e now m) = inst_id m \<and> msg_signature (msg_wire e now m) = msg_signature m \<and>
    m_pubKey (msg_base (msg_wire e now m)) = m_pubKey (msg_base m)"
  using assms by (cases m) (simp_all add: sync_wire_def gen_wire_def prop_wire_def ask_wire_def kx_wire_def cb_wire_def
      cr_wire_def ex_wire_def ck_wire_def)


lemma add_dest_travel [simp]:
  "msg_ok e (add_dest ds (MSync m)) = msg_ok e (MSync m)" "msg_enc now (add_dest ds (MSync m)) = msg_enc now (MSync m)"
  by (simp_all add: add_dest_def sync_ok_def header_ok_def sync_enc_def header_enc_def sync_fields_def)

end
