(* ===== verification/Sample.thy ===== *)
theory Sample
  imports Agreement Sending_Facts
begin

text \<open>
  A concrete configuration, small enough to evaluate by hand: four replicas and one client
  machine (as in \<^verbatim>\<open>config.h\<close>), batches of four transactions, four instances on two worker
  threads.  The cryptographic primitives are stand-ins with the documented properties: a
  MAC is the key followed by the message, a digest is a padded prefix.
\<close>

definition sample_sha :: "string \<Rightarrow> string" where
  "sample_sha x = take 32 (x @ replicate 32 CHR ''#'')"

definition sample_env :: env where
  "sample_env =
    \<lparr>NODE_CNT = 4, g_node_id = 0, g_node_cnt = 4, g_client_node_cnt = 1, g_repl_cnt = 0,
     g_batch_size = 4, totInstances = 4, multi_threads = 2, indexSize = 8,
     g_synth_table_size = 1000, g_txn_per_chkpt = 8, g_thread_cnt = 7, g_rem_thread_cnt = 3,
     g_send_thread_cnt = 4, g_execute_thd = 1, g_checkpointing_thd = 2, g_req_per_query = 1,
     ROUNDS_IN_ADVANCE = 1, g_msg_size = 4096, MESSAGE_PER_BUFFER = 3, sizeof_sig = 2, sizeof_pubkey = 3,
     SHA256 = sample_sha, CMAC_sign = (\<lambda>k m. k @ m), CMAC_verify = (\<lambda>k m s. s = k @ m),
     ED25519_sign = (\<lambda>k m. k @ m), ED25519_verify = (\<lambda>k m s. s = k @ m),
     ecdsa_sign = (\<lambda>k m. take 2 (k @ m)), ecdsa_verify = (\<lambda>s m k. s = take 2 (k @ m)),
     net_lat = (\<lambda>a b. a + b), empty_heap_top = 0\<rparr>"

definition sample_keys :: keystore where
  "sample_keys = \<lparr>g_priv_key = ''k'', g_public_key = ''k'', g_pub_keys = (\<lambda>_. ''k''),
     cmacPrivateKeys = (\<lambda>_. ''mmmmmmmmmmmmmmmm''), cmacOthersKeys = (\<lambda>_. ''mmmmmmmmmmmmmmmm''), verifier = (\<lambda>_. ''k''),
     private_key = ''s'', public_keys = (\<lambda>_. ''s'')\<rparr>"

definition sample_node :: node where
  "sample_node = init_node sample_env sample_keys"

lemma sample_env_simps [simp]:
  "NODE_CNT sample_env = 4" "g_node_id sample_env = 0" "g_node_cnt sample_env = 4"
  "g_client_node_cnt sample_env = 1" "g_repl_cnt sample_env = 0"
  "g_batch_size sample_env = 4" "totInstances sample_env = 4" "multi_threads sample_env = 2"
  "indexSize sample_env = 8" "g_synth_table_size sample_env = 1000" "g_txn_per_chkpt sample_env = 8"
  "g_thread_cnt sample_env = 7" "g_rem_thread_cnt sample_env = 3" "g_send_thread_cnt sample_env = 4"
  "g_execute_thd sample_env = 1" "g_checkpointing_thd sample_env = 2" "g_req_per_query sample_env = 1"
  "ROUNDS_IN_ADVANCE sample_env = 1" "g_msg_size sample_env = 4096" "MESSAGE_PER_BUFFER sample_env = 3"
  "sizeof_sig sample_env = 2" "sizeof_pubkey sample_env = 3" "SHA256 sample_env = sample_sha"
  "CMAC_sign sample_env = (\<lambda>k m. k @ m)" "CMAC_verify sample_env = (\<lambda>k m s. s = k @ m)"
  "get_batch_size sample_env = 4" "get_totInstances sample_env = 4" "get_multi_threads sample_env = 2"
  by (simp_all add: sample_env_def get_batch_size_def get_totInstances_def get_multi_threads_def)

lemma sample_server [simp]: "ISSERVER sample_env"
  by (simp add: ISSERVER_def)

lemma sample_nf [simp]: "nf sample_env = 3" "fp1 sample_env = 2"
  by (simp_all add: nf_def fp1_def g_min_invalid_nodes_def)

lemma sample_key [simp]: "AES_key (cmacPrivateKeys sample_keys i)"
  by (simp add: AES_key_def sample_keys_def)

lemma sample_crypto_ok: "crypto_ok sample_env"
  by (auto simp: crypto_ok_def sample_sha_def min_def)

section \<open>A run\<close>

text \<open>
  A replica receives a vote of another one for the hash \<open>h\<close> in view 0 of instance 0, and worker
  thread 0 handles it.  Two builds: for three replicas (so that \<open>nf\<close> is two), and for one
  replica (so that \<open>nf\<close> is one) running as replica 2 of four.
\<close>

definition sample_sync :: "u64 \<Rightarrow> SpotLessSyncMsg" where
  "sample_sync from = Sync_sign sample_env sample_keys 0
     ((new_Sync sample_env SpotLess_SYNC_MSG)\<lparr>sync_base := (new_Message sample_env SpotLess_SYNC_MSG)
        \<lparr>m_txn_id := 3, m_return_node_id := from\<rparr>, sync_hash := ''h''\<rparr>)"

definition sample_run :: "env \<Rightarrow> u64 \<Rightarrow> node option" where
  "sample_run e from = Option.bind (enqueue e (MSync (sample_sync from)) (init_node e sample_keys))
     (worker_iteration e 1 0 0)"

lemma sample_run_reachable: "sample_run e from = Some s \<Longrightarrow> reachable e sample_keys s"
  by (auto simp: sample_run_def bind_eq_Some_conv intro: reachable.work [OF reachable.receive [OF reachable.init]])

definition sample_env3 :: env where
  "sample_env3 = sample_env\<lparr>NODE_CNT := 3\<rparr>"

definition sample_env1 :: env where
  "sample_env1 = sample_env\<lparr>NODE_CNT := 1, g_node_id := 2\<rparr>"

lemma sample_env13_simps [simp]:
  "NODE_CNT sample_env3 = 3" "nf sample_env3 = 2" "NODE_CNT sample_env1 = 1" "nf sample_env1 = 1"
  "ISSERVER sample_env3"
  by (simp_all add: sample_env3_def sample_env1_def nf_def g_min_invalid_nodes_def ISSERVER_def)

definition sample_voted :: node where
  "sample_voted = the (sample_run sample_env3 1)"

lemma sample_run_facts:
  "case sample_run sample_env3 1 of None \<Rightarrow> False | Some s \<Rightarrow>
     has_tman sample_env3 s 3 \<and> fst (hotstuff_new_viewed sample_env3 (sample_sync 2) 3 s) \<and>
     \<not> tm_sync_sent (tman sample_env3 s 3)"
  by code_simp

lemma sample_voted:
  "reachable sample_env3 sample_keys sample_voted" "has_tman sample_env3 sample_voted 3"
  "fst (hotstuff_new_viewed sample_env3 (sample_sync 2) 3 sample_voted)"
  "\<not> tm_sync_sent (tman sample_env3 sample_voted 3)"
  using sample_run_facts sample_run_reachable [of sample_env3 1 sample_voted]
  by (auto simp: sample_voted_def split: option.splits)

definition sample_single :: node where
  "sample_single = the (sample_run sample_env1 0)"

lemma sample_single_facts:
  "case sample_run sample_env1 0 of None \<Rightarrow> False | Some s \<Rightarrow>
     has_tman sample_env1 s 3 \<and> hv_voters ''h'' (tm_hash_voters (tman sample_env1 s 3)) = [0]"
  by code_simp

lemma sample_single:
  "reachable sample_env1 sample_keys sample_single" "has_tman sample_env1 sample_single 3"
  "votes_for (tman sample_env1 sample_single 3) ''h'' = {0}"
  using sample_single_facts sample_run_reachable [of sample_env1 0 sample_single]
  by (auto simp: sample_single_def votes_for_def split: option.splits)


section \<open>A generic message\<close>

text \<open>The primary of view 0 in instance 1 (replica 1) proposes the hash \<open>g\<close> on top of the genesis certificate.\<close>

definition sample_generic :: SpotLessGenericMsg where
  "sample_generic = Generic_sign sample_env sample_keys 0 (Generic_digital_sign sample_env sample_keys
     ((new_Generic sample_env SpotLess_GENERIC_MSG)\<lparr>gen_base := (new_Message sample_env SpotLess_GENERIC_MSG)
        \<lparr>m_txn_id := 7, m_return_node_id := 1, m_instance_id := 1\<rparr>,
        gen_hash := ''g'', gen_highQC := genesis_QC sample_env PREPARE\<rparr>))"

definition sample_generic_run :: "node option" where
  "sample_generic_run = Option.bind (enqueue sample_env (MGeneric sample_generic) sample_node)
     (worker_iteration sample_env 1 0 1)"

definition sample_hashed :: node where
  "sample_hashed = the sample_generic_run"

lemma sample_generic_facts:
  "case sample_generic_run of None \<Rightarrow> False | Some s \<Rightarrow>
     has_tman sample_env s 7 \<and> tm_hash (tman sample_env s 7) = ''g'' \<and> tm_instance_id (tman sample_env s 7) = 1 \<and>
     tm_sync_sent (tman sample_env s 7) \<and> length (outbox s) = 2"
  by code_simp

lemma sample_hashed:
  "reachable sample_env sample_keys sample_hashed" "has_tman sample_env sample_hashed 7"
  "tm_hash (tman sample_env sample_hashed 7) = ''g''" "tm_instance_id (tman sample_env sample_hashed 7) = 1"
proof -
  have r: "reachable sample_env sample_keys s" if "sample_generic_run = Some s" for s
    using that by (auto simp: sample_generic_run_def bind_eq_Some_conv sample_node_def
        intro: reachable.work [OF reachable.receive [OF reachable.init]])
  obtain s where s: "sample_generic_run = Some s"
    using sample_generic_facts by (cases sample_generic_run) (simp_all only: option.case)
  have h: "sample_hashed = s" unfolding sample_hashed_def s by (rule option.sel)
  note facts = sample_generic_facts [unfolded s option.case]
  show "reachable sample_env sample_keys sample_hashed" unfolding h by (rule r [OF s])
  show "has_tman sample_env sample_hashed 7" "tm_hash (tman sample_env sample_hashed 7) = ''g''"
      "tm_instance_id (tman sample_env sample_hashed 7) = 1"
    unfolding h using facts by blast+
qed

definition sample_handled :: "node option" where
  "sample_handled = process_hotstuff_generic sample_env sample_generic 7 (get_tman sample_env 7 sample_node)"

lemma sample_handled:
  "case sample_handled of None \<Rightarrow> False | Some s \<Rightarrow> length (outbox s) = 2"
  by code_simp

lemma sample_skip:
  "skip_view sample_env (sample_generic\<lparr>gen_view := 8\<rparr>) 7 sample_node \<noteq> None"
  by code_simp


text \<open>In view 4, the primary of instance 1 makes up a certificate of view 3 without any signature share.\<close>

definition sample_unsigned :: SpotLessGenericMsg where
  "sample_unsigned = Generic_sign sample_env sample_keys 0 (Generic_digital_sign sample_env sample_keys
     (sample_generic\<lparr>gen_view := 4, gen_highQC := (new_QC 0)\<lparr>viewNumber := 3, batch_hash := ''f'', genesis := False\<rparr>\<rparr>))"

definition sample_later :: node where
  "sample_later = get_tman sample_env 7 (sample_node\<lparr>newView := (\<lambda>_. 4)\<rparr>)"

lemma sample_unsigned_facts:
  "has_tman sample_env sample_later 7" "\<not> tm_generic_received (tman sample_env sample_later 7)"
  "\<not> tm_proposal_received (tman sample_env sample_later 7)"
  "tm_hash (tman sample_env sample_later 7) = ''''" "m_instance_id (gen_base sample_unsigned) = 1"
  "gen_view sample_unsigned = 4" "newView sample_later 1 = 4" "m_return_node_id (gen_base sample_unsigned) = 1"
  "get_view_primary sample_env 4 1 = 1"
  "validate_msg sample_env (keys sample_later) (MGeneric sample_unsigned) = Some True"
  "viewNumber (g_lockedQC sample_later 1) = 0" "viewNumber (g_preparedQC sample_later 1) = 0"
  "viewNumber (gen_highQC sample_unsigned) = 3" "one_chain (gen_highQC sample_unsigned) 4"
  "signature_share_map (gen_highQC sample_unsigned) = []"
  "\<not> two_chain (put_hash_to_QC 1 (batch_hash (gen_highQC sample_unsigned)) (gen_highQC sample_unsigned) sample_later) 1
     (gen_highQC sample_unsigned) 4"
  by code_simp+

section \<open>Three correct replicas\<close>

text \<open>
  The generic message reaches replicas 2 and 0, which vote; then replica 0 gets the vote of replica 2
  and one of replica 3, which is faulty.
\<close>

definition sample_vote_of :: "u64 \<Rightarrow> SpotLessSyncMsg" where
  "sample_vote_of from = Sync_sign sample_env sample_keys 0
     ((new_Sync sample_env SpotLess_SYNC_MSG)\<lparr>sync_base := (new_Message sample_env SpotLess_SYNC_MSG)
        \<lparr>m_txn_id := 7, m_return_node_id := from, m_instance_id := 1\<rparr>, sync_hash := ''g''\<rparr>)"

definition sample_handle :: "u32 \<Rightarrow> msg \<Rightarrow> node \<Rightarrow> node option" where
  "sample_handle i m s = worker_handle (at_replica sample_env i) 0 1 1 m s"

definition sample_start :: "u32 \<Rightarrow> node" where
  "sample_start i = init_node (at_replica sample_env i) sample_keys"

definition voted_for :: "u64 \<Rightarrow> string \<Rightarrow> msg \<times> u64 list \<Rightarrow> bool" where
  "voted_for tid h v \<longleftrightarrow> (case fst v of MSync n \<Rightarrow> m_txn_id (sync_base n) = tid \<and> sync_hash n = h | _ \<Rightarrow> False)"

lemma voted_for_cast: "list_ex (voted_for tid h) (outbox s) \<Longrightarrow> h \<in> cast_votes tid s"
proof -
  assume "list_ex (voted_for tid h) (outbox s)"
  then obtain m d where m: "(m, d) \<in> set (outbox s)" "voted_for tid h (m, d)" by (auto simp: list_ex_iff)
  then obtain n where "m = MSync n" "m_txn_id (sync_base n) = tid" "sync_hash n = h"
    by (cases m) (simp_all add: voted_for_def)
  with m(1) show "h \<in> cast_votes tid s" unfolding cast_votes_def by blast
qed

definition sample_second :: node where
  "sample_second = the (sample_handle 2 (MGeneric sample_generic) (sample_start 2))"

definition sample_quorum :: "node list option" where
  "sample_quorum = do {
     s1 \<leftarrow> sample_handle 0 (MGeneric sample_generic) (sample_start 0);
     s2 \<leftarrow> sample_handle 0 (MSync (sample_vote_of 2)) s1;
     s3 \<leftarrow> sample_handle 0 (MSync (sample_vote_of 3)) s2;
     Some [s1, s2, s3] }"

lemma sample_second_facts:
  "case sample_handle 2 (MGeneric sample_generic) (sample_start 2) of None \<Rightarrow> False | Some s \<Rightarrow>
     list_ex (voted_for 7 ''g'') (outbox s)"
  by code_simp

lemma sample_quorum_facts:
  "case sample_quorum of Some [s1, s2, s] \<Rightarrow>
     has_tman (at_replica sample_env 0) s 7 \<and>
     length (hv_voters ''g'' (tm_hash_voters (tman (at_replica sample_env 0) s 7))) = 3 | _ \<Rightarrow> False"
  by code_simp

lemma sample_second:
  "sample_handle 2 (MGeneric sample_generic) (sample_start 2) = Some sample_second"
  "''g'' \<in> cast_votes 7 sample_second"
proof -
  obtain s where s: "sample_handle 2 (MGeneric sample_generic) (sample_start 2) = Some s"
    using sample_second_facts by (cases "sample_handle 2 (MGeneric sample_generic) (sample_start 2)") (simp_all only: option.case)
  have eq: "sample_second = s" unfolding sample_second_def s by (rule option.sel)
  show "sample_handle 2 (MGeneric sample_generic) (sample_start 2) = Some sample_second" unfolding eq by (rule s)
  show "''g'' \<in> cast_votes 7 sample_second"
    using sample_second_facts unfolding s option.case eq by (rule voted_for_cast)
qed

lemma sample_quorum:
  obtains s1 s2 s3 where "sample_handle 0 (MGeneric sample_generic) (sample_start 0) = Some s1"
    "sample_handle 0 (MSync (sample_vote_of 2)) s1 = Some s2" "sample_handle 0 (MSync (sample_vote_of 3)) s2 = Some s3"
    "has_tman (at_replica sample_env 0) s3 7"
    "length (hv_voters ''g'' (tm_hash_voters (tman (at_replica sample_env 0) s3 7))) = 3"
proof -
  obtain ss where ss: "sample_quorum = Some ss"
    using sample_quorum_facts by (cases sample_quorum) (simp_all only: option.case)
  then obtain s1 s2 s3 where s: "sample_handle 0 (MGeneric sample_generic) (sample_start 0) = Some s1"
      "sample_handle 0 (MSync (sample_vote_of 2)) s1 = Some s2" "sample_handle 0 (MSync (sample_vote_of 3)) s2 = Some s3"
      "ss = [s1, s2, s3]"
    unfolding sample_quorum_def by (auto simp: bind_eq_Some_conv)
  show ?thesis using sample_quorum_facts unfolding ss s(4) option.case list.case by (intro that [OF s(1-3)]) blast+
qed

lemma sample_vote_of_fields:
  "m_txn_id (sync_base (sample_vote_of r)) = 7" "m_return_node_id (sync_base (sample_vote_of r)) = r"
  "sync_hash (sample_vote_of r) = ''g''"
  by (simp_all add: sample_vote_of_def Sync_sign_def set_signature_def split: prod.splits)

lemma sample_system:
  obtains \<sigma> where "system_run sample_env (\<lambda>_. sample_keys) {0, 1, 2} 7 \<sigma>"
    "has_tman (at_replica sample_env 0) (\<sigma> 0) 7"
    "length (hv_voters ''g'' (tm_hash_voters (tman (at_replica sample_env 0) (\<sigma> 0) 7))) = 3"
proof -
  let ?run = "system_run sample_env (\<lambda>_. sample_keys) {0, 1, 2} 7"
  have step: "?run (\<sigma>(i := s'))" if "?run \<sigma>" "i \<in> {0, 1, 2}" "sample_handle i m (\<sigma> i) = Some s'"
    "\<And>n. m = MSync n \<Longrightarrow> authentic sample_env {0, 1, 2} \<sigma> n" "\<And>c. m \<noteq> MCheckpoint c" for \<sigma> i m s'
    using that system_run.handle [OF that(1,2), of 0 1 1 m s']
    by (simp add: sample_handle_def admissible_def split: msg.splits)
  obtain s1 s2 s3 where s: "sample_handle 0 (MGeneric sample_generic) (sample_start 0) = Some s1"
    "sample_handle 0 (MSync (sample_vote_of 2)) s1 = Some s2" "sample_handle 0 (MSync (sample_vote_of 3)) s2 = Some s3"
    "has_tman (at_replica sample_env 0) s3 7"
    "length (hv_voters ''g'' (tm_hash_voters (tman (at_replica sample_env 0) s3 7))) = 3"
    by (rule sample_quorum)
  define \<sigma> where "\<sigma> = sample_start(2 := sample_second, 0 := s1)"
  have "?run sample_start"
    using system_run.init [of sample_env "\<lambda>_. sample_keys"] by (simp add: sample_start_def [abs_def])
  then have "?run (sample_start(2 := sample_second))"
    by (rule step [where m = "MGeneric sample_generic"]) (simp_all add: sample_second(1))
  then have 0: "?run \<sigma>"
    unfolding \<sigma>_def by (rule step [where m = "MGeneric sample_generic"]) (simp_all add: s(1))
  have "authentic sample_env {0, 1, 2} \<sigma> (sample_vote_of 2)"
    using sample_second(2) by (auto simp: authentic_def has_voted_def sample_vote_of_fields \<sigma>_def intro: exI [of _ 2])
  then have 1: "?run (\<sigma>(0 := s2))"
    by (intro step [OF 0, where m = "MSync (sample_vote_of 2)"]) (simp_all add: s(2) \<sigma>_def)
  have "authentic sample_env {0, 1, 2} (\<sigma>(0 := s2)) (sample_vote_of 3)"
    by (auto simp: authentic_def has_voted_def sample_vote_of_fields intro: exI [of _ 3])
  then have "?run (\<sigma>(0 := s2, 0 := s3))"
    by (intro step [OF 1, where m = "MSync (sample_vote_of 3)"]) (simp_all add: s(3))
  then show ?thesis using s(4,5) by (intro that [of "\<sigma>(0 := s2, 0 := s3)"]) simp_all
qed

lemma sample_faulty: "card {j :: u32. j < 4 \<and> j \<notin> {0, 1, 2}} < 2"
proof -
  have "{j :: u32. j < 4 \<and> j \<notin> {0, 1, 2}} \<subseteq> {3}"
  proof
    fix j :: u32 assume "j \<in> {j. j < 4 \<and> j \<notin> {0, 1, 2}}"
    then have "unat j < 4" "unat j \<noteq> 0" "unat j \<noteq> 1" "unat j \<noteq> 2" by (auto simp: word_less_nat_alt word_unat_eq_iff)
    then have "unat j = 3" by linarith
    then show "j \<in> {3}" by (simp add: word_unat_eq_iff)
  qed
  then have "card {j :: u32. j < 4 \<and> j \<notin> {0, 1, 2}} \<le> card {3 :: u32}" by (rule card_mono [rotated]) simp
  then show ?thesis by simp
qed

section \<open>A batch to execute\<close>

text \<open>The managers 4 to 7 of the second batch, the first with one request, and their execute message.\<close>

definition sample_ready :: node where
  "sample_ready = upd_tman sample_env 4 (\<lambda>t. t\<lparr>tm_requests := [\<lparr>req_key = 1, req_value = 2\<rparr>]\<rparr>)
     (fold (get_tman sample_env) [4, 5, 6, 7] sample_node)"

definition sample_execute :: ExecuteMessage where
  "sample_execute = (new_Execute sample_env EXECUTE_MSG)
     \<lparr>ex_base := (new_Message sample_env EXECUTE_MSG)\<lparr>m_txn_id := 6\<rparr>, ex_index := 4, ex_end_index := 7, ex_valid := True\<rparr>"

lemma sample_execute_facts:
  "ex_valid sample_execute" "ex_index sample_execute = 4" "ex_end_index sample_execute = 7"
  "m_txn_id (ex_base sample_execute) = 6" "batch_ids sample_execute = [4, 5, 6, 7]"
  by (simp_all add: sample_execute_def batch_ids_def u64_upto_def upt_rec)

lemma sample_table_inv: "table_inv sample_env sample_node"
  using reachable_votes_ok [OF reachable.init, of sample_env sample_keys] by (simp add: votes_ok_def sample_node_def)

lemma sample_managers: "managers sample_env (set (batch_ids sample_execute)) (tman sample_env sample_ready) sample_ready"
proof -
  have "list_all (\<lambda>i. has_tman sample_env sample_ready i \<and> tm_txn_ready (tman sample_env sample_ready i)) [4, 5, 6, 7]"
    by code_simp
  moreover have "table_inv sample_env sample_ready"
    using sample_table_inv by (simp add: sample_ready_def keeps_ids_def)
  ultimately show ?thesis by (simp add: managers_def sample_execute_facts)
qed

lemma sample_requests:
  "tm_requests (tman sample_env sample_ready 4) = [\<lparr>req_key = 1, req_value = 2\<rparr>]"
  "tm_requests (tman sample_env sample_ready 5) = []" "tm_requests (tman sample_env sample_ready 6) = []"
  "tm_requests (tman sample_env sample_ready 7) = []"
  by code_simp+

lemma sample_ready_outbox: "outbox sample_ready = []"
  by (simp add: sample_ready_def sample_node_def init_node_def)

lemma sample_not_due: "\<exists>s'. worker_handle sample_env 0 0 0 (MExecute sample_execute) sample_node = Some s'"
proof -
  have "worker_handle sample_env 0 0 0 (MExecute sample_execute) sample_node \<noteq> None" by code_simp
  then show ?thesis by simp
qed


section \<open>A checkpoint\<close>

text \<open>The checkpoint of identifier 263, handled by checkpoint thread 0 while manager 1 is still there.\<close>

definition sample_checkpoint :: CheckpointMessage where
  "sample_checkpoint = (new_Checkpoint sample_env PBFT_CHKPT_MSG)
     \<lparr>ck_base := (new_Message sample_env PBFT_CHKPT_MSG)\<lparr>m_txn_id := 259\<rparr>\<rparr>"

definition sample_full :: node where
  "sample_full = fold (get_tman sample_env) [1, 263] sample_node"

lemma sample_full:
  "table_inv sample_env sample_full" "last_deleted_txn_man sample_full = 0" "txn_chkpt_holding sample_full = (\<lambda>_. 0)"
  using sample_table_inv by (simp add: sample_full_def) (simp_all add: sample_full_def get_tman_def sample_node_def init_node_def)

lemma sample_full_facts:
  "has_tman sample_env sample_full 1 \<and> has_tman sample_env sample_full 263 \<and>
   \<not> tm_chkpt_flag (tman sample_env sample_full 263) \<and> tm_chkpt_cnt (tman sample_env sample_full 263) = 1 \<and>
   process_pbft_chkpt_msg sample_env 0 sample_checkpoint 263 sample_full \<noteq> None"
  by code_simp

lemma sample_del_range: "chkpt_del_range sample_env (m_txn_id (ck_base sample_checkpoint)) = 3"
  by (simp add: sample_checkpoint_def chkpt_del_range_def)

text \<open>
  A checkpoint that nobody has checked: it releases the manager of a view that is being voted on, and
  the replica votes again.
\<close>

definition sample_forged :: CheckpointMessage where
  "sample_forged = sample_checkpoint\<lparr>ck_base := (ck_base sample_checkpoint)\<lparr>m_txn_id := 258, m_return_node_id := 3\<rparr>\<rparr>"

definition sample_first :: "string \<Rightarrow> SpotLessGenericMsg" where
  "sample_first h = Generic_sign sample_env sample_keys 0 (Generic_digital_sign sample_env sample_keys
     (sample_generic\<lparr>gen_base := (gen_base sample_generic)\<lparr>m_txn_id := 1\<rparr>, gen_hash := h\<rparr>))"

definition sample_revote :: "node option" where
  "sample_revote = do {
     s \<leftarrow> worker_handle sample_env 0 1 1 (MGeneric (sample_first ''g'')) sample_node;
     s \<leftarrow> worker_handle sample_env 0 5 5 (MCheckpoint sample_forged) s;
     worker_handle sample_env 0 1 1 (MGeneric (sample_first ''x'')) s }"

lemma sample_revote_facts:
  "case sample_revote of None \<Rightarrow> False | Some s \<Rightarrow>
     list_ex (voted_for 1 ''g'') (outbox s) \<and> list_ex (voted_for 1 ''x'') (outbox s)"
  by code_simp

lemma sample_revote:
  obtains s1 s2 s3 where "worker_handle sample_env 0 1 1 (MGeneric (sample_first ''g'')) sample_node = Some s1"
    "worker_handle sample_env 0 5 5 (MCheckpoint sample_forged) s1 = Some s2"
    "worker_handle sample_env 0 1 1 (MGeneric (sample_first ''x'')) s2 = Some s3"
    "''g'' \<in> cast_votes 1 s3" "''x'' \<in> cast_votes 1 s3"
proof -
  obtain s3 where s3: "sample_revote = Some s3"
    using sample_revote_facts by (cases sample_revote) (simp_all only: option.case)
  then obtain s1 s2 where s: "worker_handle sample_env 0 1 1 (MGeneric (sample_first ''g'')) sample_node = Some s1"
      "worker_handle sample_env 0 5 5 (MCheckpoint sample_forged) s1 = Some s2"
      "worker_handle sample_env 0 1 1 (MGeneric (sample_first ''x'')) s2 = Some s3"
    unfolding sample_revote_def by (auto simp: bind_eq_Some_conv)
  have "list_ex (voted_for 1 ''g'') (outbox s3) \<and> list_ex (voted_for 1 ''x'') (outbox s3)"
    using sample_revote_facts unfolding s3 option.case .
  then show ?thesis using voted_for_cast by (intro that [OF s(1-3)]) blast+
qed

section \<open>A vote on its way\<close>

text \<open>The vote of replica 0 for the hash \<open>h\<close>, with its signature share, signed for replica 1.\<close>

definition sample_vote :: SpotLessSyncMsg where
  "sample_vote = (new_Sync sample_env SpotLess_SYNC_MSG)\<lparr>sync_base := (new_Message sample_env SpotLess_SYNC_MSG)
     \<lparr>m_txn_id := 3, m_sig_empty := False\<rparr>, sync_hash := ''h'', sync_hashSize := 1\<rparr>"

definition sample_signed :: SpotLessSyncMsg where
  "sample_signed = Sync_sign sample_env sample_keys 1 (Sync_digital_sign sample_env sample_keys sample_vote)"

lemma sample_signed_eq:
  "sample_signed = sample_vote\<lparr>sync_base := (sync_base sample_vote)
     \<lparr>m_sig_share := ''sh'', m_signature := ''mmmmmmmmmmmmmmmm0_0_h_0_0'',
      m_pubKey := ''mmmmmmmmmmmmmmmm'', m_sigSize := 25, m_keySize := 16\<rparr>\<rparr>"
proof -
  have "to_string 0 = ''0''" by code_simp
  then show ?thesis
    by (simp add: sample_signed_def sample_vote_def Sync_sign_def Sync_digital_sign_def set_signature_def signingNodeNode_def
        CmacSignString_def Sync_toString_def sample_keys_def new_Sync_def vote_digest_def calculateHash_def sample_sha_def sample_env_def)
qed

lemma sample_signed_ok: "msg_ok sample_env (MSync sample_signed)" "length (msg_enc 9 (MSync sample_signed)) = 254"
  by (simp_all add: sample_signed_eq sample_vote_def new_Sync_def new_Message_def sync_ok_def header_ok_def QC_ok_def new_QC_def
     map_ok_def sync_enc_def sync_fields_def length_header_enc mget_size_def QC_enc_def hash_enc_def)

definition sample_thread :: MessageThread where
  "sample_thread = \<lparr>mt_buffer = (\<lambda>d. mbuf_reset sample_env d \<lparr>mb_buffer = replicate 4096 CHR 0x00, mb_starttime = 0,
       mb_ptr = 0, mb_cnt = 0, mb_wait = False, mb_dest_node_id = 0, mb_force = False\<rparr>), mt_sent = []\<rparr>"

lemma sample_thread_holds: "mt_holds sample_env sample_thread d []"
  by (auto simp: mt_holds_def sample_thread_def intro!: exI [of _ "[]"] mbuf_holds_reset)

lemma sample_sent_holds:
  "mt_holds sample_env (sample_thread\<lparr>mt_sent := [(1, packet 1 0 [(9, MSync sample_signed)])]\<rparr>) 1 [(9, MSync sample_signed)]"
proof -
  have "mbuf_holds sample_env 1 (mt_buffer sample_thread 1) []"
    by (auto simp: sample_thread_def intro!: mbuf_holds_reset)
  then show ?thesis
    using sample_signed_ok by (auto simp: mt_holds_def packet_def encs_def intro!: exI [of _ "[[(9, MSync sample_signed)]]"])
qed

end
