(* ===== verification/Proposals.thy ===== *)
theory Proposals
  imports Reachability
begin

text \<open>
  The views in which a replica proposes, over all its runs: only the proposal thread changes
  \<open>next_send_view\<close>, \<open>last_sent_view\<close> and \<open>proposalInstance\<close>, when it takes a client batch,
  and then it moves to the next view that it leads.  Since view numbers are 64 bits wide, the runs
  are counted: a replica moves at most one instance on in one step.
\<close>

section \<open>Runs of a given length\<close>

inductive reachable_in :: "env \<Rightarrow> keystore \<Rightarrow> nat \<Rightarrow> node \<Rightarrow> bool" for e k where
  at_start: "reachable_in e k 0 (init_node e k)"
| on_receive: "reachable_in e k n s \<Longrightarrow> enqueue e m s = Some s' \<Longrightarrow> reachable_in e k (Suc n) s'"
| on_work: "reachable_in e k n s \<Longrightarrow> worker_iteration e fuel now thd s = Some s' \<Longrightarrow> reachable_in e k (Suc n) s'"
| on_start: "reachable_in e k n s \<Longrightarrow> reachable_in e k (Suc n) (send_key e s)"
| on_start_secp: "reachable_in e k n s \<Longrightarrow> reachable_in e k (Suc n) (send_public_key e pk s)"

inductive_cases reachable_inE: "reachable_in e k n s"

lemma reachable_in_iff: "reachable e k s \<longleftrightarrow> (\<exists>n. reachable_in e k n s)"
proof
  assume "reachable e k s"
  then show "\<exists>n. reachable_in e k n s" by induction (blast intro: reachable_in.intros)+
next
  assume "\<exists>n. reachable_in e k n s"
  then obtain n where "reachable_in e k n s" ..
  then show "reachable e k s" by induction (blast intro: reachable.intros)+
qed

section \<open>No handler changes the views of the proposals\<close>

lemma sending_frame [simp]:
  "sending (get_tman e i s) = sending s" "sending (upd_tman e i f s) = sending s"
  "sending (put_hash_to_QC i h q s) = sending s" "sending (snd (hash_to_QC_at i h s)) = sending s"
  "sending (erase_hash_to_QC i h s) = sending s" "sending (release_txn_man e i s) = sending s"
  "sending (send_hotstuff_newview e n tid s) = sending s" "sending (run_txn e i s) = sending s"
  "sending (set_expectedExecuteCount e v s) = sending s" "sending (reenqueue_one w m s) = sending s"
  by (simp_all add: sending_def get_tman_def upd_tman_def put_hash_to_QC_def hash_to_QC_at_def erase_hash_to_QC_def
      release_txn_man_def send_hotstuff_newview_def send_out_def run_txn_def set_expectedExecuteCount_def
      execute_msg_heap_pop_def reenqueue_one_def sem_post_worker_def push_prior_def push_work_def Let_def
      split: option.splits)

lemma sending_set_view [simp]: "sending (set_view e i v s) = sending s"
proof -
  have "sending (s\<lparr>newView := a\<rparr>) = sending s" "sending (s\<lparr>temp_queue := b\<rparr>) = sending s" for a b s
    by (simp_all add: sending_def)
  then show ?thesis by (simp add: set_view_def Let_def reenqueue_def fold_frame [where f = sending])
qed

interpretation sdg: node_exec e "\<lambda>s. sending s = c" "\<lambda>_ _. True" "\<lambda>_. True" for e c
  by unfold_locales (simp_all add: obs_def set_qc_type_def case_prod_beta)

section \<open>The views of the proposals\<close>

definition sending_ok :: "env \<Rightarrow> nat \<Rightarrow> node \<Rightarrow> bool" where
  "sending_ok e n s \<longleftrightarrow> send_inv e s \<and> proposalInstance s < get_totInstances e \<and>
     (\<forall>i < get_totInstances e. unat (next_send_view s i) < (n + 1) * unat (g_node_cnt e))"

lemma sending_ok_cong: "sending s' = sending s \<Longrightarrow> sending_ok e n s' = sending_ok e n s"
  by (simp add: sending_def sending_ok_def send_inv_def)

lemma sending_ok_Suc: "sending_ok e n s \<Longrightarrow> sending_ok e (Suc n) s"
  by (auto simp: sending_ok_def intro: less_le_trans)

text \<open>The configurations considered: a replica among the nodes, at most one instance per node.\<close>

definition proposer_config :: "env \<Rightarrow> bool" where
  "proposer_config e \<longleftrightarrow> g_node_id e < g_node_cnt e \<and> 0 < get_totInstances e \<and>
     unat (get_totInstances e) \<le> unat (g_node_cnt e) \<and> unat (g_node_cnt e) < 2 ^ 31"

lemma sending_ok_init:
  assumes "proposer_config e"
  shows "sending_ok e 0 (init_node e k)"
proof -
  have c: "g_node_id e < g_node_cnt e" "unat (get_totInstances e) \<le> unat (g_node_cnt e)" "unat (g_node_cnt e) < 2 ^ 31"
      "0 < get_totInstances e"
    using assms by (simp_all add: proposer_config_def)
  have "(g_node_cnt e + g_node_id e - ucast i) mod g_node_cnt e < g_node_cnt e" for i :: u64
    using c(1) by (intro word_mod_less_divisor) (metis word_not_simps(1) word_neq_0_conv)
  then have "unat (next_send_view (init_node e k) i) < unat (g_node_cnt e)" if "i < get_totInstances e" for i
    using that by (simp add: init_node_def word_less_nat_alt)
  then show ?thesis using init_send_inv [OF c(1-3)] c(4) by (simp add: sending_ok_def init_node_def)
qed

lemma sending_ok_small:
  assumes "sending_ok e n s" and "proposer_config e" and "(n + 3) * unat (g_node_cnt e) < 2 ^ 64"
  shows "views_small e s"
  unfolding views_small_def
proof (intro allI impI)
  fix i assume i: "i < get_totInstances e"
  have "unat (next_send_view s i) < (n + 1) * unat (g_node_cnt e)" using assms(1) i by (simp add: sending_ok_def)
  moreover have "unat i < unat (g_node_cnt e)"
    using i assms(2) by (auto simp: proposer_config_def word_less_nat_alt)
  ultimately show "unat (next_send_view s i) + unat i + unat (g_node_cnt e) < 2 ^ 64"
    using assms(3) by (simp add: algebra_simps)
qed

lemma dequeue_sending_ok:
  assumes "sending_ok e n s" and "proposer_config e" and "(n + 3) * unat (g_node_cnt e) < 2 ^ 64"
    and "dequeue_proposal e fuel s = Some (m, s')"
  obtains p i s0 where "p < get_totInstances e" and "take_batch e p i s0 = (m, s')" and "next_send_view s0 = next_send_view s"
    and "batch_available s p i" and "next_send_view s p \<le> get_current_view s p + ROUNDS_IN_ADVANCE e"
    and "sending_ok e (Suc n) s'" and "get_view_primary e (next_send_view s p) p = node_id e"
proof -
  have inv: "send_inv e s" "proposalInstance s < get_totInstances e" using assms(1) by (simp_all add: sending_ok_def)
  obtain p i s0 where p: "p < get_totInstances e" "take_batch e p i s0 = (m, s')" "next_send_view s0 = next_send_view s"
      "batch_available s p i" "next_send_view s p \<le> get_current_view s p + ROUNDS_IN_ADVANCE e"
    using dequeue_proposal_batch [OF assms(4) inv(2)] by metis
  have tot: "get_totInstances e \<noteq> 0" using p(1) by auto
  have small: "views_small e s" by (rule sending_ok_small [OF assms(1-3)])
  have s': "send_inv e s'" using take_batch_send_inv(1) [OF p(2,3) inv(1) small p(1)] .
  have b: "unat (next_send_view s p + node_cnt e) = unat (next_send_view s p) + unat (g_node_cnt e)"
    using small p(1) by (subst unat_add_u64) (auto simp: views_small_def)
  have v: "unat (next_send_view s j) < (n + 1) * unat (g_node_cnt e)" if "j < get_totInstances e" for j
    using assms(1) that by (simp add: sending_ok_def)
  then have "unat (next_send_view s' j) < (Suc n + 1) * unat (g_node_cnt e)" if "j < get_totInstances e" for j
    using v [OF that] b by (auto simp: take_batch_frame(2) [OF p(2)] p(3))
  moreover have "proposalInstance s' < get_totInstances e"
    using p(2) prev_instance_less [of e p, OF tot] by (auto simp: take_batch_def Let_def)
  ultimately have "sending_ok e (Suc n) s'" using s' by (simp add: sending_ok_def)
  moreover have "get_view_primary e (next_send_view s p) p = node_id e" using inv(1) p(1) by (simp add: send_inv_def)
  ultimately show ?thesis using that p by blast
qed

lemma worker_iteration_sending:
  assumes "sending_ok e n s" and "proposer_config e" and "(n + 3) * unat (g_node_cnt e) < 2 ^ 64"
    and "worker_iteration e fuel now thd s = Some s'"
  shows "sending_ok e (Suc n) s'"
proof -
  from assms(4) obtain s1 r s2 where s1: "worker_wait e (wait_index e thd) s = Some s1"
      and s2: "dequeue e fuel thd s1 = Some (r, s2)"
      and s': "(case r of None \<Rightarrow> Some (sem_post_worker (wait_index e thd) s2)
        | Some m \<Rightarrow> if wait_index e thd < get_multi_threads e \<and> fst (check_view m s2) then Some (snd (check_view m s2))
            else worker_handle e now thd (wait_index e thd) m s2) = Some s'"
    by (auto simp: worker_iteration_def Let_def bind_eq_Some_conv)
  have obs: "obs a = obs b \<Longrightarrow> sending a = sending b" for a b by (simp add: obs_def)
  have 1: "sending s1 = sending s" using obs [OF obs_worker_wait [OF s1]] .
  have 2: "sending_ok e (Suc n) s2"
    using obs_dequeue [OF s2]
  proof (elim disjE exE conjE)
    assume "obs s2 = obs s1"
    then show ?thesis using obs 1 assms(1) sending_ok_cong [of s2 s e n] sending_ok_Suc by metis
  next
    fix s3 m assume "obs s3 = obs s1" "dequeue_proposal e fuel s3 = Some (m, s2)"
    moreover from this have "sending_ok e n s3" using obs 1 assms(1) sending_ok_cong [of s3 s e n] by metis
    ultimately show ?thesis using dequeue_sending_ok [OF _ assms(2,3)] by metis
  qed
  have "sending s' = sending s2"
    using s' wpD [OF sdg.worker_handle_all_wp [of s2 "sending s2"]] obs [OF obs_check_view] obs [OF obs_ops(1)]
    by (auto split: option.splits if_splits)
  then show ?thesis using 2 sending_ok_cong by blast
qed

lemma shorter_run: "(Suc n + 3) * (N :: nat) < b \<Longrightarrow> (n + 3) * N < b"
  by (simp add: algebra_simps)

lemma reachable_in_sending:
  assumes "reachable_in e k n s" and "proposer_config e"
  shows "(n + 3) * unat (g_node_cnt e) < 2 ^ 64 \<Longrightarrow> sending_ok e n s"
  using assms(1)
proof induction
  case at_start
  show ?case by (rule sending_ok_init [OF assms(2)])
next
  case (on_receive n s m s')
  then have "sending_ok e n s" using shorter_run by blast
  then show ?case using sending_ok_cong [of s' s e n] obs_enqueue [OF on_receive(2)] sending_ok_Suc by (simp add: obs_def)
next
  case (on_work n s fuel now thd s')
  then show ?case using worker_iteration_sending [OF _ assms(2) _ on_work(2), of n] shorter_run by blast
next
  case (on_start n s)
  then have "sending_ok e n s" using shorter_run by blast
  then show ?case using sending_ok_cong [of "send_key e s" s e n] obs_send_key(1) [of e s] sending_ok_Suc by (simp add: obs_def)
next
  case (on_start_secp n s pk)
  then have "sending_ok e n s" using shorter_run by blast
  then show ?case
    using sending_ok_cong [of "send_public_key e pk s" s e n] obs_send_key(2) [of e pk s] sending_ok_Suc by (simp add: obs_def)
qed

lemma reachable_in_bounded:
  assumes "reachable_in e k n s" and "proposer_config e"
    and "(n + 3) * unat (g_node_cnt e) * unat (get_totInstances e) < 2 ^ 64"
  shows "(n + 3) * unat (g_node_cnt e) < 2 ^ 64" and "sending_ok e n s"
proof -
  have "0 < unat (get_totInstances e)" using assms(2) by (simp add: proposer_config_def unat_gt_0 word_gt_0)
  then have "(n + 3) * unat (g_node_cnt e) * 1 \<le> (n + 3) * unat (g_node_cnt e) * unat (get_totInstances e)"
    by (intro mult_le_mono) auto
  then show "(n + 3) * unat (g_node_cnt e) < 2 ^ 64" using assms(3) by linarith
  then show "sending_ok e n s" by (rule reachable_in_sending [OF assms(1,2)])
qed

text \<open>The identifier of the batch names the instance, and the proposal is for the view that was announced.\<close>

lemma proposal_for_led_view:
  assumes "reachable_in e k n s" and "proposer_config e"
    and "(n + 3) * unat (g_node_cnt e) * unat (get_totInstances e) < 2 ^ 64"
    and "dequeue_proposal e fuel s = Some (m, s')"
  obtains p v where "p < get_totInstances e" and "v = next_send_view s p" and "get_view_primary e v p = node_id e"
    and "v \<le> get_current_view s p + ROUNDS_IN_ADVANCE e" and "txn_id m = v * get_totInstances e + p"
    and "txn_id m mod get_totInstances e = p" and "last_sent_view s' p = v"
    and "next_send_view s' = (next_send_view s)(p := v + node_cnt e)"
    and "\<And>pr. \<exists>prep. Proposal_init e s' p pr = Some prep \<and> prop_view prep = v \<and> m_instance_id (prop_base prep) = p"
proof -
  let ?N = "unat (g_node_cnt e)" and ?T = "unat (get_totInstances e)"
  note b = reachable_in_bounded(1) [OF assms(1-3)] and ok = reachable_in_bounded(2) [OF assms(1-3)]
  obtain p i s0 where p: "p < get_totInstances e" "take_batch e p i s0 = (m, s')" "next_send_view s0 = next_send_view s"
      "next_send_view s p \<le> get_current_view s p + ROUNDS_IN_ADVANCE e" "get_view_primary e (next_send_view s p) p = node_id e"
    using dequeue_sending_ok [OF ok assms(2) b assms(4)] by metis
  let ?v = "next_send_view s p"
  have id: "txn_id (upd_base (\<lambda>b. b\<lparr>m_txn_id := x\<rparr>) m0) = x" for x m0 by (cases m0) simp_all
  have tid: "txn_id m = ?v * get_totInstances e + p" using take_batch_frame(1) [OF p(2)] p(3) by (simp add: id)
  have last: "last_sent_view s' p = ?v" using take_batch_frame(3) [OF p(2)] p(3) by simp
  have p': "unat p < ?T" using p(1) by (simp add: word_less_nat_alt)
  have v: "unat ?v < (n + 1) * ?N" using ok p(1) by (simp add: sending_ok_def)
  have "unat ?v * ?T + unat p < 2 ^ 64"
  proof -
    have "unat ?v * ?T + unat p < (unat ?v + 1) * ?T" using p' by simp
    also have "\<dots> \<le> ((n + 3) * ?N) * ?T" using v by (intro mult_right_mono) (simp_all add: algebra_simps)
    finally show ?thesis using assms(3) by simp
  qed
  moreover from this have "unat (?v * get_totInstances e) = unat ?v * ?T" by (intro unat_mult_u64) simp
  ultimately have "unat (txn_id m) = unat ?v * ?T + unat p" using tid by (simp add: unat_add_u64)
  then have "unat (txn_id m mod get_totInstances e) = unat p" using p' by (simp add: unat_mod)
  then have md: "txn_id m mod get_totInstances e = p" by (simp add: word_unat_eq_iff)
  have "\<exists>prep. Proposal_init e s' p pr = Some prep \<and> prop_view prep = ?v \<and> m_instance_id (prop_base prep) = p" for pr
    using p(5) last by (simp add: Proposal_init_def get_last_sent_view_def)
  then show ?thesis
    using that [OF p(1) refl p(5,4) tid md last] take_batch_frame(2) [OF p(2)] p(3) by simp
qed

end
