(* ===== verification/Transport.thy ===== *)
theory Transport
  imports Packets
begin

text \<open>
  The transport (\<^verbatim>\<open>transport/transport.cpp\<close>, \<open>get_next_socket\<close> of \<^verbatim>\<open>system/global.cpp\<close>): which sockets a
  node opens, on which ports, which thread polls which of them, and how a receiving thread finds
  the next packet.  The sockets themselves are those of nng: a socket is known by the port it
  listens on or is connected to, and \<open>incoming\<close> tells what a non-blocking receive on it returns.

  Vector sizes and positions in vectors are natural numbers; the counters of \<open>sock_ctr\<close> are taken
  modulo a size and do not wrap.  The branch for \<open>TRANSPORT_OPTIMIZATION\<close>, TCP and
  \<open>!ENVIRONMENT_EC2\<close> is the compiled one.
\<close>

record transport_config =
  g_client_thread_cnt :: u32
  g_client_rem_thread_cnt :: u32
  g_client_send_thread_cnt :: u32
  g_servers_per_client :: u32
  TPORT_PORT :: u64
  TPORT_WINDOW :: u64

datatype Socket =
  Bound (sock_port: u64)
| Connected (sock_peer: u64) (sock_port: u64)

record Transport =
  send_sockets :: "u64 \<times> u64 \<rightharpoonup> Socket"
  recv_sockets :: "Socket list"
  recv_sockets_clients :: "Socket list"
  recv_sockets_servers :: "nat \<Rightarrow> Socket list"
  sock_ctr :: "nat \<Rightarrow> nat"

definition new_Transport :: Transport where
  "new_Transport =
     \<lparr>send_sockets = Map.empty, recv_sockets = [], recv_sockets_clients = [],
      recv_sockets_servers = (\<lambda>_. []), sock_ctr = (\<lambda>_. 0)\<rparr>"

definition g_total_node_cnt :: "env \<Rightarrow> u32" where
  "g_total_node_cnt e = g_node_cnt e + g_client_node_cnt e + g_repl_cnt e * g_node_cnt e"

abbreviation total_cnt :: "env \<Rightarrow> u64" where
  "total_cnt e \<equiv> ucast (g_total_node_cnt e)"

definition ISCLIENT :: "env \<Rightarrow> bool" where
  "ISCLIENT e \<longleftrightarrow> g_node_id e \<ge> g_node_cnt e \<and> g_node_id e < g_node_cnt e + g_client_node_cnt e"

definition g_this_rem_thread_cnt :: "env \<Rightarrow> transport_config \<Rightarrow> u32" where
  "g_this_rem_thread_cnt e tc = (if ISCLIENT e then g_client_rem_thread_cnt tc else g_rem_thread_cnt e)"

definition get_socket_count :: "env \<Rightarrow> transport_config \<Rightarrow> u64" where
  "get_socket_count e tc =
     ucast (g_total_node_cnt e * 2 +
       (if ISCLIENT e then g_client_send_thread_cnt tc * g_servers_per_client tc else g_client_send_thread_cnt tc))"

section \<open>Opening the sockets\<close>

definition get_port_id :: "env \<Rightarrow> transport_config \<Rightarrow> u64 \<Rightarrow> u64 \<Rightarrow> u64 \<Rightarrow> u64" where
  "get_port_id e tc src_node_id dest_node_id send_thread_id =
     (total_cnt e * dest_node_id + src_node_id + send_thread_id * total_cnt e * total_cnt e) mod TPORT_WINDOW tc
     + TPORT_PORT tc"

definition word_range :: "u32 \<Rightarrow> u32 \<Rightarrow> u64 list" where
  "word_range a b = map word_of_nat [unat a..<unat b]"

text \<open>The array of server sockets is indexed modulo \<open>g_rem_thread_cnt - 1\<close>, which must not be 0.\<close>

definition listen_to_client :: "env \<Rightarrow> transport_config \<Rightarrow> u64 \<Rightarrow> u64 \<Rightarrow> Transport \<Rightarrow> Transport option" where
  "listen_to_client e tc node client_thread_id t =
     (let c_thd_id = client_thread_id - ucast (g_client_thread_cnt tc) - ucast (g_client_rem_thread_cnt tc)
      in if node_id e mod ucast (g_client_send_thread_cnt tc) \<noteq> c_thd_id then Some t
         else let sock = Bound (get_port_id e tc node (node_id e) c_thd_id)
              in Some (if \<not> ISSERVER e then t\<lparr>recv_sockets := recv_sockets t @ [sock]\<rparr>
                       else t\<lparr>recv_sockets_clients := recv_sockets_clients t @ [sock]\<rparr>))"

definition listen_to_server :: "env \<Rightarrow> transport_config \<Rightarrow> u64 \<Rightarrow> u64 \<Rightarrow> Transport \<Rightarrow> Transport option" where
  "listen_to_server e tc node server_thread_id t =
     (if node_id e mod ucast (g_send_thread_cnt e) \<noteq> server_thread_id then Some t
      else let sock = Bound (get_port_id e tc node (node_id e) server_thread_id)
           in if \<not> ISSERVER e then Some (t\<lparr>recv_sockets := recv_sockets t @ [sock]\<rparr>)
              else if g_rem_thread_cnt e - 1 = 0 then None
              else let i = unat (node mod ucast (g_rem_thread_cnt e - 1))
                   in Some (t\<lparr>recv_sockets_servers := (recv_sockets_servers t)(i := recv_sockets_servers t i @ [sock])\<rparr>))"

text \<open>\<open>std::map::insert\<close> keeps an existing entry.\<close>

definition insert_socket :: "u64 \<times> u64 \<Rightarrow> Socket \<Rightarrow> Transport \<Rightarrow> Transport" where
  "insert_socket key sock t =
     (if send_sockets t key = None then t\<lparr>send_sockets := (send_sockets t)(key \<mapsto> sock)\<rparr> else t)"

definition connect_thread :: "env \<Rightarrow> transport_config \<Rightarrow> u64 \<Rightarrow> u32 \<Rightarrow> u32 \<Rightarrow> u64 \<Rightarrow> Transport \<Rightarrow> Transport" where
  \<comment> \<open>\<open>base\<close> is the number of the first sending thread, \<open>cnt\<close> how many there are\<close>
  "connect_thread e tc node base cnt thread_id t =
     (let thd_id = thread_id - ucast base
      in if node mod ucast cnt \<noteq> thd_id then t
         else insert_socket (node, thread_id) (Connected node (get_port_id e tc (node_id e) node thd_id)) t)"

definition client_send_base :: "transport_config \<Rightarrow> u32" where
  "client_send_base tc = g_client_thread_cnt tc + g_client_rem_thread_cnt tc"

definition server_send_base :: "env \<Rightarrow> u32" where
  "server_send_base e = g_thread_cnt e + g_rem_thread_cnt e"

definition open_sockets :: "env \<Rightarrow> transport_config \<Rightarrow> u64 \<Rightarrow> Transport \<Rightarrow> Transport option" where
  "open_sockets e tc node t =
     (if node = node_id e then Some t
      else do {
        t \<leftarrow> (if ISCLIENTN e (ucast node)
              then fold_option (listen_to_client e tc node)
                     (word_range (client_send_base tc) (client_send_base tc + g_client_send_thread_cnt tc)) t
              else fold_option (listen_to_server e tc node) (word_range 0 (g_send_thread_cnt e)) t);
        Some (if ISCLIENTN e (g_node_id e)
              then fold (connect_thread e tc node (client_send_base tc) (g_client_send_thread_cnt tc))
                     (word_range (client_send_base tc) (client_send_base tc + g_client_send_thread_cnt tc)) t
              else fold (connect_thread e tc node (server_send_base e) (g_send_thread_cnt e))
                     (word_range (server_send_base e) (server_send_base e + g_send_thread_cnt e)) t) })"

definition Transport_init :: "env \<Rightarrow> transport_config \<Rightarrow> Transport option" where
  "Transport_init e tc = fold_option (open_sockets e tc) (word_range 0 (g_total_node_cnt e)) new_Transport"

text \<open>\<open>send_msg\<close> looks the socket up; a missing one is an invalid iterator.\<close>

definition send_msg_socket :: "u64 \<Rightarrow> u64 \<Rightarrow> Transport \<Rightarrow> Socket option" where
  "send_msg_socket send_thread_id dest_node_id t = send_sockets t (dest_node_id, send_thread_id)"

section \<open>Receiving\<close>

text \<open>
  The polling loop: try a position, go to the next, stop when it is the first one again.  Positions
  move by \<open>next\<close>; the result is the packet and the position where the search stopped.  \<open>run ctr\<close> is the
  loop condition \<open>!is_setup_done() || !is_done()\<close> when the search is at \<open>ctr\<close>, which another
  thread may change.
\<close>

partial_function (option) poll :: "(nat \<Rightarrow> bool) \<Rightarrow> (nat \<Rightarrow> nat) \<Rightarrow> (nat \<Rightarrow> string option) \<Rightarrow> nat \<Rightarrow> nat \<Rightarrow>
    (string option \<times> nat) option" where
  "poll run next incoming start ctr =
     (if \<not> run ctr then Some (None, ctr)
      else case incoming ctr of
        Some pkt \<Rightarrow> Some (Some pkt, ctr)
      | None \<Rightarrow> if next ctr = start then Some (None, next ctr) else poll run next incoming start (next ctr))"

definition get_next_socket :: "env \<Rightarrow> transport_config \<Rightarrow> nat \<Rightarrow> nat \<Rightarrow> Transport \<Rightarrow> (nat \<times> Transport) option" where
  "get_next_socket e tc tid n t =
     (let abs_tid = tid mod unat (g_this_rem_thread_cnt e tc); nsock = (sock_ctr t abs_tid + 1) mod n
      in if n = 0 then None else Some (nsock, t\<lparr>sock_ctr := (sock_ctr t)(abs_tid := nsock)\<rparr>))"

text \<open>The sockets that receiving thread \<open>thd\<close> of a server looks at.\<close>

definition polled_sockets :: "env \<Rightarrow> transport_config \<Rightarrow> nat \<Rightarrow> Transport \<Rightarrow> Socket list" where
  "polled_sockets e tc thd t =
     (if thd mod unat (g_this_rem_thread_cnt e tc) = 0 then recv_sockets_clients t
      else recv_sockets_servers t (thd mod unat (g_rem_thread_cnt e - 1)))"

definition recv_server :: "env \<Rightarrow> transport_config \<Rightarrow> (nat \<Rightarrow> bool) \<Rightarrow> (Socket \<Rightarrow> string option) \<Rightarrow> nat \<Rightarrow> Transport \<Rightarrow>
    (string option \<times> Transport) option" where
  "recv_server e tc run incoming thd t =
     (let socks = polled_sockets e tc thd t; n = length socks; abs_tid = thd mod unat (g_this_rem_thread_cnt e tc)
      in if abs_tid \<noteq> 0 \<and> g_rem_thread_cnt e - 1 = 0 then None
         else if abs_tid \<noteq> 0 \<and> n = 0 then Some (None, t)
         else do {
           (start, t) \<leftarrow> get_next_socket e tc thd n t;
           (pkt, ctr) \<leftarrow> poll run (\<lambda>c. (c + 1) mod n) (\<lambda>c. incoming (socks ! c)) start start;
           Some (pkt, t\<lparr>sock_ctr := (sock_ctr t)(abs_tid := ctr)\<rparr>) })"

text \<open>A client starts at a position that depends on the clock.\<close>

function first_below :: "nat \<Rightarrow> nat \<Rightarrow> nat \<Rightarrow> nat" where
  "first_below rem n ctr = (if 0 < n \<and> n \<le> ctr \<and> 0 < rem then first_below rem n (ctr - rem) else ctr)"
  by pat_completeness auto
termination by (relation "measure (\<lambda>(rem, n, ctr). ctr)") auto

declare first_below.simps [simp del]

definition recv_client :: "env \<Rightarrow> transport_config \<Rightarrow> (nat \<Rightarrow> bool) \<Rightarrow> nat \<Rightarrow> (Socket \<Rightarrow> string option) \<Rightarrow> nat \<Rightarrow> Transport \<Rightarrow>
    string option option" where
  "recv_client e tc run now incoming thd t =
     (let n = length (recv_sockets t); rem = unat (g_this_rem_thread_cnt e tc); ctr = thd mod rem
      in if n = 0 \<or> rem = 0 then None
         else if n \<le> ctr then Some None
         else let start = (if rem < unat (g_total_node_cnt e)
                           then first_below rem n (ctr + now mod n div rem * rem) else ctr)
              in map_option fst (poll run (\<lambda>c. if n \<le> c + rem then thd mod rem mod n else c + rem)
                   (\<lambda>c. incoming (recv_sockets t ! c)) start start))"

definition recv_msg :: "env \<Rightarrow> transport_config \<Rightarrow> (nat \<Rightarrow> bool) \<Rightarrow> nat \<Rightarrow> (Socket \<Rightarrow> string option) \<Rightarrow> nat \<Rightarrow> Transport \<Rightarrow>
    (msg list option \<times> Transport) option" where
  "recv_msg e tc run now incoming thd t = do {
     (pkt, t) \<leftarrow> (if ISSERVER e then recv_server e tc run incoming thd t
                    else map_option (\<lambda>p. (p, t)) (recv_client e tc run now incoming thd t));
     case pkt of
       None \<Rightarrow> Some (None, t)
     | Some buf \<Rightarrow> map_option (\<lambda>msgs. (Some msgs, t)) (create_messages e buf) }"

text \<open>The sockets that receiving thread \<open>thd\<close> of any node looks at: a client's threads share one vector.\<close>

definition heard_sockets :: "env \<Rightarrow> transport_config \<Rightarrow> nat \<Rightarrow> Transport \<Rightarrow> Socket list" where
  "heard_sockets e tc thd t =
     (if ISSERVER e then polled_sockets e tc thd t
      else map ((!) (recv_sockets t))
        (filter (\<lambda>i. i mod unat (g_this_rem_thread_cnt e tc) = thd mod unat (g_this_rem_thread_cnt e tc))
          [0..<length (recv_sockets t)]))"

section \<open>A search goes round all positions\<close>

text \<open>This is so while the simulation is running.\<close>

text \<open>\<open>r\<close> is a packet from one of the positions in \<open>I\<close>, or none of them has any.\<close>

definition found :: "'a set \<Rightarrow> ('a \<Rightarrow> string option) \<Rightarrow> string option \<Rightarrow> bool" where
  "found I incoming r \<longleftrightarrow>
     (case r of None \<Rightarrow> \<forall>i \<in> I. incoming i = None | Some p \<Rightarrow> \<exists>i \<in> I. incoming i = Some p)"

lemma found_image: "found (f ` I) g r \<longleftrightarrow> found I (\<lambda>i. g (f i)) r"
  by (auto simp: found_def split: option.splits)

text \<open>
  The positions are \<open>pos 0, \<dots>, pos (q - 1)\<close> and \<open>next\<close> moves along them in a circle.
\<close>

locale polling =
  fixes pos :: "nat \<Rightarrow> nat" and q :: nat and "next" :: "nat \<Rightarrow> nat"
  assumes some: "0 < q"
    and inj: "inj_on pos {..<q}"
    and step: "j < q \<Longrightarrow> next (pos j) = pos ((j + 1) mod q)"
begin

lemma poll_from:
  assumes "i < q" and "k < q"
  shows "\<exists>r c. poll (\<lambda>_. True) next incoming (pos i) (pos ((i + k) mod q)) = Some (r, c) \<and>
    (case r of None \<Rightarrow> (\<forall>m. k \<le> m \<and> m < q \<longrightarrow> incoming (pos ((i + m) mod q)) = None)
     | Some p \<Rightarrow> (\<exists>j < q. incoming (pos j) = Some p))"
  using assms
proof (induction "q - k" arbitrary: k)
  case 0
  then show ?case by simp
next
  case (Suc x)
  let ?j = "(i + k) mod q"
  have j: "?j < q" using some by simp
  have nxt: "next (pos ?j) = pos ((i + Suc k) mod q)" using step [OF j] by (simp add: mod_Suc_eq)
  show ?case
  proof (cases "incoming (pos ?j)")
    case (Some p)
    then show ?thesis using j by (subst poll.simps) auto
  next
    case None
    show ?thesis
    proof (cases "Suc k < q")
      case True
      have "next (pos ?j) \<noteq> pos i"
      proof
        assume "next (pos ?j) = pos i"
        then have "(i + Suc k) mod q = i" using nxt inj j Suc.prems(1) some by (auto dest!: inj_onD)
        then have "(i + Suc k) mod q = (i + 0) mod q" using Suc.prems(1) by simp
        then have "Suc k mod q = 0 mod q" by (simp only: nat_mod_eq_iff) auto
        then show False using True by simp
      qed
      moreover from Suc(1) [of "Suc k"] Suc(2) Suc.prems True obtain r c where
        rc: "poll (\<lambda>_. True) next incoming (pos i) (pos ((i + Suc k) mod q)) = Some (r, c)"
          "case r of None \<Rightarrow> (\<forall>m. Suc k \<le> m \<and> m < q \<longrightarrow> incoming (pos ((i + m) mod q)) = None)
           | Some p \<Rightarrow> (\<exists>j < q. incoming (pos j) = Some p)" by fastforce
      ultimately have "poll (\<lambda>_. True) next incoming (pos i) (pos ?j) = Some (r, c)"
        using None nxt by (subst poll.simps) simp
      moreover have "case r of None \<Rightarrow> (\<forall>m. k \<le> m \<and> m < q \<longrightarrow> incoming (pos ((i + m) mod q)) = None)
           | Some p \<Rightarrow> (\<exists>j < q. incoming (pos j) = Some p)"
        using rc(2) None by (auto split: option.splits simp: Suc_le_eq dest: le_neq_implies_less)
      ultimately show ?thesis by blast
    next
      case False
      with Suc.prems have k: "Suc k = q" by simp
      then have "next (pos ?j) = pos i" using nxt Suc.prems(1) by simp
      moreover have "m = k" if "k \<le> m" "m < q" for m using that k by simp
      ultimately show ?thesis using None by (subst poll.simps) auto
    qed
  qed
qed

lemma poll_round:
  assumes "i < q"
  shows "\<exists>r c. poll (\<lambda>_. True) next incoming (pos i) (pos i) = Some (r, c) \<and> found (pos ` {..<q}) incoming r"
proof -
  from poll_from [OF assms some, of incoming] assms obtain r c where
    rc: "poll (\<lambda>_. True) next incoming (pos i) (pos i) = Some (r, c)"
      "case r of None \<Rightarrow> (\<forall>m. 0 \<le> m \<and> m < q \<longrightarrow> incoming (pos ((i + m) mod q)) = None)
       | Some p \<Rightarrow> (\<exists>j < q. incoming (pos j) = Some p)"
    by simp blast
  have reach: "\<exists>m < q. (i + m) mod q = j" if "j < q" for j
    using that assms some by (intro exI [of _ "(j + (q - i)) mod q"]) (simp add: mod_simps)
  have "found (pos ` {..<q}) incoming r"
    using rc(2) reach by (auto simp: found_def split: option.splits) metis
  with rc(1) show ?thesis by blast
qed

end

text \<open>A server thread goes through a vector of \<open>m + 1\<close> sockets.\<close>

interpretation server_poll: polling "\<lambda>j. j" "Suc m" "\<lambda>c. (c + 1) mod Suc m" for m
  by unfold_locales auto

text \<open>A client thread visits, in a vector of \<open>r + m + 1\<close> sockets, every \<open>(k + 1)\<close>-th from \<open>r\<close> on.\<close>

lemma stride_less: "j < Suc (m div Suc k) \<longleftrightarrow> j * Suc k \<le> m"
  by (simp add: less_Suc_eq_le less_eq_div_iff_mult_less_eq del: mult_Suc_right)

interpretation client_poll: polling "\<lambda>j. r + j * Suc k" "m div Suc k + 1" "\<lambda>c. if r + Suc m \<le> c + Suc k then r else c + Suc k" for r k m
proof unfold_locales
  show "(if r + Suc m \<le> r + j * Suc k + Suc k then r else r + j * Suc k + Suc k) = r + (j + 1) mod (m div Suc k + 1) * Suc k"
    if "j < m div Suc k + 1" for j
  proof (cases "j + 1 < m div Suc k + 1")
    case True
    then have "(j + 1) * Suc k \<le> m" using stride_less [of _ m k] by (simp del: mult_Suc mult_Suc_right)
    then show ?thesis using True by (simp add: algebra_simps)
  next
    case False
    then have "\<not> (j + 1) * Suc k \<le> m" using stride_less [of _ m k] by (simp del: mult_Suc mult_Suc_right)
    moreover have "j + 1 = m div Suc k + 1" using False that by simp
    ultimately show ?thesis by (simp add: algebra_simps)
  qed
  show "inj_on (\<lambda>j. r + j * Suc k) {..<m div Suc k + 1}" by (rule inj_onI) (simp del: mult_Suc_right)
qed simp

lemma recv_server_finds:
  assumes "thd mod unat (g_this_rem_thread_cnt e tc) = 0 \<longrightarrow> recv_sockets_clients t \<noteq> []"
    and "1 < g_rem_thread_cnt e"
  shows "\<exists>r t'. recv_server e tc (\<lambda>_. True) incoming thd t = Some (r, t') \<and> found (set (polled_sockets e tc thd t)) incoming r \<and>
    t' = t\<lparr>sock_ctr := sock_ctr t'\<rparr>"
proof -
  let ?s = "polled_sockets e tc thd t"
  have rem: "g_rem_thread_cnt e - 1 \<noteq> 0" using assms(2) by auto
  show ?thesis
  proof (cases "?s")
    case Nil
    then show ?thesis using assms(1) rem
      by (auto simp: recv_server_def Let_def found_def polled_sockets_def split: if_splits)
  next
    case (Cons x xs)
    then obtain m where m: "length ?s = Suc m" by simp
    let ?i = "(sock_ctr t (thd mod unat (g_this_rem_thread_cnt e tc)) + 1) mod Suc m"
    obtain r c where "poll (\<lambda>_. True) (\<lambda>c. (c + 1) mod Suc m) (\<lambda>c. incoming (?s ! c)) ?i ?i = Some (r, c)"
        "found {..<Suc m} (\<lambda>c. incoming (?s ! c)) r"
      using server_poll.poll_round [of ?i m "\<lambda>c. incoming (?s ! c)"] by auto
    moreover have "set ?s = (!) ?s ` {..<Suc m}" using m by (force simp: set_conv_nth)
    ultimately show ?thesis using m rem Cons
      by (simp add: recv_server_def Let_def get_next_socket_def found_image [symmetric])
  qed
qed

lemma first_below_mod:
  assumes "0 < rem" and "ctr mod rem < n"
  shows "first_below rem n ctr < n \<and> first_below rem n ctr mod rem = ctr mod rem"
  using assms
proof (induction rem n ctr rule: first_below.induct)
  case (1 rem n ctr)
  show ?case
  proof (cases "n \<le> ctr")
    case True
    then have "rem \<le> ctr" using 1(3) by (metis not_le mod_less order_less_le_trans less_irrefl)
    then have "(ctr - rem) mod rem = ctr mod rem" by (simp add: le_mod_geq)
    then show ?thesis using 1 True by (subst (1 2) first_below.simps) auto
  qed (use 1 in \<open>subst (1 2) first_below.simps, auto\<close>)
qed

lemma recv_client_finds:
  assumes "0 < unat (g_this_rem_thread_cnt e tc)" and "recv_sockets t \<noteq> []"
    and "\<not> ISSERVER e"
  shows "\<exists>r. recv_client e tc (\<lambda>_. True) now incoming thd t = Some r \<and>
    found (set (heard_sockets e tc thd t)) incoming r"
proof -
  let ?n = "length (recv_sockets t)"
  obtain k where k: "unat (g_this_rem_thread_cnt e tc) = Suc k" using assms(1) gr0_conv_Suc by blast
  let ?r = "thd mod Suc k"
  have heard: "set (heard_sockets e tc thd t) = (!) (recv_sockets t) ` {i. i < ?n \<and> i mod Suc k = ?r}"
    using assms(3) k by (auto simp: heard_sockets_def)
  have idx: "i mod Suc k = ?r \<longleftrightarrow> (\<exists>j. i = ?r + j * Suc k)" for i
    by (metis mod_div_mult_eq mod_mod_trivial mod_mult_self1)
  show ?thesis
  proof (cases "?n \<le> ?r")
    case True
    have "\<not> (i < ?n \<and> i mod Suc k = ?r)" for i
      using True by (metis mod_less_eq_dividend not_le order_trans)
    then show ?thesis using True assms(2) k heard by (auto simp: recv_client_def Let_def found_def)
  next
    case False
    then obtain m where m: "?n = ?r + Suc m" using less_imp_Suc_add not_le by fastforce
    have pos: "{i. i < ?n \<and> i mod Suc k = ?r} = (\<lambda>j. ?r + j * Suc k) ` {..<m div Suc k + 1}" (is "?A = ?B")
    proof -
      have "i < ?n \<and> i mod Suc k = ?r \<longleftrightarrow> (\<exists>j. j * Suc k \<le> m \<and> i = ?r + j * Suc k)" for i
        unfolding idx m by (auto simp del: mult_Suc_right)
      then show ?thesis by (auto simp: stride_less image_iff Bex_def simp del: mult_Suc_right)
    qed
    define start where "start = (if Suc k < unat (g_total_node_cnt e)
      then first_below (Suc k) ?n (?r + now mod ?n div Suc k * Suc k) else ?r)"
    have "start < ?n \<and> start mod Suc k = ?r"
      using False first_below_mod [of "Suc k" "?r + now mod ?n div Suc k * Suc k" ?n]
      by (simp add: start_def del: mult_Suc_right)
    then have "start \<in> (\<lambda>j. ?r + j * Suc k) ` {..<m div Suc k + 1}" using pos by blast
    then obtain i where i: "start = ?r + i * Suc k" "i < m div Suc k + 1" by blast
    obtain r c where rc: "poll (\<lambda>_. True) (\<lambda>c. if ?r + Suc m \<le> c + Suc k then ?r else c + Suc k)
        (\<lambda>c. incoming (recv_sockets t ! c)) start start = Some (r, c)"
        "found {i. i < ?n \<and> i mod Suc k = ?r} (\<lambda>c. incoming (recv_sockets t ! c)) r"
      using client_poll.poll_round [OF i(2), of ?r "\<lambda>c. incoming (recv_sockets t ! c)"] unfolding i(1) pos by blast
    have "recv_client e tc (\<lambda>_. True) now incoming thd t = Some r"
      using rc(1) False m assms(2) unfolding start_def
      by (simp add: recv_client_def Let_def k cong: if_cong del: mult_Suc_right)
    then show ?thesis using rc(2) by (simp add: heard found_image)
  qed
qed

section \<open>The links between the nodes\<close>

text \<open>
  Node \<open>a\<close> sends to node \<open>b\<close> with one of its sending threads, over one socket, whose port both
  nodes compute.
\<close>

definition sender_cnt :: "env \<Rightarrow> transport_config \<Rightarrow> u64 \<Rightarrow> u32" where
  "sender_cnt e tc a = (if ISCLIENTN e (ucast a) then g_client_send_thread_cnt tc else g_send_thread_cnt e)"

definition sender_base :: "env \<Rightarrow> transport_config \<Rightarrow> u64 \<Rightarrow> u32" where
  "sender_base e tc a = (if ISCLIENTN e (ucast a) then client_send_base tc else server_send_base e)"

definition link_thread :: "env \<Rightarrow> transport_config \<Rightarrow> u64 \<Rightarrow> u64 \<Rightarrow> u64" where
  "link_thread e tc a b = ucast (sender_base e tc a) + b mod ucast (sender_cnt e tc a)"

definition link_port :: "env \<Rightarrow> transport_config \<Rightarrow> u64 \<Rightarrow> u64 \<Rightarrow> u64" where
  "link_port e tc a b = get_port_id e tc a b (b mod ucast (sender_cnt e tc a))"

text \<open>The configurations in which the threads can be numbered and the ports are different.\<close>

definition net_ok :: "env \<Rightarrow> transport_config \<Rightarrow> bool" where
  "net_ok e tc \<longleftrightarrow> 1 < g_rem_thread_cnt e \<and> 0 < g_client_rem_thread_cnt tc \<and> 0 < g_send_thread_cnt e \<and> 0 < g_client_send_thread_cnt tc \<and>
     unat (g_thread_cnt e) + unat (g_rem_thread_cnt e) + unat (g_send_thread_cnt e) < 2 ^ 32 \<and>
     unat (g_client_thread_cnt tc) + unat (g_client_rem_thread_cnt tc) + unat (g_client_send_thread_cnt tc) < 2 ^ 32 \<and>
     max (unat (g_send_thread_cnt e)) (unat (g_client_send_thread_cnt tc)) *
       unat (g_total_node_cnt e) * unat (g_total_node_cnt e) \<le> unat (TPORT_WINDOW tc) \<and>
     unat (TPORT_WINDOW tc) + unat (TPORT_PORT tc) < 2 ^ 64"

subsection \<open>One sending thread for each destination\<close>

lemma fold_skip: "fold (\<lambda>x t. if \<not> P x then t else f x t) xs t = fold f (filter P xs) t"
  by (induction xs arbitrary: t) auto

lemma fold_option_skip:
  "fold_option (\<lambda>x t. if \<not> P x then Some t else f x t) xs t = fold_option f (filter P xs) t"
  by (induction xs arbitrary: t) (auto split: Option.bind_split)

lemma filter_upt_eq: "u < n \<Longrightarrow> filter (\<lambda>i. u = i) [0..<n] = [u]"
  by (induction n) (auto simp: less_Suc_eq filter_empty_conv)

lemma unat_add_u32: "unat a + unat b < 2 ^ 32 \<Longrightarrow> unat (a + b :: u32) = unat a + unat b"
  by (simp add: unat_word_ariths)

lemma word_range_shift:
  assumes "unat base + unat cnt < 2 ^ 32"
  shows "word_range base (base + cnt) = map (\<lambda>i. ucast base + word_of_nat i) [0..<unat cnt]"
proof -
  have "[unat base..<unat base + unat cnt] = map (\<lambda>i. unat base + i) [0..<unat cnt]"
    by (rule nth_equalityI) auto
  moreover have "(ucast base :: u64) = word_of_nat (unat base)" by (metis unat_u32 word_nat_cases unat_of_nat_u64 unat_u64_less word_unat_eq_iff)
  ultimately show ?thesis
    using unat_add_u32 [OF assms] by (simp add: word_range_def o_def add.commute)
qed

lemma range_hit:
  assumes "unat base + unat cnt < 2 ^ 32" and "r < ucast cnt"
  shows "filter (\<lambda>x. r = x - ucast base) (word_range base (base + cnt)) = [ucast base + r]"
proof -
  have u: "unat r < unat cnt" using assms(2) by (simp add: word_less_nat_alt)
  have "r = word_of_nat i \<longleftrightarrow> unat r = i" if "i < unat cnt" for i
  proof -
    have "unat (word_of_nat i :: u64) = i"
      using that unat_u32_less [of cnt] by (intro unat_of_nat_u64) simp
    then show ?thesis by auto
  qed
  then have "filter (\<lambda>i. r = word_of_nat i) [0..<unat cnt] = filter (\<lambda>i. unat r = i) [0..<unat cnt]"
    by (intro filter_cong) auto
  also have "\<dots> = [unat r]" using filter_upt_eq [OF u] .
  finally show ?thesis
    using word_range_shift [OF assms(1)] by (simp add: filter_map o_def)
qed

subsection \<open>The sockets that are open after \<open>init\<close>\<close>

definition wired :: "env \<Rightarrow> transport_config \<Rightarrow> u64 list \<Rightarrow> Transport" where
  "wired e tc ns =
     (let others = filter (\<lambda>n. n \<noteq> node_id e) ns; socks = map (\<lambda>n. Bound (link_port e tc n (node_id e)))
      in \<lparr>send_sockets = (\<lambda>(d, thd). if d \<in> set others \<and> thd = link_thread e tc (node_id e) d
            then Some (Connected d (link_port e tc (node_id e) d)) else None),
          recv_sockets = (if ISSERVER e then [] else socks others),
          recv_sockets_clients = (if ISSERVER e then socks (filter (\<lambda>n. ISCLIENTN e (ucast n)) others) else []),
          recv_sockets_servers = (\<lambda>i. if ISSERVER e
            then socks (filter (\<lambda>n. \<not> ISCLIENTN e (ucast n) \<and> unat (n mod ucast (g_rem_thread_cnt e - 1)) = i) others)
            else []),
          sock_ctr = (\<lambda>_. 0)\<rparr>)"

lemma ucast_u32_eq_0 [simp]: "(ucast (w :: u32) :: u64) = 0 \<longleftrightarrow> w = 0"
  by (metis unat_u32 unat_eq_0)

lemma link_cnt:
  assumes "net_ok e tc"
  shows "b mod ucast (sender_cnt e tc a) < (ucast (sender_cnt e tc a) :: u64)"
    "unat (sender_base e tc a) + unat (sender_cnt e tc a) < 2 ^ 32"
proof -
  have "ucast (sender_cnt e tc a) \<noteq> (0 :: u64)"
    using assms by (auto simp: sender_cnt_def net_ok_def)
  then show "b mod ucast (sender_cnt e tc a) < (ucast (sender_cnt e tc a) :: u64)"
    by (simp add: word_mod_less_divisor word_gt_0)
  show "unat (sender_base e tc a) + unat (sender_cnt e tc a) < 2 ^ 32"
    using assms
    by (auto simp: net_ok_def sender_base_def sender_cnt_def client_send_base_def server_send_base_def unat_add_u32)
qed

lemma connect_all:
  assumes "net_ok e tc"
  shows "fold (connect_thread e tc n (sender_base e tc a) (sender_cnt e tc a))
      (word_range (sender_base e tc a) (sender_base e tc a + sender_cnt e tc a)) t =
    insert_socket (n, link_thread e tc a n)
      (Connected n (get_port_id e tc (node_id e) n (n mod ucast (sender_cnt e tc a)))) t"
proof -
  let ?b = "ucast (sender_base e tc a)" and ?r = "n mod ucast (sender_cnt e tc a)"
  have "connect_thread e tc n (sender_base e tc a) (sender_cnt e tc a) =
      (\<lambda>x t. if \<not> ?r = x - ?b then t
         else insert_socket (n, x) (Connected n (get_port_id e tc (node_id e) n (x - ?b))) t)"
    by (intro ext) (simp add: connect_thread_def Let_def)
  then show ?thesis
    by (simp only: fold_skip range_hit [OF link_cnt(2) [OF assms] link_cnt(1) [OF assms]]) (simp add: link_thread_def)
qed

definition add_listener :: "env \<Rightarrow> u64 \<Rightarrow> Socket \<Rightarrow> Transport \<Rightarrow> Transport" where
  "add_listener e n sock t =
     (if \<not> ISSERVER e then t\<lparr>recv_sockets := recv_sockets t @ [sock]\<rparr>
      else if ISCLIENTN e (ucast n) then t\<lparr>recv_sockets_clients := recv_sockets_clients t @ [sock]\<rparr>
      else let i = unat (n mod ucast (g_rem_thread_cnt e - 1))
           in t\<lparr>recv_sockets_servers := (recv_sockets_servers t)(i := recv_sockets_servers t i @ [sock])\<rparr>)"

lemma listen_clients:
  assumes "net_ok e tc" and "ISCLIENTN e (ucast n)"
  shows "fold_option (listen_to_client e tc n)
      (word_range (client_send_base tc) (client_send_base tc + g_client_send_thread_cnt tc)) t =
    Some (add_listener e n (Bound (link_port e tc n (node_id e))) t)"
proof -
  let ?r = "node_id e mod ucast (sender_cnt e tc n)" and ?b = "ucast (sender_base e tc n) :: u64"
  have sc: "sender_cnt e tc n = g_client_send_thread_cnt tc" "sender_base e tc n = client_send_base tc"
    using assms(2) by (simp_all add: sender_cnt_def sender_base_def)
  have "ucast (client_send_base tc) = (ucast (g_client_thread_cnt tc) + ucast (g_client_rem_thread_cnt tc) :: u64)"
    using assms(1) by (simp add: word_unat_eq_iff client_send_base_def net_ok_def unat_add_u32 unat_add_u64)
  then have lis: "listen_to_client e tc n =
      (\<lambda>x t. if \<not> ?r = x - ?b then Some t
         else Some (add_listener e n (Bound (get_port_id e tc n (node_id e) (x - ?b))) t))"
    using assms(2) by (intro ext) (simp add: listen_to_client_def Let_def sc add_listener_def diff_diff_eq)
  have hit: "filter (\<lambda>x. ?r = x - ?b) (word_range (client_send_base tc) (client_send_base tc + g_client_send_thread_cnt tc)) = [?b + ?r]"
    using range_hit [OF link_cnt(2) [OF assms(1)] link_cnt(1) [OF assms(1)], of "node_id e" n] by (simp add: sc)
  show ?thesis unfolding lis fold_option_skip hit by (simp add: link_port_def)
qed

lemma listen_servers:
  assumes "net_ok e tc" and "\<not> ISCLIENTN e (ucast n)"
  shows "fold_option (listen_to_server e tc n) (word_range 0 (g_send_thread_cnt e)) t =
    Some (add_listener e n (Bound (link_port e tc n (node_id e))) t)"
proof -
  let ?r = "node_id e mod ucast (sender_cnt e tc n)"
  have sc: "sender_cnt e tc n = g_send_thread_cnt e" using assms(2) by (simp add: sender_cnt_def)
  have rem: "g_rem_thread_cnt e \<noteq> 1" using assms(1) by (auto simp: net_ok_def)
  have "unat (0 :: u32) + unat (g_send_thread_cnt e) < 2 ^ 32" using unat_u32_less by simp
  from range_hit [OF this] have hit: "filter (\<lambda>x. ?r = x) (word_range 0 (g_send_thread_cnt e)) = [?r]"
    using link_cnt(1) [OF assms(1), of "node_id e" n] sc by simp
  have "listen_to_server e tc n =
      (\<lambda>x t. if \<not> ?r = x then Some t
         else Some (add_listener e n (Bound (get_port_id e tc n (node_id e) x)) t))"
    using assms(2) rem by (intro ext) (simp add: listen_to_server_def Let_def sc add_listener_def)
  then show ?thesis by (simp only: fold_option_skip hit) (simp add: link_port_def sc)
qed

lemma ucast_down_u32 [simp]: "(ucast (ucast (w :: u32) :: u64) :: u32) = w"
  by (intro bit_word_eqI) (simp add: bit_ucast_iff)

lemma sender_client: "ISCLIENTN e (g_node_id e) \<Longrightarrow>
    sender_base e tc (node_id e) = client_send_base tc \<and> sender_cnt e tc (node_id e) = g_client_send_thread_cnt tc"
  "\<not> ISCLIENTN e (g_node_id e) \<Longrightarrow>
    sender_base e tc (node_id e) = server_send_base e \<and> sender_cnt e tc (node_id e) = g_send_thread_cnt e"
  by (simp_all add: sender_base_def sender_cnt_def)

lemma open_sockets_eq:
  assumes "net_ok e tc" and "n \<noteq> node_id e"
  shows "open_sockets e tc n t =
    Some (insert_socket (n, link_thread e tc (node_id e) n) (Connected n (link_port e tc (node_id e) n))
      (add_listener e n (Bound (link_port e tc n (node_id e))) t))"
proof -
  note con = connect_all [OF assms(1), of n "node_id e"] link_port_def [of e tc "node_id e"]
  note lis = listen_clients [OF assms(1)] listen_servers [OF assms(1)]
  show ?thesis
  proof (cases "ISCLIENTN e (g_node_id e)")
    case True
    with assms(2) con show ?thesis by (simp add: sender_client(1) [OF True] open_sockets_def lis)
  next
    case False
    with assms(2) con show ?thesis by (simp add: sender_client(2) [OF False] open_sockets_def lis)
  qed
qed

lemma wired_Nil: "wired e tc [] = new_Transport"
  by (simp add: wired_def new_Transport_def Let_def fun_eq_iff)

lemma open_sockets_wired:
  assumes "net_ok e tc"
  shows "open_sockets e tc n (wired e tc ns) = Some (wired e tc (ns @ [n]))"
proof (cases "n = node_id e")
  case True
  then show ?thesis by (simp add: open_sockets_def wired_def Let_def)
next
  case False
  let ?key = "(n, link_thread e tc (node_id e) n)"
  have lis: "add_listener e n (Bound (link_port e tc n (node_id e))) (wired e tc ns) =
      (wired e tc (ns @ [n]))\<lparr>send_sockets := send_sockets (wired e tc ns)\<rparr>"
    using False by (auto simp: add_listener_def wired_def Let_def fun_eq_iff)
  have "send_sockets (wired e tc (ns @ [n])) = (send_sockets (wired e tc ns))(?key \<mapsto> Connected n (link_port e tc (node_id e) n))"
    using False by (auto simp: wired_def Let_def fun_eq_iff)
  moreover have "send_sockets (wired e tc ns) ?key = None \<or>
      send_sockets (wired e tc ns) ?key = Some (Connected n (link_port e tc (node_id e) n))"
    by (auto simp: wired_def Let_def)
  ultimately show ?thesis
    unfolding open_sockets_eq [OF assms False] lis insert_socket_def by (auto simp: map_upd_triv)
qed

lemma Transport_init_wired:
  assumes "net_ok e tc"
  shows "Transport_init e tc = Some (wired e tc (word_range 0 (g_total_node_cnt e)))"
proof -
  have "fold_option (open_sockets e tc) ms (wired e tc ns) = Some (wired e tc (ns @ ms))" for ms ns
    by (induction ms arbitrary: ns) (simp_all add: open_sockets_wired [OF assms])
  from this [of "word_range 0 (g_total_node_cnt e)" "[]"] show ?thesis
    by (simp add: Transport_init_def wired_Nil)
qed

lemma set_word_range: "set (word_range 0 n) = {i. i < ucast n}"
proof -
  have "i \<in> set (word_range 0 n)" if "i < ucast n" for i
    using that by (auto simp: word_range_def word_less_nat_alt image_iff intro!: bexI [of _ "unat i"])
  moreover have "i < ucast n" if "i \<in> set (word_range 0 n)" for i
    using that unat_u32_less [of n] by (auto simp: word_range_def word_less_nat_alt unat_of_nat_u64)
  ultimately show ?thesis by blast
qed

lemma distinct_word_range: "distinct (word_range 0 n)"
  using inj_on_of_nat_u64 [of "unat n"] unat_u32_less [of n]
  by (auto simp: word_range_def distinct_map lessThan_atLeast0)

subsection \<open>Different links have different ports\<close>

lemma digits_less:
  assumes "(a :: nat) < T" and "b < T" and "k < m"
  shows "k * T * T + T * b + a < m * T * T"
proof -
  have "T * b + a < T * Suc b" using assms(1) by simp
  also have "\<dots> \<le> T * T" using assms(2) by (intro mult_le_mono) auto
  finally have "k * T * T + (T * b + a) < k * T * T + T * T" by simp
  also have "\<dots> = Suc k * T * T" by (simp add: algebra_simps)
  also have "\<dots> \<le> m * T * T" using assms(3) by (intro mult_le_mono) auto
  finally show ?thesis by simp
qed

lemma link_port_value:
  assumes "net_ok e tc" and "a < total_cnt e" and "b < total_cnt e"
  shows "\<exists>k. unat (link_port e tc a b) =
    k * unat (total_cnt e) * unat (total_cnt e) + unat (total_cnt e) * unat b + unat a + unat (TPORT_PORT tc)"
proof -
  let ?T = "unat (g_total_node_cnt e)" and ?k = "b mod ucast (sender_cnt e tc a)"
  have k: "unat ?k < max (unat (g_send_thread_cnt e)) (unat (g_client_send_thread_cnt tc))"
    using link_cnt(1) [OF assms(1), of b a] by (auto simp: word_less_nat_alt sender_cnt_def less_max_iff_disj split: if_splits)
  have less: "unat ?k * ?T * ?T + ?T * unat b + unat a < unat (TPORT_WINDOW tc)"
  proof -
    have "unat a < ?T" "unat b < ?T" using assms(2,3) by (simp_all add: word_less_nat_alt)
    from digits_less [OF this k] show ?thesis using assms(1) by (simp add: net_ok_def)
  qed
  let ?s = "total_cnt e * b + a + ?k * total_cnt e * total_cnt e"
  have s: "unat ?s = unat ?k * ?T * ?T + ?T * unat b + unat a"
  proof -
    have W: "unat (TPORT_WINDOW tc) < 2 ^ 64" by (rule unat_u64_less)
    have 1: "unat (total_cnt e * b) = ?T * unat b" using less W by (subst unat_mult_u64) auto
    have 2: "unat (total_cnt e * b + a) = ?T * unat b + unat a" using less W 1 by (subst unat_add_u64) auto
    have 3: "unat (?k * total_cnt e * total_cnt e) = unat ?k * ?T * ?T"
    proof (cases "?T = 0")
      case False
      then have le: "unat ?k * ?T \<le> unat ?k * ?T * ?T" by simp
      have "unat ?k * ?T < 2 ^ 64" using less W le by linarith
      then have "unat (?k * total_cnt e) = unat ?k * ?T" by (subst unat_mult_u64) auto
      then show ?thesis using less W by (subst unat_mult_u64) auto
    qed (simp add: unat_eq_0)
    show ?thesis using less W 2 3 by (subst unat_add_u64) auto
  qed
  then have "?s mod TPORT_WINDOW tc = ?s" using less s by (simp add: word_unat_eq_iff unat_mod_distrib)
  then have "link_port e tc a b = ?s + TPORT_PORT tc" by (simp add: link_port_def get_port_id_def)
  moreover have "unat (?s + TPORT_PORT tc) = unat ?s + unat (TPORT_PORT tc)"
    using less s assms(1) by (intro unat_add_u64) (simp add: net_ok_def)
  ultimately show ?thesis using s by (intro exI [of _ "unat ?k"]) simp
qed

lemma link_port_inj:
  assumes "net_ok e tc" and "a < total_cnt e" and "a' < total_cnt e" and "b < total_cnt e"
    and "link_port e tc a b = link_port e tc a' b"
  shows "a = a'"
proof -
  let ?T = "unat (total_cnt e)"
  obtain k k' where "k * ?T * ?T + ?T * unat b + unat a = k' * ?T * ?T + ?T * unat b + unat a'"
    using link_port_value [OF assms(1,2,4)] link_port_value [OF assms(1,3,4)] assms(5) by (metis add_right_imp_eq)
  then have "unat a + (k * ?T + unat b) * ?T = unat a' + (k' * ?T + unat b) * ?T"
    by (simp add: algebra_simps)
  then have "(unat a + (k * ?T + unat b) * ?T) mod ?T = (unat a' + (k' * ?T + unat b) * ?T) mod ?T"
    by (rule arg_cong)
  then have "unat a mod ?T = unat a' mod ?T" by (simp only: mod_mult_self1)
  then show ?thesis using assms(2,3) by (simp add: word_less_nat_alt word_unat_eq_iff)
qed

subsection \<open>Every packet is sent and polled\<close>

lemma g_node_id_irrelevant [simp]:
  "net_ok (e\<lparr>g_node_id := x\<rparr>) tc = net_ok e tc"
  "g_total_node_cnt (e\<lparr>g_node_id := x\<rparr>) = g_total_node_cnt e"
  "link_port (e\<lparr>g_node_id := x\<rparr>) tc = link_port e tc"
  "link_thread (e\<lparr>g_node_id := x\<rparr>) tc = link_thread e tc"
  "ISCLIENTN (e\<lparr>g_node_id := x\<rparr>) = ISCLIENTN e"
  by (simp_all add: fun_eq_iff net_ok_def g_total_node_cnt_def link_port_def link_thread_def get_port_id_def sender_cnt_def
      sender_base_def server_send_base_def ISCLIENTN_def)

lemma link_socket:
  assumes "net_ok e tc" and "a \<noteq> b" and "b < total_cnt e" and "node_id e = a"
  shows "\<exists>t. Transport_init e tc = Some t \<and>
    send_msg_socket (link_thread e tc a b) b t = Some (Connected b (link_port e tc a b))"
  using assms by (auto simp: Transport_init_wired send_msg_socket_def wired_def Let_def set_word_range)

lemma polled_sockets_wired:
  assumes "net_ok e tc" and "ISSERVER e" and "Transport_init e tc = Some t"
  shows "set (polled_sockets e tc thd t) =
    {Bound (link_port e tc n (node_id e)) | n. n < total_cnt e \<and> n \<noteq> node_id e \<and>
      (if thd mod unat (g_rem_thread_cnt e) = 0 then ISCLIENTN e (ucast n)
       else \<not> ISCLIENTN e (ucast n) \<and> unat n mod (unat (g_rem_thread_cnt e) - 1) = thd mod (unat (g_rem_thread_cnt e) - 1))}"
proof -
  have "\<not> ISCLIENT e" using assms(2) by (auto simp: ISSERVER_def ISCLIENT_def)
  moreover have "unat (g_rem_thread_cnt e - 1) = unat (g_rem_thread_cnt e) - 1"
    using assms(1) by (intro unat_minus_one) (auto simp: net_ok_def)
  ultimately show ?thesis
    using assms by (auto simp: Transport_init_wired polled_sockets_def wired_def Let_def set_word_range
        g_this_rem_thread_cnt_def unat_mod_distrib image_iff)
qed

lemma one_group:
  assumes "1 < (R :: nat)"
  shows "\<exists>!thd. thd < R \<and> thd \<noteq> 0 \<and> i mod (R - 1) = thd mod (R - 1)"
proof -
  let ?i = "i mod (R - 1)"
  let ?t = "if ?i = 0 then R - 1 else ?i"
  have i: "?i < R - 1" using assms by simp
  show ?thesis
  proof (rule ex1I [of _ ?t])
    have "?i < R" using i by linarith
    then show "?t < R \<and> ?t \<noteq> 0 \<and> ?i = ?t mod (R - 1)" using assms i by auto
    fix thd assume thd: "thd < R \<and> thd \<noteq> 0 \<and> ?i = thd mod (R - 1)"
    then have "thd = R - 1 \<or> thd < R - 1" by auto
    then show "thd = ?t" using thd by auto
  qed
qed

lemma link_polled:
  assumes "net_ok e tc" and "ISSERVER e" and "a < total_cnt e" and "a \<noteq> node_id e"
    and "node_id e < total_cnt e" and "Transport_init e tc = Some t"
  shows "\<exists>!thd. thd < unat (g_rem_thread_cnt e) \<and>
    Bound (link_port e tc a (node_id e)) \<in> set (polled_sockets e tc thd t)"
proof -
  let ?R = "unat (g_rem_thread_cnt e)"
  have R: "1 < ?R" using assms(1) by (auto simp: net_ok_def word_less_nat_alt)
  have inj: "link_port e tc a (node_id e) = link_port e tc n (node_id e) \<longleftrightarrow> a = n" if "n < total_cnt e" for n
    using link_port_inj [OF assms(1,3) that assms(5)] by blast
  have mem: "Bound (link_port e tc a (node_id e)) \<in> set (polled_sockets e tc thd t) \<longleftrightarrow>
      (if thd = 0 then ISCLIENTN e (ucast a)
       else \<not> ISCLIENTN e (ucast a) \<and> unat a mod (?R - 1) = thd mod (?R - 1))" if "thd < ?R" for thd
    unfolding polled_sockets_wired [OF assms(1,2,6)] using that inj assms(3,4) by auto
  show ?thesis
  proof (cases "ISCLIENTN e (ucast a)")
    case True
    then show ?thesis using R mem by (intro ex1I [of _ 0]) (auto split: if_splits)
  next
    case False
    then have "thd < ?R \<and> Bound (link_port e tc a (node_id e)) \<in> set (polled_sockets e tc thd t) \<longleftrightarrow>
        thd < ?R \<and> thd \<noteq> 0 \<and> unat a mod (?R - 1) = thd mod (?R - 1)" for thd
      using mem [of thd] by (auto split: if_splits)
    then show ?thesis using one_group [OF R, of "unat a"] by simp
  qed
qed

text \<open>A client listens to all other nodes with one vector of sockets, which its receiving threads share.\<close>

lemma client_link_heard:
  assumes "net_ok e tc" and "\<not> ISSERVER e" and "a < total_cnt e" and "a \<noteq> node_id e"
    and "node_id e < total_cnt e" and "Transport_init e tc = Some t"
  shows "\<exists>!thd. thd < unat (g_this_rem_thread_cnt e tc) \<and>
    Bound (link_port e tc a (node_id e)) \<in> set (heard_sockets e tc thd t)"
proof -
  let ?R = "unat (g_this_rem_thread_cnt e tc)" and ?L = "recv_sockets t" and ?p = "Bound (link_port e tc a (node_id e))"
  have R: "0 < ?R" using assms(1) by (auto simp: g_this_rem_thread_cnt_def net_ok_def word_less_nat_alt)
  have L: "?L = map (\<lambda>n. Bound (link_port e tc n (node_id e))) (filter (\<lambda>n. n \<noteq> node_id e) (word_range 0 (g_total_node_cnt e)))"
    using assms(2,6) by (simp add: Transport_init_wired [OF assms(1)] wired_def Let_def) auto
  have "distinct ?L"
    unfolding L using link_port_inj [OF assms(1) _ _ assms(5)] distinct_word_range
    by (auto simp: distinct_map inj_on_def set_word_range)
  moreover have "?p \<in> set ?L" unfolding L using assms(3,4) by (auto simp: set_word_range)
  ultimately obtain i where i: "i < length ?L" "?L ! i = ?p" "\<And>j. j < length ?L \<Longrightarrow> ?L ! j = ?p \<Longrightarrow> j = i"
    by (metis in_set_conv_nth nth_eq_iff_index_eq)
  have mem: "?p \<in> set (heard_sockets e tc thd t) \<longleftrightarrow> i mod ?R = thd" if "thd < ?R" for thd
  proof -
    have "?p \<in> set (heard_sockets e tc thd t) \<longleftrightarrow> (\<exists>j < length ?L. j mod ?R = thd mod ?R \<and> ?L ! j = ?p)"
      using assms(2) by (auto simp: heard_sockets_def image_iff)
    also have "\<dots> \<longleftrightarrow> i mod ?R = thd mod ?R" using i by metis
    finally show ?thesis using that by simp
  qed
  show ?thesis
  proof (rule ex1I [of _ "i mod ?R"])
    show "i mod ?R < ?R \<and> ?p \<in> set (heard_sockets e tc (i mod ?R) t)" using R mem [of "i mod ?R"] by simp
    show "thd = i mod ?R" if "thd < ?R \<and> ?p \<in> set (heard_sockets e tc thd t)" for thd using that mem [of thd] by auto
  qed
qed

lemma link_heard:
  assumes "net_ok e tc" and "a < total_cnt e" and "a \<noteq> node_id e"
    and "node_id e < total_cnt e" and "Transport_init e tc = Some t"
  shows "\<exists>!thd. thd < unat (g_this_rem_thread_cnt e tc) \<and>
    Bound (link_port e tc a (node_id e)) \<in> set (heard_sockets e tc thd t)"
proof (cases "ISSERVER e")
  case True
  then have "g_this_rem_thread_cnt e tc = g_rem_thread_cnt e"
    by (auto simp: ISSERVER_def ISCLIENT_def g_this_rem_thread_cnt_def)
  with link_polled [OF assms(1) True assms(2-5)] True show ?thesis by (simp add: heard_sockets_def)
qed (use client_link_heard [OF assms(1) _ assms(2-5)] in simp)

end
