(* ===== verification/Containers.thy ===== *)
theory Containers
  imports Prelude
begin

text \<open>
  The generic containers: \<open>Array\<close> (\<^verbatim>\<open>system/array.h\<close>), \<open>SpinLockMap\<close>, \<open>SpinLockSet\<close>,
  \<open>SharedInt\<close> and \<open>AllComb\<close> (\<^verbatim>\<open>data_structures\<close>).  A failed \<open>assert\<close>, an access outside an
  array and waiting for a mutex that is never released are \<open>None\<close>.
\<close>

section \<open>Array\<close>

text \<open>The slots, \<open>capacity\<close> many, of which the first \<open>count\<close> are in use.\<close>

record 'a Array =
  ar_items :: "'a list"
  ar_count :: nat

abbreviation ar_capacity :: "'a Array \<Rightarrow> nat" where
  "ar_capacity a \<equiv> length (ar_items a)"

abbreviation ar_list :: "'a Array \<Rightarrow> 'a list" where
  "ar_list a \<equiv> take (ar_count a) (ar_items a)"

definition Array_init :: "'a list \<Rightarrow> 'a Array" where
  \<comment> \<open>\<open>mem\<close> is what the allocator returns\<close>
  "Array_init mem = \<lparr>ar_items = mem, ar_count = 0\<rparr>"

definition Array_clear :: "'a Array \<Rightarrow> 'a Array" where
  "Array_clear a = a\<lparr>ar_count := 0\<rparr>"

definition Array_release :: "'a Array \<Rightarrow> 'a Array" where
  "Array_release a = a\<lparr>ar_items := [], ar_count := 0\<rparr>"

definition Array_add :: "'a \<Rightarrow> 'a Array \<Rightarrow> 'a Array option" where
  "Array_add x a =
     (if ar_count a < ar_capacity a
      then Some (a\<lparr>ar_items := (ar_items a)[ar_count a := x], ar_count := Suc (ar_count a)\<rparr>) else None)"

text \<open>\<open>add()\<close> takes the next slot as it is.\<close>

definition Array_add_slot :: "'a Array \<Rightarrow> 'a Array option" where
  "Array_add_slot a = (if ar_count a < ar_capacity a then Some (a\<lparr>ar_count := ar_count a + 1\<rparr>) else None)"

definition Array_get :: "nat \<Rightarrow> 'a Array \<Rightarrow> 'a option" where
  "Array_get i a = (if i < ar_count a \<and> i < ar_capacity a then Some (ar_items a ! i) else None)"

definition Array_set :: "nat \<Rightarrow> 'a \<Rightarrow> 'a Array \<Rightarrow> 'a Array option" where
  "Array_set i x a = (if i < ar_count a then Some (a\<lparr>ar_items := (ar_items a)[i := x]\<rparr>) else None)"

definition Array_append :: "'a Array \<Rightarrow> 'a Array \<Rightarrow> 'a Array option" where
  "Array_append b a =
     (if ar_count a + ar_count b \<le> ar_capacity a then fold_option Array_add (ar_list b) a else None)"

definition Array_copy :: "'a list \<Rightarrow> 'a Array \<Rightarrow> 'a Array option" where
  "Array_copy mem b = fold_option Array_add (ar_list b) (Array_init mem)"

definition Array_add_unique :: "'a \<Rightarrow> 'a Array \<Rightarrow> 'a Array option" where
  "Array_add_unique x a = (if x \<in> set (ar_list a) then Some a else Array_add x a)"

definition Array_contains :: "'a \<Rightarrow> 'a Array \<Rightarrow> bool" where
  "Array_contains x a \<longleftrightarrow> x \<in> set (ar_list a)"

fun position :: "'a \<Rightarrow> 'a list \<Rightarrow> nat" where
  "position x [] = 0"
| "position x (y # ys) = (if y = x then 0 else Suc (position x ys))"

definition Array_getPosition :: "'a \<Rightarrow> 'a Array \<Rightarrow> nat" where
  "Array_getPosition x a = position x (ar_list a)"

text \<open>\<open>tmp\<close> is a reference to slot \<open>i\<close>, not a copy: reading it after slot \<open>i\<close> has been overwritten
  gives the new value.\<close>

definition Array_swap :: "nat \<Rightarrow> nat \<Rightarrow> 'a Array \<Rightarrow> 'a Array option" where
  "Array_swap i j a =
     (if i < ar_capacity a \<and> j < ar_capacity a
      then (let items = (ar_items a)[i := ar_items a ! j];
                items = items[j := items ! i]
            in Some (a\<lparr>ar_items := items\<rparr>))
      else None)"

definition Array_is_full :: "'a Array \<Rightarrow> bool" where
  "Array_is_full a \<longleftrightarrow> ar_count a = ar_capacity a"

definition Array_is_empty :: "'a Array \<Rightarrow> bool" where
  "Array_is_empty a \<longleftrightarrow> ar_count a = 0"

definition array_ok :: "'a Array \<Rightarrow> bool" where
  "array_ok a \<longleftrightarrow> ar_count a \<le> ar_capacity a"

lemma Array_add:
  assumes "array_ok a"
  shows "Array_add x a = None \<longleftrightarrow> Array_is_full a"
    and "Array_add x a = Some a' \<Longrightarrow> array_ok a' \<and> ar_list a' = ar_list a @ [x] \<and> ar_capacity a' = ar_capacity a"
  using assms by (auto simp: Array_add_def array_ok_def Array_is_full_def take_Suc_conv_app_nth split: if_splits)

lemma Array_add_all:
  assumes "array_ok a" and "ar_count a + length xs \<le> ar_capacity a"
  shows "\<exists>a'. fold_option Array_add xs a = Some a' \<and> array_ok a' \<and> ar_list a' = ar_list a @ xs \<and> ar_capacity a' = ar_capacity a"
  using assms
proof (induction xs arbitrary: a)
  case (Cons x xs)
  obtain b where b: "Array_add x a = Some b" using Array_add(1) [OF Cons.prems(1), of x] Cons.prems by (cases "Array_add x a") (auto simp: Array_is_full_def)
  have "ar_count b = Suc (ar_count a)" using b by (auto simp: Array_add_def split: if_splits)
  then obtain a' where "fold_option Array_add xs b = Some a'" "array_ok a'" "ar_list a' = ar_list b @ xs" "ar_capacity a' = ar_capacity b"
    using Cons.IH [of b] Cons.prems Array_add(2) [OF Cons.prems(1) b] by auto
  then show ?case using b Array_add(2) [OF Cons.prems(1) b] by auto
qed simp

lemma Array_copy:
  assumes "array_ok b" and "ar_count b \<le> length mem"
  shows "\<exists>a. Array_copy mem b = Some a \<and> ar_list a = ar_list b"
  using Array_add_all [of "Array_init mem" "ar_list b"] assms
  by (auto simp: Array_copy_def Array_init_def array_ok_def)

lemma position_le: "position x xs \<le> length xs"
  by (induction xs) auto

lemma position_nth: "x \<in> set xs \<Longrightarrow> position x xs < length xs \<and> xs ! position x xs = x"
  by (induction xs) auto

lemma Array_swap_items:
  "i < ar_capacity a \<Longrightarrow> j < ar_capacity a \<Longrightarrow>
   Array_swap i j a = Some (a\<lparr>ar_items := (ar_items a)[i := ar_items a ! j]\<rparr>)"
  by (cases "i = j") (simp_all add: Array_swap_def Let_def list_update_swap [of i j])

section \<open>SharedInt and SpinLockSet\<close>

definition SharedInt_set :: "u64 \<Rightarrow> u64 \<Rightarrow> u64" where
  "SharedInt_set val value = val"

definition SharedInt_add :: "u64 \<Rightarrow> u64 \<Rightarrow> u64" where
  "SharedInt_add val v = v + val"

definition SharedInt_sub :: "u64 \<Rightarrow> u64 \<Rightarrow> u64" where
  "SharedInt_sub val v = v - val"

definition SpinLockSet_add :: "'a \<Rightarrow> 'a set \<Rightarrow> 'a set" where
  "SpinLockSet_add key s = insert key s"

definition SpinLockSet_check_and_add :: "'a \<Rightarrow> 'a set \<Rightarrow> bool \<times> 'a set" where
  "SpinLockSet_check_and_add key s = (key \<in> s, insert key s)"

definition SpinLockSet_remove :: "'a \<Rightarrow> 'a set \<Rightarrow> nat \<times> 'a set" where
  "SpinLockSet_remove key s = (if key \<in> s then 1 else 0, s - {key})"

section \<open>SpinLockMap\<close>

text \<open>
  \<open>mutex_map\<close> holds, for some keys, a mutex and whether it is locked; \<open>mutex_lock\<close> guards it.
  \<open>lock\<close> is taken and released inside each operation.
\<close>

record ('k, 'v) SpinLockMap =
  slm_map :: "'k \<rightharpoonup> 'v"
  mutex_map :: "'k \<rightharpoonup> bool"
  slm_lock :: bool
  mutex_lock :: bool

definition new_SpinLockMap :: "('k, 'v) SpinLockMap" where
  "new_SpinLockMap = \<lparr>slm_map = Map.empty, mutex_map = Map.empty, slm_lock = False, mutex_lock = False\<rparr>"

definition SLM_exists :: "'k \<Rightarrow> ('k, 'v) SpinLockMap \<Rightarrow> bool option" where
  "SLM_exists key s = (if slm_lock s then None else Some (slm_map s key \<noteq> None))"

definition SLM_check_and_get :: "'k \<Rightarrow> 'v \<Rightarrow> ('k, 'v) SpinLockMap \<Rightarrow> (bool \<times> 'v) option" where
  "SLM_check_and_get key val s =
     (if slm_lock s then None
      else Some (case slm_map s key of None \<Rightarrow> (False, val) | Some v \<Rightarrow> (True, v)))"

definition SLM_get :: "'k \<Rightarrow> ('k, 'v) SpinLockMap \<Rightarrow> 'v option" where
  "SLM_get key s = (if slm_lock s then None else slm_map s key)"

definition SLM_add :: "'k \<Rightarrow> 'v \<Rightarrow> ('k, 'v) SpinLockMap \<Rightarrow> ('k, 'v) SpinLockMap option" where
  "SLM_add key v s = (if slm_lock s then None else Some (s\<lparr>slm_map := (slm_map s)(key \<mapsto> v)\<rparr>))"

text \<open>The first part of \<open>remove\<close> takes \<open>mutex_lock\<close> and does not release it.\<close>

definition drop_mutex :: "'k \<Rightarrow> ('k, 'v) SpinLockMap \<Rightarrow> ('k, 'v) SpinLockMap option" where
  "drop_mutex key s =
     (case mutex_map s key of
        None \<Rightarrow> Some s
      | Some locked \<Rightarrow>
          if mutex_lock s \<or> locked then None
          else Some (s\<lparr>mutex_lock := True, mutex_map := (mutex_map s)(key := None)\<rparr>))"

definition SLM_remove :: "'k \<Rightarrow> ('k, 'v) SpinLockMap \<Rightarrow> (nat \<times> ('k, 'v) SpinLockMap) option" where
  "SLM_remove key s = do {
     s \<leftarrow> drop_mutex key s;
     if slm_lock s then None
     else Some (if slm_map s key = None then 0 else 1, s\<lparr>slm_map := (slm_map s)(key := None)\<rparr>) }"

definition SLM_pop :: "'k \<Rightarrow> ('k, 'v::zero) SpinLockMap \<Rightarrow> ('v \<times> ('k, 'v) SpinLockMap) option" where
  "SLM_pop key s =
     (if mutex_map s key \<noteq> None \<or> slm_lock s then None
      else Some (case slm_map s key of
                   None \<Rightarrow> (0, s)
                 | Some v \<Rightarrow> (v, s\<lparr>slm_map := (slm_map s)(key := None)\<rparr>)))"

definition SLM_get_and_lock :: "'k \<Rightarrow> ('k, 'v) SpinLockMap \<Rightarrow> ('v \<times> ('k, 'v) SpinLockMap) option" where
  "SLM_get_and_lock key s =
     (if slm_lock s \<or> mutex_lock s then None
      else map_option (\<lambda>v. (v, s\<lparr>mutex_map := (mutex_map s)(key \<mapsto> True)\<rparr>)) (slm_map s key))"

definition SLM_unlock :: "'k \<Rightarrow> ('k, 'v) SpinLockMap \<Rightarrow> ('k, 'v) SpinLockMap option" where
  "SLM_unlock key s =
     (if mutex_lock s \<or> mutex_map s key = None then None
      else Some (s\<lparr>mutex_map := (mutex_map s)(key \<mapsto> False)\<rparr>))"

subsection \<open>The interface its clients use\<close>

text \<open>
  A partial map with tests, reads, writes and removals that always return, on the
  states that satisfy \<open>ok\<close>.
\<close>

locale dictionary =
  fixes ok :: "'s \<Rightarrow> bool"
    and look :: "'s \<Rightarrow> 'k \<rightharpoonup> 'v"
    and has :: "'k \<Rightarrow> 's \<Rightarrow> bool option"
    and get :: "'k \<Rightarrow> 's \<Rightarrow> 'v option"
    and add :: "'k \<Rightarrow> 'v \<Rightarrow> 's \<Rightarrow> 's option"
    and remove :: "'k \<Rightarrow> 's \<Rightarrow> (nat \<times> 's) option"
  assumes has: "ok s \<Longrightarrow> has k s = Some (look s k \<noteq> None)"
    and get: "ok s \<Longrightarrow> get k s = look s k"
    and add: "ok s \<Longrightarrow> \<exists>s'. add k v s = Some s' \<and> ok s' \<and> look s' = (look s)(k \<mapsto> v)"
    and remove: "ok s \<Longrightarrow> \<exists>n s'. remove k s = Some (n, s') \<and> ok s' \<and> look s' = (look s)(k := None)"
begin

lemma addE:
  assumes "ok s" obtains s' where "add k v s = Some s'" "ok s'" "look s' = (look s)(k \<mapsto> v)"
  using add [OF assms] by blast

lemma removeE:
  assumes "ok s" obtains n s' where "remove k s = Some (n, s')" "ok s'" "look s' = (look s)(k := None)"
  using remove [OF assms] by blast

text \<open>Reading back: what was added last is found, what was removed is gone.\<close>

lemma get_add: "ok s \<Longrightarrow> add k v s = Some s' \<Longrightarrow> get k' s' = (if k' = k then Some v else get k' s)"
  using add [of s k v] get by auto

lemma get_remove: "ok s \<Longrightarrow> remove k s = Some (n, s') \<Longrightarrow> get k' s' = (if k' = k then None else get k' s)"
  using remove [of s k] get by auto

end

text \<open>Without \<open>get_and_lock\<close> no mutex is ever created, and the map is such a dictionary.\<close>

definition slm_ok :: "('k, 'v) SpinLockMap \<Rightarrow> bool" where
  "slm_ok s \<longleftrightarrow> \<not> slm_lock s \<and> \<not> mutex_lock s \<and> mutex_map s = Map.empty"

interpretation slm: dictionary slm_ok slm_map SLM_exists SLM_get SLM_add SLM_remove
  by unfold_locales
    (auto simp: slm_ok_def SLM_exists_def SLM_get_def SLM_add_def SLM_remove_def drop_mutex_def)

lemma slm_ok_new [simp]: "slm_ok new_SpinLockMap" "slm_map new_SpinLockMap = Map.empty"
  by (simp_all add: slm_ok_def new_SpinLockMap_def)

text \<open>
  With it, removal is fatal: a locked key blocks the caller, and removing an unlocked one leaves
  \<open>mutex_lock\<close> taken, so that the next \<open>get_and_lock\<close> or \<open>unlock\<close> never returns.
\<close>

lemma remove_locked:
  assumes "slm_map s k = Some v" and "slm_ok s" and "SLM_get_and_lock k s = Some (x, s1)"
  shows "SLM_remove k s1 = None"
    and "SLM_unlock k s1 = Some s2 \<Longrightarrow> SLM_remove k s2 = Some (n, s3) \<Longrightarrow>
      SLM_get_and_lock k' s3 = None \<and> SLM_unlock k' s3 = None"
  using assms by (auto simp: SLM_get_and_lock_def SLM_remove_def drop_mutex_def SLM_unlock_def slm_ok_def split: if_splits)

section \<open>AllComb\<close>

text \<open>\<open>n_inv\<close> shards are chosen out of \<open>cnt\<close>, without \<open>gnode\<close>; the recursive call starts at \<open>start + 1\<close>.\<close>

function back_track :: "nat \<Rightarrow> nat \<Rightarrow> nat \<Rightarrow> nat \<Rightarrow> nat list \<Rightarrow> nat list list" where
  "back_track n_inv gnode cnt start cur =
     (if length cur = n_inv then [cur]
      else concat (map (\<lambda>i. if i = gnode then [] else back_track n_inv gnode cnt (start + 1) (cur @ [i])) [start..<cnt]))"
  by auto
termination by (relation "measure (\<lambda>(n_inv, gnode, cnt, start, cur). cnt - start)") auto

declare back_track.simps [simp del]

definition combine :: "nat \<Rightarrow> nat \<Rightarrow> nat \<Rightarrow> nat list list" where
  "combine n_inv gnode cnt = back_track n_inv gnode cnt 0 []"

text \<open>Position \<open>k\<close> of an output is any shard from \<open>k\<close> on: repetitions and permutations included.\<close>

lemma back_track_set:
  assumes "length cur \<le> n_inv"
  shows "set (back_track n_inv gnode cnt start cur) =
    {cur @ xs |xs. length cur + length xs = n_inv \<and> (\<forall>k < length xs. start + k \<le> xs ! k \<and> xs ! k < cnt \<and> xs ! k \<noteq> gnode)}"
  using assms
proof (induction "n_inv - length cur" arbitrary: start cur)
  case 0
  then show ?case by (subst back_track.simps) auto
next
  case (Suc n)
  let ?P = "\<lambda>start xs. \<forall>k < length xs. start + k \<le> xs ! k \<and> xs ! k < cnt \<and> xs ! k \<noteq> gnode"
  have "set (back_track n_inv gnode cnt start cur) =
      (\<Union>i \<in> {start..<cnt} - {gnode}. set (back_track n_inv gnode cnt (start + 1) (cur @ [i])))"
    using Suc by (subst back_track.simps) (auto split: if_splits)
  also have "\<dots> = (\<Union>i \<in> {start..<cnt} - {gnode}. {(cur @ [i]) @ xs |xs. length (cur @ [i]) + length xs = n_inv \<and> ?P (start + 1) xs})"
    using Suc by (intro SUP_cong refl Suc.hyps(1)) auto
  also have "\<dots> = {cur @ xs |xs. length cur + length xs = n_inv \<and> ?P start xs}"
  proof (intro equalityI subsetI)
    fix y assume "y \<in> (\<Union>i \<in> {start..<cnt} - {gnode}. {(cur @ [i]) @ xs |xs. length (cur @ [i]) + length xs = n_inv \<and> ?P (start + 1) xs})"
    then obtain i xs where "i \<in> {start..<cnt} - {gnode}" "y = (cur @ [i]) @ xs" "length (cur @ [i]) + length xs = n_inv"
        "?P (start + 1) xs"
      by blast
    then have y: "y = cur @ (i # xs)" "start \<le> i" "i < cnt" "i \<noteq> gnode" "length cur + length (i # xs) = n_inv" "?P (start + 1) xs"
      by simp_all
    have "?P start (i # xs)" using y by (auto simp: nth_Cons split: nat.splits)
    then show "y \<in> {cur @ xs |xs. length cur + length xs = n_inv \<and> ?P start xs}" using y by blast
  next
    fix y assume "y \<in> {cur @ xs |xs. length cur + length xs = n_inv \<and> ?P start xs}"
    then obtain xs where xs: "y = cur @ xs" "length cur + length xs = n_inv" "?P start xs" by blast
    then obtain i zs where zs: "xs = i # zs" using Suc by (cases xs) auto
    have "start \<le> i \<and> i < cnt \<and> i \<noteq> gnode" using xs(3) zs by (auto dest: spec [of _ 0])
    moreover have "?P (start + 1) zs" using xs(3) zs by (auto dest: spec [of _ "Suc _"])
    ultimately show "y \<in> (\<Union>i \<in> {start..<cnt} - {gnode}. {(cur @ [i]) @ xs |xs. length (cur @ [i]) + length xs = n_inv \<and> ?P (start + 1) xs})"
      using xs zs by auto
  qed
  finally show ?case .
qed

end
