(* ===== verification/Client.thy ===== *)
theory Client
  imports Packets Containers "HOL-Library.Multiset"
begin

text \<open>
  The client process: the window of batches in flight (\<open>in_round\<close> and \<open>next_to_send\<close> of
  \<^verbatim>\<open>system/global.cpp\<close>, \<open>Client_txn\<close> of \<^verbatim>\<open>client/client_txn.cpp\<close>), the prepared queries
  (\<^verbatim>\<open>client/client_query.cpp\<close> and \<open>gen_requests_zipf\<close> of \<^verbatim>\<open>benchmarks/ycsb_query.cpp\<close>), the sending
  loop (\<^verbatim>\<open>system/client_thread.cpp\<close>) and the handling of responses (\<open>client_recv_loop\<close> of
  \<^verbatim>\<open>system/io_thread.cpp\<close>).  One iteration of a loop is one step; statistics are left out.

  Constants of \<^verbatim>\<open>config.h\<close> that only the client uses are a record of their own.
\<close>

record client_config =
  MAX_TXN_IN_FLIGHT :: nat
  BATCH_SIZE :: nat
  g_inflight_max :: int
  g_max_txn_per_part :: u64
  g_init_parallelism :: nat
  g_key_order :: bool

record client =
  cl_keys :: keystore
  totKey :: u64
  keyAvail :: bool
  num_inflight_txns :: int
  query_cnt :: u64
  queries :: "ycsb_request list list"
  client_responses_count :: "(u64, u64) SpinLockMap"
  client_responses_directory :: "(u64, ClientResponseMessage) SpinLockMap"
  last_valid_txn :: u64
  next_to_send :: u64
  in_round :: "u32 \<Rightarrow> u64"
  cl_bmsg :: ClientQueryBatch
  addMore :: u64
  cl_outbox :: "(msg \<times> u64 list) list"

section \<open>Transactions in flight\<close>

text \<open>All nodes share entry 0 of the table; its counter is an \<open>int32_t\<close> that the guards keep in range.\<close>

definition inc_inflight :: "env \<Rightarrow> client_config \<Rightarrow> u32 \<Rightarrow> client \<Rightarrow> (int \<times> client) option" where
  "inc_inflight e cc node c =
     (if node < g_node_cnt e then
        (if num_inflight_txns c < g_inflight_max cc
         then Some (num_inflight_txns c + 1, c\<lparr>num_inflight_txns := num_inflight_txns c + 1\<rparr>)
         else Some (-1, c))
      else None)"

text \<open>The result is uninitialised when there is nothing to count down.\<close>

definition dec_inflight :: "env \<Rightarrow> u32 \<Rightarrow> client \<Rightarrow> client option" where
  "dec_inflight e node c =
     (if node < g_node_cnt e then
        Some (if num_inflight_txns c > 0 then c\<lparr>num_inflight_txns := num_inflight_txns c - 1\<rparr> else c)
      else None)"

definition inc_next_to_send :: "env \<Rightarrow> client \<Rightarrow> client" where
  "inc_next_to_send e c = c\<lparr>next_to_send := (next_to_send c + 1) mod node_cnt e\<rparr>"

definition inc_in_round :: "u32 \<Rightarrow> client \<Rightarrow> client" where
  "inc_in_round n c = c\<lparr>in_round := (in_round c)(n := in_round c n + 1)\<rparr>"

definition dec_in_round :: "u32 \<Rightarrow> client \<Rightarrow> client" where
  "dec_in_round n c = c\<lparr>in_round := (in_round c)(n := in_round c n - 1)\<rparr>"

definition send_limit :: "env \<Rightarrow> client_config \<Rightarrow> u32 \<Rightarrow> u64" where
  "send_limit e cc next_node =
     (let total = MAX_TXN_IN_FLIGHT cc div BATCH_SIZE cc; n = unat (NODE_CNT e);
          limit = word_of_nat (total div n + (if total mod n > unat next_node then 1 else 0))
      in if limit = 0 then 1 else limit)"

section \<open>Queries\<close>

text \<open>\<open>gen_requests_zipf\<close>: the random numbers are its argument.\<close>

definition sort_step :: "nat \<Rightarrow> ycsb_request Array \<Rightarrow> ycsb_request Array option" where
  "sort_step j a = do {
     x \<leftarrow> Array_get j a;
     y \<leftarrow> Array_get (j - 1) a;
     if req_key x < req_key y then Array_swap j (j - 1) a else Some a }"

definition sort_requests :: "ycsb_request Array \<Rightarrow> ycsb_request Array option" where
  "sort_requests a =
     fold_option (\<lambda>i. fold_option sort_step (rev [Suc i..<ar_count a])) [0..<ar_count a] a"

definition gen_requests_zipf :: "env \<Rightarrow> client_config \<Rightarrow> (u64 \<times> u64) list \<Rightarrow> ycsb_request Array option" where
  \<comment> \<open>\<open>rnd\<close> holds the keys that \<open>zipf\<close> draws and the values of \<open>mrand->next()\<close>\<close>
  "gen_requests_zipf e cc rnd = do {
     let n = unat (g_req_per_query e);
     rs \<leftarrow> first_n n rnd;
     a \<leftarrow> fold_option (\<lambda>(row_id, v) a.
         if row_id < g_synth_table_size e then Array_add \<lparr>req_key = row_id, req_value = v\<rparr> a else None) rs
         (Array_init (replicate n \<lparr>req_key = 0, req_value = 0\<rparr>));
     if g_key_order cc then sort_requests a else Some a }"

text \<open>The part of the table of queries that thread \<open>tid\<close> of \<open>initQueriesParallel\<close> fills.\<close>

definition query_range :: "client_config \<Rightarrow> nat \<Rightarrow> nat list" where
  "query_range cc tid =
     (let request_cnt = unat (g_max_txn_per_part cc) + 4; par = g_init_parallelism cc;
          final = (if tid = par - 1 then request_cnt else request_cnt div par * (tid + 1))
      in [request_cnt div par * tid..<final])"

definition get_next_query :: "client_config \<Rightarrow> client \<Rightarrow> (ycsb_request list \<times> client) option" where
  "get_next_query cc c =
     (let query_id = query_cnt c; cnt = query_cnt c + 1;
          (query_id, cnt) = (if query_id > g_max_txn_per_part cc then (0, 1) else (query_id, cnt))
      in if unat query_id < length (queries c)
         then Some (queries c ! unat query_id, c\<lparr>query_cnt := cnt\<rparr>) else None)"

section \<open>Sending\<close>

definition create_message_query :: "env \<Rightarrow> ycsb_request list \<Rightarrow> YCSBClientQueryMessage" where
  "create_message_query e q = (new_YCSB e CL_QRY)\<lparr>yc_requests := q\<rparr>"

definition add_query :: "env \<Rightarrow> YCSBClientQueryMessage \<Rightarrow> ClientQueryBatch \<Rightarrow> ClientQueryBatch option" where
  \<comment> \<open>\<open>cqrySet.add\<close> asserts that the set is not full\<close>
  "add_query e q b = (if length (cqrySet b) < batch_n e then Some (b\<lparr>cqrySet := cqrySet b @ [q]\<rparr>) else None)"

definition client_iteration :: "env \<Rightarrow> client_config \<Rightarrow> u64 \<Rightarrow> client \<Rightarrow> client option" where
  "client_iteration e cc now c =
     (let next_node = (ucast (next_to_send c) :: u32)
      in if in_round c next_node = send_limit e cc next_node then Some (inc_next_to_send e c)
         else do {
           (inf_cnt, c) \<leftarrow> inc_inflight e cc next_node c;
           if inf_cnt < 0 then Some c
           else do {
             (m_query, c) \<leftarrow> get_next_query cc c;
             let clqry = (create_message_query e m_query)\<lparr>yc_client_startts := now, yc_return_node := node_id e\<rparr>;
             bmsg \<leftarrow> add_query e clqry (cl_bmsg c);
             let c = c\<lparr>cl_bmsg := bmsg, addMore := addMore c + 1\<rparr>;
             if addMore c = g_batch_size e then do {
               let c = inc_next_to_send e (inc_in_round next_node c);
               bmsg \<leftarrow> CB_sign e (cl_keys c) (ucast next_node) bmsg;
               Some (c\<lparr>cl_outbox := cl_outbox c @ [(MClientBatch bmsg, [ucast next_node])],
                       cl_bmsg := CB_init e (new_CB e CL_BATCH), addMore := 0\<rparr>) }
             else Some c } })"

section \<open>Receiving\<close>

definition managekey :: "KeyExchange \<Rightarrow> client \<Rightarrow> client option" where
  "managekey keyex c =
     (if length (pkey keyex) < 4 then None
      else
        let algorithm = take 4 (pkey keyex); key = drop 4 (pkey keyex); i = kx_return_node keyex; k = cl_keys c
        in Some (if algorithm = ''CMA-''
                 then c\<lparr>cl_keys := k\<lparr>cmacOthersKeys := (cmacOthersKeys k)(i := key)\<rparr>\<rparr>
                 else if algorithm = ''ED2-''
                 then c\<lparr>cl_keys := k\<lparr>g_pub_keys := (g_pub_keys k)(i := key), verifier := (verifier k)(i := key)\<rparr>\<rparr>
                 else c))"

definition receive_ready :: "env \<Rightarrow> client \<Rightarrow> client" where
  "receive_ready e c =
     (let c = c\<lparr>totKey := totKey c + 1\<rparr>
      in if totKey c = node_cnt e then c\<lparr>keyAvail := True\<rparr> else c)"

text \<open>The comparison with the first response: an unequal entry, or a missing one, is fatal.\<close>

definition same_response :: "env \<Rightarrow> ClientResponseMessage \<Rightarrow> ClientResponseMessage \<Rightarrow> bool" where
  "same_response e old m \<longleftrightarrow> list_all (\<lambda>j.
     j < length (cr_index old) \<and> j < length (cr_index m) \<and> cr_index old ! j = cr_index m ! j \<and>
     j < length (cr_client_ts old) \<and> j < length (cr_client_ts m) \<and> cr_client_ts old ! j = cr_client_ts m ! j)
     [0..<batch_n e]"

text \<open>Under \<open>client_response_lock\<close>: the number of responses if this one has been counted, else 0.\<close>

definition count_response :: "env \<Rightarrow> u64 \<Rightarrow> ClientResponseMessage \<Rightarrow> client \<Rightarrow> (u64 \<times> client) option" where
  "count_response e now m c =
     (let tid = m_txn_id (cr_base m)
      in do {
        known \<leftarrow> SLM_exists tid (client_responses_directory c);
        if known then do {
          old \<leftarrow> SLM_get tid (client_responses_directory c);
          n \<leftarrow> SLM_get tid (client_responses_count c);
          if same_response e old m then do {
            cnts \<leftarrow> SLM_add tid (n + 1) (client_responses_count c);
            Some (n + 1, c\<lparr>client_responses_count := cnts\<rparr>) }
          else None }
        else do {
          counted \<leftarrow> SLM_exists tid (client_responses_count c);
          if counted then Some (0, c)
          else do {
            cnts \<leftarrow> SLM_add tid 1 (client_responses_count c);
            copy \<leftarrow> deep_copy_msg e now (replicate (CR_get_size m) CHR 0x00) (MClientResponse m);
            case copy of
              MClientResponse r \<Rightarrow> do {
                dir \<leftarrow> SLM_add tid r (client_responses_directory c);
                Some (0, c\<lparr>client_responses_count := cnts, client_responses_directory := dir\<rparr>) }
            | _ \<Rightarrow> None } } })"

definition complete_batch :: "env \<Rightarrow> ClientResponseMessage \<Rightarrow> client \<Rightarrow> client option" where
  "complete_batch e m c =
     (let tid = m_txn_id (cr_base m);
          offset = (ucast (get_view_primary e (cr_view m) (m_instance_id (cr_base m))) :: u32);
          c = c\<lparr>last_valid_txn := tid\<rparr>
      in do {
        c \<leftarrow> fold_option (\<lambda>_. dec_inflight e offset) [0..<unat (g_batch_size e)] c;
        old \<leftarrow> SLM_get tid (client_responses_directory c);
        (n, dir) \<leftarrow> SLM_remove tid (client_responses_directory c);
        Some (dec_in_round offset (c\<lparr>client_responses_directory := dir\<rparr>)) })"

definition client_response :: "env \<Rightarrow> u64 \<Rightarrow> ClientResponseMessage \<Rightarrow> client \<Rightarrow> client option" where
  "client_response e now m c = do {
     ok \<leftarrow> CR_validate e (cl_keys c) m;
     (response_count, c) \<leftarrow> count_response e now m c;
     if response_count = fp1 e then complete_batch e m c else Some c }"

definition client_receive :: "env \<Rightarrow> u64 \<Rightarrow> msg \<Rightarrow> client \<Rightarrow> client option" where
  "client_receive e now m c =
     (case m of
        MKeyExchange k \<Rightarrow> managekey k c
      | MReady b \<Rightarrow> Some (receive_ready e c)
      | MClientResponse r \<Rightarrow> client_response e now r c
      | _ \<Rightarrow> None)"

definition client_recv_loop :: "env \<Rightarrow> u64 \<Rightarrow> msg list \<Rightarrow> client \<Rightarrow> client option" where
  "client_recv_loop e now msgs c = fold_option (client_receive e now) msgs c"

section \<open>The window\<close>

definition window_ok :: "env \<Rightarrow> client_config \<Rightarrow> client \<Rightarrow> bool" where
  "window_ok e cc c \<longleftrightarrow> (\<forall>n. in_round c n \<le> send_limit e cc n) \<and>
     0 \<le> num_inflight_txns c \<and> num_inflight_txns c \<le> g_inflight_max cc \<and>
     (node_cnt e \<noteq> 0 \<longrightarrow> next_to_send c < node_cnt e)"

lemma send_limit_pos: "send_limit e cc n \<noteq> 0"
  by (simp add: send_limit_def Let_def)

lemma next_less: "node_cnt e \<noteq> 0 \<Longrightarrow> (x + 1) mod node_cnt e < node_cnt e"
  by (simp add: word_mod_less_divisor word_gt_0)

lemma client_iteration_window:
  assumes "window_ok e cc c" and "client_iteration e cc now c = Some c'"
  shows "window_ok e cc c'"
proof -
  let ?n = "ucast (next_to_send c) :: u32"
  have lim: "in_round c ?n + 1 \<le> send_limit e cc ?n" if "in_round c ?n \<noteq> send_limit e cc ?n"
    using that assms(1) by (auto simp: window_ok_def inc_le order_less_le)
  show ?thesis
    using assms lim
    by (auto simp: window_ok_def client_iteration_def Let_def inc_inflight_def get_next_query_def add_query_def
        inc_next_to_send_def inc_in_round_def bind_eq_Some_conv next_less split: if_splits)
qed

text \<open>A batch is sent only to a node whose window has room, complete and signed.\<close>

lemma client_iteration_sends:
  assumes "client_iteration e cc now c = Some c'"
  shows "cl_outbox c' = cl_outbox c \<and> in_round c' = in_round c \<or>
    (\<exists>b. cl_outbox c' = cl_outbox c @ [(MClientBatch b, [ucast (ucast (next_to_send c) :: u32)])] \<and>
       in_round c (ucast (next_to_send c)) \<noteq> send_limit e cc (ucast (next_to_send c)) \<and>
       length (cqrySet b) = Suc (length (cqrySet (cl_bmsg c))) \<and> addMore c + 1 = g_batch_size e \<and>
       in_round c' = (in_round c)(ucast (next_to_send c) := in_round c (ucast (next_to_send c)) + 1) \<and>
       cl_bmsg c' = CB_init e (new_CB e CL_BATCH))"
  using assms
  by (auto simp: client_iteration_def Let_def inc_inflight_def get_next_query_def add_query_def CB_sign_def
      inc_next_to_send_def inc_in_round_def bind_eq_Some_conv split: if_splits)


section \<open>Responses\<close>

definition responses_ok :: "client \<Rightarrow> bool" where
  "responses_ok c \<longleftrightarrow> slm_ok (client_responses_count c) \<and> slm_ok (client_responses_directory c)"

abbreviation counted :: "client \<Rightarrow> u64 \<rightharpoonup> u64" where
  "counted c \<equiv> slm_map (client_responses_count c)"

abbreviation kept :: "client \<Rightarrow> u64 \<rightharpoonup> ClientResponseMessage" where
  "kept c \<equiv> slm_map (client_responses_directory c)"

text \<open>A well-formed response for transaction \<open>t\<close> with the given results, of a given view and instance.\<close>

definition answers :: "env \<Rightarrow> keystore \<Rightarrow> u64 \<Rightarrow> u64 list \<Rightarrow> u64 list \<Rightarrow> u64 \<Rightarrow> u64 \<Rightarrow> ClientResponseMessage \<Rightarrow> bool" where
  "answers e k t idx ts v i m \<longleftrightarrow> m_txn_id (cr_base m) = t \<and> cr_index m = idx \<and> cr_client_ts m = ts \<and>
     cr_view m = v \<and> m_instance_id (cr_base m) = i \<and> msg_ok e (MClientResponse m) \<and> CR_validate e k m = Some True"

lemma answers_fields:
  assumes "answers e k t idx ts v i m"
  shows "m_txn_id (cr_base m) = t" "cr_view m = v" "m_instance_id (cr_base m) = i" "CR_validate e k m = Some True"
    "cr_index m = idx" "cr_client_ts m = ts" "length idx = batch_n e" "length ts = batch_n e"
  using assms by (auto simp: answers_def cr_ok_def)

lemma copy_response:
  assumes "answers e k t idx ts v i m"
  shows "deep_copy_msg e now (replicate (CR_get_size m) CHR 0x00) (MClientResponse m) = Some (MClientResponse (cr_wire e now m))"
proof -
  have "msg_ok e (MClientResponse m)" using assms by (simp add: answers_def)
  from pk.round_trip [OF this, of "replicate (CR_get_size m) CHR 0x00" now] show ?thesis
    by (simp add: deep_copy_msg_def)
qed

lemma count_first:
  assumes "responses_ok c" and "answers e k t idx ts v i m" and "counted c t = None" and "kept c t = None"
  shows "\<exists>cnts dir. count_response e now m c =
      Some (0, c\<lparr>client_responses_count := cnts, client_responses_directory := dir\<rparr>) \<and>
    slm_ok cnts \<and> slm_map cnts = (counted c)(t \<mapsto> 1) \<and> slm_ok dir \<and> slm_map dir = (kept c)(t \<mapsto> cr_wire e now m)"
proof -
  obtain cnts where cnts: "SLM_add t 1 (client_responses_count c) = Some cnts" "slm_ok cnts" "slm_map cnts = (counted c)(t \<mapsto> 1)"
    using assms(1) slm.addE unfolding responses_ok_def by metis
  obtain dir where dir: "SLM_add t (cr_wire e now m) (client_responses_directory c) = Some dir" "slm_ok dir"
      "slm_map dir = (kept c)(t \<mapsto> cr_wire e now m)"
    using assms(1) slm.addE unfolding responses_ok_def by metis
  have "SLM_exists t (client_responses_directory c) = Some False" "SLM_exists t (client_responses_count c) = Some False"
    using assms(1,3,4) by (simp_all add: responses_ok_def slm.has)
  then show ?thesis
    using cnts dir copy_response [OF assms(2)] answers_fields(1) [OF assms(2)]
    by (intro exI [of _ cnts] exI [of _ dir]) (simp add: count_response_def Let_def)
qed

lemma count_next:
  assumes "responses_ok c" and "answers e k t idx ts v i m" and "counted c t = Some n"
    and "kept c t = Some r" and "cr_index r = idx" and "cr_client_ts r = ts"
  shows "\<exists>cnts. count_response e now m c = Some (n + 1, c\<lparr>client_responses_count := cnts\<rparr>) \<and>
    slm_ok cnts \<and> slm_map cnts = (counted c)(t \<mapsto> n + 1)"
proof -
  obtain cnts where cnts: "SLM_add t (n + 1) (client_responses_count c) = Some cnts" "slm_ok cnts"
      "slm_map cnts = (counted c)(t \<mapsto> n + 1)"
    using assms(1) slm.addE unfolding responses_ok_def by metis
  have "SLM_exists t (client_responses_directory c) = Some True" "SLM_get t (client_responses_directory c) = Some r"
      "SLM_get t (client_responses_count c) = Some n"
    using assms(1,3,4) by (simp_all add: responses_ok_def slm.has slm.get)
  moreover have "same_response e r m"
    using assms(5,6) answers_fields [OF assms(2)] by (simp add: same_response_def list_all_iff)
  ultimately show ?thesis
    using cnts answers_fields(1) [OF assms(2)] by (intro exI [of _ cnts]) (simp add: count_response_def Let_def)
qed

lemma count_late:
  assumes "responses_ok c" and "m_txn_id (cr_base m) = t" and "counted c t = Some n" and "kept c t = None"
  shows "count_response e now m c = Some (0, c)"
  using assms by (simp add: count_response_def Let_def responses_ok_def slm.has)

definition less_inflight :: "int \<Rightarrow> nat \<Rightarrow> int" where
  "less_inflight x n = (if x \<le> 0 then x else max 0 (x - int n))"

lemma less_inflight_Suc: "less_inflight (if x > 0 then x - 1 else x) n = less_inflight x (Suc n)"
  by (auto simp: less_inflight_def)

lemma dec_inflight_all:
  "node < g_node_cnt e \<Longrightarrow> fold_option (\<lambda>_. dec_inflight e node) xs c =
   Some (c\<lparr>num_inflight_txns := less_inflight (num_inflight_txns c) (length xs)\<rparr>)"
proof (induction xs arbitrary: c)
  case Nil
  then show ?case by (simp add: less_inflight_def max_def)
next
  case (Cons x xs)
  let ?n = "num_inflight_txns c"
  have "dec_inflight e node c = Some (c\<lparr>num_inflight_txns := (if ?n > 0 then ?n - 1 else ?n)\<rparr>)"
    using Cons.prems by (simp add: dec_inflight_def)
  then show ?case using Cons by (simp add: less_inflight_Suc [symmetric])
qed

text \<open>What a completed batch changes.\<close>

definition completed :: "env \<Rightarrow> u64 \<Rightarrow> u32 \<Rightarrow> client \<Rightarrow> client \<Rightarrow> bool" where
  "completed e t p c c' \<longleftrightarrow> last_valid_txn c' = t \<and> in_round c' = (in_round c)(p := in_round c p - 1) \<and>
     num_inflight_txns c' = less_inflight (num_inflight_txns c) (unat (g_batch_size e))"

definition unfinished :: "client \<Rightarrow> client \<Rightarrow> bool" where
  "unfinished c c' \<longleftrightarrow> last_valid_txn c' = last_valid_txn c \<and> in_round c' = in_round c \<and>
     num_inflight_txns c' = num_inflight_txns c"

lemma primary_node:
  assumes "g_node_cnt e \<noteq> 0"
  shows "(ucast (get_view_primary e v i) :: u32) < g_node_cnt e"
proof -
  have "unat (node_cnt e) \<noteq> 0" using assms by (simp add: unat_eq_0)
  then have "unat (get_view_primary e v i) < unat (g_node_cnt e)"
    by (simp add: get_view_primary_def unat_mod_distrib)
  moreover from this have "unat (ucast (get_view_primary e v i) :: u32) = unat (get_view_primary e v i)"
    using unat_u32_less [of "g_node_cnt e"] by (simp add: unsigned_ucast_eq take_bit_nat_eq_self)
  ultimately show ?thesis by (simp add: word_less_nat_alt)
qed

lemma complete_batch:
  assumes "responses_ok c" and "answers e k t idx ts v i m" and "kept c t = Some r" and "g_node_cnt e \<noteq> 0"
  shows "\<exists>c'. complete_batch e m c = Some c' \<and> completed e t (ucast (get_view_primary e v i)) c c' \<and>
    responses_ok c' \<and> counted c' = counted c \<and> kept c' = (kept c)(t := None) \<and> cl_keys c' = cl_keys c"
proof -
  obtain n dir where dir: "SLM_remove t (client_responses_directory c) = Some (n, dir)" "slm_ok dir"
      "slm_map dir = (kept c)(t := None)"
    using assms(1) slm.removeE unfolding responses_ok_def by metis
  have "SLM_get t (client_responses_directory c) = Some r"
    using assms(1,3) by (simp add: responses_ok_def slm.get)
  then show ?thesis
    using dir assms(1) answers_fields [OF assms(2)] primary_node [OF assms(4)]
    by (simp add: complete_batch_def Let_def dec_inflight_all completed_def dec_in_round_def responses_ok_def)
qed

text \<open>The state after \<open>n\<close> responses for \<open>t\<close>.\<close>

definition phase :: "env \<Rightarrow> u64 \<Rightarrow> u64 list \<Rightarrow> u64 list \<Rightarrow> u32 \<Rightarrow> client \<Rightarrow> nat \<Rightarrow> client \<Rightarrow> bool" where
  "phase e t idx ts p c0 n c \<longleftrightarrow> responses_ok c \<and> cl_keys c = cl_keys c0 \<and>
     (if n = 0 then counted c t = None \<and> kept c t = None
      else if n < unat (fp1 e)
      then counted c t = Some (word_of_nat n) \<and> (\<exists>r. kept c t = Some r \<and> cr_index r = idx \<and> cr_client_ts r = ts)
      else counted c t = Some (fp1 e) \<and> kept c t = None) \<and>
     (if n < unat (fp1 e) then unfinished c0 c else completed e t p c0 c)"

lemma response_phase:
  assumes ph: "phase e t idx ts (ucast (get_view_primary e v i)) c0 n c"
    and m: "answers e (cl_keys c0) t idx ts v i m" and f: "2 \<le> unat (fp1 e)" and nodes: "g_node_cnt e \<noteq> 0"
  shows "\<exists>c'. client_response e now m c = Some c' \<and>
    phase e t idx ts (ucast (get_view_primary e v i)) c0 (Suc n) c'"
proof -
  have ok: "responses_ok c" "cl_keys c = cl_keys c0" using ph by (auto simp: phase_def)
  have val: "CR_validate e (cl_keys c) m = Some True" using answers_fields(4) [OF m] ok(2) by simp
  have small: "unat (word_of_nat k :: u64) = k" if "k \<le> unat (fp1 e)" for k
    using that unat_u64_less [of "fp1 e"] by (intro unat_of_nat_u64) linarith
  consider "n = 0" | "0 < n" "Suc n < unat (fp1 e)" | "0 < n" "Suc n = unat (fp1 e)" | "unat (fp1 e) \<le> n"
    by linarith
  then show ?thesis
  proof cases
    case 1
    then have u: "counted c t = None" "kept c t = None" "unfinished c0 c" using ph f by (auto simp: phase_def)
    obtain cnts dir where "count_response e now m c = Some (0, c\<lparr>client_responses_count := cnts, client_responses_directory := dir\<rparr>)"
        "slm_ok cnts" "slm_map cnts = (counted c)(t \<mapsto> 1)" "slm_ok dir" "slm_map dir = (kept c)(t \<mapsto> cr_wire e now m)"
      using count_first [OF ok(1) m u(1,2)] by blast
    moreover have "fp1 e \<noteq> 0" using f by auto
    ultimately show ?thesis
      using 1 f ok u val answers_fields [OF m]
      by (simp add: client_response_def phase_def responses_ok_def unfinished_def cr_wire_def)
  next
    case 2
    then obtain r where u: "counted c t = Some (word_of_nat n)" "kept c t = Some r" "cr_index r = idx" "cr_client_ts r = ts"
        "unfinished c0 c"
      using ph by (auto simp: phase_def)
    obtain cnts where "count_response e now m c = Some (word_of_nat n + 1, c\<lparr>client_responses_count := cnts\<rparr>)"
        "slm_ok cnts" "slm_map cnts = (counted c)(t \<mapsto> word_of_nat n + 1)"
      using count_next [OF ok(1) m u(1-4)] by blast
    moreover have "word_of_nat n + 1 \<noteq> fp1 e" using 2 small [of "Suc n"] by (auto simp: add.commute)
    ultimately show ?thesis
      using 2 ok u val by (simp add: client_response_def phase_def responses_ok_def unfinished_def add.commute)
  next
    case 3
    then obtain r where u: "counted c t = Some (word_of_nat n)" "kept c t = Some r" "cr_index r = idx" "cr_client_ts r = ts"
        "unfinished c0 c"
      using ph by (auto simp: phase_def)
    obtain cnts where cnts: "count_response e now m c = Some (word_of_nat n + 1, c\<lparr>client_responses_count := cnts\<rparr>)"
        "slm_ok cnts" "slm_map cnts = (counted c)(t \<mapsto> word_of_nat n + 1)"
      using count_next [OF ok(1) m u(1-4)] by blast
    have "(word_of_nat (Suc n) :: u64) = fp1 e" using small [of "Suc n"] 3 by (simp only: word_unat_eq_iff le_refl)
    then have full: "word_of_nat n + 1 = fp1 e" by (simp add: add.commute)
    obtain c' where "complete_batch e m (c\<lparr>client_responses_count := cnts\<rparr>) = Some c'"
        "completed e t (ucast (get_view_primary e v i)) (c\<lparr>client_responses_count := cnts\<rparr>) c'" "responses_ok c'"
        "counted c' = slm_map cnts" "kept c' = (kept c)(t := None)" "cl_keys c' = cl_keys c"
      using complete_batch [of "c\<lparr>client_responses_count := cnts\<rparr>", OF _ m _ nodes] ok u(2) cnts(2)
      by (auto simp: responses_ok_def)
    then show ?thesis
      using 3 ok u val cnts full by (simp add: client_response_def phase_def unfinished_def completed_def)
  next
    case 4
    then have u: "counted c t = Some (fp1 e)" "kept c t = None" using ph f by (auto simp: phase_def)
    moreover have "fp1 e \<noteq> 0" using f by auto
    ultimately show ?thesis
      using 4 ph ok val count_late [OF ok(1) answers_fields(1) [OF m] u, of e now]
      by (simp add: client_response_def phase_def)
  qed
qed

lemma responses_complete:
  assumes "responses_ok c" and "counted c t = None" and "kept c t = None"
    and "\<forall>m \<in> set ms. answers e (cl_keys c) t idx ts v i m" and "2 \<le> unat (fp1 e)" and "g_node_cnt e \<noteq> 0"
  shows "\<exists>c'. fold_option (client_response e now) ms c = Some c' \<and>
    phase e t idx ts (ucast (get_view_primary e v i)) c (length ms) c'"
  using assms(4)
proof (induction ms rule: rev_induct)
  case Nil
  then show ?case using assms by (auto simp: phase_def unfinished_def)
next
  case (snoc m ms)
  then obtain c' where "fold_option (client_response e now) ms c = Some c'"
      "phase e t idx ts (ucast (get_view_primary e v i)) c (length ms) c'"
    by auto
  then show ?case using response_phase [of e t idx ts v i c "length ms" c' m now] snoc.prems assms(5,6)
    by (auto simp: fold_option_append)
qed

section \<open>Queries and windows as a whole\<close>

text \<open>The threads of \<open>initQueriesParallel\<close> fill every entry of the table exactly once.\<close>

lemma query_ranges_cover:
  assumes "0 < g_init_parallelism cc"
  shows "concat (map (query_range cc) [0..<g_init_parallelism cc]) = [0..<unat (g_max_txn_per_part cc) + 4]"
proof -
  let ?n = "unat (g_max_txn_per_part cc) + 4" and ?p = "g_init_parallelism cc"
  let ?q = "?n div ?p"
  have pre: "concat (map (query_range cc) [0..<k]) = [0..<?q * k]" if "k < ?p" for k
    using that
  proof (induction k)
    case (Suc k)
    then have "query_range cc k = [?q * k..<?q * (k + 1)]" by (auto simp: query_range_def Let_def)
    then show ?case using Suc upt_add_eq_append [of 0 "?q * k" ?q] by (simp add: add.commute)
  qed simp
  have q: "?q * (?p - 1) \<le> ?n" by (metis diff_le_self div_times_less_eq_dividend mult_le_mono2 order_trans)
  have "[0..<?p] = [0..<?p - 1] @ [?p - 1]" using assms by (metis Suc_pred' upt_Suc_append zero_le)
  moreover have "query_range cc (?p - 1) = [?q * (?p - 1)..<?n]" by (simp add: query_range_def Let_def)
  ultimately have "concat (map (query_range cc) [0..<?p]) = [0..<?q * (?p - 1)] @ [?q * (?p - 1)..<?n]"
    using pre [of "?p - 1"] assms by simp
  also have "\<dots> = [0..<?n]" using q by (metis le_iff_add upt_add_eq_append zero_le)
  finally show ?thesis .
qed

text \<open>The next query always exists.\<close>

lemma get_next_query_some:
  assumes "length (queries c) = unat (g_max_txn_per_part cc) + 4" and "unat (query_cnt c) \<le> unat (g_max_txn_per_part cc) + 1"
    and "unat (g_max_txn_per_part cc) + 4 < 2 ^ 64"
  shows "\<exists>q c'. get_next_query cc c = Some (q, c') \<and> q \<in> set (queries c) \<and>
    unat (query_cnt c') \<le> unat (g_max_txn_per_part cc) + 1 \<and> queries c' = queries c"
proof (cases "query_cnt c > g_max_txn_per_part cc")
  case True
  then show ?thesis using assms by (auto simp: get_next_query_def Let_def)
next
  case False
  then have le: "unat (query_cnt c) \<le> unat (g_max_txn_per_part cc)" by (simp add: word_le_nat_alt not_less)
  then have "unat (query_cnt c + 1) = unat (query_cnt c) + 1" using assms(3) by (subst unat_add_u64) auto
  then show ?thesis using False le assms(1) by (auto simp: get_next_query_def Let_def)
qed

text \<open>
  The windows of the nodes add up to the number of batches in flight, when there are at least as many
  of them as nodes.
\<close>

lemma send_limit_value:
  assumes "unat (NODE_CNT e) \<le> MAX_TXN_IN_FLIGHT cc div BATCH_SIZE cc" and "NODE_CNT e \<noteq> 0"
    and "MAX_TXN_IN_FLIGHT cc div BATCH_SIZE cc < 2 ^ 64"
  shows "unat (send_limit e cc n) = MAX_TXN_IN_FLIGHT cc div BATCH_SIZE cc div unat (NODE_CNT e) +
    (if unat n < MAX_TXN_IN_FLIGHT cc div BATCH_SIZE cc mod unat (NODE_CNT e) then 1 else 0)"
proof -
  let ?t = "MAX_TXN_IN_FLIGHT cc div BATCH_SIZE cc" and ?N = "unat (NODE_CNT e)"
  let ?l = "?t div ?N + (if unat n < ?t mod ?N then 1 else 0)"
  have N: "0 < ?N" using assms(2) by (simp add: unat_gt_0)
  have pos: "0 < ?t div ?N" using assms(1) N by (simp add: div_greater_zero_iff)
  have "?t div ?N \<le> ?t div ?N * ?N" using N by (metis One_nat_def Suc_leI mult.right_neutral mult_le_mono2)
  moreover have "?t div ?N * ?N + ?t mod ?N = ?t" by (rule div_mult_mod_eq)
  ultimately have "?l \<le> ?t" by (split if_split) linarith
  then have u: "unat (word_of_nat ?l :: u64) = ?l" using assms(3) by (intro unat_of_nat_u64) linarith
  moreover have "(word_of_nat ?l :: u64) \<noteq> 0" using u pos by (metis add_is_0 less_numeral_extra(3) unat_0)
  ultimately show ?thesis by (simp only: send_limit_def Let_def if_False)
qed

lemma send_limit_sum:
  assumes "unat (NODE_CNT e) \<le> MAX_TXN_IN_FLIGHT cc div BATCH_SIZE cc" and "NODE_CNT e \<noteq> 0"
    and "MAX_TXN_IN_FLIGHT cc div BATCH_SIZE cc < 2 ^ 64"
  shows "(\<Sum>n<unat (NODE_CNT e). unat (send_limit e cc (word_of_nat n))) = MAX_TXN_IN_FLIGHT cc div BATCH_SIZE cc"
proof -
  let ?t = "MAX_TXN_IN_FLIGHT cc div BATCH_SIZE cc" and ?N = "unat (NODE_CNT e)"
  have small: "unat (word_of_nat n :: u32) = n" if "n < ?N" for n
    using that unat_u32_less [of "NODE_CNT e"] by (simp add: unat_of_nat take_bit_nat_eq_self)
  have "(\<Sum>n<?N. unat (send_limit e cc (word_of_nat n))) = (\<Sum>n<?N. ?t div ?N + (if n < ?t mod ?N then 1 else 0))"
    using send_limit_value [OF assms] small by (intro sum.cong) auto
  also have "\<dots> = ?N * (?t div ?N) + card {n. n < ?N \<and> n < ?t mod ?N}"
    by (simp add: sum.distrib sum.If_cases lessThan_def Int_def)
  also have "{n. n < ?N \<and> n < ?t mod ?N} = {..<?t mod ?N}"
    using assms(2) by (auto intro: less_trans mod_less_divisor simp: unat_gt_0)
  finally show ?thesis by simp
qed

end
