(* ===== verification/Io_Threads.thy ===== *)
theory Io_Threads
  imports Transport Client Reachability
begin

text \<open>
  The simulation manager (\<^verbatim>\<open>system/sim_manager.cpp\<close>), which the setup and the end of a run are
  coordinated with, and the threads around the transport (\<^verbatim>\<open>system/io_thread.cpp\<close>,
  \<^verbatim>\<open>system/thread.cpp\<close>): what an input thread does with a packet during the setup and afterwards.
  The clocks are arguments.  \<open>setup_done_barrier\<close> is a semaphore.
\<close>

section \<open>SimManager\<close>

record SimManager =
  sim_init_done :: bool
  warmup :: bool
  warmup_end_time :: u64
  start_set :: bool
  sim_done :: bool
  run_starttime :: u64
  rsp_cnt :: u64
  seq_epoch :: u64
  worker_epoch :: u64
  last_worker_epoch_time :: u64
  last_seq_epoch_time :: u64
  epoch_txn_cnt :: int
  sim_txn_cnt :: u64
  inflight_cnt :: u64
  setup_done_barrier :: nat

text \<open>The timers \<open>g_done_timer\<close>, \<open>g_warmup_timer\<close> and \<open>g_seq_batch_time_limit\<close>.\<close>

record sim_config =
  g_done_timer :: u64
  g_warmup_timer :: u64
  g_seq_batch_time_limit :: u64
  SEND_THREAD_CNT :: nat

definition SimManager_init :: "env \<Rightarrow> u64 \<Rightarrow> u64 \<Rightarrow> SimManager" where
  "SimManager_init e clock wall_clock =
     \<lparr>sim_init_done = False, warmup = False, warmup_end_time = 0, start_set = False, sim_done = False,
      run_starttime = clock, rsp_cnt = ucast (g_total_node_cnt e - 1), seq_epoch = 0, worker_epoch = 1,
      last_worker_epoch_time = clock, last_seq_epoch_time = wall_clock, epoch_txn_cnt = 0,
      sim_txn_cnt = 0, inflight_cnt = 0, setup_done_barrier = 0\<rparr>"

definition set_starttime :: "u64 \<Rightarrow> SimManager \<Rightarrow> SimManager" where
  "set_starttime starttime m =
     (if start_set m then m
      else m\<lparr>start_set := True, run_starttime := starttime, last_worker_epoch_time := starttime, sim_done := False\<rparr>)"

definition sim_timeout :: "sim_config \<Rightarrow> u64 \<Rightarrow> SimManager \<Rightarrow> bool" where
  "sim_timeout sc clock m \<longleftrightarrow> clock - run_starttime m \<ge> g_done_timer sc + g_warmup_timer sc"

definition set_done :: "SimManager \<Rightarrow> SimManager" where
  "set_done m =
     (if sim_done m then m
      else m\<lparr>sim_done := True,
             warmup_end_time := (if warmup_end_time m = 0 then run_starttime m else warmup_end_time m)\<rparr>)"

definition is_done :: "sim_config \<Rightarrow> u64 \<Rightarrow> SimManager \<Rightarrow> bool \<times> SimManager" where
  "is_done sc clock m =
     (let done = (sim_done m \<or> sim_timeout sc clock m)
      in (done, if done \<and> \<not> sim_done m then set_done m else m))"

definition is_warmup_done :: "sim_config \<Rightarrow> u64 \<Rightarrow> SimManager \<Rightarrow> bool \<times> SimManager" where
  "is_warmup_done sc clock m =
     (if warmup m then (True, m)
      else let done = (clock - run_starttime m \<ge> g_warmup_timer sc)
           in (done, if done
                     then m\<lparr>warmup_end_time := (if warmup_end_time m = 0 then clock else warmup_end_time m), warmup := True\<rparr>
                     else m))"

definition set_setup_done :: "SimManager \<Rightarrow> SimManager" where
  "set_setup_done m = m\<lparr>sim_init_done := True\<rparr>"

definition process_setup_msg :: "sim_config \<Rightarrow> SimManager \<Rightarrow> SimManager" where
  "process_setup_msg sc m =
     (let m = m\<lparr>rsp_cnt := rsp_cnt m - 1\<rparr>
      in if rsp_cnt m = 0
         then (set_setup_done m)\<lparr>setup_done_barrier := setup_done_barrier m + SEND_THREAD_CNT sc\<rparr> else m)"

definition inc_txn_cnt :: "SimManager \<Rightarrow> SimManager" where
  "inc_txn_cnt m = m\<lparr>sim_txn_cnt := sim_txn_cnt m + 1\<rparr>"

definition inc_inflight_cnt :: "SimManager \<Rightarrow> SimManager" where
  "inc_inflight_cnt m = m\<lparr>inflight_cnt := inflight_cnt m + 1\<rparr>"

definition dec_inflight_cnt :: "SimManager \<Rightarrow> SimManager" where
  "dec_inflight_cnt m = m\<lparr>inflight_cnt := inflight_cnt m - 1\<rparr>"

definition inc_epoch_txn_cnt :: "SimManager \<Rightarrow> SimManager" where
  "inc_epoch_txn_cnt m = m\<lparr>epoch_txn_cnt := epoch_txn_cnt m + 1\<rparr>"

definition decr_epoch_txn_cnt :: "SimManager \<Rightarrow> SimManager" where
  "decr_epoch_txn_cnt m = m\<lparr>epoch_txn_cnt := epoch_txn_cnt m - 1\<rparr>"

definition advance_seq_epoch :: "sim_config \<Rightarrow> SimManager \<Rightarrow> SimManager" where
  "advance_seq_epoch sc m =
     m\<lparr>seq_epoch := seq_epoch m + 1, last_seq_epoch_time := last_seq_epoch_time m + g_seq_batch_time_limit sc\<rparr>"

definition next_worker_epoch :: "u64 \<Rightarrow> SimManager \<Rightarrow> SimManager" where
  "next_worker_epoch clock m = m\<lparr>last_worker_epoch_time := clock, worker_epoch := worker_epoch m + 1\<rparr>"

section \<open>Setup\<close>

definition send_init_done_to_all_nodes :: "env \<Rightarrow> node \<Rightarrow> node" where
  "send_init_done_to_all_nodes e s =
     fold (send_out (MInitDone (new_Message e INIT_DONE)) \<circ> (\<lambda>i. [i]))
       (filter (\<lambda>i. i \<noteq> node_id e) (word_range 0 (g_total_node_cnt e))) s"

text \<open>
  \<open>init_msg_sent\<close>: how many messages each sending thread of a replica handles before it waits at the barrier.
\<close>

definition init_init_msg_sent :: "env \<Rightarrow> nat \<Rightarrow> nat \<Rightarrow> u64" where
  "init_init_msg_sent e send_threads =
     (let count = (\<lambda>k i f. if i = node_id e then f
                    else f(unat i mod send_threads := f (unat i mod send_threads) + k))
      in fold (count 1) (word_range 0 (g_node_cnt e)) (fold (count 3) (word_range 0 (g_total_node_cnt e)) (\<lambda>_. 0)))"

record server_io =
  io_sim :: SimManager
  next_idx :: u64
  io_node :: node

definition get_and_inc_next_idx :: "server_io \<Rightarrow> u64 \<times> server_io" where
  "get_and_inc_next_idx io = (next_idx io, io\<lparr>next_idx := next_idx io + 1\<rparr>)"

definition setup_server_msg :: "env \<Rightarrow> sim_config \<Rightarrow> msg \<Rightarrow> server_io \<Rightarrow> server_io option" where
  "setup_server_msg e sc m io =
     (if msg_rtype m = INIT_DONE then Some (io\<lparr>io_sim := process_setup_msg sc (io_sim io)\<rparr>)
      else let (m, io) = (if msg_rtype m = CL_BATCH
                          then case get_and_inc_next_idx io of (i, io) \<Rightarrow> (upd_base (\<lambda>b. b\<lparr>m_txn_id := i\<rparr>) m, io)
                          else (m, io))
           in map_option (\<lambda>s. io\<lparr>io_node := s\<rparr>) (enqueue e m (io_node io)))"

definition setup_client_msg :: "env \<Rightarrow> sim_config \<Rightarrow> msg \<Rightarrow> SimManager \<times> client \<Rightarrow> (SimManager \<times> client) option" where
  "setup_client_msg e sc m st =
     (case st of (sim, c) \<Rightarrow>
        if msg_rtype m = INIT_DONE then Some (process_setup_msg sc sim, c)
        else case m of
          MKeyExchange k \<Rightarrow> map_option (Pair sim) (managekey k c)
        | MReady b \<Rightarrow> Some (sim, receive_ready e c)
        | _ \<Rightarrow> Some (sim, c))"

text \<open>The loop of \<open>InputThread::setup\<close> over one packet.\<close>

definition setup_server :: "env \<Rightarrow> sim_config \<Rightarrow> msg list \<Rightarrow> server_io \<Rightarrow> server_io option" where
  "setup_server e sc msgs io = fold_option (setup_server_msg e sc) msgs io"

definition setup_client :: "env \<Rightarrow> sim_config \<Rightarrow> msg list \<Rightarrow> SimManager \<times> client \<Rightarrow> (SimManager \<times> client) option" where
  "setup_client e sc msgs st = fold_option (setup_client_msg e sc) msgs st"

section \<open>Receiving\<close>

text \<open>
  \<open>server_recv_loop\<close> on one packet.  The last message is taken first; when it is \<open>INIT_DONE\<close> the
  whole packet is dropped.
\<close>

definition receive_rest :: "env \<Rightarrow> msg \<Rightarrow> node \<Rightarrow> node option" where
  "receive_rest e m s = (if msg_rtype m = INIT_DONE then Some s else enqueue e m s)"

definition server_recv :: "env \<Rightarrow> msg list \<Rightarrow> node \<Rightarrow> node option" where
  "server_recv e msgs s =
     (if msgs = [] then None
      else if msg_rtype (last msgs) = INIT_DONE then Some s
      else do {
        s \<leftarrow> enqueue e (last msgs) s;
        fold_option (receive_rest e) (butlast msgs) s })"

definition server_iteration :: "env \<Rightarrow> transport_config \<Rightarrow> (nat \<Rightarrow> bool) \<Rightarrow> nat \<Rightarrow> (Socket \<Rightarrow> string option) \<Rightarrow> nat \<Rightarrow> Transport \<times> node \<Rightarrow>
    (Transport \<times> node) option" where
  "server_iteration e tc run now incoming thd st =
     (case st of (t, s) \<Rightarrow> do {
        (msgs, t) \<leftarrow> recv_msg e tc run now incoming thd t;
        case msgs of None \<Rightarrow> Some (t, s) | Some msgs \<Rightarrow> map_option (Pair t) (server_recv e msgs s) })"

section \<open>The setup ends with the last message expected\<close>

text \<open>What the setup hands to the work queue: all but \<open>INIT_DONE\<close>, client batches numbered from \<open>i\<close> on.\<close>

fun numbered :: "u64 \<Rightarrow> msg list \<Rightarrow> msg list" where
  "numbered i [] = []"
| "numbered i (m # ms) =
     (if msg_rtype m = INIT_DONE then numbered i ms
      else if msg_rtype m = CL_BATCH then upd_base (\<lambda>b. b\<lparr>m_txn_id := i\<rparr>) m # numbered (i + 1) ms
      else m # numbered i ms)"

lemma setup_server_delivers:
  "setup_server e sc msgs io = Some io' \<Longrightarrow>
   fold_option (enqueue e) (numbered (next_idx io) msgs) (io_node io) = Some (io_node io')"
proof (induction msgs arbitrary: io)
  case (Cons m msgs)
  from Cons.prems obtain io1 where io1: "setup_server_msg e sc m io = Some io1" "setup_server e sc msgs io1 = Some io'"
    by (auto simp: setup_server_def bind_eq_Some_conv)
  from Cons.IH [OF io1(2)] io1(1) show ?case
    by (auto simp: setup_server_msg_def get_and_inc_next_idx_def split: if_splits)
qed (simp add: setup_server_def)

lemma process_setup_count:
  assumes "2 \<le> unat (g_total_node_cnt e)" and "n < 2 ^ 64"
  shows "let m = (process_setup_msg sc ^^ n) (SimManager_init e clock wall) in
    rsp_cnt m = word_of_nat (unat (g_total_node_cnt e) - 1) - word_of_nat n \<and>
    (sim_init_done m \<longleftrightarrow> unat (g_total_node_cnt e) - 1 \<le> n) \<and>
    setup_done_barrier m = (if unat (g_total_node_cnt e) - 1 \<le> n then SEND_THREAD_CNT sc else 0)"
  using assms(2)
proof (induction n)
  case 0
  have "unat (g_total_node_cnt e - 1) = unat (g_total_node_cnt e) - 1"
    using assms(1) by (intro unat_minus_one) auto
  then have "(ucast (g_total_node_cnt e - 1) :: u64) = word_of_nat (unat (g_total_node_cnt e) - 1)"
    using unat_u32_less [of "g_total_node_cnt e"] by (simp add: word_unat_eq_iff unat_of_nat_u64)
  then show ?case using assms(1) by (simp add: SimManager_init_def)
next
  case (Suc n)
  let ?T = "unat (g_total_node_cnt e) - 1" and ?m = "(process_setup_msg sc ^^ n) (SimManager_init e clock wall)"
  have "(word_of_nat ?T - word_of_nat n - 1 :: u64) = 0 \<longleftrightarrow> (word_of_nat ?T :: u64) = word_of_nat (Suc n)"
    by (auto simp: algebra_simps)
  also have "\<dots> \<longleftrightarrow> ?T = Suc n"
    using Suc.prems unat_u32_less [of "g_total_node_cnt e"]
    by (simp add: word_unat_eq_iff unat_of_nat_u64 del: of_nat_Suc)
  finally show ?case using Suc by (auto simp: process_setup_msg_def set_setup_done_def Let_def)
qed

lemma setup_server_sim:
  "setup_server e sc msgs io = Some io' \<Longrightarrow>
   io_sim io' = (process_setup_msg sc ^^ length (filter (\<lambda>m. msg_rtype m = INIT_DONE) msgs)) (io_sim io) \<and>
   next_idx io' = next_idx io + word_of_nat (length (filter (\<lambda>m. msg_rtype m = CL_BATCH) msgs))"
proof (induction msgs arbitrary: io)
  case (Cons m msgs)
  from Cons.prems obtain io1 where io1: "setup_server_msg e sc m io = Some io1" "setup_server e sc msgs io1 = Some io'"
    by (auto simp: setup_server_def bind_eq_Some_conv)
  have "io_sim io1 = (if msg_rtype m = INIT_DONE then process_setup_msg sc (io_sim io) else io_sim io) \<and>
      next_idx io1 = (if msg_rtype m = CL_BATCH then next_idx io + 1 else next_idx io)"
    using io1(1) by (auto simp: setup_server_msg_def get_and_inc_next_idx_def split: if_splits)
  then show ?case
    using Cons.IH [OF io1(2)] by (auto simp: funpow_swap1)
qed (simp add: setup_server_def)

lemma setup_server_reachable:
  assumes "reachable e k (io_node io)" and "setup_server e sc msgs io = Some io'"
  shows "reachable e k (io_node io')"
  using assms
proof (induction msgs arbitrary: io)
  case (Cons m msgs)
  from Cons.prems(2) obtain io1 where io1: "setup_server_msg e sc m io = Some io1" "setup_server e sc msgs io1 = Some io'"
    by (auto simp: setup_server_def bind_eq_Some_conv)
  have "reachable e k (io_node io1)"
    using io1(1) Cons.prems(1)
    by (auto simp: setup_server_msg_def get_and_inc_next_idx_def split: if_splits intro: reachable.receive)
  from Cons.IH [OF this io1(2)] show ?case .
qed (simp add: setup_server_def)

section \<open>What a packet becomes\<close>

abbreviation not_init :: "msg \<Rightarrow> bool" where
  "not_init m \<equiv> msg_rtype m \<noteq> INIT_DONE"

lemma receive_rest_filter: "fold_option (receive_rest e) msgs s = fold_option (enqueue e) (filter not_init msgs) s"
  by (induction msgs arbitrary: s) (auto simp: receive_rest_def split: Option.bind_split)

lemma server_recv_all:
  "msgs \<noteq> [] \<Longrightarrow> server_recv e msgs s =
     (if not_init (last msgs) then fold_option (enqueue e) (last msgs # filter not_init (butlast msgs)) s else Some s)"
  by (auto simp: server_recv_def receive_rest_filter split: Option.bind_split)

lemma fold_enqueue_reachable:
  "reachable e k s \<Longrightarrow> fold_option (enqueue e) msgs s = Some s' \<Longrightarrow> reachable e k s'"
  by (induction msgs arbitrary: s) (auto simp: bind_eq_Some_conv intro: reachable.receive)

lemma server_recv_reachable:
  assumes "reachable e k s" and "server_recv e msgs s = Some s'"
  shows "reachable e k s'"
proof -
  have "msgs \<noteq> []" using assms(2) by (auto simp: server_recv_def)
  from server_recv_all [OF this] show ?thesis
    using assms fold_enqueue_reachable by (metis option.inject)
qed

text \<open>
  What input thread \<open>thd\<close> makes of the packets that wait at its sockets: it takes one of them, if there
  is any, and enqueues all its messages but \<open>INIT_DONE\<close>, the last one first, or drops the packet if its
  last message is \<open>INIT_DONE\<close>.
\<close>

lemma server_iteration_takes:
  assumes "ISSERVER e" and "1 < g_rem_thread_cnt e"
    and "thd mod unat (g_rem_thread_cnt e) = 0 \<longrightarrow> recv_sockets_clients t \<noteq> []"
    and waiting: "\<And>sock p. sock \<in> set (polled_sockets e tc thd t) \<Longrightarrow> incoming sock = Some p \<Longrightarrow>
      \<exists>msgs. create_messages e p = Some msgs \<and> msgs \<noteq> []"
  shows "\<exists>t'. t' = t\<lparr>sock_ctr := sock_ctr t'\<rparr> \<and>
    (if \<forall>sock \<in> set (polled_sockets e tc thd t). incoming sock = None
     then server_iteration e tc (\<lambda>_. True) now incoming thd (t, s) = Some (t', s)
     else \<exists>sock \<in> set (polled_sockets e tc thd t). \<exists>p msgs. incoming sock = Some p \<and> create_messages e p = Some msgs \<and>
       server_iteration e tc (\<lambda>_. True) now incoming thd (t, s) =
         (if not_init (last msgs)
          then map_option (Pair t') (fold_option (enqueue e) (last msgs # filter not_init (butlast msgs)) s)
          else Some (t', s)))"
proof -
  have "\<not> ISCLIENT e" using assms(1) by (auto simp: ISSERVER_def ISCLIENT_def)
  then have "thd mod unat (g_this_rem_thread_cnt e tc) = 0 \<longrightarrow> recv_sockets_clients t \<noteq> []"
    using assms(3) by (simp add: g_this_rem_thread_cnt_def)
  from recv_server_finds [OF this assms(2)] obtain r t' where
    r: "recv_server e tc (\<lambda>_. True) incoming thd t = Some (r, t')" "found (set (polled_sockets e tc thd t)) incoming r"
      "t' = t\<lparr>sock_ctr := sock_ctr t'\<rparr>" by blast
  show ?thesis
  proof (cases r)
    case None
    then show ?thesis using r assms(1) by (intro exI [of _ t']) (auto simp: found_def server_iteration_def recv_msg_def)
  next
    case (Some p)
    then obtain sock where sock: "sock \<in> set (polled_sockets e tc thd t)" "incoming sock = Some p"
      using r(2) by (auto simp: found_def)
    from waiting [OF this] obtain msgs where msgs: "create_messages e p = Some msgs" "msgs \<noteq> []"
      by blast
    then have "server_iteration e tc (\<lambda>_. True) now incoming thd (t, s) =
        (if not_init (last msgs)
         then map_option (Pair t') (fold_option (enqueue e) (last msgs # filter not_init (butlast msgs)) s)
         else Some (t', s))"
      using r(1) Some msgs assms(1) by (simp add: server_iteration_def recv_msg_def server_recv_all del: fold_option.simps)
    then show ?thesis using r(3) sock msgs by (intro exI [of _ t']) auto
  qed
qed

text \<open>A packet whose last message is \<open>INIT_DONE\<close> is lost.\<close>

lemma server_recv_loses: "msg_rtype m = INIT_DONE \<Longrightarrow> server_recv e (msgs @ [m]) s = Some s"
  by (simp add: server_recv_all)

end
