(* ===== verification/Timers.thy ===== *)
theory Timers
  imports Reachability
begin

text \<open>
  View timers and the failure of a view: \<^verbatim>\<open>system/timer_manager.cpp\<close>, \<^verbatim>\<open>system/fault_manager.cpp\<close>
  and the handlers of \<^verbatim>\<open>system/worker_thread_hotstuff.cpp\<close> under \<open>TIMER_MANAGER\<close>.  These are compiled
  when \<open>SpotLess_FAIL\<close> is set: from view \<open>CRASH_VIEW\<close> on the replicas selected by \<open>DIV1\<close>, \<open>DIV2\<close>,
  \<open>LIMIT1\<close> and \<open>LIMIT2\<close> stop, and the others time out in the views they would lead.

  The clock is an argument, \<open>warm\<close> the answer of \<open>is_warmup_done\<close>; locks are left out.
\<close>

definition MAX_TIMER_LEN :: u64 where "MAX_TIMER_LEN = 200000000"
definition INITIAL_TIMEOUT_LENGTH :: u64 where "INITIAL_TIMEOUT_LENGTH = 1000000000"
definition CRASH_VIEW :: u64 where "CRASH_VIEW = 100"

definition crashed :: "u64 \<Rightarrow> bool" where
  "crashed value \<longleftrightarrow> value mod 6 \<ge> 3 \<and> value mod 3 \<noteq> 1"

section \<open>One timer\<close>

record SpotLessTimer =
  waiting :: bool
  timer_length :: u64
  start_time :: u64
  expiration_time :: u64
  last_timeout_view :: u64
  extra_length :: u64

text \<open>The constructor leaves \<open>start_time\<close>, \<open>expiration_time\<close> and \<open>extra_length\<close> as they are.\<close>

definition new_SpotLessTimer :: "SpotLessTimer \<Rightarrow> u64 \<Rightarrow> SpotLessTimer" where
  "new_SpotLessTimer junk len = junk\<lparr>waiting := False, timer_length := len, last_timeout_view := 0\<rparr>"

definition check_time_out :: "u64 \<Rightarrow> u64 \<Rightarrow> SpotLessTimer \<Rightarrow> bool \<times> SpotLessTimer" where
  "check_time_out current_view current_time t =
     (if current_view \<le> CRASH_VIEW then (False, t)
      else if waiting t \<and> current_time > expiration_time t then
        let t = t\<lparr>waiting := False\<rparr>;
            t = (if last_timeout_view t < current_view - 1 then t\<lparr>extra_length := timer_length t\<rparr> else t);
            t = t\<lparr>timer_length := timer_length t + extra_length t\<rparr>;
            t = (if timer_length t > MAX_TIMER_LEN then t\<lparr>timer_length := MAX_TIMER_LEN\<rparr> else t)
        in (True, t\<lparr>last_timeout_view := current_view\<rparr>)
      else (False, t))"

definition setTimer :: "bool \<Rightarrow> u64 \<Rightarrow> SpotLessTimer \<Rightarrow> SpotLessTimer" where
  "setTimer warm now t =
     (if \<not> warm then t
      else t\<lparr>waiting := True, start_time := now, expiration_time := now + timer_length t\<rparr>)"

definition endTimer :: "u64 \<Rightarrow> SpotLessTimer \<Rightarrow> SpotLessTimer" where
  "endTimer now t =
     (let t = (if waiting t \<and> now - start_time t < drop_bit 3 (timer_length t)
               then t\<lparr>timer_length := drop_bit 1 (timer_length t)\<rparr> else t)
      in t\<lparr>waiting := False\<rparr>)"

section \<open>The timers of a thread\<close>

record TimerManager =
  spotless_timers :: "(u64 \<times> SpotLessTimer) list"
  min_id :: u64
  min_exp_time :: u64

text \<open>The instances of thread \<open>thd_id\<close>; the loop of the constructor ends only for a positive stride.\<close>

function instances_from :: "nat \<Rightarrow> nat \<Rightarrow> nat \<Rightarrow> u64 list" where
  "instances_from stride n i =
     (if i < n \<and> 0 < stride then word_of_nat i # instances_from stride n (i + stride) else [])"
  by pat_completeness auto
termination by (relation "measure (\<lambda>(stride, n, i). n - i)") auto

declare instances_from.simps [simp del]

definition new_TimerManager :: "env \<Rightarrow> SpotLessTimer \<Rightarrow> u64 \<Rightarrow> TimerManager" where
  "new_TimerManager e junk thd_id =
     \<lparr>spotless_timers =
        fold (\<lambda>i. map_put i (new_SpotLessTimer junk INITIAL_TIMEOUT_LENGTH))
          (instances_from (unat (get_multi_threads e)) (unat (get_totInstances e)) (unat thd_id)) [],
      min_id = 0, min_exp_time = 0x3FFFFFFF\<rparr>"

fun scan_timers :: "(u64 \<Rightarrow> u64) \<Rightarrow> (u64 \<Rightarrow> bool) \<Rightarrow> u64 \<Rightarrow> (u64 \<times> SpotLessTimer) list \<Rightarrow>
    u64 option \<times> (u64 \<times> SpotLessTimer) list" where
  \<comment> \<open>\<open>view\<close> is the current view of an instance, \<open>down\<close> tells whether its primary has crashed\<close>
  "scan_timers view down now [] = (None, [])"
| "scan_timers view down now ((i, t) # ts) =
     (case (if down i then check_time_out (view i) now t else (False, t)) of
        (True, t) \<Rightarrow> (Some i, (i, t) # ts)
      | (False, t) \<Rightarrow> case scan_timers view down now ts of (r, ts) \<Rightarrow> (r, (i, t) # ts))"

definition primary_down :: "env \<Rightarrow> node \<Rightarrow> u64 \<Rightarrow> bool" where
  "primary_down e s i \<longleftrightarrow> crashed (get_view_primary e (get_current_view s i) i)"

text \<open>The result is the instance whose timer ran out; the code returns 0 and a flag when there is none.\<close>

definition check_timers :: "env \<Rightarrow> bool \<Rightarrow> u64 \<Rightarrow> node \<Rightarrow> TimerManager \<Rightarrow> u64 option \<times> TimerManager" where
  "check_timers e warm now s m =
     (if \<not> warm \<or> now < min_exp_time m then (None, m)
      else case scan_timers (get_current_view s) (primary_down e s) now (spotless_timers m) of
             (r, ts) \<Rightarrow> (r, m\<lparr>spotless_timers := ts\<rparr>))"

fun find_min :: "(u64 \<times> SpotLessTimer) list \<Rightarrow> u64 \<times> u64 \<Rightarrow> u64 \<times> u64" where
  "find_min [] best = best"
| "find_min ((i, t) # ts) (mid, mexp) =
     find_min ts (if waiting t \<and> expiration_time t < mexp then (i, expiration_time t) else (mid, mexp))"

definition reorder :: "u64 \<Rightarrow> u64 \<Rightarrow> TimerManager \<Rightarrow> TimerManager" where
  "reorder i limit m =
     (case find_min (spotless_timers m) (i, limit) of (mid, mexp) \<Rightarrow> m\<lparr>min_id := mid, min_exp_time := mexp\<rparr>)"

text \<open>The timers exist for the instances of the thread only; any other would have no lock.\<close>

definition manager_setTimer :: "bool \<Rightarrow> u64 \<Rightarrow> u64 \<Rightarrow> TimerManager \<Rightarrow> TimerManager option" where
  "manager_setTimer warm now i m =
     (if \<not> warm then Some m
      else do {
        t \<leftarrow> map_of (spotless_timers m) i;
        let t = setTimer warm now t;
        let m' = m\<lparr>spotless_timers := map_put i t (spotless_timers m)\<rparr>;
        Some (if i = min_id m \<or> expiration_time t < min_exp_time m then reorder i (expiration_time t) m' else m') })"

definition manager_endTimer :: "bool \<Rightarrow> u64 \<Rightarrow> u64 \<Rightarrow> TimerManager \<Rightarrow> TimerManager option" where
  "manager_endTimer warm now i m =
     (if \<not> warm then Some m
      else do {
        t \<leftarrow> map_of (spotless_timers m) i;
        let m' = m\<lparr>spotless_timers := map_put i (endTimer now t) (spotless_timers m)\<rparr>;
        Some (if i = min_id m then reorder i 0xFFFFFFF m' else m') })"

section \<open>Votes for the failure of a view\<close>

text \<open>\<open>voters\<close> maps instance and view to the replicas that reported the failure.\<close>

type_synonym fault_manager = "u64 \<Rightarrow> u64 \<Rightarrow> u64 set"

definition add_voter :: "env \<Rightarrow> u64 \<Rightarrow> u64 \<Rightarrow> (u64 \<Rightarrow> u64 set) \<Rightarrow> bool \<times> (u64 \<Rightarrow> u64 set)" where
  "add_voter e view voter voters =
     (if card (voters view) \<ge> unat (nf e) then (False, voters)
      else let voters = voters(view := insert voter (voters view))
           in (card (voters view) \<ge> unat (nf e), voters))"

definition sufficient_voters :: "env \<Rightarrow> u64 \<Rightarrow> u64 \<Rightarrow> u64 \<Rightarrow> fault_manager \<Rightarrow> bool \<times> fault_manager" where
  "sufficient_voters e instance_id view voter_id fm =
     (case add_voter e view voter_id (fm instance_id) of (b, v) \<Rightarrow> (b, fm(instance_id := v)))"

record failing =
  f_node :: node
  timer_manager :: "u64 \<Rightarrow> TimerManager"
  fault_voters :: fault_manager

definition advance_failed_view :: "env \<Rightarrow> bool \<Rightarrow> u64 \<Rightarrow> u64 \<Rightarrow> u64 \<Rightarrow> u64 \<Rightarrow> failing \<Rightarrow> failing option" where
  "advance_failed_view e warm now thd instance_id view f =
     (let emsg = (new_Execute e EXECUTE_MSG)\<lparr>ex_base := (new_Message e EXECUTE_MSG)
            \<lparr>m_txn_id := (get_totInstances e * view + instance_id + 1) * get_batch_size e - 2\<rparr>, ex_valid := False\<rparr>
      in do {
        s \<leftarrow> enqueue e (MExecute emsg) (f_node f);
        let view = view + 1;
        let s = set_view e instance_id view s;
        f \<leftarrow> (if node_id e = get_view_primary e view instance_id
              then Some (f\<lparr>f_node := s\<lparr>new_txn_semaphore := new_txn_semaphore s + 1\<rparr>\<rparr>)
              else map_option (\<lambda>m. f\<lparr>f_node := s, timer_manager := (timer_manager f)(thd := m)\<rparr>)
                     (manager_setTimer warm now instance_id (timer_manager f thd)));
        Some (if node_id e = get_view_primary e (view + ROUNDS_IN_ADVANCE e) instance_id
              then f\<lparr>f_node := (f_node f)\<lparr>proposal_semaphore := proposal_semaphore (f_node f) + 1\<rparr>\<rparr> else f) })"

definition failed_vote :: "env \<Rightarrow> u64 \<Rightarrow> u64 \<Rightarrow> node \<Rightarrow> SpotLessSyncMsg" where
  "failed_vote e instance_id view s =
     (new_Sync e SpotLess_SYNC_MSG)\<lparr>sync_base := (new_Message e SpotLess_SYNC_MSG)\<lparr>m_txn_id := 0, m_instance_id := instance_id\<rparr>,
        sync_view := view, sync_non_vote := True,
        sync_highQC := (g_preparedQC s instance_id)\<lparr>signature_share_map := []\<rparr>\<rparr>"

definition count_failed :: "env \<Rightarrow> bool \<Rightarrow> u64 \<Rightarrow> u64 \<Rightarrow> u64 \<Rightarrow> u64 \<Rightarrow> u64 \<Rightarrow> failing \<Rightarrow> failing option" where
  "count_failed e warm now thd instance_id view voter f =
     (case sufficient_voters e instance_id view voter (fault_voters f) of (enough, fm) \<Rightarrow>
        let f = f\<lparr>fault_voters := fm\<rparr>
        in if enough then advance_failed_view e warm now thd instance_id view f else Some f)"

definition send_failed_new_view :: "env \<Rightarrow> bool \<Rightarrow> u64 \<Rightarrow> u64 \<Rightarrow> u64 \<Rightarrow> u64 \<Rightarrow> failing \<Rightarrow> failing option" where
  "send_failed_new_view e warm now thd instance_id view f =
     (let s = f_node f
      in count_failed e warm now thd instance_id view (node_id e)
           (f\<lparr>f_node := send_out (MSync (failed_vote e instance_id view s)) (nodes_to_send e 0 (node_cnt e)) s\<rparr>))"

definition process_failed_new_view :: "env \<Rightarrow> bool \<Rightarrow> u64 \<Rightarrow> u64 \<Rightarrow> SpotLessSyncMsg \<Rightarrow> failing \<Rightarrow> failing option" where
  "process_failed_new_view e warm now thd msg f =
     count_failed e warm now thd (m_instance_id (sync_base msg)) (sync_view msg) (m_return_node_id (sync_base msg)) f"

text \<open>
  The part of \<open>WorkerThread::run\<close> before the dequeue on a replica that has not crashed: a timer that
  ran out makes the replica report the failure.
\<close>

definition poll_timers :: "env \<Rightarrow> bool \<Rightarrow> u64 \<Rightarrow> u64 \<Rightarrow> failing \<Rightarrow> failing option" where
  "poll_timers e warm now thd f =
     (case check_timers e warm now (f_node f) (timer_manager f thd) of (r, m) \<Rightarrow>
        let f = f\<lparr>timer_manager := (timer_manager f)(thd := m)\<rparr>
        in case r of
             None \<Rightarrow> Some f
           | Some i \<Rightarrow>
               let cview = get_current_view (f_node f) i
               in if cview \<ge> CRASH_VIEW \<and> primary_down e (f_node f) i
                  then send_failed_new_view e warm now thd i cview f else Some f)"

text \<open>
  What \<open>run\<close> does with a dequeued report of failure: \<open>exception_msg_handling\<close> drops it when its view is
  over, and it is counted otherwise.
\<close>

definition handle_failed :: "env \<Rightarrow> bool \<Rightarrow> u64 \<Rightarrow> u64 \<Rightarrow> SpotLessSyncMsg \<Rightarrow> failing \<Rightarrow> failing option" where
  "handle_failed e warm now thd msg f =
     (if late_msg e (f_node f) (MSync msg) then Some f else process_failed_new_view e warm now thd msg f)"

section \<open>The length of a timer\<close>

definition timer_ok :: "SpotLessTimer \<Rightarrow> bool" where
  "timer_ok t \<longleftrightarrow> 4 \<le> timer_length t \<and> timer_length t \<le> INITIAL_TIMEOUT_LENGTH \<and>
     (last_timeout_view t \<noteq> 0 \<longrightarrow> extra_length t \<le> INITIAL_TIMEOUT_LENGTH)"

lemmas timer_consts = MAX_TIMER_LEN_def INITIAL_TIMEOUT_LENGTH_def CRASH_VIEW_def

lemma new_SpotLessTimer_ok: "timer_ok (new_SpotLessTimer junk INITIAL_TIMEOUT_LENGTH)"
  by (simp add: timer_ok_def new_SpotLessTimer_def timer_consts)

lemma setTimer_ok: "timer_ok t \<Longrightarrow> timer_ok (setTimer warm now t)"
  by (simp add: timer_ok_def setTimer_def)

lemma unat_drop_bit: "unat (drop_bit n w :: u64) = unat w div 2 ^ n"
  by (subst unat_drop_bit_eq) (simp add: drop_bit_eq_div)

lemma endTimer_ok:
  assumes "timer_ok t"
  shows "timer_ok (endTimer now t)"
proof (cases "now - start_time t < drop_bit 3 (timer_length t)")
  case True
  then have "0 < unat (drop_bit 3 (timer_length t))" unfolding word_less_nat_alt by linarith
  then have "8 \<le> unat (timer_length t)" unfolding unat_drop_bit by (simp add: div_greater_zero_iff)
  then have "4 \<le> unat (drop_bit 1 (timer_length t))" "unat (drop_bit 1 (timer_length t)) \<le> unat (timer_length t)"
    unfolding unat_drop_bit by simp_all
  then show ?thesis using assms by (auto simp: timer_ok_def endTimer_def word_le_nat_alt simp del: drop_bit_eq_div)
qed (use assms in \<open>auto simp: timer_ok_def endTimer_def\<close>)

lemma add_length:
  assumes "4 \<le> a" and "a \<le> INITIAL_TIMEOUT_LENGTH" and "b \<le> INITIAL_TIMEOUT_LENGTH"
  shows "4 \<le> a + b" "unat (a + b) = unat a + unat b"
proof -
  show sum: "unat (a + b) = unat a + unat b"
    using assms by (intro unat_add_u64) (simp add: word_le_nat_alt timer_consts)
  show "4 \<le> a + b" using assms(1) sum by (simp add: word_le_nat_alt)
qed

text \<open>A timeout bounds the length by \<open>MAX_TIMER_LEN\<close>; the length grows by itself or by the last increment.\<close>

lemma check_time_out_ok:
  assumes "timer_ok t" and "check_time_out view now t = (r, t')"
  shows "timer_ok t'" and "r \<Longrightarrow> timer_length t' \<le> MAX_TIMER_LEN \<and>
    timer_length t' = min MAX_TIMER_LEN (timer_length t + (if last_timeout_view t < view - 1 then timer_length t else extra_length t))"
proof -
  define x where "x = (if last_timeout_view t < view - 1 then timer_length t else extra_length t)"
  have "view - 1 > 0" if "view > CRASH_VIEW"
  proof -
    have "1 < unat view" using that by (simp add: word_less_nat_alt timer_consts)
    then have "unat (view - 1) = unat view - 1" by (intro unat_minus_one) auto
    with \<open>1 < unat view\<close> show ?thesis by (simp add: word_less_nat_alt)
  qed
  then have x: "x \<le> INITIAL_TIMEOUT_LENGTH" if "view > CRASH_VIEW"
    using that assms(1) by (auto simp: x_def timer_ok_def)
  have out: "r \<and> view > CRASH_VIEW \<and> t' = t\<lparr>waiting := False, extra_length := x, timer_length := min MAX_TIMER_LEN (timer_length t + x), last_timeout_view := view\<rparr> \<or>
      \<not> r \<and> t' = t"
    using assms(2) by (auto simp: check_time_out_def Let_def x_def min_def not_less not_le split: if_splits)
  then show "r \<Longrightarrow> timer_length t' \<le> MAX_TIMER_LEN \<and>
      timer_length t' = min MAX_TIMER_LEN (timer_length t + (if last_timeout_view t < view - 1 then timer_length t else extra_length t))"
    by (auto simp: x_def)
  show "timer_ok t'"
    using out
  proof (elim disjE conjE)
    assume v: "view > CRASH_VIEW"
      and t': "t' = t\<lparr>waiting := False, extra_length := x, timer_length := min MAX_TIMER_LEN (timer_length t + x), last_timeout_view := view\<rparr>"
    have "4 \<le> timer_length t + x"
      using add_length(1) [OF _ _ x [OF v]] assms(1) by (auto simp: timer_ok_def)
    moreover have "MAX_TIMER_LEN \<le> INITIAL_TIMEOUT_LENGTH" "4 \<le> MAX_TIMER_LEN" by (simp_all add: timer_consts)
    ultimately show ?thesis using t' x [OF v] by (auto simp: timer_ok_def min_def)
  qed (use assms(1) in simp)
qed

section \<open>The earliest expiration time\<close>

text \<open>\<open>min_exp_time\<close> is not later than the expiration of any timer that runs.\<close>

definition manager_ok :: "TimerManager \<Rightarrow> bool" where
  "manager_ok m \<longleftrightarrow> map_ok (spotless_timers m) \<and>
     (\<forall>i t. map_of (spotless_timers m) i = Some t \<longrightarrow>
        timer_ok t \<and> (waiting t \<longrightarrow> min_exp_time m \<le> expiration_time t))"

lemma find_min_le:
  "find_min ts (i, limit) = (mid, mexp) \<Longrightarrow>
     mexp \<le> limit \<and> (\<forall>(j, t) \<in> set ts. waiting t \<longrightarrow> mexp \<le> expiration_time t)"
proof (induction ts arbitrary: i limit)
  case (Cons p ts)
  obtain j t where p: "p = (j, t)" by (cases p)
  show ?case
    using Cons.prems Cons.IH unfolding p by (fastforce split: if_splits intro: order_trans less_imp_le)
qed simp

lemma reorder_ok:
  assumes "map_ok (spotless_timers m)" and "\<And>j t. map_of (spotless_timers m) j = Some t \<Longrightarrow> timer_ok t"
  shows "manager_ok (reorder i limit m)"
proof -
  obtain mid mexp where mm: "find_min (spotless_timers m) (i, limit) = (mid, mexp)" by fastforce
  then show ?thesis
    using assms find_min_le [OF mm] by (auto simp: manager_ok_def reorder_def dest!: map_of_SomeD)
qed

lemma put_timer_ok:
  assumes "manager_ok m" and "timer_ok t"
  shows "manager_ok (reorder i limit (m\<lparr>spotless_timers := map_put i t (spotless_timers m)\<rparr>))"
    and "(waiting t \<Longrightarrow> min_exp_time m \<le> expiration_time t) \<Longrightarrow>
      manager_ok (m\<lparr>spotless_timers := map_put i t (spotless_timers m)\<rparr>)"
proof -
  show "manager_ok (reorder i limit (m\<lparr>spotless_timers := map_put i t (spotless_timers m)\<rparr>))"
    by (rule reorder_ok) (use assms in \<open>auto simp: manager_ok_def split: if_splits\<close>)
qed (use assms in \<open>auto simp: manager_ok_def split: if_splits\<close>)

lemma manager_setTimer_ok:
  assumes "manager_ok m" and "manager_setTimer warm now i m = Some m'"
  shows "manager_ok m'"
proof (cases warm)
  case True
  with assms(2) obtain t where t: "map_of (spotless_timers m) i = Some t"
      and m': "m' = (let m' = m\<lparr>spotless_timers := map_put i (setTimer warm now t) (spotless_timers m)\<rparr>
        in if i = min_id m \<or> expiration_time (setTimer warm now t) < min_exp_time m
           then reorder i (expiration_time (setTimer warm now t)) m' else m')"
    by (auto simp: manager_setTimer_def Let_def bind_eq_Some_conv)
  have "timer_ok (setTimer warm now t)" using assms(1) t by (auto simp: manager_ok_def intro: setTimer_ok)
  then show ?thesis
    unfolding m' Let_def by (auto intro!: put_timer_ok [OF assms(1)] simp: not_less)
qed (use assms in \<open>simp add: manager_setTimer_def\<close>)

lemma manager_endTimer_ok:
  assumes "manager_ok m" and "manager_endTimer warm now i m = Some m'"
  shows "manager_ok m'"
proof (cases warm)
  case True
  with assms(2) obtain t where t: "map_of (spotless_timers m) i = Some t"
      and m': "m' = (let m' = m\<lparr>spotless_timers := map_put i (endTimer now t) (spotless_timers m)\<rparr>
        in if i = min_id m then reorder i 0xFFFFFFF m' else m')"
    by (auto simp: manager_endTimer_def Let_def bind_eq_Some_conv)
  have "timer_ok (endTimer now t)" using assms(1) t by (auto simp: manager_ok_def intro: endTimer_ok)
  moreover have "\<not> waiting (endTimer now t)" by (simp add: endTimer_def Let_def)
  ultimately show ?thesis
    unfolding m' Let_def by (auto intro!: put_timer_ok [OF assms(1)])
qed (use assms in \<open>simp add: manager_endTimer_def\<close>)

text \<open>What the scan returns, and what it does to the timers.\<close>

definition expired :: "(u64 \<Rightarrow> u64) \<Rightarrow> (u64 \<Rightarrow> bool) \<Rightarrow> u64 \<Rightarrow> u64 \<times> SpotLessTimer \<Rightarrow> bool" where
  "expired view down now p \<longleftrightarrow> (case p of (i, t) \<Rightarrow>
     down i \<and> view i > CRASH_VIEW \<and> waiting t \<and> expiration_time t < now)"

lemma check_time_out_result: "fst (check_time_out v now t) \<longleftrightarrow> v > CRASH_VIEW \<and> waiting t \<and> expiration_time t < now"
  "\<not> fst (check_time_out v now t) \<Longrightarrow> snd (check_time_out v now t) = t"
  "waiting (snd (check_time_out v now t)) \<Longrightarrow> snd (check_time_out v now t) = t"
  by (auto simp: check_time_out_def Let_def)

lemma scan_timers_step:
  "scan_timers view down now ((i, t) # ts) =
     (if expired view down now (i, t) then (Some i, (i, snd (check_time_out (view i) now t)) # ts)
      else (fst (scan_timers view down now ts), (i, t) # snd (scan_timers view down now ts)))"
  using check_time_out_result [of "view i" now t]
  by (auto simp: expired_def split: prod.splits bool.splits)

lemma scan_timers_result:
  "case fst (scan_timers view down now ts) of
     None \<Rightarrow> \<forall>p \<in> set ts. \<not> expired view down now p
   | Some i \<Rightarrow> \<exists>t. (i, t) \<in> set ts \<and> expired view down now (i, t)"
proof (induction ts)
  case (Cons p ts)
  obtain i t where p: "p = (i, t)" by (cases p)
  show ?case using Cons unfolding p scan_timers_step by (auto split: option.splits)
qed simp

lemma scan_timers_keys: "map fst (snd (scan_timers view down now ts)) = map fst ts"
  by (induction ts) (simp, case_tac a, simp add: scan_timers_step del: scan_timers.simps)

lemma scan_timers_values:
  "list_all2 (\<lambda>p q. fst p = fst q \<and> (q = p \<or> snd q = snd (check_time_out (view (fst p)) now (snd p)))) ts
     (snd (scan_timers view down now ts))"
proof (induction ts)
  case (Cons p ts)
  obtain i t where p: "p = (i, t)" by (cases p)
  show ?case using Cons unfolding p scan_timers_step by (auto intro: list_all2_refl)
qed simp

lemma scan_timers_ok:
  assumes "map_ok ts" and "\<And>p. p \<in> set ts \<Longrightarrow> timer_ok (snd p) \<and> (waiting (snd p) \<longrightarrow> limit \<le> expiration_time (snd p))"
    and "snd (scan_timers view down now ts) = ts'"
  shows "map_ok ts' \<and> (\<forall>q \<in> set ts'. timer_ok (snd q) \<and> (waiting (snd q) \<longrightarrow> limit \<le> expiration_time (snd q)))"
proof -
  have "map fst ts' = map fst ts" using scan_timers_keys assms(3) by blast
  then have "map_ok ts'" using assms(1) by (simp add: map_ok_def)
  moreover have "timer_ok (snd q) \<and> (waiting (snd q) \<longrightarrow> limit \<le> expiration_time (snd q))" if "q \<in> set ts'" for q
  proof -
    note vals = scan_timers_values [of view now ts down, unfolded assms(3)]
    from that obtain n where n: "n < length ts'" "ts' ! n = q" by (auto simp: in_set_conv_nth)
    with vals have p: "ts ! n \<in> set ts" "q = ts ! n \<or> snd q = snd (check_time_out (view (fst (ts ! n))) now (snd (ts ! n)))"
      by (auto dest: list_all2_lengthD list_all2_nthD2)
    show ?thesis
      using p(2)
    proof
      assume q: "snd q = snd (check_time_out (view (fst (ts ! n))) now (snd (ts ! n)))"
      then have "timer_ok (snd q)" using check_time_out_ok(1) [of "snd (ts ! n)"] assms(2) [OF p(1)] by (metis prod.collapse)
      then show ?thesis using q check_time_out_result(3) assms(2) [OF p(1)] by metis
    qed (use assms(2) [OF p(1)] in simp)
  qed
  ultimately show ?thesis by blast
qed

lemma manager_ok_set:
  "manager_ok m \<longleftrightarrow> map_ok (spotless_timers m) \<and>
     (\<forall>p \<in> set (spotless_timers m). timer_ok (snd p) \<and> (waiting (snd p) \<longrightarrow> min_exp_time m \<le> expiration_time (snd p)))"
proof (cases "map_ok (spotless_timers m)")
  case True
  then have "map_of (spotless_timers m) i = Some t \<longleftrightarrow> (i, t) \<in> set (spotless_timers m)" for i t
    by (simp add: map_ok_distinct)
  then show ?thesis by (auto simp: manager_ok_def True)
qed (simp add: manager_ok_def)

lemma check_timers_ok:
  assumes "manager_ok m" and "check_timers e warm now s m = (r, m')"
  shows "manager_ok m'"
  using assms scan_timers_ok [of "spotless_timers m" "min_exp_time m" "get_current_view s" "primary_down e s" now]
  by (auto simp: check_timers_def manager_ok_set split: if_splits prod.splits)

text \<open>The early return misses nothing: the result is as if all timers were looked at.\<close>

lemma check_timers_complete:
  assumes "manager_ok m" and "warm"
  shows "case fst (check_timers e warm now s m) of
      None \<Rightarrow> \<forall>p \<in> set (spotless_timers m). \<not> expired (get_current_view s) (primary_down e s) now p
    | Some i \<Rightarrow> \<exists>t. (i, t) \<in> set (spotless_timers m) \<and> expired (get_current_view s) (primary_down e s) now (i, t)"
proof (cases "now < min_exp_time m")
  case True
  have "\<not> expired (get_current_view s) (primary_down e s) now p" if "p \<in> set (spotless_timers m)" for p
    using that assms(1) True by (fastforce simp: expired_def manager_ok_set)
  then show ?thesis using True by (simp add: check_timers_def)
next
  case False
  then show ?thesis
    using assms(2) scan_timers_result [where view = "get_current_view s" and down = "primary_down e s" and now = now and ts = "spotless_timers m"]
    by (simp add: check_timers_def case_prod_beta)
qed

lemma new_TimerManager_ok: "manager_ok (new_TimerManager e junk thd)"
proof -
  let ?t = "new_SpotLessTimer junk INITIAL_TIMEOUT_LENGTH"
  have t: "timer_ok ?t" "\<not> waiting ?t" using new_SpotLessTimer_ok by (simp_all add: new_SpotLessTimer_def)
  have "map_ok (fold (\<lambda>i. map_put i ?t) is ts) \<and> (\<forall>j t. map_of (fold (\<lambda>i. map_put i ?t) is ts) j = Some t \<longrightarrow> t = ?t)"
    if "map_ok ts" "\<forall>j t. map_of ts j = Some t \<longrightarrow> t = ?t" for "is" ts
    using that
  proof (induction "is" arbitrary: ts)
    case (Cons a "is")
    have "map_ok (map_put a ?t ts)" "\<forall>j t. map_of (map_put a ?t ts) j = Some t \<longrightarrow> t = ?t"
      using Cons.prems by (auto split: if_splits)
    from Cons.IH [OF this] show ?case by simp
  qed simp
  from this [of "[]"] show ?thesis using t by (fastforce simp: new_TimerManager_def manager_ok_def)
qed

text \<open>The states of the timers of a thread: created, set, ended and checked at any times.\<close>

inductive timers_reachable :: "env \<Rightarrow> u64 \<Rightarrow> TimerManager \<Rightarrow> bool" for e thd where
  create: "timers_reachable e thd (new_TimerManager e junk thd)"
| set: "timers_reachable e thd m \<Longrightarrow> manager_setTimer warm now i m = Some m' \<Longrightarrow> timers_reachable e thd m'"
| "end": "timers_reachable e thd m \<Longrightarrow> manager_endTimer warm now i m = Some m' \<Longrightarrow> timers_reachable e thd m'"
| check: "timers_reachable e thd m \<Longrightarrow> check_timers e warm now s m = (r, m') \<Longrightarrow> timers_reachable e thd m'"

lemma timers_reachable_ok: "timers_reachable e thd m \<Longrightarrow> manager_ok m"
  by (induction rule: timers_reachable.induct)
    (auto intro: new_TimerManager_ok manager_setTimer_ok manager_endTimer_ok check_timers_ok)

section \<open>Failed views\<close>

text \<open>The answers of \<open>add_voter\<close> to the reports of a view, in order.\<close>

fun vote_answers :: "env \<Rightarrow> u64 \<Rightarrow> u64 list \<Rightarrow> (u64 \<Rightarrow> u64 set) \<Rightarrow> bool list" where
  "vote_answers e view [] voters = []"
| "vote_answers e view (v # vs) voters =
     (case add_voter e view v voters of (b, voters) \<Rightarrow> b # vote_answers e view vs voters)"

lemma vote_answers_once:
  "count_list (vote_answers e view vs voters) True =
     (if card (voters view) < unat (nf e) \<and> unat (nf e) \<le> card (voters view \<union> set vs) then 1 else 0)"
proof (induction vs arbitrary: voters)
  case (Cons v vs)
  let ?S = "voters view"
  have "card (insert v ?S) \<le> card (insert v (?S \<union> set vs))" by (intro card_mono) auto
  moreover have "card ?S \<le> card (insert v ?S)" by (intro card_mono) auto
  ultimately show ?case
    using Cons [of voters] Cons [of "voters(view := insert v ?S)"]
    by (simp add: add_voter_def Let_def not_le not_less fun_upd_def)
qed simp

text \<open>
  Advancing past a failed view always succeeds on a replica: the instance goes to the next view, and
  an invalid execute message takes the place of the missing batch.
\<close>

lemma advance_failed_view_returns:
  assumes "ISSERVER e" and "map_of (spotless_timers (timer_manager f thd)) i \<noteq> None"
  shows "\<exists>f'. advance_failed_view e warm now thd i view f = Some f' \<and>
    newView (f_node f') = (newView (f_node f))(i := view + 1) \<and> fault_voters f' = fault_voters f \<and>
    execute_msg_heap (f_node f') =
      insort ((get_totInstances e * view + i + 1) * get_batch_size e - 2) (execute_msg_heap (f_node f))"
proof -
  let ?tid = "(get_totInstances e * view + i + 1) * get_batch_size e - 2"
  let ?m = "MExecute ((new_Execute e EXECUTE_MSG)\<lparr>ex_base := (new_Message e EXECUTE_MSG)\<lparr>m_txn_id := ?tid\<rparr>, ex_valid := False\<rparr>)"
  define s1 where "s1 = after_execute_enqueue e ?m (f_node f)"
  have rt: "msg_rtype ?m = EXECUTE_MSG" "txn_id ?m = ?tid" by (simp_all add: new_Message_def)
  have s1: "enqueue e ?m (f_node f) = Some s1" "newView s1 = newView (f_node f)"
      "execute_msg_heap s1 = insort ?tid (execute_msg_heap (f_node f))"
    using enqueue_execute_Some [OF assms(1) rt(1)] after_execute_enqueue_frame(4,10) [OF assms(1) rt(1)] rt(2)
    by (simp_all add: s1_def)
  have "manager_setTimer warm now i (timer_manager f thd) \<noteq> None"
    using assms(2) by (auto simp: manager_setTimer_def Let_def)
  then obtain m where "manager_setTimer warm now i (timer_manager f thd) = Some m" by blast
  with s1 show ?thesis by (auto simp: advance_failed_view_def Let_def)
qed

text \<open>A report of failure that is not late is counted, and the instance moves exactly when it completes a quorum.\<close>

lemma count_failed_returns:
  fixes e view voter i f
  defines "V \<equiv> fault_voters f i view"
  assumes "ISSERVER e" and "map_of (spotless_timers (timer_manager f thd)) i \<noteq> None"
  shows "\<exists>f'. count_failed e warm now thd i view voter f = Some f' \<and>
    fault_voters f' = (fault_voters f)(i := (fault_voters f i)(view := if card V < unat (nf e) then insert voter V else V)) \<and>
    (if card V < unat (nf e) \<and> unat (nf e) \<le> card (insert voter V)
     then newView (f_node f') = (newView (f_node f))(i := view + 1) \<and>
       execute_msg_heap (f_node f') =
         insort ((get_totInstances e * view + i + 1) * get_batch_size e - 2) (execute_msg_heap (f_node f))
     else f_node f' = f_node f)"
proof -
  let ?fm = "(fault_voters f)(i := (fault_voters f i)(view := if card V < unat (nf e) then insert voter V else V))"
  let ?now = "card V < unat (nf e) \<and> unat (nf e) \<le> card (insert voter V)"
  have "sufficient_voters e i view voter (fault_voters f) = (?now, ?fm)"
    by (auto simp: sufficient_voters_def add_voter_def V_def Let_def not_le)
  then have c: "count_failed e warm now thd i view voter f =
      (if ?now then advance_failed_view e warm now thd i view (f\<lparr>fault_voters := ?fm\<rparr>) else Some (f\<lparr>fault_voters := ?fm\<rparr>))"
    by (simp add: count_failed_def Let_def)
  obtain f' where f': "advance_failed_view e warm now thd i view (f\<lparr>fault_voters := ?fm\<rparr>) = Some f'"
      "newView (f_node f') = (newView (f_node f))(i := view + 1)" "fault_voters f' = ?fm"
      "execute_msg_heap (f_node f') =
         insort ((get_totInstances e * view + i + 1) * get_batch_size e - 2) (execute_msg_heap (f_node f))"
    using advance_failed_view_returns [OF assms(2), of "f\<lparr>fault_voters := ?fm\<rparr>" thd i warm now view] assms(3) by auto
  show ?thesis
  proof (cases ?now)
    case True
    then show ?thesis using c f' by auto
  next
    case False
    then show ?thesis unfolding c by auto
  qed
qed

lemma less_Suc_word: "x \<noteq> - 1 \<Longrightarrow> x < x + (1 :: u64)"
  by (metis add.commute add_eq_0_iff2 lessI unatSuc word_less_nat_alt)

text \<open>The timer of a view with a crashed primary is ignored as long as the view is at most \<open>CRASH_VIEW\<close>.\<close>

lemma check_timers_crash_view:
  assumes "\<And>i. get_current_view s i \<le> CRASH_VIEW"
  shows "fst (check_timers e warm now s m) = None"
proof -
  have "\<not> expired (get_current_view s) (primary_down e s) now p" for p
    using assms [of "fst p"] by (auto simp: expired_def)
  then have "fst (scan_timers (get_current_view s) (primary_down e s) now ts) = None" for ts
    using scan_timers_result [where view = "get_current_view s" and down = "primary_down e s" and now = now and ts = ts]
    by (auto split: option.splits)
  then show ?thesis by (simp add: check_timers_def case_prod_beta)
qed

end
