(* ===== verification/Stats_Array.thy ===== *)
theory Stats_Array
  imports Prelude "HOL-Library.Multiset"
begin

text \<open>
  The arrays of the statistics (\<^verbatim>\<open>statistics/stats_array.cpp\<close>): \<open>StatsArr\<close>, which grows by
  doubling or counts a histogram, and its in-place quicksort with Hoare's partition.  The \<open>int\<close>
  indices of \<open>quicksort\<close> are integers; an access outside the array, or an overflow of
  \<open>low + high\<close>, is \<open>None\<close>, as is a call that does not return.
\<close>

datatype StatsArrType = ArrInsert | ArrIncr

record StatsArr =
  sa_arr :: "u64 list"
  sa_size :: u64
  sa_type :: StatsArrType
  sa_cnt :: u64

section \<open>Operations\<close>

definition arr_at :: "'a list \<Rightarrow> int \<Rightarrow> 'a option" where
  "arr_at arr i = (if 0 \<le> i \<and> i < int (length arr) then Some (arr ! nat i) else None)"

partial_function (option) scan_up :: "u64 \<Rightarrow> u64 list \<Rightarrow> int \<Rightarrow> int option" where
  "scan_up pivot arr low = do {
     x \<leftarrow> arr_at arr low;
     if x < pivot then scan_up pivot arr (low + 1) else Some low }"

partial_function (option) scan_down :: "u64 \<Rightarrow> u64 list \<Rightarrow> int \<Rightarrow> int option" where
  "scan_down pivot arr high = do {
     x \<leftarrow> arr_at arr high;
     if x > pivot then scan_down pivot arr (high - 1) else Some high }"

definition arr_swap :: "int \<Rightarrow> int \<Rightarrow> 'a list \<Rightarrow> 'a list option" where
  "arr_swap low high arr = do {
     tmp \<leftarrow> arr_at arr low;
     x \<leftarrow> arr_at arr high;
     Some (arr[nat low := x, nat high := tmp]) }"

text \<open>The outer \<open>while\<close> loop, and the function.\<close>

partial_function (option) partition_loop :: "u64 \<Rightarrow> u64 list \<Rightarrow> int \<Rightarrow> int \<Rightarrow> (u64 list \<times> int \<times> int) option" where
  "partition_loop pivot arr low high =
     (if low < high then do {
        low \<leftarrow> scan_up pivot arr low;
        high \<leftarrow> scan_down pivot arr high;
        if low \<le> high then do {
          arr \<leftarrow> arr_swap low high arr;
          partition_loop pivot arr (low + 1) (high - 1) }
        else partition_loop pivot arr low high }
      else Some (arr, low, high))"

definition half32 :: "int \<Rightarrow> int \<Rightarrow> int option" where
  \<comment> \<open>\<open>(low + high) / 2\<close> on 32-bit integers: overflow is undefined, division truncates\<close>
  "half32 low high =
     (let sum = low + high
      in if sum < - (2 ^ 31) \<or> 2 ^ 31 \<le> sum then None
         else Some (if sum < 0 then - ((- sum) div 2) else sum div 2))"

partial_function (option) quicksort :: "int \<Rightarrow> int \<Rightarrow> u64 list \<Rightarrow> u64 list option" where
  "quicksort low_idx high_idx arr = do {
     mid \<leftarrow> half32 low_idx high_idx;
     pivot \<leftarrow> arr_at arr mid;
     (arr, low, high) \<leftarrow> partition_loop pivot arr low_idx high_idx;
     arr \<leftarrow> (if low_idx < high then quicksort low_idx high arr else Some arr);
     if low < high_idx then quicksort low high_idx arr else Some arr }"

definition StatsArr_init :: "u64 \<Rightarrow> StatsArrType \<Rightarrow> StatsArr" where
  "StatsArr_init n type =
     \<lparr>sa_arr = replicate (unat (n + 1)) 0, sa_size = n + 1, sa_type = type, sa_cnt = 0\<rparr>"

definition StatsArr_clear :: "StatsArr \<Rightarrow> StatsArr" where
  "StatsArr_clear a = a\<lparr>sa_cnt := 0\<rparr>"

text \<open>\<open>realloc\<close> keeps the contents; the new half is set to zero.\<close>

definition StatsArr_resize :: "StatsArr \<Rightarrow> StatsArr" where
  "StatsArr_resize a =
     (let n = sa_size a * 2
      in a\<lparr>sa_size := n, sa_arr := take (unat (n div 2)) (sa_arr a) @ replicate (unat n - unat (n div 2)) 0\<rparr>)"

definition store :: "u64 \<Rightarrow> u64 \<Rightarrow> StatsArr \<Rightarrow> StatsArr option" where
  "store i x a = (if unat i < length (sa_arr a) then Some (a\<lparr>sa_arr := (sa_arr a)[unat i := x]\<rparr>) else None)"

definition StatsArr_get_idx :: "u64 \<Rightarrow> StatsArr \<Rightarrow> u64 option" where
  "StatsArr_get_idx i a = (if unat i < length (sa_arr a) then Some (sa_arr a ! unat i) else None)"

definition StatsArr_insert :: "u64 \<Rightarrow> StatsArr \<Rightarrow> StatsArr option" where
  "StatsArr_insert item a =
     (case sa_type a of
        ArrIncr \<Rightarrow>
          (let my_cnt = sa_cnt a;
               a = a\<lparr>sa_cnt := sa_cnt a + 1\<rparr>;
               a = (if my_cnt = sa_size a then StatsArr_resize a else a)
           in store my_cnt item a)
      | ArrInsert \<Rightarrow> do {
          let i = (if item \<ge> sa_size a then sa_size a - 1 else item);
          x \<leftarrow> StatsArr_get_idx i a;
          a \<leftarrow> store i (x + 1) a;
          Some (a\<lparr>sa_cnt := sa_cnt a + 1\<rparr>) })"

definition StatsArr_append :: "StatsArr \<Rightarrow> StatsArr \<Rightarrow> StatsArr option" where
  "StatsArr_append array a =
     fold_option (\<lambda>i a. do {
       x \<leftarrow> StatsArr_get_idx (word_of_nat i) array;
       StatsArr_insert x a }) [0..<unat (sa_cnt array)] a"

definition StatsArr_get_percentile :: "u64 \<Rightarrow> StatsArr \<Rightarrow> u64 option" where
  "StatsArr_get_percentile ile a = StatsArr_get_idx (ile * sa_cnt a div 100) a"

definition StatsArr_get_avg :: "StatsArr \<Rightarrow> u64 option" where
  "StatsArr_get_avg a = do {
     sum \<leftarrow> fold_option (\<lambda>i sum. map_option (\<lambda>x. sum + x) (StatsArr_get_idx (word_of_nat i) a)) [0..<unat (sa_cnt a)] 0;
     Some (if sa_cnt a > 0 then sum div sa_cnt a else 0) }"

section \<open>The scans stop at a sentinel\<close>

lemma arr_at_nat [simp]: "i < length arr \<Longrightarrow> arr_at arr (int i) = Some (arr ! i)"
  by (simp add: arr_at_def)

lemma scan_up:
  assumes "low \<le> k" and "k < length arr" and "pivot \<le> arr ! k"
  shows "\<exists>l. scan_up pivot arr (int low) = Some (int l) \<and> low \<le> l \<and> l \<le> k \<and> pivot \<le> arr ! l \<and>
    (\<forall>i. low \<le> i \<and> i < l \<longrightarrow> arr ! i < pivot)"
  using assms(1)
proof (induction "k - low" arbitrary: low)
  case 0
  then have "scan_up pivot arr (int low) = Some (int low)"
    using assms(2,3) by (subst scan_up.simps) (auto dest: leD)
  then show ?case using 0 assms(3) by auto
next
  case (Suc n)
  show ?case
  proof (cases "arr ! low < pivot")
    case True
    obtain l where l: "scan_up pivot arr (int (Suc low)) = Some (int l)" "Suc low \<le> l" "l \<le> k" "pivot \<le> arr ! l"
        "\<forall>i. Suc low \<le> i \<and> i < l \<longrightarrow> arr ! i < pivot"
      using Suc.hyps(1) [of "Suc low"] Suc.hyps(2) by fastforce
    have "scan_up pivot arr (int low) = Some (int l)"
      using True l(1) Suc.prems assms(2) by (subst scan_up.simps) (simp add: add.commute)
    moreover have "arr ! i < pivot" if "low \<le> i" "i < l" for i
      using that True l(5) by (cases "i = low") auto
    ultimately show ?thesis using l by (intro exI [of _ l]) auto
  next
    case False
    then have "scan_up pivot arr (int low) = Some (int low)"
      using Suc.prems assms(2) by (subst scan_up.simps) simp
    then show ?thesis using False Suc.prems by (intro exI [of _ low]) auto
  qed
qed

lemma scan_down:
  assumes "k \<le> high" and "high < length arr" and "arr ! k \<le> pivot"
  shows "\<exists>h. scan_down pivot arr (int high) = Some (int h) \<and> k \<le> h \<and> h \<le> high \<and> arr ! h \<le> pivot \<and>
    (\<forall>i. h < i \<and> i \<le> high \<longrightarrow> pivot < arr ! i)"
  using assms(1,2)
proof (induction "high - k" arbitrary: high)
  case 0
  then have "scan_down pivot arr (int high) = Some (int high)"
    using assms(3) by (subst scan_down.simps) (auto dest: leD)
  then show ?case using 0 assms(3) by auto
next
  case (Suc n)
  then obtain g where g: "high = Suc g" by (cases high) auto
  show ?case
  proof (cases "pivot < arr ! high")
    case True
    obtain h where h: "scan_down pivot arr (int g) = Some (int h)" "k \<le> h" "h \<le> g" "arr ! h \<le> pivot"
        "\<forall>i. h < i \<and> i \<le> g \<longrightarrow> pivot < arr ! i"
      using Suc.hyps(1) [of g] Suc.hyps(2) Suc.prems g by fastforce
    have "scan_down pivot arr (int high) = Some (int h)"
      using True h(1) Suc.prems g by (subst scan_down.simps) (simp add: arr_at_def nat_add_distrib)
    moreover have "pivot < arr ! i" if "h < i" "i \<le> high" for i
      using that True h(5) g by (cases "i = high") auto
    ultimately show ?thesis using h g by (intro exI [of _ h]) auto
  next
    case False
    then have "scan_down pivot arr (int high) = Some (int high)"
      using Suc.prems by (subst scan_down.simps) simp
    then show ?thesis using False Suc.prems by (intro exI [of _ high]) auto
  qed
qed


section \<open>Partition\<close>

text \<open>
  Between calls the left part \<open>[lo, low)\<close> is at most the pivot and the right part
  \<open>[high + 1, hi)\<close> at least; \<open>h = high + 1\<close> is a natural number also when \<open>high\<close> is \<open>-1\<close>.
\<close>

definition split_at :: "u64 \<Rightarrow> u64 list \<Rightarrow> nat \<Rightarrow> nat \<Rightarrow> nat \<Rightarrow> nat \<Rightarrow> bool" where
  "split_at p arr lo low h hi \<longleftrightarrow> lo \<le> low \<and> low \<le> hi \<and> lo \<le> h \<and> h \<le> hi \<and> hi \<le> length arr \<and>
     (\<forall>i. lo \<le> i \<and> i < low \<longrightarrow> arr ! i \<le> p) \<and> (\<forall>i. h \<le> i \<and> i < hi \<longrightarrow> p \<le> arr ! i)"

definition permutes_in :: "nat \<Rightarrow> nat \<Rightarrow> 'a list \<Rightarrow> 'a list \<Rightarrow> bool" where
  "permutes_in lo hi arr arr' \<longleftrightarrow> length arr' = length arr \<and> mset arr' = mset arr \<and>
     (\<forall>i. i < lo \<or> hi \<le> i \<longrightarrow> arr' ! i = arr ! i)"

lemma permutes_in_refl [simp]: "permutes_in lo hi arr arr"
  by (simp add: permutes_in_def)

lemma permutes_in_trans: "permutes_in lo hi a b \<Longrightarrow> permutes_in lo hi b c \<Longrightarrow> permutes_in lo hi a c"
  by (simp add: permutes_in_def)

lemma permutes_in_swap:
  assumes "lo \<le> i" "i < hi" "lo \<le> j" "j < hi" "hi \<le> length arr"
  shows "permutes_in lo hi arr (arr[i := arr ! j, j := arr ! i])"
  using assms by (auto simp: permutes_in_def mset_swap nth_list_update)

lemma split_at_swap:
  assumes "split_at p arr lo low h hi" and "low \<le> l" and "l \<le> k" and "k < h"
    and "p \<le> arr ! l" and "arr ! k \<le> p"
    and "\<forall>i. low \<le> i \<and> i < l \<longrightarrow> arr ! i < p" and "\<forall>i. k < i \<and> i < h \<longrightarrow> p < arr ! i"
  shows "split_at p (arr[l := arr ! k, k := arr ! l]) lo (Suc l) k hi"
proof -
  have "arr[l := arr ! k, k := arr ! l] ! i \<le> p" if "lo \<le> i" "i < Suc l" for i
  proof (cases "i = l")
    case True
    then show ?thesis using assms by (cases "k = l") (auto simp: split_at_def nth_list_update)
  next
    case False
    then have "arr ! i \<le> p" using that assms(1,7) by (cases "i < low") (auto simp: split_at_def intro: less_imp_le)
    then show ?thesis using False that assms(3) by (simp add: nth_list_update)
  qed
  moreover have "p \<le> arr[l := arr ! k, k := arr ! l] ! i" if "k \<le> i" "i < hi" for i
  proof (cases "i = k")
    case True
    then show ?thesis using assms by (auto simp: split_at_def nth_list_update)
  next
    case False
    then have "p \<le> arr ! i" using that assms(1,8) by (cases "i < h") (auto simp: split_at_def intro: less_imp_le)
    then show ?thesis using False that assms(3) by (simp add: nth_list_update)
  qed
  ultimately show ?thesis using assms(1-4) by (auto simp: split_at_def)
qed

lemma arr_swap_nat:
  "l < length arr \<Longrightarrow> k < length arr \<Longrightarrow> arr_swap (int l) (int k) arr = Some (arr[l := arr ! k, k := arr ! l])"
  by (simp add: arr_swap_def)

lemma partition_loop:
  assumes "split_at p arr lo low h hi"
    and "Suc low < h \<longrightarrow> (\<exists>k. low \<le> k \<and> k < hi \<and> p \<le> arr ! k) \<and> (\<exists>k. lo \<le> k \<and> k < h \<and> arr ! k \<le> p)"
  shows "\<exists>arr' l h'. partition_loop p arr (int low) (int h - 1) = Some (arr', int l, int h' - 1) \<and>
    split_at p arr' lo l h' hi \<and> h' \<le> Suc l \<and> permutes_in lo hi arr arr' \<and> low \<le> l \<and> h' \<le> h \<and>
    (Suc low < h \<and> (\<exists>k. low \<le> k \<and> k < h \<and> arr ! k = p) \<longrightarrow> low < l \<and> h' < h)"
  using assms
proof (induction "h - low" arbitrary: arr low h rule: less_induct)
  case less
  show ?case
  proof (cases "Suc low < h")
    case False
    then have "partition_loop p arr (int low) (int h - 1) = Some (arr, int low, int h - 1)"
      by (subst partition_loop.simps) auto
    then show ?thesis using less.prems False by (intro exI [of _ arr] exI [of _ low] exI [of _ h]) auto
  next
    case True
    then obtain k1 k2 where k: "low \<le> k1" "k1 < hi" "p \<le> arr ! k1" "lo \<le> k2" "k2 < h" "arr ! k2 \<le> p"
      using less.prems(2) by blast
    have len: "hi \<le> length arr" "h \<le> hi" "lo \<le> low" using less.prems(1) by (auto simp: split_at_def)
    obtain l where l: "scan_up p arr (int low) = Some (int l)" "low \<le> l" "l \<le> k1" "p \<le> arr ! l"
        "\<forall>i. low \<le> i \<and> i < l \<longrightarrow> arr ! i < p"
      using scan_up [of low k1 arr p] k len by auto
    obtain g where g: "h = Suc g" using True by (cases h) auto
    obtain d where d: "scan_down p arr (int g) = Some (int d)" "k2 \<le> d" "d \<le> g" "arr ! d \<le> p"
        "\<forall>i. d < i \<and> i \<le> g \<longrightarrow> p < arr ! i"
      using scan_down [of k2 g arr p] k len g by auto
    have down: "scan_down p arr (int h - 1) = Some (int d)" using d(1) g by simp
    have dr: "\<forall>i. d < i \<and> i < h \<longrightarrow> p < arr ! i" using d(5) g by auto
    have sentinel: "l \<le> d" if "low \<le> m" "m < h" "arr ! m = p" for m
      using that l(5) dr d(3) by (metis leI less_le_trans nat_le_linear order_less_irrefl)
    show ?thesis
    proof (cases "l \<le> d")
      case swap: True
      let ?arr = "arr[l := arr ! d, d := arr ! l]"
      have s: "split_at p ?arr lo (Suc l) d hi"
        using split_at_swap [OF less.prems(1) l(2) swap _ l(4) d(4) l(5) dr] d(3) g by simp
      have "Suc (Suc l) < d \<longrightarrow> (\<exists>k. Suc l \<le> k \<and> k < hi \<and> p \<le> ?arr ! k) \<and> (\<exists>k. lo \<le> k \<and> k < d \<and> ?arr ! k \<le> p)"
        using l(2,4) d(3,4) len g by (auto simp: nth_list_update intro: exI [of _ d] exI [of _ l])
      then obtain arr' l' h' where r: "partition_loop p ?arr (int (Suc l)) (int d - 1) = Some (arr', int l', int h' - 1)"
          "split_at p arr' lo l' h' hi" "h' \<le> Suc l'" "permutes_in lo hi ?arr arr'" "Suc l \<le> l'" "h' \<le> d"
        using less.hyps [OF _ s] l(2) d(3) g swap by fastforce
      have "partition_loop p arr (int low) (int h - 1) = Some (arr', int l', int h' - 1)"
        using True l(1) down swap r(1) d(3) l(3) k(2) len g
        by (subst partition_loop.simps) (simp add: arr_swap_nat add.commute)
      moreover have "permutes_in lo hi arr arr'"
        by (rule permutes_in_trans [OF permutes_in_swap r(4)]) (use l d k len g swap in auto)
      ultimately show ?thesis
        using r l(2) d(3) g by (intro exI [of _ arr'] exI [of _ l'] exI [of _ h']) auto
    next
      case cross: False
      have "partition_loop p arr (int l) (int d) = Some (arr, int l, int d)"
        using cross by (subst partition_loop.simps) simp
      then have "partition_loop p arr (int low) (int h - 1) = Some (arr, int l, int (Suc d) - 1)"
        using True l(1) down cross by (subst partition_loop.simps) simp
      moreover have "split_at p arr lo l (Suc d) hi"
      proof -
        have "arr ! i \<le> p" if "lo \<le> i" "i < l" for i
          using that less.prems(1) l(5) by (cases "i < low") (auto simp: split_at_def intro: less_imp_le)
        moreover have "p \<le> arr ! i" if "Suc d \<le> i" "i < hi" for i
          using that less.prems(1) dr by (cases "i < h") (auto simp: split_at_def intro: less_imp_le)
        ultimately show ?thesis using l(2,3) k(2,4) d(2,3) len g by (auto simp: split_at_def)
      qed
      ultimately show ?thesis
        using cross l(2) d(3) g sentinel by (intro exI [of _ arr] exI [of _ l] exI [of _ "Suc d"]) auto
    qed
  qed
qed


section \<open>Quicksort sorts\<close>

lemma permutes_in_split:
  assumes "permutes_in (length A) (length A + length S) (A @ S @ B) arr"
  shows "\<exists>S'. arr = A @ S' @ B \<and> mset S' = mset S"
proof -
  define S' where "S' = take (length S) (drop (length A) arr)"
  have len: "length arr = length A + length S + length B" using assms by (simp add: permutes_in_def)
  have out: "arr ! i = (A @ S @ B) ! i" if "i < length A \<or> length A + length S \<le> i" for i
    using assms that by (auto simp: permutes_in_def)
  have "take (length A) arr = A"
    using out len by (intro nth_equalityI) (auto simp: nth_append)
  moreover have "drop (length A + length S) arr = B"
    using out len by (intro nth_equalityI) (auto simp: nth_append)
  ultimately have "arr = A @ S' @ B"
    unfolding S'_def by (metis append_take_drop_id drop_drop add.commute)
  moreover from this have "mset S' = mset S" using assms by (simp add: permutes_in_def)
  ultimately show ?thesis by blast
qed

text \<open>The three ways in which the two recursive calls cover the range.\<close>

lemma sort_parts:
  assumes "\<forall>x \<in> set L. x \<le> p" and "\<forall>x \<in> set M. x = (p :: u64)" and "\<forall>x \<in> set R. p \<le> x"
  shows "sort (L @ M @ R) = sort L @ M @ sort R"
proof (rule properties_for_sort)
  have "sorted M" using assms(2) by (induction M) auto
  then show "sorted (sort L @ M @ sort R)" using assms by (auto simp: sorted_append intro: order_trans)
qed simp

lemma sort_overlap:
  assumes "\<forall>x \<in> set L. x \<le> p" and "\<forall>x \<in> set R. (p :: u64) \<le> x" and "sort (L @ [x]) = Y @ [y]"
  shows "sort (L @ x # R) = Y @ sort (y # R)"
proof (rule properties_for_sort)
  have m: "mset Y + {#y#} = mset L + {#x#}" using assms(3) by (metis mset_append mset_sort mset_single_iff mset.simps(1,2) add_mset_add_single empty_neutral(1))
  then show "mset (Y @ sort (y # R)) = mset (L @ x # R)"
    by (simp add: union_assoc [symmetric] union_commute)
  have "sorted (Y @ [y])" using assms(3) sorted_sort by metis
  then have Y: "sorted Y" "\<forall>z \<in> set Y. z \<le> y" by (auto simp: sorted_append)
  have "z \<le> r" if "z \<in> set Y" "r \<in> set R" for z r
  proof (cases "z \<in> set L")
    case True
    then show ?thesis using assms(1,2) that(2) by (meson order_trans)
  next
    case False
    have "set_mset (mset Y + {#y#}) = set_mset (mset L + {#x#})" using m by simp
    then have sets: "insert y (set Y) = insert x (set L)" by simp
    then have "z = x" using False that(1) by auto
    show ?thesis
    proof (cases "y \<in> set L")
      case True
      then show ?thesis using Y(2) that assms(1,2) by (meson order_trans)
    next
      case notL: False
      then have "y = x" using sets by auto
      then have "mset Y = mset L" using m by simp
      then have "set Y = set L" by (metis set_mset_mset)
      then show ?thesis using False that(1) by simp
    qed
  qed
  then show "sorted (Y @ sort (y # R))" using Y by (auto simp: sorted_append sorted_insort set_insort_key)
qed


lemma sort_short: "length L \<le> 1 \<Longrightarrow> sort L = L"
  by (cases L) auto

text \<open>A recursive call, or none when the part has at most one element.\<close>

lemma quicksort_part:
  assumes "L \<noteq> [] \<Longrightarrow> quicksort (int a) (int b - 1) (A @ L @ B) = Some (A @ sort L @ B)"
    and "b = a + length L"
  shows "(if int a < int b - 1 then quicksort (int a) (int b - 1) (A @ L @ B) else Some (A @ L @ B)) = Some (A @ sort L @ B)"
  using assms by (cases "L = []") (auto simp: sort_short)

lemma quicksort_parts:
  assumes IH: "\<And>A' S' B'. length S' < n \<Longrightarrow> S' \<noteq> [] \<Longrightarrow> length A' + length S' \<le> 2 ^ 30 \<Longrightarrow>
      quicksort (int (length A')) (int (length A' + length S') - 1) (A' @ S' @ B') = Some (A' @ sort S' @ B')"
    and lo: "lo = length A" and hi: "hi = lo + length S" "hi \<le> 2 ^ 30" and n: "length S = n"
    and split: "split_at p (A @ S @ B) lo l h hi" and cover: "h \<le> Suc l" and less: "lo < l" "h < hi"
  shows "do {
      arr \<leftarrow> (if int lo < int h - 1 then quicksort (int lo) (int h - 1) (A @ S @ B) else Some (A @ S @ B));
      if int l < int hi - 1 then quicksort (int l) (int hi - 1) arr else Some arr } = Some (A @ sort S @ B)"
proof (cases "h \<le> l")
  case True
  define L M R where "L = take (h - lo) S" and "M = take (l - h) (drop (h - lo) S)" and "R = drop (l - lo) S"
  have b: "lo \<le> h" "l \<le> hi" using split by (auto simp: split_at_def)
  have "R = drop (l - h) (drop (h - lo) S)" using True b by (simp add: R_def)
  then have S: "S = L @ M @ R" unfolding L_def M_def by (metis append_take_drop_id)
  have len: "length L = h - lo" "length M = l - h" "length R = hi - l"
    using True b less hi by (auto simp: L_def M_def R_def)
  have at: "S ! i = (A @ S @ B) ! (lo + i)" if "i < length S" for i using that lo by (simp add: nth_append)
  have le: "S ! i \<le> p" if "i < l - lo" for i
    using split that at [of i] b hi by (auto simp: split_at_def)
  have ge: "p \<le> S ! i" if "h - lo \<le> i" "i < length S" for i
    using split that at [of i] b hi by (auto simp: split_at_def)
  have "\<forall>x \<in> set L. x \<le> p" using le len True less by (auto simp: L_def in_set_conv_nth)
  moreover have "\<forall>x \<in> set M. x = p"
  proof
    fix x assume "x \<in> set M"
    then obtain i where i: "i < l - h" "x = S ! (h - lo + i)" using len b hi True by (auto simp: M_def in_set_conv_nth)
    then have "h - lo + i < l - lo" "h - lo + i < length S" using b hi by auto
    then show "x = p" using le [of "h - lo + i"] ge [of "h - lo + i"] i(2) by (simp add: order_antisym)
  qed
  moreover have "\<forall>x \<in> set R. p \<le> x" using ge len True b hi by (auto simp: R_def in_set_conv_nth)
  ultimately have sorted: "sort S = sort L @ M @ sort R" unfolding S by (rule sort_parts)
  have arr: "A @ S @ B = A @ L @ M @ R @ B" by (simp add: S)
  have "(if int lo < int h - 1 then quicksort (int lo) (int h - 1) (A @ S @ B) else Some (A @ S @ B)) = Some (A @ sort L @ M @ R @ B)"
    unfolding arr
    by (rule quicksort_part) (use IH [of L A "M @ R @ B"] len n hi lo b less in auto)
  moreover have "(if int l < int hi - 1 then quicksort (int l) (int hi - 1) ((A @ sort L @ M) @ R @ B) else Some ((A @ sort L @ M) @ R @ B)) =
      Some ((A @ sort L @ M) @ sort R @ B)"
    by (rule quicksort_part) (use IH [of R "A @ sort L @ M" B] len n hi lo b less True in auto)
  ultimately show ?thesis by (auto simp: sorted split: if_splits)
next
  case False
  then have h: "h = Suc l" using cover by simp
  define L x R where "L = take (l - lo) S" and "x = S ! (l - lo)" and "R = drop (Suc (l - lo)) S"
  have b: "l < hi" "l - lo < length S" using h less hi by auto
  have S: "S = L @ x # R" unfolding L_def x_def R_def using b(2) by (rule id_take_nth_drop)
  have len: "length L = l - lo" "length R = hi - Suc l" using b less hi by (auto simp: L_def R_def)
  have at: "S ! i = (A @ S @ B) ! (lo + i)" if "i < length S" for i using that lo by (simp add: nth_append)
  have "\<forall>x \<in> set L. x \<le> p" using split at b hi by (auto simp: L_def in_set_conv_nth split_at_def)
  moreover have "\<forall>x \<in> set R. p \<le> x"
  proof
    fix r assume "r \<in> set R"
    then obtain i where "i < length R" "r = S ! (Suc (l - lo) + i)" by (auto simp: R_def in_set_conv_nth)
    then show "p \<le> r" using split at [of "Suc (l - lo) + i"] b hi h less len by (auto simp: split_at_def)
  qed
  moreover obtain Y y where Y: "sort (L @ [x]) = Y @ [y]"
    by (metis append_butlast_last_id append_is_Nil_conv list.distinct(1) length_0_conv length_sort)
  ultimately have sorted: "sort S = Y @ sort (y # R)" unfolding S by (rule sort_overlap)
  have arr: "A @ S @ B = A @ (L @ [x]) @ R @ B" by (simp add: S)
  have lenY: "length Y = l - lo" using arg_cong [OF Y, of length] len by simp
  have "(if int lo < int h - 1 then quicksort (int lo) (int h - 1) (A @ S @ B) else Some (A @ S @ B)) = Some (A @ (Y @ [y]) @ R @ B)"
    unfolding arr Y [symmetric]
    by (rule quicksort_part) (use IH [of "L @ [x]" A "R @ B"] len n hi lo b less h in auto)
  moreover have "(if int l < int hi - 1 then quicksort (int l) (int hi - 1) ((A @ Y) @ (y # R) @ B) else Some ((A @ Y) @ (y # R) @ B)) =
      Some ((A @ Y) @ sort (y # R) @ B)"
    by (rule quicksort_part) (use IH [of "y # R" "A @ Y" B] len lenY n hi lo b less h in auto)
  ultimately show ?thesis by (auto simp: sorted split: if_splits)
qed

lemma half32_mid:
  assumes "lo < hi" and "hi \<le> 2 ^ 30"
  shows "half32 (int lo) (int hi - 1) = Some (int ((lo + hi - 1) div 2))" "lo \<le> (lo + hi - 1) div 2" "(lo + hi - 1) div 2 < hi"
  using assms by (auto simp: half32_def Let_def zdiv_int)

lemma quicksort_range:
  assumes "S \<noteq> []" and "length A + length S \<le> 2 ^ 30"
  shows "quicksort (int (length A)) (int (length A + length S) - 1) (A @ S @ B) = Some (A @ sort S @ B)"
  using assms
proof (induction "length S" arbitrary: A S B rule: less_induct)
  case less
  define lo hi m where "lo = length A" and "hi = length A + length S" and "m = (lo + hi - 1) div 2"
  have lh: "lo < hi" "hi \<le> 2 ^ 30" using less.prems by (auto simp: lo_def hi_def)
  note mid = half32_mid [OF lh, folded m_def]
  let ?arr = "A @ S @ B"
  define p where "p = ?arr ! m"
  have at: "arr_at ?arr (int m) = Some p" using mid by (simp add: p_def hi_def)
  have "split_at p ?arr lo lo hi hi" using lh by (auto simp: split_at_def hi_def)
  from partition_loop [OF this] mid(2,3) obtain arr' l h where
    r: "partition_loop p ?arr (int lo) (int hi - 1) = Some (arr', int l, int h - 1)" "split_at p arr' lo l h hi"
      "h \<le> Suc l" "permutes_in lo hi ?arr arr'" "lo \<le> l" "h \<le> hi" "Suc lo < hi \<longrightarrow> lo < l \<and> h < hi"
    by (fastforce simp: p_def)
  obtain S' where S': "arr' = A @ S' @ B" "mset S' = mset S"
    using permutes_in_split [of A S B arr'] r(4) by (auto simp: lo_def hi_def)
  have len: "length S' = length S" using S'(2) by (metis size_mset)
  have unfold: "quicksort (int lo) (int hi - 1) ?arr = do {
      arr \<leftarrow> (if int lo < int h - 1 then quicksort (int lo) (int h - 1) arr' else Some arr');
      if int l < int hi - 1 then quicksort (int l) (int hi - 1) arr else Some arr }"
    using mid(1) at r(1) by (subst quicksort.simps) simp
  have "quicksort (int lo) (int hi - 1) ?arr = Some (A @ sort S' @ B)"
  proof (cases "Suc lo < hi")
    case True
    then show ?thesis
      unfolding unfold unfolding S'(1)
      using r(2,3,7) S'(1) lh len less.hyps
      by (intro quicksort_parts [where n = "length S" and p = p]) (auto simp: lo_def hi_def)
  next
    case False
    then have "length S' \<le> 1" using len lh by (simp add: lo_def hi_def)
    then show ?thesis unfolding unfold using False r(5,6) S'(1) lh by (auto simp: sort_short)
  qed
  also have "sort S' = sort S" using S'(2) by (intro properties_for_sort) simp_all
  finally show ?case by (simp add: lo_def hi_def)
qed


section \<open>Growing arrays\<close>

text \<open>The invariant of an array that collects its items, and what the operations do to its contents.\<close>

definition incr_inv :: "StatsArr \<Rightarrow> bool" where
  "incr_inv a \<longleftrightarrow> sa_type a = ArrIncr \<and> length (sa_arr a) = unat (sa_size a) \<and> sa_cnt a \<le> sa_size a \<and> sa_size a \<noteq> 0"

abbreviation contents :: "StatsArr \<Rightarrow> u64 list" where
  "contents a \<equiv> take (unat (sa_cnt a)) (sa_arr a)"

lemma incr_inv_init: "n \<noteq> UINT64_MAX \<Longrightarrow> incr_inv (StatsArr_init n ArrIncr) \<and> contents (StatsArr_init n ArrIncr) = []"
  using inc_le [of n 0]
  by (auto simp: incr_inv_def StatsArr_init_def eq_neg_iff_add_eq_0)

lemma unat_double: "unat w < 2 ^ 63 \<Longrightarrow> unat (w * 2 :: u64) = unat w * 2"
  using unat_mult_u64 [of w 2] by simp

lemma resize_contents:
  assumes "length (sa_arr a) = unat (sa_size a)" and "unat (sa_size a) < 2 ^ 63"
  shows "sa_arr (StatsArr_resize a) = sa_arr a @ replicate (unat (sa_size a)) 0"
    and "unat (sa_size (StatsArr_resize a)) = 2 * unat (sa_size a)"
proof -
  note d = unat_double [OF assms(2)]
  have "unat (sa_size a * 2 div 2) = unat (sa_size a)" by (simp add: unat_div d)
  then show "sa_arr (StatsArr_resize a) = sa_arr a @ replicate (unat (sa_size a)) 0"
    "unat (sa_size (StatsArr_resize a)) = 2 * unat (sa_size a)"
    using d assms(1) by (simp_all add: StatsArr_resize_def Let_def)
qed

lemma insert_incr:
  assumes "incr_inv a" and "unat (sa_size a) < 2 ^ 63"
  shows "\<exists>a'. StatsArr_insert x a = Some a' \<and> incr_inv a' \<and> contents a' = contents a @ [x] \<and>
    unat (sa_cnt a') = Suc (unat (sa_cnt a))"
proof -
  define b where "b = (if sa_cnt a = sa_size a then StatsArr_resize (a\<lparr>sa_cnt := sa_cnt a + 1\<rparr>) else a\<lparr>sa_cnt := sa_cnt a + 1\<rparr>)"
  have len: "length (sa_arr a) = unat (sa_size a)" "unat (sa_cnt a) \<le> unat (sa_size a)" "0 < unat (sa_size a)"
    using assms(1) by (auto simp: incr_inv_def word_le_nat_alt unat_gt_0)
  have cnt: "unat (sa_cnt a + 1) = Suc (unat (sa_cnt a))"
    using len(2) assms(2) unat_add_u64 [of "sa_cnt a" 1] by simp
  note rs = resize_contents [of "a\<lparr>sa_cnt := sa_cnt a + 1\<rparr>"]
  have b: "sa_cnt b = sa_cnt a + 1" "sa_type b = ArrIncr" "length (sa_arr b) = unat (sa_size b)"
      "unat (sa_cnt a) < unat (sa_size b)" "take (unat (sa_cnt a)) (sa_arr b) = contents a"
    using rs len assms by (auto simp: b_def StatsArr_resize_def Let_def incr_inv_def word_unat_eq_iff)
  have i: "StatsArr_insert x a = Some (b\<lparr>sa_arr := (sa_arr b)[unat (sa_cnt a) := x]\<rparr>)"
    using assms(1) b by (simp add: StatsArr_insert_def incr_inv_def store_def Let_def b_def)
  have "take (Suc (unat (sa_cnt a))) ((sa_arr b)[unat (sa_cnt a) := x]) = contents a @ [x]"
    using b(3,4,5) by (simp add: take_Suc_conv_app_nth)
  moreover have "sa_size b \<noteq> 0" using b(4) by (auto simp: word_unat_eq_iff)
  ultimately show ?thesis
    using i b cnt by (auto simp: incr_inv_def word_le_nat_alt Suc_le_eq)
qed

text \<open>Any number of insertions into a fresh array collects the items in order.\<close>

lemma insert_size:
  assumes "incr_inv a" and "StatsArr_insert x a = Some a'"
  shows "sa_size a' = (if sa_cnt a = sa_size a then sa_size a * 2 else sa_size a)"
proof -
  define b where "b = (if sa_cnt a = sa_size a then StatsArr_resize (a\<lparr>sa_cnt := sa_cnt a + 1\<rparr>) else a\<lparr>sa_cnt := sa_cnt a + 1\<rparr>)"
  have "store (sa_cnt a) x b = Some a'"
    using assms unfolding StatsArr_insert_def incr_inv_def b_def by (simp add: Let_def)
  then have "sa_size a' = sa_size b" by (auto simp: store_def split: if_splits)
  then show ?thesis by (simp add: b_def StatsArr_resize_def Let_def)
qed

lemma inserts_collect:
  assumes "n \<noteq> - 1" and "unat n + 1 < 2 ^ 63" and "length xs < 2 ^ 62"
  shows "\<exists>a. fold_option StatsArr_insert xs (StatsArr_init n ArrIncr) = Some a \<and> incr_inv a \<and> contents a = xs \<and>
    unat (sa_cnt a) = length xs \<and> unat (sa_size a) \<le> max (unat n + 1) (2 * length xs)"
  using assms(3)
proof (induction xs rule: rev_induct)
  case Nil
  have "unat (n + 1) = unat n + 1" using assms(2) by (subst unat_add_u64) auto
  then show ?case using incr_inv_init [OF assms(1)] by (simp add: StatsArr_init_def)
next
  case (snoc x xs)
  have "length xs < 2 ^ 62" using snoc.prems by simp
  from snoc.IH [OF this] obtain a where
    a: "fold_option StatsArr_insert xs (StatsArr_init n ArrIncr) = Some a" "incr_inv a" "contents a = xs"
      "unat (sa_cnt a) = length xs" "unat (sa_size a) \<le> max (unat n + 1) (2 * length xs)" by blast
  have small: "unat (sa_size a) < 2 ^ 63" using a(5) snoc.prems assms(2) by simp
  from insert_incr [OF a(2) this, of x] obtain a' where
    a': "StatsArr_insert x a = Some a'" "incr_inv a'" "contents a' = contents a @ [x]" "unat (sa_cnt a') = Suc (unat (sa_cnt a))"
    by blast
  have "unat (sa_size a') \<le> max (unat n + 1) (2 * length (xs @ [x]))"
    using insert_size [OF a(2) a'(1)] unat_double [OF small] a(4,5) by (auto split: if_splits)
  moreover have "fold_option StatsArr_insert (xs @ [x]) (StatsArr_init n ArrIncr) = Some a'"
    using a(1) a'(1) by (simp add: fold_option_append)
  moreover have "contents a' = xs @ [x]" using a(3) a'(3) by simp
  moreover have "unat (sa_cnt a') = length (xs @ [x])" using a(4) a'(4) by simp
  ultimately show ?case using a'(2) by blast
qed

end
