(* ===== verification/Smart_Contracts.thy ===== *)
theory Smart_Contracts
  imports Database Global_Config
begin

text \<open>
  The banking contracts of \<^verbatim>\<open>smart_contracts/banking_sc.cpp\<close> (the alternative workload that
  \<open>BANKING_SMART_CONTRACT\<close> selects) over the key-value store: balances are decimal strings,
  written with \<open>std::to_string\<close> and read with \<open>std::stoi\<close>, which throws (\<open>None\<close>) when the number does
  not fit a 32-bit \<open>int\<close>.
\<close>

section \<open>std::stoi\<close>

fun sign_of :: "string \<Rightarrow> bool \<times> string" where
  "sign_of [] = (False, [])"
| "sign_of (c # cs) = (if c = CHR ''-'' then (True, cs) else if c = CHR ''+'' then (False, cs) else (False, c # cs))"

definition stoi :: "string \<Rightarrow> int option" where
  "stoi str =
     (let (neg, s) = sign_of (dropWhile is_space str);
          ds = takeWhile is_digit s;
          v = (if neg then - int (undigits10 ds) else int (undigits10 ds))
      in if ds = [] \<or> v < - (2 ^ 31) \<or> 2 ^ 31 \<le> v then None else Some v)"

lemma stoi_to_string: "stoi (to_string v) = (if unat v < 2 ^ 31 then Some (int (unat v)) else None)"
proof -
  obtain c cs where s: "to_string v = c # cs" by (cases "to_string v") (simp_all add: to_string_def)
  have d: "\<forall>c \<in> set (to_string v). is_digit c" by (simp add: to_string_def digits10_digits)
  then have t: "takeWhile is_digit (to_string v) = to_string v" by (simp add: takeWhile_eq_all_conv)
  have w: "dropWhile is_space (to_string v) = to_string v" "sign_of (to_string v) = (False, to_string v)" "to_string v \<noteq> []"
    using d digit_not_special [of c] by (simp_all add: s)
  have "undigits10 (to_string v) = unat v" by (simp add: to_string_def undigits10_digits10)
  then show ?thesis by (simp add: stoi_def Let_def t w)
qed

section \<open>Contracts\<close>

datatype SmartContract =
  TransferMoney (source_id: u64) (dest_id: u64) (amount: u64)
| DepositMoney (dest_id: u64) (amount: u64)
| WithdrawMoney (source_id: u64) (amount: u64)

definition read_balance :: "u64 \<Rightarrow> InMemoryDB \<Rightarrow> (u64 \<times> InMemoryDB) option" where
  "read_balance i d =
     (let (temp, d) = InMemoryDB_Get (to_string i) d
      in if temp = '''' then Some (0, d) else map_option (\<lambda>v. (word_of_int v, d)) (stoi temp))"

definition put_balance :: "u64 \<Rightarrow> u64 \<Rightarrow> InMemoryDB \<Rightarrow> InMemoryDB" where
  "put_balance i v d = snd (InMemoryDB_Put (to_string i) (to_string v) d)"

fun contract_execute :: "SmartContract \<Rightarrow> InMemoryDB \<Rightarrow> (u64 \<times> InMemoryDB) option" where
  "contract_execute (TransferMoney src dst a) d = do {
     (source, d) \<leftarrow> read_balance src d;
     (dest, d) \<leftarrow> read_balance dst d;
     if a \<le> source then Some (1, put_balance dst (dest + a) (put_balance src (source - a) d))
     else Some (0, d) }"
| "contract_execute (DepositMoney dst a) d = do {
     (dest, d) \<leftarrow> read_balance dst d;
     Some (1, put_balance dst (dest + a) d) }"
| "contract_execute (WithdrawMoney src a) d = do {
     (source, d) \<leftarrow> read_balance src d;
     if a \<le> source then Some (1, put_balance src (source - a) d) else Some (0, d) }"

definition SmartContract_execute :: "SmartContract \<Rightarrow> InMemoryDB \<Rightarrow> (RC \<times> InMemoryDB) option" where
  "SmartContract_execute c d = map_option (\<lambda>(r, d). (if r \<noteq> 0 then RCOK else NONE, d)) (contract_execute c d)"

definition SmartContractTxn_run_txn :: "SmartContract \<Rightarrow> InMemoryDB \<Rightarrow> (RC \<times> InMemoryDB) option" where
  "SmartContractTxn_run_txn c d = map_option (\<lambda>(r, d). (RCOK, d)) (SmartContract_execute c d)"

section \<open>Accounts\<close>

text \<open>The abstract state: every account has a balance; an account that was never written has none.\<close>

definition holds :: "InMemoryDB \<Rightarrow> (u64 \<Rightarrow> u64) \<Rightarrow> bool" where
  "holds d bal \<longleftrightarrow> (\<forall>i. db_content d (to_string i) = to_string (bal i) \<or>
     db_content d (to_string i) = '''' \<and> bal i = 0)"

lemma to_string_nonempty [simp]: "to_string v \<noteq> ''''" "'''' \<noteq> to_string v"
  by (simp_all add: to_string_def) (metis digits10_nonempty)

lemma read_balance:
  assumes "holds d bal" and "unat (bal i) < 2 ^ 31"
  shows "\<exists>d'. read_balance i d = Some (bal i, d') \<and> holds d' bal"
proof -
  have "holds (snd (InMemoryDB_Get (to_string i) d)) bal"
    using assms(1) by (simp add: holds_def kv.get_content)
  moreover have "fst (InMemoryDB_Get (to_string i) d) = to_string (bal i) \<or>
      fst (InMemoryDB_Get (to_string i) d) = '''' \<and> bal i = 0"
    using assms(1) by (simp add: holds_def kv.get_value)
  ultimately show ?thesis
    using assms(2) by (auto simp: read_balance_def case_prod_beta stoi_to_string)
qed

lemma read_balance_too_large:
  assumes "holds d bal" and "2 ^ 31 \<le> unat (bal i)"
  shows "read_balance i d = None"
proof -
  have "bal i \<noteq> 0" using assms(2) by auto
  then have "fst (InMemoryDB_Get (to_string i) d) = to_string (bal i)"
    using assms(1) unfolding holds_def kv.get_value by metis
  then show ?thesis using assms(2) by (simp add: read_balance_def case_prod_beta stoi_to_string)
qed

lemma put_balance: "holds d bal \<Longrightarrow> holds (put_balance i v d) (bal(i := v))"
  by (simp add: holds_def put_balance_def kv.put_content)

text \<open>The contracts on balances: what each of them promises.\<close>

fun transact :: "SmartContract \<Rightarrow> (u64 \<Rightarrow> u64) \<Rightarrow> RC \<times> (u64 \<Rightarrow> u64)" where
  "transact (TransferMoney src dst a) bal =
     (if a \<le> bal src then (RCOK, bal(src := bal src - a, dst := bal dst + a)) else (NONE, bal))"
| "transact (DepositMoney dst a) bal = (RCOK, bal(dst := bal dst + a))"
| "transact (WithdrawMoney src a) bal = (if a \<le> bal src then (RCOK, bal(src := bal src - a)) else (NONE, bal))"

fun parties :: "SmartContract \<Rightarrow> u64 set" where
  "parties (TransferMoney src dst a) = {src, dst}"
| "parties (DepositMoney dst a) = {dst}"
| "parties (WithdrawMoney src a) = {src}"

lemma execute_refines:
  assumes "holds d bal" and "\<forall>i \<in> parties c. unat (bal i) < 2 ^ 31"
  shows "\<exists>d'. SmartContract_execute c d = Some (fst (transact c bal), d') \<and> holds d' (snd (transact c bal))"
proof (cases c)
  case (TransferMoney src dst a)
  obtain d1 where d1: "read_balance src d = Some (bal src, d1)" "holds d1 bal"
    using read_balance [OF assms(1), of src] assms(2) TransferMoney by auto
  obtain d2 where d2: "read_balance dst d1 = Some (bal dst, d2)" "holds d2 bal"
    using read_balance [OF d1(2), of dst] assms(2) TransferMoney by auto
  show ?thesis
    using d1(1) d2 put_balance [OF put_balance [OF d2(2)]] by (simp add: TransferMoney SmartContract_execute_def)
next
  case (DepositMoney dst a)
  obtain d1 where "read_balance dst d = Some (bal dst, d1)" "holds d1 bal"
    using read_balance [OF assms(1), of dst] assms(2) DepositMoney by auto
  then show ?thesis using put_balance [of d1 bal] by (simp add: DepositMoney SmartContract_execute_def)
next
  case (WithdrawMoney src a)
  obtain d1 where "read_balance src d = Some (bal src, d1)" "holds d1 bal"
    using read_balance [OF assms(1), of src] assms(2) WithdrawMoney by auto
  then show ?thesis using put_balance [of d1 bal] by (simp add: WithdrawMoney SmartContract_execute_def)
qed

lemma execute_too_large:
  assumes "holds d bal" and "i \<in> parties c" and "2 ^ 31 \<le> unat (bal i)"
    and "\<forall>j \<in> parties c. j \<noteq> i \<longrightarrow> unat (bal j) < 2 ^ 31"
  shows "SmartContract_execute c d = None"
proof (cases c)
  case (TransferMoney src dst a)
  show ?thesis
  proof (cases "src = i")
    case True
    then show ?thesis using read_balance_too_large [OF assms(1,3)] by (simp add: TransferMoney SmartContract_execute_def)
  next
    case False
    then obtain d1 where "read_balance src d = Some (bal src, d1)" "holds d1 bal"
      using read_balance [OF assms(1), of src] assms(4) TransferMoney by auto
    then show ?thesis
      using read_balance_too_large [of d1 bal i] assms(2,3) False by (auto simp: TransferMoney SmartContract_execute_def)
  qed
qed (use assms read_balance_too_large in \<open>auto simp: SmartContract_execute_def\<close>)

section \<open>Contracts in client messages\<close>

text \<open>
  The client packs the arguments of a contract into \<open>inputs\<close> (\<open>ClientThread::run\<close>), and a replica unpacks
  them (\<open>init_txn_man\<close>).
\<close>

datatype BSCType = BSC_TRANSFER | BSC_DEPOSIT | BSC_WITHDRAW

record BankingSmartContractMessage =
  bsc_type :: BSCType
  inputs :: "u64 list"

definition bsc_type_of :: "nat \<Rightarrow> BSCType" where
  "bsc_type_of addMore =
     (if addMore mod 3 = 0 then BSC_TRANSFER else if addMore mod 3 = 1 then BSC_DEPOSIT else BSC_WITHDRAW)"

definition client_contract :: "nat \<Rightarrow> u64 \<Rightarrow> u64 \<Rightarrow> u64 \<Rightarrow> BankingSmartContractMessage" where
  "client_contract addMore source dest amnt =
     \<lparr>bsc_type = bsc_type_of addMore, inputs = [amnt, source] @ (if addMore mod 3 = 0 then [dest] else [])\<rparr>"

definition init_txn_man_contract :: "BankingSmartContractMessage \<Rightarrow> SmartContract option" where
  "init_txn_man_contract bsc =
     (case (bsc_type bsc, inputs bsc) of
        (BSC_TRANSFER, i0 # i1 # i2 # _) \<Rightarrow> Some (TransferMoney i0 i2 i1)
      | (BSC_DEPOSIT, i0 # i1 # _) \<Rightarrow> Some (DepositMoney i1 i0)
      | (BSC_WITHDRAW, i0 # i1 # _) \<Rightarrow> Some (WithdrawMoney i1 i0)
      | _ \<Rightarrow> None)"

text \<open>Deposits and withdrawals arrive as they were meant; a transfer has its source and its amount exchanged.\<close>

lemma client_contract_unpacked:
  "init_txn_man_contract (client_contract n source dest amnt) =
     Some (case bsc_type_of n of
       BSC_TRANSFER \<Rightarrow> TransferMoney amnt dest source
     | BSC_DEPOSIT \<Rightarrow> DepositMoney source amnt
     | BSC_WITHDRAW \<Rightarrow> WithdrawMoney source amnt)"
  by (simp add: init_txn_man_contract_def client_contract_def bsc_type_of_def)

section \<open>Money\<close>

text \<open>A transfer between two accounts keeps the sum of their balances; one from an account to itself does not.\<close>

lemma transfer_conserves:
  assumes "src \<noteq> dst" and "snd (transact (TransferMoney src dst a) bal) = bal'"
  shows "bal' src + bal' dst = bal src + bal dst" "i \<noteq> src \<Longrightarrow> i \<noteq> dst \<Longrightarrow> bal' i = bal i"
  using assms by (auto split: if_splits)

lemma self_transfer_mints:
  "a \<le> bal i \<Longrightarrow> snd (transact (TransferMoney i i a) bal) i = bal i + a"
  by simp

end
