(* ===== verification/Sample_Io.thy ===== *)
theory Sample_Io
  imports Sample Proposals Io_Threads Timers Stats_Array Smart_Contracts
begin

text \<open>
  Concrete inputs for the client, the transport, the input threads and the timers, in the
  configuration of \<open>sample_env\<close>.
\<close>

section \<open>A client and its responses\<close>

definition sample_response :: ClientResponseMessage where
  "sample_response =
     (let m = (new_CR sample_env CL_RSP)\<lparr>cr_base := (new_Message sample_env CL_RSP)\<lparr>m_txn_id := 3\<rparr>,
                cr_index := [0, 1, 2, 3], cr_client_ts := [5, 5, 5, 5]\<rparr>
      in case CR_sign sample_env sample_keys 4 m of Some m \<Rightarrow> m | None \<Rightarrow> m)"

definition sample_client :: client where
  "sample_client =
     \<lparr>cl_keys = sample_keys, totKey = 4, keyAvail = True, num_inflight_txns = 4, query_cnt = 4,
      queries = replicate 20 [\<lparr>req_key = 7, req_value = 8\<rparr>], client_responses_count = new_SpinLockMap,
      client_responses_directory = new_SpinLockMap, last_valid_txn = 0, next_to_send = 1,
      in_round = (\<lambda>_. 0)(0 := 1), cl_bmsg = CB_init sample_env (new_CB sample_env CL_BATCH), addMore = 0, cl_outbox = []\<rparr>"

definition sample_client_config :: client_config where
  "sample_client_config = \<lparr>MAX_TXN_IN_FLIGHT = 64, BATCH_SIZE = 4, g_inflight_max = 64, g_max_txn_per_part = 16,
     g_init_parallelism = 3, g_key_order = False\<rparr>"

lemma sample_response_answers:
  "answers sample_env sample_keys 3 [0, 1, 2, 3] [5, 5, 5, 5] 0 0 sample_response"
  by code_simp

lemma sample_client_fresh:
  "responses_ok sample_client" "counted sample_client 3 = None" "kept sample_client 3 = None"
  by (simp_all add: responses_ok_def slm_ok_def sample_client_def new_SpinLockMap_def)

lemma sample_client_window: "window_ok sample_env sample_client_config sample_client"
proof -
  have "send_limit sample_env sample_client_config n = 4" for n
    by (simp add: send_limit_def sample_client_config_def Let_def)
  then show ?thesis by (simp add: window_ok_def sample_client_def sample_client_config_def)
qed

section \<open>Sockets\<close>

definition sample_tc :: transport_config where
  "sample_tc = \<lparr>g_client_thread_cnt = 1, g_client_rem_thread_cnt = 12, g_client_send_thread_cnt = 1,
     g_servers_per_client = 1, TPORT_PORT = 10000, TPORT_WINDOW = 20000\<rparr>"

lemma sample_net_ok: "net_ok sample_env sample_tc"
  by (simp add: net_ok_def sample_tc_def g_total_node_cnt_def)

definition sample_packet :: string where
  "sample_packet = packet 0 1 [(9, MReady (new_Message sample_env READY))]"

lemma sample_packet_messages:
  "\<exists>m. create_messages sample_env sample_packet = Some [m] \<and> msg_rtype m = READY"
proof -
  have "create_messages sample_env (packet (g_node_id sample_env) 1 [(9, MReady (new_Message sample_env READY))] @ []) =
      Some (map (received sample_env 1) [(9, MReady (new_Message sample_env READY))])"
    by (rule create_messages_packet) (auto simp: ISSERVERN_def new_Message_def header_ok_def)
  then show ?thesis by (simp add: sample_packet_def received_def new_Message_def)
qed

section \<open>Setup and timers\<close>

definition sample_sc :: sim_config where
  "sample_sc = \<lparr>g_done_timer = 100, g_warmup_timer = 10, g_seq_batch_time_limit = 5, SEND_THREAD_CNT = 4\<rparr>"

definition sample_io :: server_io where
  "sample_io = \<lparr>io_sim = SimManager_init sample_env 0 0, next_idx = 0, io_node = sample_node\<rparr>"

definition sample_timer :: SpotLessTimer where
  "sample_timer = \<lparr>waiting = False, timer_length = 0, start_time = 0, expiration_time = 0, last_timeout_view = 0, extra_length = 0\<rparr>"

definition sample_timers :: TimerManager where
  "sample_timers = new_TimerManager sample_env sample_timer 0"

definition sample_failing :: failing where
  "sample_failing = \<lparr>f_node = sample_node, timer_manager = (\<lambda>_. sample_timers), fault_voters = (\<lambda>_ _. {1, 2})\<rparr>"

definition sample_report :: SpotLessSyncMsg where
  "sample_report = (failed_vote sample_env 0 5 sample_node)\<lparr>sync_base := (new_Message sample_env SpotLess_SYNC_MSG)\<lparr>m_return_node_id := 3\<rparr>\<rparr>"

section \<open>A chain of certificates\<close>

text \<open>Certificates of the views 5 and 6 of instance 0, and that of view 7 on top of them.\<close>

definition sample_link :: "string \<Rightarrow> string \<Rightarrow> u64 \<Rightarrow> QuorumCertificate" where
  "sample_link h p v = (new_QC 0)\<lparr>batch_hash := h, parent_hash := p, viewNumber := v\<rparr>"

definition sample_top :: QuorumCertificate where
  "sample_top = sample_link ''a'' ''b'' 7"

definition sample_chain :: node where
  "sample_chain = sample_node\<lparr>hash_to_QC := (hash_to_QC sample_node)
     (0 := [''b'' \<mapsto> sample_link ''b'' ''c'' 6, ''c'' \<mapsto> sample_link ''c'' [] 5])\<rparr>"

lemma sample_chain_facts:
  "qc_map_ok (hash_to_QC sample_chain 0)" "table_inv sample_env sample_chain" "three_chain sample_chain 0 sample_top 8"
  "viewNumber (newer sample_top (g_preparedQC sample_chain 0)) = 7"
  "viewNumber (newer (qc_at sample_chain 0 (parent_hash sample_top)) (g_lockedQC sample_chain 0)) = 6"
  using sample_table_inv
  by (auto simp: sample_chain_def sample_top_def sample_link_def qc_map_ok_def three_chain_def two_chain_def one_chain_def qc_at_def
      newer_def new_QC_def genesis_QC_def sample_node_def init_node_def split: if_splits)

section \<open>A batch that waits\<close>

lemma sample_batch:
  "\<exists>s. enqueue sample_env (MClientBatch (new_CB sample_env CL_BATCH)) sample_node = Some s \<and> batch_available s 0 0 \<and>
     get_next_send_view s 0 \<le> get_current_view s 0 + ROUNDS_IN_ADVANCE sample_env"
proof -
  have n: "clb_cnt sample_node = (\<lambda>_. 0)" "clb_idx sample_node = 0" "newView sample_node = (\<lambda>_. 0)" "next_send_view sample_node 0 = 0"
    by (simp_all add: sample_node_def init_node_def)
  have "clb_search 8 4 (clb_cnt sample_node) 0 0 0 0xFFFFF = Some 0"
    using clb_search.simps(2) [of 7 4 "\<lambda>_. 0" 0 0 0 "0xFFFFF"] by (simp add: n)
  then show ?thesis
    by (simp add: enqueue_def enqueue_client_batch_def new_CB_def new_Message_def n sem_post_worker_def batch_available_def
        get_next_send_view_def get_current_view_def)
qed

end
