(* ===== verification/Pools.thy ===== *)
theory Pools
  imports Txn_Table
begin

text \<open>
  The object pools of \<^verbatim>\<open>system/pool.cpp\<close> other than that of the managers: \<open>TxnPool\<close>,
  \<open>QryPool\<close> and \<open>TxnTablePool\<close>.  A pool keeps one queue of free objects per thread; \<open>get\<close> takes an
  object from a queue or allocates one, \<open>put\<close> pushes an object and, when that fails too often,
  deletes it.  Objects have addresses here, since what matters is that nobody holds one object
  twice: the locale \<open>object_pool\<close> is this contract.
\<close>

section \<open>Queues of addresses over a heap\<close>

type_synonym addr = nat

record 'a pool =
  pl_queue :: "u64 \<Rightarrow> addr list"
  pl_heap :: "addr \<rightharpoonup> 'a"
  pl_next :: addr

definition pool_alloc :: "'a \<Rightarrow> 'a pool \<Rightarrow> addr \<times> 'a pool" where
  "pool_alloc x p = (pl_next p, p\<lparr>pl_heap := (pl_heap p)(pl_next p \<mapsto> x), pl_next := Suc (pl_next p)\<rparr>)"

definition pool_free :: "addr \<Rightarrow> 'a pool \<Rightarrow> 'a pool" where
  "pool_free a p = p\<lparr>pl_heap := (pl_heap p)(a := None)\<rparr>"

definition on_object :: "addr \<Rightarrow> ('a \<Rightarrow> 'a) \<Rightarrow> 'a pool \<Rightarrow> 'a pool" where
  "on_object a f p = p\<lparr>pl_heap := (pl_heap p)(a := map_option f (pl_heap p a))\<rparr>"

text \<open>\<open>pop\<close>, or an allocation of \<open>raw\<close> memory, then \<open>item->init()\<close>.\<close>

definition pool_get :: "'a \<Rightarrow> ('a \<Rightarrow> 'a) \<Rightarrow> u64 \<Rightarrow> 'a pool \<Rightarrow> addr \<times> 'a pool" where
  "pool_get raw init i p =
     (let (a, p) = (case pl_queue p i of
          [] \<Rightarrow> pool_alloc raw p
        | a # as \<Rightarrow> (a, p\<lparr>pl_queue := (pl_queue p)(i := as)\<rparr>))
      in (a, on_object a init p))"

text \<open>
  The loop \<open>while (!push(item) && tries++ < TRY_LIMIT)\<close>: \<open>ok n\<close> is the outcome of the attempt with
  \<open>tries = n\<close>.  It returns whether the item has been pushed and the final value of \<open>tries\<close>.
\<close>

definition TRY_LIMIT :: nat where
  "TRY_LIMIT = 10"

function try_push :: "(nat \<Rightarrow> bool) \<Rightarrow> nat \<Rightarrow> bool \<times> nat" where
  "try_push ok tries =
     (if ok tries then (True, tries)
      else if tries < TRY_LIMIT then try_push ok (tries + 1) else (False, tries + 1))"
  by pat_completeness auto
termination by (relation "measure (\<lambda>(ok, n). Suc TRY_LIMIT - n)") auto

definition pool_put :: "('a \<Rightarrow> 'a) \<Rightarrow> (nat \<Rightarrow> bool) \<Rightarrow> u64 \<Rightarrow> addr \<Rightarrow> 'a pool \<Rightarrow> 'a pool" where
  "pool_put reset ok i a p =
     (let p = on_object a reset p;
          (pushed, tries) = try_push ok 0;
          p = (if pushed then p\<lparr>pl_queue := (pl_queue p)(i := pl_queue p i @ [a])\<rparr> else p)
      in if tries \<ge> TRY_LIMIT then pool_free a p else p)"

definition drain_queue :: "u64 \<Rightarrow> 'a pool \<Rightarrow> 'a pool" where
  "drain_queue i p = (fold pool_free (pl_queue p i) p)\<lparr>pl_queue := (pl_queue p)(i := [])\<rparr>"

definition thread_ids :: "env \<Rightarrow> u64 list" where
  "thread_ids e = map word_of_nat [0..<unat (g_total_thread_cnt e)]"

definition pool_free_all :: "env \<Rightarrow> 'a pool \<Rightarrow> 'a pool" where
  "pool_free_all e p = fold drain_queue (thread_ids e) p"

definition empty_pool :: "'a pool" where
  "empty_pool = \<lparr>pl_queue = (\<lambda>_. []), pl_heap = (\<lambda>_. None), pl_next = 0\<rparr>"

text \<open>\<open>init\<close> allocates \<open>sz\<close> objects for every thread and puts them into its queue.\<close>

definition fill_queue :: "'a \<Rightarrow> ('a \<Rightarrow> 'a) \<Rightarrow> (nat \<Rightarrow> bool) \<Rightarrow> nat \<Rightarrow> u64 \<Rightarrow> 'a pool \<Rightarrow> 'a pool" where
  "fill_queue raw reset ok sz i p =
     ((\<lambda>p. let (a, p) = pool_alloc raw p in pool_put reset ok i a p) ^^ sz) p"

definition pool_init :: "env \<Rightarrow> 'a \<Rightarrow> ('a \<Rightarrow> 'a) \<Rightarrow> (nat \<Rightarrow> bool) \<Rightarrow> nat \<Rightarrow> 'a pool" where
  "pool_init e raw reset ok sz = fold (fill_queue raw reset ok sz) (thread_ids e) empty_pool"

section \<open>The three pools\<close>

record Transaction =
  tx_txn_id :: u64
  tx_batch_id :: u64
  tx_rc :: RC

definition Transaction_reset :: "Transaction \<Rightarrow> Transaction" where
  "Transaction_reset t = t\<lparr>tx_rc := RCOK\<rparr>"

definition Transaction_init :: "Transaction \<Rightarrow> Transaction" where
  "Transaction_init t = Transaction_reset (t\<lparr>tx_txn_id := UINT64_MAX, tx_batch_id := UINT64_MAX\<rparr>)"

definition TxnPool_get :: "Transaction \<Rightarrow> u64 \<Rightarrow> Transaction pool \<Rightarrow> addr \<times> Transaction pool" where
  "TxnPool_get raw pool_id p = pool_get raw Transaction_init pool_id p"

definition TxnPool_put :: "(nat \<Rightarrow> bool) \<Rightarrow> u64 \<Rightarrow> addr \<Rightarrow> Transaction pool \<Rightarrow> Transaction pool" where
  "TxnPool_put ok pool_id a p = pool_put Transaction_reset ok pool_id a p"

definition TxnPool_init :: "env \<Rightarrow> Transaction \<Rightarrow> (nat \<Rightarrow> bool) \<Rightarrow> nat \<Rightarrow> Transaction pool" where
  "TxnPool_init e raw ok sz = pool_init e raw Transaction_reset ok sz"

definition TxnPool_free_all :: "env \<Rightarrow> Transaction pool \<Rightarrow> Transaction pool" where
  "TxnPool_free_all = pool_free_all"

text \<open>A query holds its requests in an array; \<open>None\<close> is an array that is not allocated.\<close>

record YCSBQuery =
  yq_capacity :: "nat option"
  yq_requests :: "ycsb_request list"

definition new_YCSBQuery :: YCSBQuery where
  "new_YCSBQuery = \<lparr>yq_capacity = None, yq_requests = []\<rparr>"

definition YCSBQuery_init :: "env \<Rightarrow> YCSBQuery \<Rightarrow> YCSBQuery" where
  "YCSBQuery_init e q = q\<lparr>yq_capacity := Some (unat (g_req_per_query e)), yq_requests := []\<rparr>"

definition YCSBQuery_release :: "YCSBQuery \<Rightarrow> YCSBQuery" where
  "YCSBQuery_release q = q\<lparr>yq_capacity := None, yq_requests := []\<rparr>"

definition YCSBQuery_reset :: "YCSBQuery \<Rightarrow> YCSBQuery" where
  "YCSBQuery_reset q = q\<lparr>yq_requests := []\<rparr>"

definition QryPool_get :: "env \<Rightarrow> u64 \<Rightarrow> YCSBQuery pool \<Rightarrow> addr \<times> YCSBQuery pool" where
  "QryPool_get e pool_id p = pool_get new_YCSBQuery (YCSBQuery_init e) pool_id p"

definition QryPool_put :: "(nat \<Rightarrow> bool) \<Rightarrow> u64 \<Rightarrow> addr \<Rightarrow> YCSBQuery pool \<Rightarrow> YCSBQuery pool" where
  "QryPool_put ok pool_id a p = pool_put YCSBQuery_release ok pool_id a p"

definition QryPool_init :: "env \<Rightarrow> (nat \<Rightarrow> bool) \<Rightarrow> nat \<Rightarrow> YCSBQuery pool" where
  "QryPool_init e ok sz = pool_init e new_YCSBQuery YCSBQuery_release ok sz"

definition QryPool_free_all :: "env \<Rightarrow> YCSBQuery pool \<Rightarrow> YCSBQuery pool" where
  "QryPool_free_all = pool_free_all"

text \<open>The nodes of the lists of the transaction table; their contents do not matter here.\<close>

definition TxnTablePool_get :: "env \<Rightarrow> 'n \<Rightarrow> u64 \<Rightarrow> 'n pool \<Rightarrow> addr \<times> 'n pool" where
  "TxnTablePool_get e raw txn_id p = pool_get raw id (txn_id mod ucast (g_total_thread_cnt e)) p"

definition TxnTablePool_put :: "env \<Rightarrow> (nat \<Rightarrow> bool) \<Rightarrow> u64 \<Rightarrow> addr \<Rightarrow> 'n pool \<Rightarrow> 'n pool" where
  "TxnTablePool_put e ok txn_id a p = pool_put id ok (txn_id mod ucast (g_total_thread_cnt e)) a p"

definition TxnTablePool_init :: "env \<Rightarrow> 'n \<Rightarrow> (nat \<Rightarrow> bool) \<Rightarrow> nat \<Rightarrow> 'n pool" where
  "TxnTablePool_init e raw ok sz = pool_init e raw id ok sz"

definition TxnTablePool_free_all :: "env \<Rightarrow> 'n pool \<Rightarrow> 'n pool" where
  "TxnTablePool_free_all = pool_free_all"

section \<open>What the users of a pool rely on\<close>

text \<open>
  \<open>held\<close> are the objects that have been handed out, \<open>inv\<close> is an invariant.  What \<open>get\<close> returns was
  not held before; \<open>put\<close> takes an object back.
\<close>

locale object_pool =
  fixes inv :: "'p \<Rightarrow> bool" and held :: "'p \<Rightarrow> addr set"
    and get :: "'k \<Rightarrow> 'p \<Rightarrow> addr \<times> 'p" and put :: "'k \<Rightarrow> addr \<Rightarrow> 'p \<Rightarrow> 'p"
  assumes get_inv: "inv p \<Longrightarrow> inv (snd (get k p))"
    and get_fresh: "inv p \<Longrightarrow> fst (get k p) \<notin> held p"
    and get_held: "inv p \<Longrightarrow> held (snd (get k p)) = insert (fst (get k p)) (held p)"
    and put_inv: "inv p \<Longrightarrow> a \<in> held p \<Longrightarrow> inv (put k a p)"
    and put_held: "inv p \<Longrightarrow> a \<in> held p \<Longrightarrow> held (put k a p) = held p - {a}"
begin

fun get_all :: "'k list \<Rightarrow> 'p \<Rightarrow> addr list \<times> 'p" where
  "get_all [] p = ([], p)"
| "get_all (k # ks) p = (let (a, p) = get k p; (as, p) = get_all ks p in (a # as, p))"

lemma get_all_held:
  "inv p \<Longrightarrow> get_all ks p = (as, p') \<Longrightarrow>
     inv p' \<and> distinct as \<and> set as \<inter> held p = {} \<and> held p' = set as \<union> held p"
proof (induction ks arbitrary: p as p')
  case (Cons k ks)
  obtain a p1 where 1: "get k p = (a, p1)" by force
  obtain as1 p2 where 2: "get_all ks p1 = (as1, p2)" by force
  have p1: "inv p1" "a \<notin> held p" "held p1 = insert a (held p)"
    using get_inv [OF Cons.prems(1), of k] get_fresh [OF Cons.prems(1), of k] get_held [OF Cons.prems(1), of k] 1 by auto
  then show ?case using Cons.IH [OF p1(1) 2] Cons.prems(2) 1 2 by auto
qed simp

text \<open>Any number of objects in use are different ones, and putting one back and getting it again is safe.\<close>

lemma put_get_fresh:
  assumes "inv p" and "a \<in> held p"
  shows "fst (get k (put k' a p)) \<notin> held p - {a}"
  using get_fresh [OF put_inv [OF assms], of k k'] put_held [OF assms] by simp

end

section \<open>The pools keep the contract\<close>

definition queued :: "'a pool \<Rightarrow> addr set" where
  "queued p = (\<Union>i. set (pl_queue p i))"

definition pool_held :: "'a pool \<Rightarrow> addr set" where
  "pool_held p = dom (pl_heap p) - queued p"

definition pool_inv :: "'a pool \<Rightarrow> bool" where
  "pool_inv p \<longleftrightarrow> queued p \<subseteq> dom (pl_heap p) \<and> dom (pl_heap p) \<subseteq> {..<pl_next p} \<and>
     (\<forall>i. distinct (pl_queue p i)) \<and> (\<forall>i j. i \<noteq> j \<longrightarrow> set (pl_queue p i) \<inter> set (pl_queue p j) = {})"

text \<open>\<open>free_all\<close> deletes what is queued and nothing that has been handed out.\<close>

lemma fold_pool_free:
  "pl_queue (fold pool_free as p) = pl_queue p" "dom (pl_heap (fold pool_free as p)) = dom (pl_heap p) - set as"
  by (induction as arbitrary: p) (auto simp: pool_free_def)

lemma drain_queue_held: "pool_held (drain_queue i p) = pool_held p"
  by (auto simp: pool_held_def queued_def drain_queue_def fold_pool_free split: if_splits)

lemma pool_free_all_held: "pool_held (pool_free_all e p) = pool_held p"
proof -
  have "pool_held (fold drain_queue is p) = pool_held p" for "is"
    by (induction "is" arbitrary: p) (simp_all add: drain_queue_held)
  then show ?thesis by (simp add: pool_free_all_def)
qed

declare try_push.simps [simp del]

lemma on_object_simps [simp]:
  "dom (pl_heap (on_object a f p)) = dom (pl_heap p)" "pl_queue (on_object a f p) = pl_queue p"
  "pl_next (on_object a f p) = pl_next p"
  by (auto simp: on_object_def)

lemma queued_on_object [simp]: "queued (on_object a f p) = queued p"
  by (simp add: queued_def)

lemma queued_upd: "queued (p\<lparr>pl_queue := (pl_queue p)(i := xs)\<rparr>) = (\<Union>j \<in> - {i}. set (pl_queue p j)) \<union> set xs"
  by (auto simp: queued_def split: if_splits)

lemma queued_split: "queued p = (\<Union>j \<in> - {i}. set (pl_queue p j)) \<union> set (pl_queue p i)"
  by (auto simp: queued_def)

lemma pool_get_cases:
  assumes "pool_inv p"
  obtains (alloc) "pl_queue p i = []" "pool_get raw f i p = (pl_next p, on_object (pl_next p) f (snd (pool_alloc raw p)))"
    | (pop) a as where "pl_queue p i = a # as"
      "pool_get raw f i p = (a, on_object a f (p\<lparr>pl_queue := (pl_queue p)(i := as)\<rparr>))"
  by (cases "pl_queue p i") (simp_all add: pool_get_def pool_alloc_def Let_def)

lemma pool_get_law:
  assumes "pool_inv p"
  shows "pool_inv (snd (pool_get raw f i p)) \<and> fst (pool_get raw f i p) \<notin> pool_held p \<and>
    pool_held (snd (pool_get raw f i p)) = insert (fst (pool_get raw f i p)) (pool_held p)"
  using assms
proof (cases rule: pool_get_cases [where raw = raw and f = f and i = i])
  case alloc
  let ?p = "snd (pool_alloc raw p)"
  have p: "pl_queue ?p = pl_queue p" "dom (pl_heap ?p) = insert (pl_next p) (dom (pl_heap p))" "pl_next ?p = Suc (pl_next p)"
    by (simp_all add: pool_alloc_def)
  have q: "queued ?p = queued p" by (simp add: queued_def p)
  have n: "pl_next p \<notin> dom (pl_heap p)" using assms by (auto simp: pool_inv_def)
  then have "pl_next p \<notin> queued p" using assms by (auto simp: pool_inv_def)
  with n assms show ?thesis
    unfolding alloc(2) fst_conv snd_conv pool_held_def pool_inv_def on_object_simps queued_on_object p q
    by (auto simp: lessThan_Suc)
next
  case (pop a as)
  let ?p = "p\<lparr>pl_queue := (pl_queue p)(i := as)\<rparr>"
  have a: "a \<in> queued p" "a \<in> dom (pl_heap p)" using pop(1) assms by (auto simp: pool_inv_def queued_split [of p i])
  have "a \<notin> set as" "\<And>j. j \<noteq> i \<Longrightarrow> a \<notin> set (pl_queue p j)"
    using assms pop(1) by (auto simp: pool_inv_def dest: spec [of _ i])
  then have q: "queued ?p = queued p - {a}"
    using pop(1) unfolding queued_upd queued_split [of p i] by auto
  have d: "set as \<inter> set (pl_queue p j) = {}" "distinct as" if "j \<noteq> i" for j
    using assms that pop(1) unfolding pool_inv_def by (force dest: spec [of _ i])+
  have "pool_inv ?p" using assms q pop(1) d unfolding pool_inv_def
    by (auto simp: fun_upd_def dest: spec [of _ i])
  then have "pool_inv (on_object a f ?p)" by (simp add: pool_inv_def)
  moreover have "pool_held (on_object a f ?p) = insert a (pool_held p)" using a q by (auto simp: pool_held_def)
  ultimately show ?thesis using a(1) by (simp add: pop(2) pool_held_def)
qed

text \<open>
  A push that succeeds at the very last attempt leaves the loop with \<open>tries = TRY_LIMIT\<close>, so the object
  is deleted although it is in the queue.
\<close>

definition late_push :: "(nat \<Rightarrow> bool) \<Rightarrow> bool" where
  "late_push ok \<longleftrightarrow> (\<forall>n < TRY_LIMIT. \<not> ok n) \<and> ok TRY_LIMIT"

lemma try_push_result:
  "n \<le> TRY_LIMIT \<Longrightarrow> (\<exists>m. n \<le> m \<and> m \<le> TRY_LIMIT \<and> ok m \<and> (\<forall>j. n \<le> j \<and> j < m \<longrightarrow> \<not> ok j) \<and> try_push ok n = (True, m)) \<or>
     (\<forall>j. n \<le> j \<and> j \<le> TRY_LIMIT \<longrightarrow> \<not> ok j) \<and> try_push ok n = (False, Suc TRY_LIMIT)"
proof (induction ok n rule: try_push.induct)
  case (1 ok n)
  show ?case
  proof (cases "ok n")
    case True
    then show ?thesis using 1(2) by (intro disjI1 exI [of _ n]) (auto simp: try_push.simps [of ok n])
  next
    case False
    show ?thesis
    proof (cases "n < TRY_LIMIT")
      case less: True
      have t: "try_push ok n = try_push ok (n + 1)" using False less by (simp add: try_push.simps [of ok n])
      have "(\<forall>j. n + 1 \<le> j \<and> j < m \<longrightarrow> \<not> ok j) \<Longrightarrow> (\<forall>j. n \<le> j \<and> j < m \<longrightarrow> \<not> ok j)" for m
        using False by (metis Suc_eq_plus1 Suc_leI le_neq_implies_less)
      moreover have "(\<forall>j. n + 1 \<le> j \<and> j \<le> TRY_LIMIT \<longrightarrow> \<not> ok j) \<Longrightarrow> (\<forall>j. n \<le> j \<and> j \<le> TRY_LIMIT \<longrightarrow> \<not> ok j)"
        using False by (metis Suc_eq_plus1 Suc_leI le_neq_implies_less)
      moreover have "n + 1 \<le> m \<Longrightarrow> n \<le> m" for m by simp
      moreover have "n + 1 \<le> TRY_LIMIT" using less by simp
      ultimately show ?thesis using 1(1) [OF False less] unfolding t by blast
    next
      case False': False
      then have "n = TRY_LIMIT" using 1(2) by simp
      then show ?thesis using False by (auto simp: try_push.simps [of ok TRY_LIMIT])
    qed
  qed
qed

lemma try_push_not_late:
  assumes "\<not> late_push ok"
  shows "(\<exists>m < TRY_LIMIT. try_push ok 0 = (True, m)) \<or> try_push ok 0 = (False, Suc TRY_LIMIT)"
  using try_push_result [of 0 ok, OF le0]
proof (elim disjE exE conjE)
  fix m assume m: "m \<le> TRY_LIMIT" "ok m" "\<forall>j. 0 \<le> j \<and> j < m \<longrightarrow> \<not> ok j" "try_push ok 0 = (True, m)"
  then have "m \<noteq> TRY_LIMIT" using assms by (auto simp: late_push_def)
  with m show ?thesis by auto
qed auto

lemma pool_put_law:
  assumes "pool_inv p" and "a \<in> pool_held p" and "\<not> late_push ok"
  shows "pool_inv (pool_put f ok i a p) \<and> pool_held (pool_put f ok i a p) = pool_held p - {a}"
  using try_push_not_late [OF assms(3)]
proof
  assume "\<exists>m < TRY_LIMIT. try_push ok 0 = (True, m)"
  then have e: "pool_put f ok i a p = (let p = on_object a f p in p\<lparr>pl_queue := (pl_queue p)(i := pl_queue p i @ [a])\<rparr>)"
    by (auto simp: pool_put_def Let_def)
  let ?p = "p\<lparr>pl_queue := (pl_queue p)(i := pl_queue p i @ [a])\<rparr>"
  have a: "a \<in> dom (pl_heap p)" "a \<notin> queued p" using assms(2) by (auto simp: pool_held_def)
  then have n: "a \<notin> set (pl_queue p j)" for j by (auto simp: queued_def)
  have q: "queued (pool_put f ok i a p) = insert a (queued p)"
    unfolding e Let_def queued_def by (auto split: if_splits)
  have h: "dom (pl_heap (pool_put f ok i a p)) = dom (pl_heap p)" "pl_next (pool_put f ok i a p) = pl_next p"
      "pl_queue (pool_put f ok i a p) = (pl_queue p)(i := pl_queue p i @ [a])"
    by (simp_all add: e Let_def)
  show ?thesis
    unfolding pool_inv_def pool_held_def q h using assms(1) a(1) n unfolding pool_inv_def by auto
next
  assume "try_push ok 0 = (False, Suc TRY_LIMIT)"
  then have e: "pool_put f ok i a p = pool_free a (on_object a f p)" by (simp add: pool_put_def Let_def)
  have h: "dom (pl_heap (pool_free a (on_object a f p))) = dom (pl_heap p) - {a}"
      "pl_next (pool_free a (on_object a f p)) = pl_next p" "pl_queue (pool_free a (on_object a f p)) = pl_queue p"
    using on_object_simps(1) [of a f p] by (auto simp: pool_free_def)
  have q: "queued (pool_free a (on_object a f p)) = queued p" by (simp add: queued_def h(3))
  show ?thesis using assms(1,2) unfolding e pool_inv_def pool_held_def q h by auto
qed

text \<open>
  The queues of the code grow on demand, so a push fails only when memory runs out.  As long as no
  push succeeds at the last attempt, the three pools keep the contract.
\<close>

locale pushes =
  fixes ok :: "nat \<Rightarrow> bool"
  assumes not_late: "\<not> late_push ok"
begin

lemmas put_laws = pool_put_law [OF _ _ not_late]

end

sublocale pushes \<subseteq> txn_pool: object_pool pool_inv pool_held "TxnPool_get raw" "TxnPool_put ok"
  by unfold_locales (simp_all add: TxnPool_get_def TxnPool_put_def pool_get_law put_laws)

sublocale pushes \<subseteq> qry_pool: object_pool pool_inv pool_held "QryPool_get e" "QryPool_put ok"
  by unfold_locales (simp_all add: QryPool_get_def QryPool_put_def pool_get_law put_laws)

sublocale pushes \<subseteq> node_pool: object_pool pool_inv pool_held "TxnTablePool_get e raw" "TxnTablePool_put e ok"
  by unfold_locales (simp_all add: TxnTablePool_get_def TxnTablePool_put_def pool_get_law put_laws)

interpretation unbounded: pushes "\<lambda>_. True"
  by unfold_locales (auto simp: late_push_def TRY_LIMIT_def intro: exI [of _ 0])

text \<open>A late push breaks the contract: the object is free and can be handed out again.\<close>

lemma late_push_dangles:
  assumes "late_push ok" and "pool_held p = {a}" and "pl_queue p i = []"
  shows "pl_heap (pool_put f ok i a p) a = None \<and> a \<in> queued (pool_put f ok i a p) \<and>
    fst (pool_get raw g i (pool_put f ok i a p)) = a \<and>
    pl_heap (snd (pool_get raw g i (pool_put f ok i a p))) a = None"
proof -
  have "try_push ok 0 = (True, TRY_LIMIT)"
    using try_push_result [of 0 ok] assms(1)
    by (auto simp: late_push_def) (metis le_neq_implies_less)
  then have e: "pool_put f ok i a p =
      pool_free a ((on_object a f p)\<lparr>pl_queue := (pl_queue p)(i := pl_queue p i @ [a])\<rparr>)"
    by (simp add: pool_put_def Let_def on_object_def)
  show ?thesis unfolding e using assms(3)
    by (auto simp: pool_free_def pool_get_def queued_def on_object_def)
qed

end
