(* ===== verification/Linked_Lists.thy ===== *)
theory Linked_Lists
  imports Pools
begin

text \<open>
  The intrusive lists of \<^verbatim>\<open>system/helper.h\<close>: macros that link nodes through their
  \<open>next\<close> and \<open>prev\<close> fields.  The nodes live in a heap; a macro is a function on the heap and on the
  pointers it is given, and \<open>None\<close> is the dereference of a null or dangling pointer or a failed
  assertion.  The predicate \<open>dlist\<close> says that a heap holds a list of addresses, and the lemmas of
  the second section show that each macro is an operation on that list and leaves every other node
  as it is.
\<close>

section \<open>Nodes and macros\<close>

record 'a lnode =
  ln_val :: 'a
  ln_next :: "addr option"
  ln_prev :: "addr option"

type_synonym 'a heap = "addr \<rightharpoonup> 'a lnode"

definition set_next :: "addr \<Rightarrow> addr option \<Rightarrow> 'a heap \<Rightarrow> 'a heap option" where
  "set_next a p h = (case h a of None \<Rightarrow> None | Some n \<Rightarrow> Some (h(a \<mapsto> n\<lparr>ln_next := p\<rparr>)))"

definition set_prev :: "addr \<Rightarrow> addr option \<Rightarrow> 'a heap \<Rightarrow> 'a heap option" where
  "set_prev a p h = (case h a of None \<Rightarrow> None | Some n \<Rightarrow> Some (h(a \<mapsto> n\<lparr>ln_prev := p\<rparr>)))"

definition STACK_POP :: "addr option \<Rightarrow> 'a heap \<Rightarrow> (addr option \<times> addr option) option" where
  \<comment> \<open>the new \<open>stack\<close> and \<open>top\<close>\<close>
  "STACK_POP stack h = (case stack of
       None \<Rightarrow> Some (stack, None)
     | Some a \<Rightarrow> do { n \<leftarrow> h a; Some (ln_next n, Some a) })"

definition STACK_PUSH :: "addr option \<Rightarrow> addr \<Rightarrow> 'a heap \<Rightarrow> (addr option \<times> 'a heap) option" where
  "STACK_PUSH stack entry h = do { h \<leftarrow> set_next entry stack h; Some (Some entry, h) }"

definition LIST_GET_HEAD ::
    "addr option \<Rightarrow> addr option \<Rightarrow> 'a heap \<Rightarrow> (addr option \<times> addr option \<times> addr option \<times> 'a heap) option" where
  \<comment> \<open>\<open>en\<close>, the new \<open>lhead\<close> and \<open>ltail\<close>, and the heap\<close>
  "LIST_GET_HEAD lhead ltail h = do {
     let en = lhead;
     lhead \<leftarrow> (case lhead of None \<Rightarrow> Some lhead | Some a \<Rightarrow> map_option ln_next (h a));
     (ltail, h) \<leftarrow> (case lhead of
         Some b \<Rightarrow> do { h \<leftarrow> set_prev b None h; Some (ltail, h) }
       | None \<Rightarrow> Some (None, h));
     h \<leftarrow> (case en of Some a \<Rightarrow> set_next a None h | None \<Rightarrow> Some h);
     Some (en, lhead, ltail, h) }"

definition LIST_PUT_TAIL ::
    "addr option \<Rightarrow> addr option \<Rightarrow> addr \<Rightarrow> 'a heap \<Rightarrow> (addr option \<times> addr option \<times> 'a heap) option" where
  "LIST_PUT_TAIL lhead ltail en h = do {
     h \<leftarrow> set_next en None h;
     h \<leftarrow> set_prev en None h;
     case ltail of
       Some t \<Rightarrow> do {
         h \<leftarrow> set_prev en (Some t) h;
         h \<leftarrow> set_next t (Some en) h;
         Some (lhead, Some en, h) }
     | None \<Rightarrow> Some (Some en, Some en, h) }"

definition LIST_INSERT_BEFORE ::
    "addr \<Rightarrow> addr \<Rightarrow> addr option \<Rightarrow> 'a heap \<Rightarrow> (addr option \<times> 'a heap) option" where
  "LIST_INSERT_BEFORE entry newentry lhead h = do {
     h \<leftarrow> set_next newentry (Some entry) h;
     n \<leftarrow> h entry;
     h \<leftarrow> set_prev newentry (ln_prev n) h;
     n \<leftarrow> h entry;
     h \<leftarrow> (case ln_prev n of Some p \<Rightarrow> set_next p (Some newentry) h | None \<Rightarrow> Some h);
     h \<leftarrow> set_prev entry (Some newentry) h;
     Some (if lhead = Some entry then Some newentry else lhead, h) }"

definition LIST_REMOVE :: "addr \<Rightarrow> 'a heap \<Rightarrow> 'a heap option" where
  "LIST_REMOVE entry h = do {
     n \<leftarrow> h entry;
     h \<leftarrow> (case ln_next n of Some b \<Rightarrow> set_prev b (ln_prev n) h | None \<Rightarrow> Some h);
     n \<leftarrow> h entry;
     (case ln_prev n of Some b \<Rightarrow> set_next b (ln_next n) h | None \<Rightarrow> Some h) }"

definition LIST_REMOVE_HT ::
    "addr \<Rightarrow> addr option \<Rightarrow> addr option \<Rightarrow> 'a heap \<Rightarrow> (addr option \<times> addr option \<times> 'a heap) option" where
  "LIST_REMOVE_HT entry head tail h = do {
     n \<leftarrow> h entry;
     (tail, h) \<leftarrow> (case ln_next n of
         Some b \<Rightarrow> do { h \<leftarrow> set_prev b (ln_prev n) h; Some (tail, h) }
       | None \<Rightarrow> if Some entry = tail then Some (ln_prev n, h) else None);
     n \<leftarrow> h entry;
     (head, h) \<leftarrow> (case ln_prev n of
         Some b \<Rightarrow> do { h \<leftarrow> set_next b (ln_next n) h; Some (head, h) }
       | None \<Rightarrow> if Some entry = head then Some (ln_next n, h) else None);
     Some (head, tail, h) }"

section \<open>Lists of addresses\<close>

definition first :: "'b list \<Rightarrow> 'b option \<Rightarrow> 'b option" where
  "first ps n = (case ps of [] \<Rightarrow> n | p # _ \<Rightarrow> Some p)"

definition final :: "'b list \<Rightarrow> 'b option \<Rightarrow> 'b option" where
  "final ps p = (if ps = [] then p else Some (last ps))"

text \<open>\<open>dseg h p ps n\<close>: the nodes \<open>ps\<close> are linked both ways, between \<open>p\<close> and \<open>n\<close>.\<close>

fun dseg :: "'a heap \<Rightarrow> addr option \<Rightarrow> addr list \<Rightarrow> addr option \<Rightarrow> bool" where
  "dseg h p [] n \<longleftrightarrow> True"
| "dseg h p (a # as) n \<longleftrightarrow>
     (case h a of None \<Rightarrow> False | Some x \<Rightarrow> ln_next x = first as n \<and> ln_prev x = p) \<and> dseg h (Some a) as n"

definition dlist :: "'a heap \<Rightarrow> addr option \<Rightarrow> addr option \<Rightarrow> addr list \<Rightarrow> bool" where
  "dlist h head tail ps \<longleftrightarrow> distinct ps \<and> dseg h None ps None \<and> head = first ps None \<and> tail = final ps None"

fun sseg :: "'a heap \<Rightarrow> addr option \<Rightarrow> addr list \<Rightarrow> bool" where
  "sseg h p [] \<longleftrightarrow> p = None"
| "sseg h p (a # as) \<longleftrightarrow> p = Some a \<and> (case h a of None \<Rightarrow> False | Some x \<Rightarrow> sseg h (ln_next x) as)"

definition vals :: "'a heap \<Rightarrow> addr list \<Rightarrow> 'a list" where
  "vals h ps = map (\<lambda>a. ln_val (the (h a))) ps"

text \<open>Two heaps differ at most in the links of the nodes \<open>A\<close>.\<close>

definition relinked :: "addr set \<Rightarrow> 'a heap \<Rightarrow> 'a heap \<Rightarrow> bool" where
  "relinked A h h' \<longleftrightarrow> dom h' = dom h \<and> (\<forall>a. a \<notin> A \<longrightarrow> h' a = h a) \<and>
     (\<forall>a. map_option ln_val (h' a) = map_option ln_val (h a))"

lemma first_simps [simp]: "first [] n = n" "first (p # ps) n = Some p" "first (ps @ qs) n = first ps (first qs n)"
  by (auto simp: first_def split: list.splits)

lemma final_simps [simp]: "final [] p = p" "final (a # ps) p = final ps (Some a)" "final (ps @ qs) p = final qs (final ps p)"
  by (auto simp: final_def)

lemma first_if: "first ps n = (if ps = [] then n else Some (hd ps))"
  by (cases ps) auto

lemma dseg_Cons:
  "dseg h p (a # as) n \<longleftrightarrow> (\<exists>v. h a = Some \<lparr>ln_val = v, ln_next = first as n, ln_prev = p\<rparr>) \<and> dseg h (Some a) as n"
proof (cases "h a")
  case (Some x)
  then show ?thesis by (cases x) auto
qed simp

declare dseg.simps(2) [simp del]

lemma dseg_append [simp]:
  "dseg h p (xs @ ys) n \<longleftrightarrow> dseg h p xs (first ys n) \<and> dseg h (final xs p) ys n"
proof (induction xs arbitrary: p)
  case (Cons a xs)
  show ?case unfolding append_Cons dseg_Cons Cons.IH by simp
qed simp

lemma dseg_frame: "(\<And>a. a \<in> set ps \<Longrightarrow> h' a = h a) \<Longrightarrow> dseg h' p ps n = dseg h p ps n"
proof (induction ps arbitrary: p)
  case (Cons a as)
  have "h' a = h a" by (rule Cons.prems) simp
  moreover have "dseg h' (Some a) as n = dseg h (Some a) as n" by (rule Cons.IH, rule Cons.prems) simp
  ultimately show ?case by (simp add: dseg_Cons)
qed simp

lemma dseg_upd [simp]: "a \<notin> set ps \<Longrightarrow> dseg (h(a := x)) p ps n = dseg h p ps n"
  by (rule dseg_frame) auto

lemma dlist_frame: "(\<And>a. a \<in> set ps \<Longrightarrow> h' a = h a) \<Longrightarrow> dlist h' he ta ps = dlist h he ta ps"
  using dseg_frame [of ps h' h None None] by (simp add: dlist_def)

lemma vals_frame: "(\<And>a. a \<in> set ps \<Longrightarrow> h' a = h a) \<Longrightarrow> vals h' ps = vals h ps"
  by (simp add: vals_def)

lemma dseg_dom: "dseg h p ps n \<Longrightarrow> set ps \<subseteq> dom h"
  by (induction ps arbitrary: p) (auto simp: dseg_Cons)

lemma dlist_dom: "dlist h he ta ps \<Longrightarrow> set ps \<subseteq> dom h"
  by (auto simp: dlist_def dest: dseg_dom)

lemma relinked_vals:
  assumes "relinked A h h'" and "set ps \<subseteq> dom h"
  shows "vals h' ps = vals h ps"
  unfolding vals_def
proof (rule map_cong [OF refl])
  fix a assume "a \<in> set ps"
  then obtain x where x: "h a = Some x" using assms(2) by auto
  then have "map_option ln_val (h' a) = Some (ln_val x)" using assms(1) by (simp add: relinked_def)
  with x show "ln_val (the (h' a)) = ln_val (the (h a))" by auto
qed

lemma relinked_dlist: "relinked A h h' \<Longrightarrow> A \<inter> set ps = {} \<Longrightarrow> dlist h' he ta ps = dlist h he ta ps"
  unfolding relinked_def by (intro dlist_frame) auto

lemma relinked_refl: "relinked A h h"
  by (simp add: relinked_def)

lemma relinked_upd:
  assumes "relinked A h h'" and "h' a = Some y" and "ln_val z = ln_val y" and "a \<in> A"
  shows "relinked A h (h'(a \<mapsto> z))"
proof -
  have "map_option ln_val (h a) = Some (ln_val z)" "a \<in> dom h"
    using assms(1,2,3) unfolding relinked_def by (metis option.map(2), metis domI)
  with assms show ?thesis unfolding relinked_def by auto
qed

lemma relinked_trans: "relinked A h h' \<Longrightarrow> relinked B h' h'' \<Longrightarrow> relinked (A \<union> B) h h''"
  unfolding relinked_def by auto

lemma relinked_mono: "relinked A h h' \<Longrightarrow> A \<subseteq> B \<Longrightarrow> relinked B h h'"
  unfolding relinked_def by auto

lemma relinked_dseg: "relinked A h h' \<Longrightarrow> A \<inter> set ps = {} \<Longrightarrow> dseg h' p ps n = dseg h p ps n"
  unfolding relinked_def by (intro dseg_frame) auto

lemma relinked_same: "relinked A h h' \<Longrightarrow> a \<notin> A \<Longrightarrow> h' a = h a"
  unfolding relinked_def by auto

section \<open>Every macro is a list operation\<close>

lemmas link_defs = set_next_def set_prev_def dlist_def dseg_Cons

text \<open>The two ends of a segment can be linked anew.\<close>

lemma set_prev_first:
  assumes "dseg h p ys n" and "distinct ys"
  shows "\<exists>h'. (case first ys None of Some b \<Rightarrow> set_prev b q h | None \<Rightarrow> Some h) = Some h' \<and>
    dseg h' q ys n \<and> relinked (set ys) h h'"
proof (cases ys)
  case (Cons y zs)
  then obtain v where v: "h y = Some \<lparr>ln_val = v, ln_next = first zs n, ln_prev = p\<rparr>" using assms by (auto simp: dseg_Cons)
  have "relinked (set ys) h (h(y \<mapsto> \<lparr>ln_val = v, ln_next = first zs n, ln_prev = q\<rparr>))"
    using v Cons by (intro relinked_upd [OF relinked_refl]) auto
  with v Cons assms show ?thesis by (auto simp: link_defs)
qed (simp add: relinked_refl)

lemma set_next_final:
  assumes "dseg h p xs n" and "distinct xs"
  shows "\<exists>h'. (case final xs None of Some b \<Rightarrow> set_next b m h | None \<Rightarrow> Some h) = Some h' \<and>
    dseg h' p xs m \<and> relinked (set xs) h h'"
proof (cases xs rule: rev_cases)
  case (snoc zs b)
  then obtain v where v: "h b = Some \<lparr>ln_val = v, ln_next = n, ln_prev = final zs p\<rparr>" using assms by (auto simp: dseg_Cons)
  have "relinked (set xs) h (h(b \<mapsto> \<lparr>ln_val = v, ln_next = m, ln_prev = final zs p\<rparr>))"
    using v snoc by (intro relinked_upd [OF relinked_refl]) auto
  with v snoc assms show ?thesis by (auto simp: link_defs)
qed (simp add: relinked_refl)

lemma set_both:
  assumes "h a = Some x"
  shows "\<exists>h'. do { h \<leftarrow> set_next a n h; set_prev a p h } = Some h' \<and> dseg h' p [a] n \<and> relinked {a} h h'"
proof -
  obtain v where v: "x\<lparr>ln_next := n, ln_prev := p\<rparr> = \<lparr>ln_val = v, ln_next = n, ln_prev = p\<rparr>" by (cases x) simp
  have "relinked {a} h (h(a \<mapsto> x\<lparr>ln_next := n, ln_prev := p\<rparr>))" using assms by (intro relinked_upd [OF relinked_refl]) auto
  with assms v show ?thesis by (simp add: link_defs)
qed

lemma final_None: "final xs None = None \<longleftrightarrow> xs = []" "first xs None = None \<longleftrightarrow> xs = []"
  by (auto simp: final_def first_def split: list.splits)

lemma put_tail_dlist:
  assumes "dlist h he ta ps" and "a \<notin> set ps" and "h a = Some x"
  shows "\<exists>h'. LIST_PUT_TAIL he ta a h = Some (first (ps @ [a]) None, Some a, h') \<and>
    dlist h' (first (ps @ [a]) None) (Some a) (ps @ [a]) \<and> relinked (insert a (set ps)) h h'"
proof -
  have ps: "dseg h None ps None" "distinct ps" "he = first ps None" "ta = final ps None" using assms(1) by (auto simp: dlist_def)
  obtain h1 where 1: "do { h \<leftarrow> set_next a None h; set_prev a None h } = Some h1" "dseg h1 None [a] None" "relinked {a} h h1"
    using set_both [of h a x None None, OF assms(3)] by blast
  obtain h2 where 2: "(if ps = [] then Some h1 else set_prev a ta h1) = Some h2" "dseg h2 ta [a] None" "relinked {a} h1 h2"
    using set_prev_first [OF 1(2), of ta] 1(2) relinked_refl [of "{a}" h1] ps(4) by (cases "ps = []") auto
  have "dseg h2 None ps None" "relinked {a} h h2"
    using ps(1) relinked_dseg [OF 1(3), of ps] relinked_dseg [OF 2(3), of ps] assms(2) relinked_trans [OF 1(3) 2(3)] by auto
  with set_next_final [of h2 None ps None "Some a"] ps(2) obtain h3 where
    3: "(case final ps None of Some b \<Rightarrow> set_next b (Some a) h2 | None \<Rightarrow> Some h2) = Some h3"
      "dseg h3 None ps (Some a)" "relinked (set ps) h2 h3" by blast
  have r: "relinked (insert a (set ps)) h h3" using relinked_trans [OF \<open>relinked {a} h h2\<close> 3(3)] by simp
  have "dseg h3 ta [a] None" using 2(2) relinked_dseg [OF 3(3), of "[a]"] assms(2) by simp
  with 3(2) have d: "dlist h3 (first (ps @ [a]) None) (Some a) (ps @ [a])" using ps assms(2) by (simp add: dlist_def)
  have "LIST_PUT_TAIL he ta a h = Some (first (ps @ [a]) None, Some a, h3)"
  proof (cases "ps = []")
    case True
    then show ?thesis using 1(1) 2(1) 3(1) ps by (auto simp: LIST_PUT_TAIL_def bind_eq_Some_conv)
  next
    case False
    then have "ta = Some (last ps)" "first ps (Some a) = first ps None" using ps(4) by (auto simp: final_def first_def split: list.splits)
    with False show ?thesis using 1(1) 2(1) 3(1) ps by (auto simp: LIST_PUT_TAIL_def bind_eq_Some_conv)
  qed
  with d r show ?thesis by blast
qed

lemma remove_dlist:
  assumes "dlist h he ta (xs @ a # ys)"
  shows "\<exists>h'. LIST_REMOVE a h = Some h' \<and> LIST_REMOVE_HT a he ta h = Some (first (xs @ ys) None, final (xs @ ys) None, h') \<and>
    dlist h' (first (xs @ ys) None) (final (xs @ ys) None) (xs @ ys) \<and> relinked (set (xs @ ys)) h h'"
proof -
  have d: "distinct (xs @ a # ys)" using assms by (simp add: dlist_def)
  have seg: "dseg h None xs (Some a)" "dseg h (Some a) ys None" using assms by (simp_all add: dlist_def dseg_Cons)
  obtain v where v: "h a = Some \<lparr>ln_val = v, ln_next = first ys None, ln_prev = final xs None\<rparr>"
    using assms by (auto simp: link_defs)
  obtain h1 where 1: "(case first ys None of Some b \<Rightarrow> set_prev b (final xs None) h | None \<Rightarrow> Some h) = Some h1"
      "dseg h1 (final xs None) ys None" "relinked (set ys) h h1"
    using set_prev_first [OF seg(2), of "final xs None"] d by auto
  have "dseg h1 None xs (Some a)" using seg(1) relinked_dseg [OF 1(3), of xs] d by auto
  then obtain h2 where 2: "(case final xs None of Some b \<Rightarrow> set_next b (first ys None) h1 | None \<Rightarrow> Some h1) = Some h2"
      "dseg h2 None xs (first ys None)" "relinked (set xs) h1 h2"
    using set_next_final [of h1 None xs "Some a" "first ys None"] d by auto
  have "dseg h2 (final xs None) ys None" using 1(2) relinked_dseg [OF 2(3), of ys] d by auto
  with 2(2) have dl: "dlist h2 (first (xs @ ys) None) (final (xs @ ys) None) (xs @ ys)" using d by (auto simp: dlist_def)
  have h1a: "h1 a = Some \<lparr>ln_val = v, ln_next = first ys None, ln_prev = final xs None\<rparr>"
    using v relinked_same [OF 1(3), of a] d by simp
  have r: "relinked (set (xs @ ys)) h h2" using relinked_trans [OF 1(3) 2(3)] by (simp add: Un_commute)
  have rm: "LIST_REMOVE a h = Some h2" using v h1a 1(1) 2(1) by (simp add: LIST_REMOVE_def cong: option.case_cong)
  have "he = first (xs @ [a]) None" "ta = final (a # ys) None" using assms by (auto simp: dlist_def)
  then have "LIST_REMOVE_HT a he ta h = Some (first (xs @ ys) None, final (xs @ ys) None, h2)"
    using v h1a 1(1) 2(1) by (cases ys; cases xs rule: rev_cases)
      (auto simp: LIST_REMOVE_HT_def first_if hd_append split: option.splits)
  with rm dl r show ?thesis by blast
qed

lemma insert_before_dlist:
  assumes "dlist h he ta (xs @ b # ys)" and "a \<notin> set (xs @ b # ys)" and "h a = Some x"
  shows "\<exists>h'. LIST_INSERT_BEFORE b a he h = Some (first (xs @ a # b # ys) None, h') \<and>
    dlist h' (first (xs @ a # b # ys) None) ta (xs @ a # b # ys) \<and> relinked (set (xs @ a # b # ys)) h h'"
proof -
  have d: "distinct (xs @ b # ys)" using assms(1) by (simp add: dlist_def)
  have seg: "dseg h None xs (Some b)" "dseg h (final xs None) (b # ys) None" using assms(1) by (simp_all add: dlist_def)
  obtain h1 where 1: "do { h \<leftarrow> set_next a (Some b) h; set_prev a (final xs None) h } = Some h1"
      "dseg h1 (final xs None) [a] (Some b)" "relinked {a} h h1"
    using set_both [of h a x "Some b" "final xs None", OF assms(3)] by blast
  obtain k where k: "set_next a (Some b) h = Some k" "set_prev a (final xs None) k = Some h1"
    using 1(1) by (auto simp: bind_eq_Some_conv)
  have kb: "k b = h b" "h1 b = h b" using k(1) relinked_same [OF 1(3), of b] assms(2) by (auto simp: set_next_def split: option.splits)
  have seg1: "dseg h1 None xs (Some b)" "dseg h1 (final xs None) (b # ys) None"
    using seg relinked_dseg [OF 1(3)] assms(2) by auto
  obtain h2 where 2: "(case final xs None of Some c \<Rightarrow> set_next c (Some a) h1 | None \<Rightarrow> Some h1) = Some h2"
      "dseg h2 None xs (Some a)" "relinked (set xs) h1 h2"
    using set_next_final [OF seg1(1), of "Some a"] d by auto
  have "dseg h2 (final xs None) (b # ys) None" using seg1(2) relinked_dseg [OF 2(3), of "b # ys"] d by auto
  from set_prev_first [OF this, of "Some a"] d obtain h3 where 3: "set_prev b (Some a) h2 = Some h3"
      "dseg h3 (Some a) (b # ys) None" "relinked (set (b # ys)) h2 h3" by auto
  have "dseg h3 None xs (Some a)" using 2(2) relinked_dseg [OF 3(3), of xs] d by auto
  moreover have "dseg h3 (final xs None) [a] (Some b)"
    using 1(2) relinked_dseg [OF 2(3), of "[a]"] relinked_dseg [OF 3(3), of "[a]"] assms(2) by auto
  ultimately have dl: "dlist h3 (first (xs @ a # b # ys) None) ta (xs @ a # b # ys)"
    using 3(2) d assms(1,2) by (auto simp: dlist_def dseg_Cons)
  have r: "relinked (set (xs @ a # b # ys)) h h3"
    by (rule relinked_mono [OF relinked_trans [OF relinked_trans [OF 1(3) 2(3)] 3(3)]]) auto
  obtain w where w: "h b = Some \<lparr>ln_val = w, ln_next = first ys None, ln_prev = final xs None\<rparr>"
    using seg(2) by (auto simp: dseg_Cons)
  have "he = first (xs @ [b]) None" "b \<notin> set xs" using assms(1) by (auto simp: dlist_def)
  then have "(if he = Some b then Some a else he) = first (xs @ a # b # ys) None"
    by (cases xs) auto
  then have "LIST_INSERT_BEFORE b a he h = Some (first (xs @ a # b # ys) None, h3)"
    using k kb w 2(1) 3(1) by (simp add: LIST_INSERT_BEFORE_def)
  with dl r show ?thesis by blast
qed

lemma get_head_dlist:
  assumes "dlist h he ta (a # ps)"
  shows "\<exists>h'. LIST_GET_HEAD he ta h = Some (Some a, first ps None, final ps None, h') \<and>
    dlist h' (first ps None) (final ps None) ps \<and> relinked (set (a # ps)) h h'"
proof -
  have d: "distinct (a # ps)" "he = Some a" "ta = final ps (Some a)" using assms by (auto simp: dlist_def)
  have seg: "dseg h (Some a) ps None" using assms by (simp add: dlist_def dseg_Cons)
  obtain h1 where 1: "(case first ps None of Some b \<Rightarrow> set_prev b None h | None \<Rightarrow> Some h) = Some h1"
      "dseg h1 None ps None" "relinked (set ps) h h1"
    using set_prev_first [OF seg, of None] d(1) by auto
  obtain v where v: "h a = Some \<lparr>ln_val = v, ln_next = first ps None, ln_prev = None\<rparr>"
    using assms by (auto simp: link_defs)
  then have v1: "h1 a = Some \<lparr>ln_val = v, ln_next = first ps None, ln_prev = None\<rparr>"
    using relinked_same [OF 1(3), of a] d(1) by simp
  then obtain h2 where 2: "set_next a None h1 = Some h2" "relinked {a} h1 h2"
    using relinked_upd [OF relinked_refl, of h1 a _ "\<lparr>ln_val = v, ln_next = None, ln_prev = None\<rparr>" "{a}"]
    by (auto simp: set_next_def)
  have "dlist h2 (first ps None) (final ps None) ps"
    using 1(2) relinked_dseg [OF 2(2), of ps] d(1) by (auto simp: dlist_def)
  moreover have "relinked (set (a # ps)) h h2" using relinked_trans [OF 1(3) 2(2)] by simp
  moreover have "LIST_GET_HEAD he ta h = Some (Some a, first ps None, final ps None, h2)"
    using d v 1(1) 2(1) by (cases ps) (auto simp: LIST_GET_HEAD_def)
  ultimately show ?thesis by blast
qed

lemma get_head_empty: "dlist h he ta [] \<Longrightarrow> LIST_GET_HEAD he ta h = Some (None, None, None, h)"
  by (auto simp: LIST_GET_HEAD_def dlist_def)

text \<open>The stack macros use the \<open>next\<close> field only.\<close>

lemma stack_pop: "sseg h s (a # as) \<Longrightarrow> \<exists>s'. STACK_POP s h = Some (s', Some a) \<and> sseg h s' as"
  by (auto simp: STACK_POP_def split: option.splits)

lemma sseg_upd: "a \<notin> set as \<Longrightarrow> sseg (h(a := x)) s as = sseg h s as"
  by (induction as arbitrary: s) (auto split: option.splits)

lemma stack_push:
  assumes "sseg h s as" and "a \<notin> set as" and "h a = Some x"
  shows "\<exists>s' h'. STACK_PUSH s a h = Some (s', h') \<and> sseg h' s' (a # as) \<and> relinked {a} h h'"
proof -
  have "relinked {a} h (h(a \<mapsto> x\<lparr>ln_next := s\<rparr>))" using assms(3) by (intro relinked_upd [OF relinked_refl]) auto
  with assms show ?thesis by (simp add: STACK_PUSH_def set_next_def sseg_upd)
qed

end
