(* ===== verification/Table_Heap.thy ===== *)
theory Table_Heap
  imports Linked_Lists
begin

text \<open>
  The transaction table as the code lays it out in memory (\<^verbatim>\<open>system/txn_table.h\<close>,
  \<^verbatim>\<open>system/txn_table.cpp\<close>): nodes that come from \<open>TxnTablePool\<close>, linked into one list per
  bucket by the macros of \<open>Linked_Lists\<close>.  A node holds its manager, since no two nodes share one.
  \<open>None\<close> is the dereference of a null or freed pointer, a failed assertion or a walk that never ends;
  the lemmas show that none of them happens, and that the operations refine those of \<open>Txn_Table\<close>,
  where a bucket is a list and a pointer to a manager is its identifier.
\<close>

section \<open>Memory and operations\<close>

type_synonym txn_node = "TxnManager lnode"

record txn_memory =
  me_nodes :: "txn_node pool"
  me_head :: "u64 \<Rightarrow> addr option"
  me_tail :: "u64 \<Rightarrow> addr option"
  me_cnt :: "u64 \<Rightarrow> u64"
  me_min_ts :: "u64 \<Rightarrow> u64"
  me_free :: "u64 \<Rightarrow> TxnManager list"

definition memory_init :: txn_memory where
  \<comment> \<open>\<open>txn_table_pool.init(wl, 0)\<close> allocates no nodes\<close>
  "memory_init = \<lparr>me_nodes = empty_pool, me_head = (\<lambda>_. None), me_tail = (\<lambda>_. None), me_cnt = (\<lambda>_. 0),
     me_min_ts = (\<lambda>_. UINT64_MAX), me_free = (\<lambda>_. [])\<rparr>"

text \<open>The loop \<open>while (t_node != NULL)\<close> of both operations.\<close>

partial_function (option) find_node :: "u64 \<Rightarrow> u64 \<Rightarrow> TxnManager heap \<Rightarrow> addr option \<Rightarrow> addr option option" where
  "find_node txn_id batch_id h t_node =
     (if t_node = None then Some None
      else do {
        a \<leftarrow> t_node;
        n \<leftarrow> h a;
        if is_matching_txn_node txn_id batch_id (ln_val n) then Some t_node
        else find_node txn_id batch_id h (ln_next n) })"

definition man_get :: "env \<Rightarrow> u64 \<Rightarrow> (u64 \<Rightarrow> TxnManager list) \<Rightarrow> TxnManager \<times> (u64 \<Rightarrow> TxnManager list)" where
  "man_get e txn_id fr =
     (let pool_id = txn_id mod ucast (g_total_thread_cnt e)
      in case fr pool_id of
           [] \<Rightarrow> (TxnManager_init (new_TxnManager e), fr)
         | m # ms \<Rightarrow> (TxnManager_init m, fr(pool_id := ms)))"

definition man_put :: "env \<Rightarrow> u64 \<Rightarrow> TxnManager \<Rightarrow> (u64 \<Rightarrow> TxnManager list) \<Rightarrow> (u64 \<Rightarrow> TxnManager list)" where
  "man_put e txn_id m fr =
     (let pool_id = txn_id mod ucast (g_total_thread_cnt e)
      in fr(pool_id := fr pool_id @ [TxnManager_release e m]))"

text \<open>\<open>raw\<close> is the contents of newly allocated memory; the result is the address of the node.\<close>

definition memory_get :: "env \<Rightarrow> txn_node \<Rightarrow> u64 \<Rightarrow> u64 \<Rightarrow> txn_memory \<Rightarrow> (addr \<times> txn_memory) option" where
  "memory_get e raw txn_id batch_id t = do {
     let pool_id = txn_id mod pool_size e;
     found \<leftarrow> find_node txn_id batch_id (pl_heap (me_nodes t)) (me_head t pool_id);
     case found of
       Some a \<Rightarrow> Some (a, t)
     | None \<Rightarrow> do {
         let (a, nodes) = TxnTablePool_get e raw txn_id (me_nodes t);
         let (m, fr) = man_get e txn_id (me_free t);
         let m = m\<lparr>tm_txn_id := txn_id, tm_batch_id := batch_id, tm_propmsg := None\<rparr>;
         n \<leftarrow> pl_heap nodes a;
         let h = (pl_heap nodes)(a \<mapsto> n\<lparr>ln_val := m\<rparr>);
         (head, tail, h) \<leftarrow> LIST_PUT_TAIL (me_head t pool_id) (me_tail t pool_id) a h;
         Some (a, t\<lparr>me_nodes := nodes\<lparr>pl_heap := h\<rparr>, me_head := (me_head t)(pool_id := head),
           me_tail := (me_tail t)(pool_id := tail), me_cnt := (me_cnt t)(pool_id := me_cnt t pool_id + 1),
           me_free := fr\<rparr>) } }"

definition memory_release :: "env \<Rightarrow> (nat \<Rightarrow> bool) \<Rightarrow> u64 \<Rightarrow> u64 \<Rightarrow> txn_memory \<Rightarrow> txn_memory option" where
  "memory_release e ok txn_id batch_id t = do {
     let pool_id = txn_id mod pool_size e;
     found \<leftarrow> find_node txn_id batch_id (pl_heap (me_nodes t)) (me_head t pool_id);
     case found of
       None \<Rightarrow> Some t
     | Some a \<Rightarrow> do {
         (head, tail, h) \<leftarrow> LIST_REMOVE_HT a (me_head t pool_id) (me_tail t pool_id) (pl_heap (me_nodes t));
         n \<leftarrow> h a;
         Some (t\<lparr>me_nodes := TxnTablePool_put e ok txn_id a ((me_nodes t)\<lparr>pl_heap := h\<rparr>),
           me_head := (me_head t)(pool_id := head), me_tail := (me_tail t)(pool_id := tail),
           me_cnt := (me_cnt t)(pool_id := me_cnt t pool_id - 1),
           me_free := man_put e txn_id (ln_val n) (me_free t)\<rparr>) } }"

text \<open>A change of the manager through a pointer that \<open>memory_get\<close> has returned.\<close>

definition memory_write :: "addr \<Rightarrow> (TxnManager \<Rightarrow> TxnManager) \<Rightarrow> txn_memory \<Rightarrow> txn_memory" where
  "memory_write a f t = t\<lparr>me_nodes := on_object a (\<lambda>n. n\<lparr>ln_val := f (ln_val n)\<rparr>) (me_nodes t)\<rparr>"

definition update_min_ts :: "env \<Rightarrow> u64 \<Rightarrow> u64 \<Rightarrow> txn_memory \<Rightarrow> txn_memory" where
  "update_min_ts e txn_id ts t =
     (let pool_id = txn_id mod pool_size e
      in if ts < me_min_ts t pool_id then t\<lparr>me_min_ts := (me_min_ts t)(pool_id := ts)\<rparr> else t)"

definition get_min_ts :: "env \<Rightarrow> txn_memory \<Rightarrow> u64" where
  "get_min_ts e t =
     fold (\<lambda>i min_ts. if me_min_ts t i < min_ts then me_min_ts t i else min_ts)
       (map word_of_nat [0..<unat (pool_size e)]) UINT64_MAX"

section \<open>What the memory represents\<close>

definition buckets :: "txn_memory \<Rightarrow> (u64 \<Rightarrow> addr list) \<Rightarrow> bool" where
  "buckets t ps \<longleftrightarrow> pool_inv (me_nodes t) \<and>
     (\<forall>i. dlist (pl_heap (me_nodes t)) (me_head t i) (me_tail t i) (ps i)) \<and>
     (\<forall>i j. i \<noteq> j \<longrightarrow> set (ps i) \<inter> set (ps j) = {}) \<and>
     pool_held (me_nodes t) = (\<Union>i. set (ps i))"

definition table_rel :: "txn_memory \<Rightarrow> TxnTable \<Rightarrow> bool" where
  "table_rel t a \<longleftrightarrow> (\<exists>ps. buckets t ps \<and> (\<forall>i. vals (pl_heap (me_nodes t)) (ps i) = tt_list a i)) \<and>
     me_cnt t = tt_cnt a \<and> me_free t = tt_free a"

lemma table_rel_init: "table_rel memory_init TxnTable_init"
proof -
  have "buckets memory_init (\<lambda>_. [])"
    by (simp add: buckets_def memory_init_def empty_pool_def pool_inv_def pool_held_def queued_def dlist_def)
  then show ?thesis
    unfolding table_rel_def by (intro conjI exI [of _ "\<lambda>_. []"]) (simp_all add: memory_init_def TxnTable_init_def vals_def)
qed

lemma find_node_dseg:
  "dseg h p ps None \<Longrightarrow>
     find_node i b h (first ps None) = Some (find (\<lambda>a. is_matching_txn_node i b (ln_val (the (h a)))) ps)"
proof (induction ps arbitrary: p)
  case Nil
  show ?case by (simp add: find_node.simps)
next
  case (Cons a ps)
  then obtain v where v: "h a = Some \<lparr>ln_val = v, ln_next = first ps None, ln_prev = p\<rparr>" "dseg h (Some a) ps None"
    by (auto simp: dseg_Cons)
  show ?case using Cons.IH [OF v(2)] v(1) by (simp add: find_node.simps)
qed

lemma find_vals: "find P (vals h ps) = map_option (\<lambda>a. ln_val (the (h a))) (find (\<lambda>a. P (ln_val (the (h a)))) ps)"
  by (induction ps) (auto simp: vals_def)

lemma find_split: "find P xs = Some a \<Longrightarrow> \<exists>ys zs. xs = ys @ a # zs \<and> P a \<and> (\<forall>y \<in> set ys. \<not> P y)"
  by (induction xs) (auto split: if_splits, metis append_Nil empty_iff list.set(1), metis append_Cons set_ConsD)

lemma remove_first_split:
  "P a \<Longrightarrow> (\<forall>y \<in> set ys. \<not> P y) \<Longrightarrow> remove_first P (ys @ a # zs) = ys @ zs"
  by (induction ys) auto

lemma man_get_eq: "TxnManPool_get e i t = (let (m, fr) = man_get e i (tt_free t) in (m, t\<lparr>tt_free := fr\<rparr>))"
  by (simp add: TxnManPool_get_def man_get_def Let_def split: list.splits)

lemma man_put_eq: "TxnManPool_put e i m t = t\<lparr>tt_free := man_put e i m (tt_free t)\<rparr>"
  by (simp add: TxnManPool_put_def man_put_def Let_def)

lemma pool_get_heap:
  assumes "pool_inv p" and "pool_get raw f i p = (a, p')"
  shows "a \<in> dom (pl_heap p')" and "x \<noteq> a \<Longrightarrow> pl_heap p' x = pl_heap p x"
proof -
  have "a \<in> dom (pl_heap p') \<and> (x \<noteq> a \<longrightarrow> pl_heap p' x = pl_heap p x)"
  proof (cases "pl_queue p i")
    case Nil
    with assms show ?thesis by (auto simp: pool_get_def pool_alloc_def on_object_def)
  next
    case (Cons c cs)
    then have "c \<in> queued p" by (auto simp: queued_def intro: exI [of _ i])
    then have "c \<in> dom (pl_heap p)" using assms(1) by (auto simp: pool_inv_def)
    with Cons assms show ?thesis by (auto simp: pool_get_def on_object_def)
  qed
  then show "a \<in> dom (pl_heap p')" "x \<noteq> a \<Longrightarrow> pl_heap p' x = pl_heap p x" by auto
qed

lemma pool_put_heap: "x \<noteq> a \<Longrightarrow> pl_heap (pool_put f ok i a p) x = pl_heap p x"
  by (auto simp: pool_put_def pool_free_def on_object_def Let_def split: prod.splits)

lemma pool_same_dom:
  assumes "dom h = dom (pl_heap p)"
  shows "pool_inv (p\<lparr>pl_heap := h\<rparr>) = pool_inv p" "pool_held (p\<lparr>pl_heap := h\<rparr>) = pool_held p"
  using assms by (simp_all add: pool_inv_def pool_held_def queued_def)

lemma bucketsD:
  assumes "buckets t ps"
  shows "pool_inv (me_nodes t)" "dlist (pl_heap (me_nodes t)) (me_head t i) (me_tail t i) (ps i)"
    "i \<noteq> j \<Longrightarrow> set (ps i) \<inter> set (ps j) = {}" "pool_held (me_nodes t) = (\<Union>i. set (ps i))"
  using assms by (auto simp: buckets_def)

lemma find_node_buckets:
  assumes "buckets t ps"
  shows "find_node i b (pl_heap (me_nodes t)) (me_head t k) =
    Some (find (\<lambda>a. is_matching_txn_node i b (ln_val (the (pl_heap (me_nodes t) a)))) (ps k))"
  using find_node_dseg [of "pl_heap (me_nodes t)" None "ps k"] bucketsD(2) [OF assms, of k] by (simp add: dlist_def)

text \<open>The bucket \<open>k\<close> is replaced; the nodes of the others keep their contents.\<close>

lemma buckets_upd:
  assumes "buckets t ps" and "pool_inv nodes" and "dlist (pl_heap nodes) he ta qs"
    and "\<And>j x. j \<noteq> k \<Longrightarrow> x \<in> set (ps j) \<Longrightarrow> pl_heap nodes x = pl_heap (me_nodes t) x"
    and "\<And>j. j \<noteq> k \<Longrightarrow> set qs \<inter> set (ps j) = {}"
    and "pool_held nodes = (\<Union>j \<in> - {k}. set (ps j)) \<union> set qs"
  shows "buckets (t\<lparr>me_nodes := nodes, me_head := (me_head t)(k := he), me_tail := (me_tail t)(k := ta),
      me_cnt := c, me_free := fr\<rparr>) (ps(k := qs))" (is "buckets ?t ?ps")
  unfolding buckets_def
proof (intro conjI allI impI)
  fix j show "dlist (pl_heap (me_nodes ?t)) (me_head ?t j) (me_tail ?t j) (?ps j)"
  proof (cases "j = k")
    case False
    then show ?thesis using dlist_frame [OF assms(4) [OF False]] bucketsD(2) [OF assms(1), of j] by simp
  qed (simp add: assms(3))
next
  fix i j :: u64 assume "i \<noteq> j"
  then show "set (?ps i) \<inter> set (?ps j) = {}"
    using bucketsD(3) [OF assms(1), of i j] assms(5) [of i] assms(5) [of j] by (auto simp: fun_upd_def split: if_splits)
next
  show "pool_held (me_nodes ?t) = (\<Union>i. set (?ps i))" using assms(6) by (auto split: if_splits)
qed (simp add: assms(2))

lemma UN_split: "(\<Union>i. f i) = (\<Union>j \<in> - {k}. f j) \<union> f k"
  by auto

lemma memory_get_new:
  assumes b: "buckets t ps" and k: "k = i mod pool_size e"
    and nf: "find_node i b (pl_heap (me_nodes t)) (me_head t k) = Some None"
    and g: "man_get e i (me_free t) = (m, fr)"
  shows "\<exists>a t'. memory_get e raw i b t = Some (a, t') \<and> a \<notin> pool_held (me_nodes t) \<and> buckets t' (ps(k := ps k @ [a])) \<and>
    (\<forall>j. vals (pl_heap (me_nodes t')) (ps j) = vals (pl_heap (me_nodes t)) (ps j)) \<and>
    vals (pl_heap (me_nodes t')) [a] = [m\<lparr>tm_txn_id := i, tm_batch_id := b, tm_propmsg := None\<rparr>] \<and>
    me_cnt t' = (me_cnt t)(k := me_cnt t k + 1) \<and> me_free t' = fr"
proof -
  let ?H = "pl_heap (me_nodes t)" and ?m = "m\<lparr>tm_txn_id := i, tm_batch_id := b, tm_propmsg := None\<rparr>"
  obtain a nodes where get: "TxnTablePool_get e raw i (me_nodes t) = (a, nodes)" by force
  have inv: "pool_inv nodes" "a \<notin> pool_held (me_nodes t)" "pool_held nodes = insert a (pool_held (me_nodes t))"
    using pool_get_law [OF bucketsD(1) [OF b]] get by (metis TxnTablePool_get_def fst_conv snd_conv)+
  obtain n where n: "pl_heap nodes a = Some n"
    using pool_get_heap(1) [OF bucketsD(1) [OF b]] get by (metis TxnTablePool_get_def domD)
  have H: "x \<noteq> a \<Longrightarrow> pl_heap nodes x = ?H x" for x
    using pool_get_heap(2) [OF bucketsD(1) [OF b]] get by (metis TxnTablePool_get_def)
  have a: "a \<notin> set (ps j)" for j using inv(2) bucketsD(4) [OF b] by auto
  define h where "h = (pl_heap nodes)(a \<mapsto> n\<lparr>ln_val := ?m\<rparr>)"
  have h: "x \<in> set (ps j) \<Longrightarrow> h x = ?H x" for x j using H a [of j] by (auto simp: h_def)
  have "dlist h (me_head t k) (me_tail t k) (ps k)" using dlist_frame [of "ps k" h ?H] h bucketsD(2) [OF b] by blast
  with put_tail_dlist [of h _ _ "ps k" a] a obtain h' where
    h': "LIST_PUT_TAIL (me_head t k) (me_tail t k) a h = Some (first (ps k @ [a]) None, Some a, h')"
      "dlist h' (first (ps k @ [a]) None) (Some a) (ps k @ [a])" "relinked (insert a (set (ps k))) h h'"
    by (metis fun_upd_same h_def)
  have dom: "dom h' = dom (pl_heap nodes)" using h'(3) n by (auto simp: relinked_def h_def)
  let ?t = "t\<lparr>me_nodes := nodes\<lparr>pl_heap := h'\<rparr>, me_head := (me_head t)(k := first (ps k @ [a]) None),
      me_tail := (me_tail t)(k := Some a), me_cnt := (me_cnt t)(k := me_cnt t k + 1), me_free := fr\<rparr>"
  have e: "memory_get e raw i b t = Some (a, ?t)"
    using nf g get n h'(1) by (simp add: memory_get_def k h_def Let_def)
  have "buckets ?t (ps(k := ps k @ [a]))"
  proof (rule buckets_upd [OF b])
    fix j x assume j: "j \<noteq> k" "x \<in> set (ps j)"
    then have "x \<notin> insert a (set (ps k))" using a [of j] bucketsD(3) [OF b, of j k] by auto
    then show "pl_heap (nodes\<lparr>pl_heap := h'\<rparr>) x = ?H x" using relinked_same [OF h'(3)] h [OF j(2)] by simp
  next
    fix j assume "j \<noteq> k"
    then show "set (ps k @ [a]) \<inter> set (ps j) = {}" using a [of j] bucketsD(3) [OF b, of k j] by auto
  next
    show "pool_held (nodes\<lparr>pl_heap := h'\<rparr>) = (\<Union>j\<in>- {k}. set (ps j)) \<union> set (ps k @ [a])"
      unfolding pool_same_dom [OF dom] inv(3) bucketsD(4) [OF b] by auto
  qed (use inv(1) h'(2) in \<open>simp_all add: pool_same_dom [OF dom]\<close>)
  moreover have "vals h' (ps j) = vals ?H (ps j)" for j
  proof -
    have "set (ps j) \<subseteq> dom h" using dlist_dom [OF bucketsD(2) [OF b, of j]] h by (auto simp: subset_iff dom_def)
    then show ?thesis using relinked_vals [OF h'(3)] vals_frame [of "ps j" h ?H] h by simp
  qed
  moreover have "vals h' [a] = [?m]" using relinked_vals [OF h'(3), of "[a]"] by (simp add: vals_def h_def)
  ultimately show ?thesis using e inv(2) by auto
qed

lemma memory_release_node:
  assumes b: "buckets t ps" and k: "k = i mod pool_size e" and ok: "\<not> late_push ok"
    and nf: "find_node i b (pl_heap (me_nodes t)) (me_head t k) = Some (Some a)"
    and qs: "ps k = xs @ a # ys"
  shows "\<exists>t'. memory_release e ok i b t = Some t' \<and> buckets t' (ps(k := xs @ ys)) \<and>
    (\<forall>j. vals (pl_heap (me_nodes t')) ((ps(k := xs @ ys)) j) = vals (pl_heap (me_nodes t)) ((ps(k := xs @ ys)) j)) \<and>
    me_cnt t' = (me_cnt t)(k := me_cnt t k - 1) \<and>
    me_free t' = man_put e i (ln_val (the (pl_heap (me_nodes t) a))) (me_free t)"
proof -
  let ?H = "pl_heap (me_nodes t)" and ?ps = "ps(k := xs @ ys)"
  have dl: "dlist ?H (me_head t k) (me_tail t k) (xs @ a # ys)" using bucketsD(2) [OF b, of k] qs by simp
  then have d: "a \<notin> set (xs @ ys)" by (auto simp: dlist_def)
  from remove_dlist [OF dl] obtain h' where
    h': "LIST_REMOVE_HT a (me_head t k) (me_tail t k) ?H = Some (first (xs @ ys) None, final (xs @ ys) None, h')"
      "dlist h' (first (xs @ ys) None) (final (xs @ ys) None) (xs @ ys)" "relinked (set (xs @ ys)) ?H h'" by blast
  have dom: "dom h' = dom ?H" using h'(3) by (simp add: relinked_def)
  have held: "a \<in> pool_held (me_nodes t)" using bucketsD(4) [OF b] qs by (metis UN_iff UNIV_I in_set_conv_decomp)
  then obtain n where n: "?H a = Some n" "h' a = Some n" using relinked_same [OF h'(3) d] by (auto simp: pool_held_def)
  define nodes where "nodes = TxnTablePool_put e ok i a ((me_nodes t)\<lparr>pl_heap := h'\<rparr>)"
  have inv: "pool_inv nodes" "pool_held nodes = pool_held (me_nodes t) - {a}"
    using pool_put_law [of "(me_nodes t)\<lparr>pl_heap := h'\<rparr>" a ok] pool_same_dom [OF dom] held ok bucketsD(1) [OF b]
    by (simp_all add: nodes_def TxnTablePool_put_def)
  have N: "x \<noteq> a \<Longrightarrow> pl_heap nodes x = h' x" for x by (simp add: nodes_def TxnTablePool_put_def pool_put_heap)
  let ?t = "t\<lparr>me_nodes := nodes, me_head := (me_head t)(k := first (xs @ ys) None),
      me_tail := (me_tail t)(k := final (xs @ ys) None), me_cnt := (me_cnt t)(k := me_cnt t k - 1),
      me_free := man_put e i (ln_val n) (me_free t)\<rparr>"
  have e: "memory_release e ok i b t = Some ?t"
    using nf h'(1) n by (simp add: memory_release_def k nodes_def Let_def)
  have other: "pl_heap nodes x = ?H x" if "j \<noteq> k" "x \<in> set (ps j)" for j x
  proof -
    have "x \<noteq> a" "x \<notin> set (xs @ ys)" using bucketsD(3) [OF b that(1)] that(2) qs by auto
    then show ?thesis using N relinked_same [OF h'(3)] by simp
  qed
  have "buckets ?t ?ps"
  proof (rule buckets_upd [OF b inv(1)])
    show "dlist (pl_heap nodes) (first (xs @ ys) None) (final (xs @ ys) None) (xs @ ys)"
      using h'(2) dlist_frame [of "xs @ ys" "pl_heap nodes" h'] N d by metis
  next
    fix j assume "j \<noteq> k"
    then show "set (xs @ ys) \<inter> set (ps j) = {}" using bucketsD(3) [OF b, of k j] qs by auto
  next
    have "a \<notin> set (ps j)" if "j \<noteq> k" for j using bucketsD(3) [OF b that] qs by auto
    then have "a \<notin> (\<Union>j\<in>- {k}. set (ps j))" by blast
    then show "pool_held nodes = (\<Union>j\<in>- {k}. set (ps j)) \<union> set (xs @ ys)"
      unfolding inv(2) bucketsD(4) [OF b] UN_split [of "\<lambda>i. set (ps i)" k] using qs d by auto
  qed (rule other)
  moreover have "vals (pl_heap nodes) (?ps j) = vals ?H (?ps j)" for j
  proof (cases "j = k")
    case True
    have "vals (pl_heap nodes) (xs @ ys) = vals h' (xs @ ys)" using N d by (intro vals_frame) metis
    moreover have "set (xs @ ys) \<subseteq> dom ?H" using dlist_dom [OF dl] by auto
    ultimately show ?thesis using True relinked_vals [OF h'(3)] by simp
  qed (use other vals_frame in \<open>metis fun_upd_other\<close>)
  ultimately show ?thesis using e n by auto
qed

section \<open>Refinement\<close>

lemma vals_append [simp]: "vals h (xs @ ys) = vals h xs @ vals h ys" "vals h [] = []"
  by (simp_all add: vals_def)

lemma lookup_found:
  assumes "buckets t ps" and "\<And>i. vals (pl_heap (me_nodes t)) (ps i) = tt_list a i"
    and "find_node i b (pl_heap (me_nodes t)) (me_head t (i mod pool_size e)) = Some r"
  shows "tt_lookup e a i b = map_option (\<lambda>x. ln_val (the (pl_heap (me_nodes t) x))) r"
  using assms(3) find_node_buckets [OF assms(1), of i b "i mod pool_size e"]
    find_vals [of "is_matching_txn_node i b" "pl_heap (me_nodes t)" "ps (i mod pool_size e)"]
  by (simp add: tt_lookup_def assms(2))

theorem memory_get_refines:
  assumes "table_rel t a"
  shows "\<exists>x t'. memory_get e raw i b t = Some (x, t') \<and> table_rel t' (get_transaction_manager e i b a) \<and>
    find_node i b (pl_heap (me_nodes t')) (me_head t' (i mod pool_size e)) = Some (Some x)"
proof -
  obtain ps where b: "buckets t ps" and v: "\<And>i. vals (pl_heap (me_nodes t)) (ps i) = tt_list a i"
    and c: "me_cnt t = tt_cnt a" "me_free t = tt_free a" using assms by (auto simp: table_rel_def)
  let ?k = "i mod pool_size e"
  obtain r where r: "find_node i b (pl_heap (me_nodes t)) (me_head t ?k) = Some r" using find_node_buckets [OF b] by blast
  note l = lookup_found [OF b v r]
  show ?thesis
  proof (cases r)
    case (Some x)
    then show ?thesis using r l assms by (simp add: memory_get_def get_transaction_manager_def)
  next
    case None
    obtain m fr where g: "man_get e i (me_free t) = (m, fr)" by force
    from memory_get_new [OF b refl r [unfolded None] g] obtain x t' where
      t': "memory_get e raw i b t = Some (x, t')" "buckets t' (ps(?k := ps ?k @ [x]))"
        "\<And>j. vals (pl_heap (me_nodes t')) (ps j) = vals (pl_heap (me_nodes t)) (ps j)"
        "vals (pl_heap (me_nodes t')) [x] = [m\<lparr>tm_txn_id := i, tm_batch_id := b, tm_propmsg := None\<rparr>]"
        "me_cnt t' = (me_cnt t)(?k := me_cnt t ?k + 1)" "me_free t' = fr" by blast
    let ?a = "get_transaction_manager e i b a"
    have a: "?a = a\<lparr>tt_list := (tt_list a)(?k := tt_list a ?k @ [m\<lparr>tm_txn_id := i, tm_batch_id := b, tm_propmsg := None\<rparr>]),
        tt_cnt := (tt_cnt a)(?k := tt_cnt a ?k + 1), tt_free := fr\<rparr>"
      using l None g c(2) by (simp add: get_transaction_manager_def man_get_eq Let_def)
    have v': "vals (pl_heap (me_nodes t')) ((ps(?k := ps ?k @ [x])) j) = tt_list ?a j" for j
      using t'(3,4) v by (simp add: a)
    have "me_cnt t' = tt_cnt ?a" "me_free t' = tt_free ?a" using t'(5,6) c by (simp_all add: a)
    with v' t'(2) have "table_rel t' ?a" unfolding table_rel_def by blast
    moreover have "find_node i b (pl_heap (me_nodes t')) (me_head t' ?k) = Some (Some x)"
    proof -
      let ?P = "\<lambda>y. is_matching_txn_node i b (ln_val (the (pl_heap (me_nodes t') y)))"
      have "find (is_matching_txn_node i b) (vals (pl_heap (me_nodes t')) (ps ?k)) = None"
        using l None t'(3) v by (simp add: tt_lookup_def)
      then have "find ?P (ps ?k) = None" unfolding find_vals by simp
      moreover have "?P x" using t'(4) by (simp add: vals_def is_matching_txn_node_def)
      moreover have "find ?P zs = None \<Longrightarrow> ?P x \<Longrightarrow> find ?P (zs @ [x]) = Some x" for zs by (induction zs) (auto split: if_splits)
      ultimately show ?thesis using find_node_buckets [OF t'(2), of i b ?k] by simp
    qed
    ultimately show ?thesis using t'(1) by blast
  qed
qed

theorem memory_release_refines:
  assumes "table_rel t a" and "\<not> late_push ok"
  shows "\<exists>t'. memory_release e ok i b t = Some t' \<and> table_rel t' (release_transaction_manager e i b a)"
proof -
  obtain ps where b: "buckets t ps" and v: "\<And>i. vals (pl_heap (me_nodes t)) (ps i) = tt_list a i"
    and c: "me_cnt t = tt_cnt a" "me_free t = tt_free a" using assms(1) by (auto simp: table_rel_def)
  let ?k = "i mod pool_size e" and ?P = "\<lambda>y. is_matching_txn_node i b (ln_val (the (pl_heap (me_nodes t) y)))"
  obtain r where r: "find_node i b (pl_heap (me_nodes t)) (me_head t ?k) = Some r" using find_node_buckets [OF b] by blast
  note l = lookup_found [OF b v r]
  show ?thesis
  proof (cases r)
    case None
    then show ?thesis using r l assms by (simp add: memory_release_def release_transaction_manager_def)
  next
    case (Some x)
    have fx: "find ?P (ps ?k) = Some x" using find_node_buckets [OF b, of i b ?k] r Some by simp
    obtain xs ys where s: "ps ?k = xs @ x # ys" "?P x" "\<forall>y \<in> set xs. \<not> ?P y" using find_split [OF fx] by blast
    from memory_release_node [OF b refl assms(2) r [unfolded Some] s(1)] obtain t' where
      t': "memory_release e ok i b t = Some t'" "buckets t' (ps(?k := xs @ ys))"
        "\<And>j. vals (pl_heap (me_nodes t')) ((ps(?k := xs @ ys)) j) = vals (pl_heap (me_nodes t)) ((ps(?k := xs @ ys)) j)"
        "me_cnt t' = (me_cnt t)(?k := me_cnt t ?k - 1)"
        "me_free t' = man_put e i (ln_val (the (pl_heap (me_nodes t) x))) (me_free t)" by blast
    have rm: "remove_first (is_matching_txn_node i b) (tt_list a ?k) = vals (pl_heap (me_nodes t)) (xs @ ys)"
      using remove_first_split [of "is_matching_txn_node i b" "ln_val (the (pl_heap (me_nodes t) x))"
          "vals (pl_heap (me_nodes t)) xs" "vals (pl_heap (me_nodes t)) ys"] s v [of ?k]
      by (auto simp: vals_def)
    have a: "release_transaction_manager e i b a = a\<lparr>tt_list := (tt_list a)(?k := vals (pl_heap (me_nodes t)) (xs @ ys)),
        tt_cnt := (tt_cnt a)(?k := tt_cnt a ?k - 1),
        tt_free := man_put e i (ln_val (the (pl_heap (me_nodes t) x))) (tt_free a)\<rparr>"
      using l Some by (simp add: release_transaction_manager_def man_put_eq rm Let_def)
    have "vals (pl_heap (me_nodes t')) ((ps(?k := xs @ ys)) j) = ((tt_list a)(?k := vals (pl_heap (me_nodes t)) (xs @ ys))) j" for j
      unfolding t'(3) using v by simp
    then have "table_rel t' (release_transaction_manager e i b a)"
      unfolding table_rel_def a using t'(2,4,5) c by (intro conjI exI [of _ "ps(?k := xs @ ys)"]) simp_all
    with t'(1) show ?thesis by blast
  qed
qed

text \<open>
  A pointer that has been handed out stays valid: it is still the node of its manager after any
  other manager has been fetched or released, and writing through it is \<open>tt_update\<close>.
\<close>

definition points_to :: "env \<Rightarrow> txn_memory \<Rightarrow> u64 \<Rightarrow> u64 \<Rightarrow> addr \<Rightarrow> bool" where
  "points_to e t i b x \<longleftrightarrow> find_node i b (pl_heap (me_nodes t)) (me_head t (i mod pool_size e)) = Some (Some x)"

lemma points_to_buckets:
  assumes "buckets t ps"
  shows "points_to e t i b x \<longleftrightarrow>
    find (\<lambda>a. is_matching_txn_node i b (ln_val (the (pl_heap (me_nodes t) a)))) (ps (i mod pool_size e)) = Some x"
  by (simp add: points_to_def find_node_buckets [OF assms])

lemma find_cong_vals:
  assumes "vals h' ps = vals h ps"
  shows "find (\<lambda>a. P (ln_val (the (h' a)))) ps = find (\<lambda>a. P (ln_val (the (h a)))) ps"
  using assms by (intro find_cong) (auto simp: vals_def)

lemma memory_get_keeps:
  assumes "table_rel t a" and "points_to e t i b x" and "memory_get e raw j c t = Some (y, t')"
  shows "points_to e t' i b x"
proof -
  obtain ps where b: "buckets t ps" using assms(1) by (auto simp: table_rel_def)
  let ?k = "j mod pool_size e"
  obtain r where r: "find_node j c (pl_heap (me_nodes t)) (me_head t ?k) = Some r" using find_node_buckets [OF b] by blast
  show ?thesis
  proof (cases r)
    case (Some z)
    then have "t' = t" using r assms(3) by (simp add: memory_get_def Let_def)
    with assms(2) show ?thesis by simp
  next
    case None
    obtain m fr where g: "man_get e j (me_free t) = (m, fr)" by force
    from memory_get_new [OF b refl r [unfolded None] g, of raw] assms(3) have
      t': "buckets t' (ps(?k := ps ?k @ [y]))"
        "\<And>j. vals (pl_heap (me_nodes t')) (ps j) = vals (pl_heap (me_nodes t)) (ps j)" by auto
    have f: "find P xs = Some x \<Longrightarrow> find P (xs @ zs) = Some x" for P and xs zs :: "addr list"
      by (induction xs) (auto split: if_splits)
    have "find (\<lambda>a. is_matching_txn_node i b (ln_val (the (pl_heap (me_nodes t') a)))) (ps (i mod pool_size e)) = Some x"
      using assms(2) find_cong_vals [OF t'(2)] by (simp add: points_to_buckets [OF b])
    then show ?thesis by (auto simp: points_to_buckets [OF t'(1)] intro: f)
  qed
qed

lemma memory_release_keeps:
  assumes "table_rel t a" and "points_to e t i b x" and "\<not> late_push ok" and "(j, c) \<noteq> (i, b)"
    and "memory_release e ok j c t = Some t'"
  shows "points_to e t' i b x"
proof -
  obtain ps where b: "buckets t ps" using assms(1) by (auto simp: table_rel_def)
  let ?k = "j mod pool_size e" and ?P = "\<lambda>y. is_matching_txn_node j c (ln_val (the (pl_heap (me_nodes t) y)))"
    and ?Q = "\<lambda>t y. is_matching_txn_node i b (ln_val (the (pl_heap (me_nodes t) y)))"
  obtain r where r: "find_node j c (pl_heap (me_nodes t)) (me_head t ?k) = Some r" using find_node_buckets [OF b] by blast
  show ?thesis
  proof (cases r)
    case None
    then have "t' = t" using r assms(5) by (simp add: memory_release_def Let_def)
    with assms(2) show ?thesis by simp
  next
    case (Some z)
    have fz: "find ?P (ps ?k) = Some z" using find_node_buckets [OF b, of j c ?k] r Some by simp
    obtain xs ys where s: "ps ?k = xs @ z # ys" "?P z" using find_split [OF fz] by blast
    from memory_release_node [OF b refl assms(3) r [unfolded Some] s(1)] assms(5) have
      t': "buckets t' (ps(?k := xs @ ys))"
        "\<And>j. vals (pl_heap (me_nodes t')) ((ps(?k := xs @ ys)) j) = vals (pl_heap (me_nodes t)) ((ps(?k := xs @ ys)) j)" by auto
    have f: "\<not> P z \<Longrightarrow> find P (us @ z # vs) = find P (us @ vs)" for P and us vs by (induction us) auto
    have "\<not> ?Q t z" using s(2) assms(4) by (auto simp: is_matching_txn_node_def)
    then have "find (?Q t) ((ps(?k := xs @ ys)) (i mod pool_size e)) = Some x"
      using assms(2) f [of "?Q t" xs ys] s(1) by (auto simp: points_to_buckets [OF b])
    then show ?thesis using find_cong_vals [OF t'(2)] by (simp add: points_to_buckets [OF t'(1)])
  qed
qed

lemma memory_write_refines:
  assumes "table_rel t a" and "tt_inv e a" and "points_to e t i b x"
  shows "table_rel (memory_write x f t) (tt_update e i b f a)"
proof -
  obtain ps where b: "buckets t ps" and v: "\<And>i. vals (pl_heap (me_nodes t)) (ps i) = tt_list a i"
    and c: "me_cnt t = tt_cnt a" "me_free t = tt_free a" using assms(1) by (auto simp: table_rel_def)
  let ?t = "memory_write x f t" and ?k = "i mod pool_size e" and ?H = "pl_heap (me_nodes t)"
  let ?H' = "pl_heap (me_nodes ?t)" and ?P = "\<lambda>y. is_matching_txn_node i b (ln_val (the (?H y)))"
  have H': "?H' y = (if y = x then map_option (\<lambda>n. n\<lparr>ln_val := f (ln_val n)\<rparr>) (?H x) else ?H y)" for y
    by (simp add: memory_write_def on_object_def)
  have dom: "dom ?H' = dom ?H" by (auto simp: H' split: if_splits)
  have seg: "dseg ?H p qs n \<Longrightarrow> dseg ?H' p qs n" for p qs n
    by (induction qs arbitrary: p) (auto simp: dseg_Cons H')
  have nodes: "me_nodes ?t = (me_nodes t)\<lparr>pl_heap := ?H'\<rparr>" by (simp add: memory_write_def on_object_def)
  have "pool_inv (me_nodes ?t)" "pool_held (me_nodes ?t) = pool_held (me_nodes t)"
    using pool_same_dom [OF dom] bucketsD(1) [OF b] nodes by simp_all
  then have b': "buckets ?t ps"
    using b seg unfolding buckets_def dlist_def by (simp add: memory_write_def)
  have fx: "find ?P (ps ?k) = Some x" using assms(3) by (simp add: points_to_buckets [OF b])
  obtain xs ys where s: "ps ?k = xs @ x # ys" "?P x" using find_split [OF fx] by blast
  have x: "x \<in> dom ?H" using dlist_dom [OF bucketsD(2) [OF b, of ?k]] s(1) by auto
  have d: "distinct (map (\<lambda>m. (tm_txn_id m, tm_batch_id m)) (vals ?H (ps ?k)))" using assms(2) v by (simp add: tt_inv_def)
  have u: "y = x" if y: "y \<in> set (ps ?k)" "?P y" for y
  proof -
    have "inj_on (\<lambda>z. (tm_txn_id (ln_val (the (?H z))), tm_batch_id (ln_val (the (?H z))))) (set (ps ?k))"
      using d by (simp add: vals_def distinct_map comp_def)
    moreover have "x \<in> set (ps ?k)" using s(1) by simp
    ultimately show ?thesis using y s(2) unfolding inj_on_def is_matching_txn_node_def by simp
  qed
  have "vals ?H' (ps ?k) = map (\<lambda>m. if is_matching_txn_node i b m then f m else m) (vals ?H (ps ?k))"
    unfolding vals_def map_map
  proof (rule map_cong [OF refl])
    fix y assume y: "y \<in> set (ps ?k)"
    show "ln_val (the (?H' y)) =
        ((\<lambda>m. if is_matching_txn_node i b m then f m else m) \<circ> (\<lambda>a. ln_val (the (?H a)))) y"
    proof (cases "y = x")
      case True
      then show ?thesis using s(2) x by (auto simp: H')
    next
      case False
      then show ?thesis using u [OF y] by (auto simp: H')
    qed
  qed
  moreover have "vals ?H' (ps j) = vals ?H (ps j)" if "j \<noteq> ?k" for j
    using bucketsD(3) [OF b that] s(1) by (intro vals_frame) (auto simp: H')
  ultimately have v': "vals ?H' (ps j) = tt_list (tt_update e i b f a) j" for j
    using v by (auto simp: tt_update_def)
  moreover have "me_cnt ?t = tt_cnt (tt_update e i b f a)" "me_free ?t = tt_free (tt_update e i b f a)"
    using c by (simp_all add: memory_write_def tt_update_def)
  ultimately show ?thesis using b' unfolding table_rel_def by blast
qed

section \<open>Releasing the table\<close>

text \<open>\<open>int txn_id\<close> truncates the identifier, which is extended again where it is used.\<close>

definition int_txn_id :: "u64 \<Rightarrow> u64" where
  "int_txn_id i = scast (ucast i :: 32 word)"

partial_function (option) free_list :: "env \<Rightarrow> (nat \<Rightarrow> bool) \<Rightarrow> addr option \<Rightarrow> txn_memory \<Rightarrow> txn_memory option" where
  "free_list e ok t_node t =
     (if t_node = None then Some t
      else do {
        a \<leftarrow> t_node;
        n \<leftarrow> pl_heap (me_nodes t) a;
        let txn_id = int_txn_id (tm_txn_id (ln_val n));
        free_list e ok (ln_next n)
          (t\<lparr>me_free := man_put e txn_id (ln_val n) (me_free t),
             me_nodes := TxnTablePool_put e ok txn_id a (me_nodes t)\<rparr>) })"

definition free_bucket :: "env \<Rightarrow> (nat \<Rightarrow> bool) \<Rightarrow> u64 \<Rightarrow> txn_memory \<Rightarrow> txn_memory option" where
  "free_bucket e ok i t = do {
     t \<leftarrow> free_list e ok (me_head t i) t;
     Some (t\<lparr>me_head := (me_head t)(i := None), me_tail := (me_tail t)(i := None)\<rparr>) }"

definition memory_free :: "env \<Rightarrow> (nat \<Rightarrow> bool) \<Rightarrow> txn_memory \<Rightarrow> txn_memory option" where
  \<comment> \<open>the lists, then \<open>txn_man_pool.release()\<close> and \<open>txn_table_pool.release()\<close>\<close>
  "memory_free e ok t = do {
     t \<leftarrow> fold_option (free_bucket e ok) (map word_of_nat [0..<unat (pool_size e)]) t;
     Some (t\<lparr>me_free := (\<lambda>i. if i \<in> set (thread_ids e) then [] else me_free t i),
             me_nodes := TxnTablePool_free_all e (me_nodes t)\<rparr>) }"

lemma free_list_dseg:
  assumes "\<not> late_push ok"
  shows "dseg (pl_heap (me_nodes t)) p qs None \<Longrightarrow> distinct qs \<Longrightarrow> set qs \<subseteq> pool_held (me_nodes t) \<Longrightarrow> pool_inv (me_nodes t) \<Longrightarrow>
    \<exists>t'. free_list e ok (first qs None) t = Some t' \<and> pool_inv (me_nodes t') \<and>
      pool_held (me_nodes t') = pool_held (me_nodes t) - set qs \<and>
      (\<forall>x. x \<notin> set qs \<longrightarrow> pl_heap (me_nodes t') x = pl_heap (me_nodes t) x) \<and> me_head t' = me_head t \<and> me_tail t' = me_tail t"
proof (induction qs arbitrary: t p)
  case Nil
  then show ?case by (simp add: free_list.simps)
next
  case (Cons a qs)
  obtain v where v: "pl_heap (me_nodes t) a = Some \<lparr>ln_val = v, ln_next = first qs None, ln_prev = p\<rparr>"
      "dseg (pl_heap (me_nodes t)) (Some a) qs None" using Cons.prems(1) by (auto simp: dseg_Cons)
  let ?i = "int_txn_id (tm_txn_id v)"
  let ?t = "t\<lparr>me_free := man_put e ?i v (me_free t), me_nodes := TxnTablePool_put e ok ?i a (me_nodes t)\<rparr>"
  have p: "pool_inv (me_nodes ?t)" "pool_held (me_nodes ?t) = pool_held (me_nodes t) - {a}"
    using pool_put_law [OF Cons.prems(4) _ assms, of a] Cons.prems(3) by (simp_all add: TxnTablePool_put_def)
  have h: "x \<noteq> a \<Longrightarrow> pl_heap (me_nodes ?t) x = pl_heap (me_nodes t) x" for x
    by (simp add: TxnTablePool_put_def pool_put_heap)
  have "dseg (pl_heap (me_nodes ?t)) (Some a) qs None"
    using v(2) dseg_frame [of qs "pl_heap (me_nodes ?t)" "pl_heap (me_nodes t)"] h Cons.prems(2) by (metis distinct.simps(2))
  from Cons.IH [OF this] Cons.prems(2,3) p obtain t' where t': "free_list e ok (first qs None) ?t = Some t'"
      "pool_inv (me_nodes t')" "pool_held (me_nodes t') = pool_held (me_nodes ?t) - set qs"
      "\<forall>x. x \<notin> set qs \<longrightarrow> pl_heap (me_nodes t') x = pl_heap (me_nodes ?t) x" "me_head t' = me_head ?t" "me_tail t' = me_tail ?t"
    by auto
  have "free_list e ok (first (a # qs) None) t = Some t'"
    using v(1) t'(1) by (subst free_list.simps) (simp add: Let_def)
  moreover have "pool_held (me_nodes t') = pool_held (me_nodes t) - set (a # qs)" unfolding t'(3) p(2) by auto
  ultimately show ?case using t'(2,4,5,6) h by auto
qed

lemma free_bucket_buckets:
  assumes "buckets t ps" and "\<not> late_push ok"
  shows "\<exists>t'. free_bucket e ok k t = Some t' \<and> buckets t' (ps(k := []))"
proof -
  have "dseg (pl_heap (me_nodes t)) None (ps k) None" "distinct (ps k)" "me_head t k = first (ps k) None"
    "set (ps k) \<subseteq> pool_held (me_nodes t)"
    using bucketsD(2) [OF assms(1), of k] bucketsD(4) [OF assms(1)] by (auto simp: dlist_def)
  with free_list_dseg [OF assms(2) this(1,2,4) bucketsD(1) [OF assms(1)], of e] obtain t' where
    t': "free_list e ok (me_head t k) t = Some t'" "pool_inv (me_nodes t')"
      "pool_held (me_nodes t') = pool_held (me_nodes t) - set (ps k)"
      "\<And>x. x \<notin> set (ps k) \<Longrightarrow> pl_heap (me_nodes t') x = pl_heap (me_nodes t) x" "me_head t' = me_head t" "me_tail t' = me_tail t"
    by auto
  let ?t = "t\<lparr>me_nodes := me_nodes t', me_head := (me_head t)(k := None), me_tail := (me_tail t)(k := None),
      me_cnt := me_cnt t', me_free := me_free t'\<rparr>"
  have "buckets ?t (ps(k := []))"
  proof (rule buckets_upd [OF assms(1) t'(2)])
    fix j x assume "j \<noteq> k" "x \<in> set (ps j)"
    then show "pl_heap (me_nodes t') x = pl_heap (me_nodes t) x" using t'(4) bucketsD(3) [OF assms(1), of j k] by blast
  next
    show "pool_held (me_nodes t') = (\<Union>j\<in>- {k}. set (ps j)) \<union> set []"
      unfolding t'(3) bucketsD(4) [OF assms(1)] UN_split [of "\<lambda>i. set (ps i)" k]
      using bucketsD(3) [OF assms(1), of _ k] by fastforce
  qed (simp_all add: dlist_def)
  then have "buckets (t'\<lparr>me_head := (me_head t')(k := None), me_tail := (me_tail t')(k := None)\<rparr>) (ps(k := []))"
    by (simp add: buckets_def t'(5,6))
  then show ?thesis using t'(1) by (auto simp: free_bucket_def)
qed

lemma free_buckets:
  assumes "\<not> late_push ok"
  shows "buckets t ps \<Longrightarrow> \<exists>t'. fold_option (free_bucket e ok) is t = Some t' \<and> buckets t' (\<lambda>i. if i \<in> set is then [] else ps i)"
proof (induction "is" arbitrary: t ps)
  case (Cons k "is")
  obtain t1 where t1: "free_bucket e ok k t = Some t1" "buckets t1 (ps(k := []))"
    using free_bucket_buckets [OF Cons.prems assms] by blast
  from Cons.IH [OF t1(2)] obtain t' where
    "fold_option (free_bucket e ok) is t1 = Some t'" "buckets t' (\<lambda>i. if i \<in> set is then [] else (ps(k := [])) i)" by blast
  moreover have "(\<lambda>i. if i \<in> set is then [] else (ps(k := [])) i) = (\<lambda>i. if i \<in> set (k # is) then [] else ps i)" by auto
  ultimately show ?case using t1(1) by auto
qed simp

lemma bucket_index:
  assumes "pool_size e \<noteq> 0"
  shows "i mod pool_size e \<in> set (map word_of_nat [0..<unat (pool_size e)])"
proof -
  have "unat (i mod pool_size e) < unat (pool_size e)" using assms by (simp add: unat_mod unat_gt_0)
  then have "unat (i mod pool_size e) \<in> set [0..<unat (pool_size e)]" by simp
  then have "word_of_nat (unat (i mod pool_size e)) \<in> (word_of_nat :: nat \<Rightarrow> u64) ` set [0..<unat (pool_size e)]" by (rule imageI)
  then show ?thesis by simp
qed

text \<open>\<open>TxnTable::free\<close> gives every node back to its pool.\<close>

lemma memory_free_all:
  assumes "table_rel t a" and "tt_inv e a" and "\<not> late_push ok" and "pool_size e \<noteq> 0"
  shows "\<exists>t'. memory_free e ok t = Some t' \<and> pool_held (me_nodes t') = {}"
proof -
  obtain ps where b: "buckets t ps" and v: "\<And>i. vals (pl_heap (me_nodes t)) (ps i) = tt_list a i"
    using assms(1) by (auto simp: table_rel_def)
  let ?is = "map word_of_nat [0..<unat (pool_size e)] :: u64 list"
  obtain t' where t': "fold_option (free_bucket e ok) ?is t = Some t'" "buckets t' (\<lambda>i. if i \<in> set ?is then [] else ps i)"
    using free_buckets [OF assms(3) b, of e ?is] by auto
  have "ps i = []" if "i \<notin> set ?is" for i
  proof (rule ccontr)
    assume "ps i \<noteq> []"
    then have "tt_list a i \<noteq> []" using v [of i] by (auto simp: vals_def)
    then obtain m where "m \<in> set (tt_list a i)" by (cases "tt_list a i") auto
    then have "i = tm_txn_id m mod pool_size e" using assms(2) by (auto simp: tt_inv_def)
    then show False using that bucket_index [OF assms(4)] by simp
  qed
  then have "(\<lambda>i. if i \<in> set ?is then [] else ps i) = (\<lambda>_. [])" by auto
  then have "buckets t' (\<lambda>_. [])" using t'(2) by simp
  then have "pool_held (me_nodes t') = {}" using bucketsD(4) by fastforce
  then show ?thesis using t'(1) by (simp add: memory_free_def TxnTablePool_free_all_def pool_free_all_held)
qed

section \<open>Minimal timestamps\<close>

lemma le_fold_min:
  fixes f :: "'i \<Rightarrow> 'a :: linorder"
  shows "x \<le> fold (\<lambda>i m. if f i < m then f i else m) is z \<longleftrightarrow> x \<le> z \<and> (\<forall>i \<in> set is. x \<le> f i)"
  by (induction "is" arbitrary: z) auto

lemma le_get_min_ts:
  "x \<le> get_min_ts e t \<longleftrightarrow> (\<forall>i \<in> set (map word_of_nat [0..<unat (pool_size e)]). x \<le> me_min_ts t i)"
  unfolding get_min_ts_def le_fold_min by (simp only: word_n1_ge simp_thms)

lemma ball_min_upd:
  fixes ts :: "'a :: linorder"
  assumes "k \<in> I"
  shows "(\<forall>j \<in> I. x \<le> (if j = k then min ts (f k) else f j)) \<longleftrightarrow> x \<le> ts \<and> (\<forall>j \<in> I. x \<le> f j)"
  using assms by auto

lemma get_min_ts_update:
  assumes "pool_size e \<noteq> 0"
  shows "get_min_ts e (update_min_ts e i ts t) = min ts (get_min_ts e t)"
proof -
  let ?k = "i mod pool_size e"
  have m: "me_min_ts (update_min_ts e i ts t) j = (if j = ?k then min ts (me_min_ts t ?k) else me_min_ts t j)" for j
    by (auto simp: update_min_ts_def Let_def min_def)
  have all: "x \<le> get_min_ts e (update_min_ts e i ts t) \<longleftrightarrow> x \<le> ts \<and> x \<le> get_min_ts e t" for x
    unfolding le_get_min_ts m by (rule ball_min_upd [OF bucket_index [OF assms]])
  show ?thesis
  proof (rule order_antisym)
    show "get_min_ts e (update_min_ts e i ts t) \<le> min ts (get_min_ts e t)"
      unfolding min.bounded_iff by (rule all [THEN iffD1, OF order_refl])
    show "min ts (get_min_ts e t) \<le> get_min_ts e (update_min_ts e i ts t)"
      by (rule all [THEN iffD2]) (intro conjI min.cobounded1 min.cobounded2)
  qed
qed

section \<open>Histories\<close>

text \<open>
  What the worker threads do to the table, one operation after the other (each runs under the lock
  of its bucket): fetch a manager, release one, or change one through a pointer to it.
\<close>

datatype table_op =
    Fetch u64 u64
  | Release u64 u64
  | Change u64 u64 "TxnManager \<Rightarrow> TxnManager"

fun memory_op :: "env \<Rightarrow> txn_node \<Rightarrow> (nat \<Rightarrow> bool) \<Rightarrow> table_op \<Rightarrow> txn_memory \<Rightarrow> txn_memory option" where
  "memory_op e raw ok (Fetch i b) t = map_option snd (memory_get e raw i b t)"
| "memory_op e raw ok (Release i b) t = memory_release e ok i b t"
| "memory_op e raw ok (Change i b f) t = do {
     (x, t) \<leftarrow> memory_get e raw i b t;
     Some (memory_write x f t) }"

fun apply_op :: "env \<Rightarrow> table_op \<Rightarrow> TxnTable \<Rightarrow> TxnTable" where
  "apply_op e (Fetch i b) a = get_transaction_manager e i b a"
| "apply_op e (Release i b) a = release_transaction_manager e i b a"
| "apply_op e (Change i b f) a = tt_update e i b f (get_transaction_manager e i b a)"

fun keeps_op :: "table_op \<Rightarrow> bool" where
  "keeps_op (Change i b f) \<longleftrightarrow> keeps_ids f"
| "keeps_op _ \<longleftrightarrow> True"

lemma memory_op_refines:
  assumes "table_rel t a" and "tt_inv e a" and "\<not> late_push ok"
  shows "\<exists>t'. memory_op e raw ok op t = Some t' \<and> table_rel t' (apply_op e op a)"
proof (cases op)
  case (Fetch i b)
  then show ?thesis using memory_get_refines [OF assms(1), of e raw i b] by auto
next
  case (Release i b)
  then show ?thesis using memory_release_refines [OF assms(1,3)] by simp
next
  case (Change i b f)
  obtain x t' where t': "memory_get e raw i b t = Some (x, t')" "table_rel t' (get_transaction_manager e i b a)"
      "points_to e t' i b x"
    using memory_get_refines [OF assms(1), of e raw i b] by (auto simp: points_to_def)
  then show ?thesis
    using memory_write_refines [OF t'(2) get_inv [OF assms(2)] t'(3), of f] Change by simp
qed

lemma apply_op_inv: "tt_inv e a \<Longrightarrow> keeps_op op \<Longrightarrow> tt_inv e (apply_op e op a)"
  by (cases op) (auto simp: get_inv release_inv update_inv keeps_ids_def)

lemma tt_inv_init: "tt_inv e TxnTable_init"
  by (simp add: tt_inv_def TxnTable_init_def)

lemma history_refines:
  assumes "\<not> late_push ok"
  shows "table_rel t a \<Longrightarrow> tt_inv e a \<Longrightarrow> (\<forall>op \<in> set ops. keeps_op op) \<Longrightarrow>
    \<exists>t'. fold_option (memory_op e raw ok) ops t = Some t' \<and> table_rel t' (fold (apply_op e) ops a) \<and>
      tt_inv e (fold (apply_op e) ops a)"
proof (induction ops arbitrary: t a)
  case (Cons op ops)
  obtain t1 where t1: "memory_op e raw ok op t = Some t1" "table_rel t1 (apply_op e op a)"
    using memory_op_refines [OF Cons.prems(1,2) assms] by blast
  have "tt_inv e (apply_op e op a)" using apply_op_inv Cons.prems(2,3) by simp
  from Cons.IH [OF t1(2) this] t1(1) Cons.prems(3) show ?case by simp
qed simp

end
