(* ===== verification/Stats.thy ===== *)
theory Stats
  imports Global_Config Stats_Array
begin

text \<open>
  The statistics of the threads (\<^verbatim>\<open>statistics/stats.cpp\<close>, \<^verbatim>\<open>statistics/stats.h\<close>):
  clearing, updating and summing up the counters, and the throughput of an interval.  The fields of
  \<open>Stats_thd\<close> are entries of two maps, the \<open>uint64_t\<close> counters and the times of type \<open>double\<close>, under
  their names in the code.  Nothing is assumed of the addition and the order of doubles: they belong
  to any type with these operations.  The printing of the report is left out, and
  \<open>TIME_PROF_ENABLE\<close> is off.
\<close>

section \<open>The statistics of a thread\<close>

record 'd Stats_thd =
  st_cnt :: "string \<Rightarrow> u64"
  st_time :: "string \<Rightarrow> 'd"
  st_total_runtime :: 'd
  st_cnt_by_type :: "u64 list"
  st_time_by_type :: "'d list"
  st_client_client_latency :: StatsArr

text \<open>The fields that \<open>clear\<close> and \<open>combine\<close> name, in their order.\<close>

definition counter_names :: "string list" where
  "counter_names = [
    ''txn_cnt'', ''cross_shard_txn_cnt'', ''previous_interval_txn_cnt'',
    ''previous_interval_cross_shard_txn_cnt'', ''remote_txn_cnt'', ''local_txn_cnt'', ''local_txn_start_cnt'',
    ''total_txn_commit_cnt'', ''local_txn_commit_cnt'', ''remote_txn_commit_cnt'', ''total_txn_abort_cnt'',
    ''unique_txn_abort_cnt'', ''local_txn_abort_cnt'', ''remote_txn_abort_cnt'', ''multi_part_txn_cnt'',
    ''single_part_txn_cnt'', ''txn_write_cnt'', ''record_write_cnt'', ''parts_touched'', ''txn_sent_cnt'',
    ''work_queue_cnt'', ''work_queue_enq_cnt'', ''work_queue_new_cnt'', ''work_queue_old_cnt'',
    ''work_queue_conflict_cnt'', ''worker_process_cnt'', ''msg_queue_cnt'', ''msg_queue_enq_cnt'',
    ''msg_batch_cnt'', ''msg_batch_size_msgs'', ''msg_batch_size_bytes'', ''msg_batch_size_bytes_to_server'',
    ''msg_batch_size_bytes_to_client'', ''msg_send_cnt'', ''msg_recv_cnt'', ''txn_table_new_cnt'',
    ''txn_table_get_cnt'', ''txn_table_release_cnt'', ''txn_table_cflt_cnt'', ''txn_table_cflt_size'']"

definition time_names :: "string list" where
  "time_names = [
    ''txn_run_time'', ''cross_txn_run_time'', ''multi_part_txn_run_time'', ''single_part_txn_run_time'',
    ''ts_alloc_time'', ''abort_time'', ''txn_manager_time'', ''txn_index_time'', ''txn_validate_time'',
    ''txn_cleanup_time'', ''txn_total_process_time'', ''txn_process_time'', ''txn_total_local_wait_time'',
    ''txn_local_wait_time'', ''txn_total_remote_wait_time'', ''txn_remote_wait_time'', ''cl_send_intv'',
    ''work_queue_wait_time'', ''work_queue_mtx_wait_time'', ''work_queue_new_wait_time'',
    ''work_queue_old_wait_time'', ''work_queue_enqueue_time'', ''work_queue_dequeue_time'',
    ''worker_idle_time'', ''worker_activate_txn_time'', ''worker_deactivate_txn_time'',
    ''worker_release_msg_time'', ''worker_process_time'', ''msg_queue_delay_time'', ''msg_send_time'',
    ''msg_recv_time'', ''msg_recv_idle_time'', ''msg_unpack_time'', ''mbuf_send_intv_time'',
    ''msg_copy_output_time'', ''txn_table_get_time'', ''txn_table_release_time'', ''txn_table_min_ts_time'',
    ''lat_work_queue_time'', ''lat_msg_queue_time'', ''lat_cc_block_time'', ''lat_cc_time'',
    ''lat_process_time'', ''lat_abort_time'', ''lat_network_time'', ''lat_other_time'',
    ''lat_l_loc_work_queue_time'', ''lat_l_loc_msg_queue_time'', ''lat_l_loc_cc_block_time'',
    ''lat_l_loc_cc_time'', ''lat_l_loc_process_time'', ''lat_l_loc_abort_time'', ''lat_short_work_queue_time'',
    ''lat_short_msg_queue_time'', ''lat_short_cc_block_time'', ''lat_short_cc_time'',
    ''lat_short_process_time'', ''lat_short_network_time'', ''lat_short_batch_time'',
    ''lat_s_loc_work_queue_time'', ''lat_s_loc_msg_queue_time'', ''lat_s_loc_cc_block_time'',
    ''lat_s_loc_cc_time'', ''lat_s_loc_process_time'', ''lat_l_rem_work_queue_time'',
    ''lat_l_rem_msg_queue_time'', ''lat_l_rem_cc_block_time'', ''lat_l_rem_cc_time'',
    ''lat_l_rem_process_time'', ''lat_s_rem_work_queue_time'', ''lat_s_rem_msg_queue_time'',
    ''lat_s_rem_cc_block_time'', ''lat_s_rem_cc_time'', ''lat_s_rem_process_time'']"

definition Stats_thd_clear :: "('d :: zero) Stats_thd \<Rightarrow> 'd Stats_thd" where
  "Stats_thd_clear s = s\<lparr>
     st_total_runtime := 0,
     st_cnt := (\<lambda>n. if n \<in> set counter_names then 0 else st_cnt s n),
     st_time := (\<lambda>n. if n \<in> set time_names then 0 else st_time s n),
     st_cnt_by_type := map (\<lambda>_. 0) (st_cnt_by_type s),
     st_time_by_type := map (\<lambda>_. 0) (st_time_by_type s),
     st_client_client_latency := StatsArr_clear (st_client_client_latency s)\<rparr>"

text \<open>\<open>raw\<close> is what the memory of the object holds; \<open>NO_MSG\<close> is the number of entries of the arrays.\<close>

definition Stats_thd_init :: "u64 \<Rightarrow> ('d :: zero) Stats_thd \<Rightarrow> 'd Stats_thd" where
  "Stats_thd_init max_txn_per_part raw = Stats_thd_clear (raw\<lparr>
     st_cnt_by_type := replicate (unat (rtype_code NO_MSG)) 0,
     st_time_by_type := replicate (unat (rtype_code NO_MSG)) 0,
     st_client_client_latency := StatsArr_init max_txn_per_part ArrIncr\<rparr>)"

definition Stats_thd_combine :: "('d :: {plus, ord}) Stats_thd \<Rightarrow> 'd Stats_thd \<Rightarrow> 'd Stats_thd option" where
  "Stats_thd_combine stats s = do {
     lat \<leftarrow> StatsArr_append (st_client_client_latency stats) (st_client_client_latency s);
     Some (s\<lparr>
       st_total_runtime := (if st_total_runtime s < st_total_runtime stats then st_total_runtime stats else st_total_runtime s),
       st_client_client_latency := lat,
       st_cnt := (\<lambda>n. if n \<in> set counter_names then st_cnt s n + st_cnt stats n else st_cnt s n),
       st_time := (\<lambda>n. if n \<in> set time_names then st_time s n + st_time stats n else st_time s n),
       st_cnt_by_type := map2 (+) (st_cnt_by_type s) (st_cnt_by_type stats),
       st_time_by_type := map2 (+) (st_time_by_type s) (st_time_by_type stats)\<rparr>) }"

section \<open>The statistics of the process\<close>

record 'd Stats =
  ss_stats :: "'d Stats_thd list"
  ss_totals :: "'d Stats_thd"
  ss_idle_worker_times :: "u64 \<Rightarrow> 'd"
  ss_client_batch_msg_size :: u64
  ss_checkpoint_msg_size :: u64
  ss_client_response_msg_size :: u64

definition Stats_init :: "u64 \<Rightarrow> u64 \<Rightarrow> ('d :: zero) Stats_thd \<Rightarrow> 'd Stats \<Rightarrow> 'd Stats" where
  "Stats_init max_txn_per_part thread_cnt raw st = st\<lparr>
     ss_stats := replicate (unat thread_cnt) (Stats_thd_clear (Stats_thd_init max_txn_per_part raw)),
     ss_totals := Stats_thd_clear (Stats_thd_init max_txn_per_part raw)\<rparr>"

text \<open>\<open>INC_STATS\<close> and \<open>SET_STATS\<close> on a counter, for the thread \<open>tid\<close>; they do nothing during the warm-up.\<close>

definition INC_STATS :: "bool \<Rightarrow> nat \<Rightarrow> string \<Rightarrow> u64 \<Rightarrow> 'd Stats \<Rightarrow> 'd Stats option" where
  "INC_STATS warmup_done tid name value st =
     (if \<not> warmup_done then Some st
      else if tid < length (ss_stats st)
      then Some (st\<lparr>ss_stats := (ss_stats st)[tid :=
             (let s = ss_stats st ! tid in s\<lparr>st_cnt := (st_cnt s)(name := st_cnt s name + value)\<rparr>)]\<rparr>)
      else None)"

definition SET_STATS :: "bool \<Rightarrow> nat \<Rightarrow> string \<Rightarrow> u64 \<Rightarrow> 'd Stats \<Rightarrow> 'd Stats option" where
  "SET_STATS warmup_done tid name value st =
     (if \<not> warmup_done then Some st
      else if tid < length (ss_stats st)
      then Some (st\<lparr>ss_stats := (ss_stats st)[tid :=
             (let s = ss_stats st ! tid in s\<lparr>st_cnt := (st_cnt s)(name := value)\<rparr>)]\<rparr>)
      else None)"

definition INC_STATS_ARR :: "bool \<Rightarrow> nat \<Rightarrow> u64 \<Rightarrow> 'd Stats \<Rightarrow> 'd Stats option" where
  "INC_STATS_ARR warmup_done tid value st =
     (if \<not> warmup_done then Some st
      else if tid < length (ss_stats st)
      then do {
        a \<leftarrow> StatsArr_insert value (st_client_client_latency (ss_stats st ! tid));
        Some (st\<lparr>ss_stats := (ss_stats st)[tid := (ss_stats st ! tid)\<lparr>st_client_client_latency := a\<rparr>]\<rparr>) }
      else None)"

text \<open>What \<open>print\<close> and \<open>print_client\<close> compute before they print.\<close>

definition sum_up :: "('d :: {zero, plus, ord}) Stats \<Rightarrow> 'd Stats option" where
  "sum_up st = do {
     t \<leftarrow> fold_option Stats_thd_combine (ss_stats st) (Stats_thd_clear (ss_totals st));
     Some (st\<lparr>ss_totals := t\<rparr>) }"

definition Stats_print :: "env \<Rightarrow> ('d :: {zero, plus, ord}) Stats \<Rightarrow> 'd Stats option" where
  "Stats_print e st = do {
     st \<leftarrow> sum_up st;
     fold_option (\<lambda>i st.
         if i < length (ss_stats st)
         then Some (st\<lparr>ss_idle_worker_times := (ss_idle_worker_times st)(word_of_nat i :=
                st_time (ss_stats st ! i) ''worker_idle_time'')\<rparr>)
         else None)
       [0..<unat (g_thread_cnt e)] st }"

definition interval_cnt :: "'d Stats \<Rightarrow> u64" where
  \<comment> \<open>the number of transactions printed for the interval\<close>
  "interval_cnt st = st_cnt (ss_totals st) ''txn_cnt'' - st_cnt (ss_totals st) ''previous_interval_txn_cnt''"

definition get_txn_cnts :: "env \<Rightarrow> 'd Stats \<Rightarrow> u64 option" where
  "get_txn_cnts e st =
     (if g_node_id e \<ge> g_node_cnt e then Some 0
      else fold_option (\<lambda>tid total. if tid < length (ss_stats st)
               then Some (total + st_cnt (ss_stats st ! tid) ''txn_cnt'') else None)
             [0..<unat (g_thread_cnt e + g_rem_thread_cnt e)] 0)"

definition set_message_size :: "RemReqType \<Rightarrow> u64 \<Rightarrow> 'd Stats \<Rightarrow> 'd Stats" where
  "set_message_size rtype sz st = (case rtype of
       CL_RSP \<Rightarrow> st\<lparr>ss_client_response_msg_size := sz\<rparr>
     | CL_BATCH \<Rightarrow> st\<lparr>ss_client_batch_msg_size := sz\<rparr>
     | PBFT_CHKPT_MSG \<Rightarrow> st\<lparr>ss_checkpoint_msg_size := sz\<rparr>
     | _ \<Rightarrow> st)"

text \<open>
  \<open>Thread::progress_stats\<close> of a replica; \<open>to_double\<close> converts a time to \<open>double\<close>.  The state is
  \<open>prog_time\<close>, the time of the last report, and the statistics.
\<close>

definition progress_stats :: "env \<Rightarrow> bool \<Rightarrow> (u64 \<Rightarrow> 'd) \<Rightarrow> u64 \<Rightarrow> u64 \<Rightarrow> u64 \<Rightarrow> u64 \<Rightarrow> u64 \<times> ('d :: {zero, plus, ord}) Stats \<Rightarrow>
    (u64 \<times> 'd Stats) option" where
  "progress_stats e warmup_done to_double g_prog_timer warmup_end_time thd_id now_time = (\<lambda>(prog_time, st).
     if now_time - prog_time < g_prog_timer then Some (prog_time, st)
     else if thd_id \<noteq> 0 then Some (now_time, st)
     else do {
       st \<leftarrow> (if \<not> warmup_done then Some st
             else case ss_stats st of
                 [] \<Rightarrow> None
               | s # ss \<Rightarrow> Some (st\<lparr>ss_stats := s\<lparr>st_total_runtime := to_double (now_time - warmup_end_time)\<rparr> # ss\<rparr>));
       st \<leftarrow> Stats_print e st;
       let exec_thread = unat (g_thread_cnt e - g_checkpointing_thd e - g_execute_thd e);
       st \<leftarrow> SET_STATS warmup_done exec_thread ''previous_interval_cross_shard_txn_cnt''
             (st_cnt (ss_stats st ! exec_thread) ''cross_shard_txn_cnt'') st;
       st \<leftarrow> SET_STATS warmup_done exec_thread ''previous_interval_txn_cnt''
             (st_cnt (ss_stats st ! exec_thread) ''txn_cnt'') st;
       Some (now_time, st) })"

section \<open>The totals are the sums\<close>

lemma inserts_grow:
  assumes "incr_inv a" and "unat (sa_size a) < 2 ^ 63" and "unat (sa_cnt a) + length xs < 2 ^ 62"
  shows "\<exists>a'. fold_option StatsArr_insert xs a = Some a' \<and> incr_inv a' \<and> contents a' = contents a @ xs \<and>
    unat (sa_cnt a') = unat (sa_cnt a) + length xs \<and> unat (sa_size a') < 2 ^ 63"
  using assms
proof (induction xs arbitrary: a)
  case (Cons x xs)
  obtain a' where a': "StatsArr_insert x a = Some a'" "incr_inv a'" "contents a' = contents a @ [x]"
      "unat (sa_cnt a') = Suc (unat (sa_cnt a))"
    using insert_incr [OF Cons.prems(1,2), of x] by blast
  have "unat (sa_size a') < 2 ^ 63"
    using insert_size [OF Cons.prems(1) a'(1)] unat_double [OF Cons.prems(2)] Cons.prems(2,3) by (auto split: if_splits)
  from Cons.IH [OF a'(2) this] a' Cons.prems(3) show ?case by auto
qed simp

lemma append_contents:
  assumes "incr_inv b"
  shows "StatsArr_append b a = fold_option StatsArr_insert (contents b) a"
proof -
  have n: "unat (sa_cnt b) \<le> length (sa_arr b)" using assms by (simp add: incr_inv_def word_le_nat_alt)
  have "fold_option (\<lambda>i a. do { x \<leftarrow> StatsArr_get_idx (word_of_nat i) b; StatsArr_insert x a }) is a =
      fold_option StatsArr_insert (map (\<lambda>i. sa_arr b ! i) is) a" if "\<forall>i \<in> set is. i < unat (sa_cnt b)" for "is" a
    using that
  proof (induction "is" arbitrary: a)
    case (Cons i "is")
    have "i < length (sa_arr b)" "unat (word_of_nat i :: u64) = i"
      using Cons.prems n unat_u64_less [of "sa_cnt b"] by (auto intro: unat_of_nat_u64)
    then have "StatsArr_get_idx (word_of_nat i) b = Some (sa_arr b ! i)" by (simp add: StatsArr_get_idx_def)
    moreover have "fold_option (\<lambda>i a. do { x \<leftarrow> StatsArr_get_idx (word_of_nat i) b; StatsArr_insert x a }) is =
        fold_option StatsArr_insert (map (\<lambda>i. sa_arr b ! i) is)"
      by (rule ext, rule Cons.IH) (use Cons.prems in simp)
    ultimately show ?case by simp
  qed simp
  moreover have "map (\<lambda>i. sa_arr b ! i) [0..<unat (sa_cnt b)] = contents b" using n by (intro nth_equalityI) auto
  ultimately show ?thesis unfolding StatsArr_append_def by (metis atLeast_upt lessThan_iff)
qed

definition latencies :: "'d Stats_thd \<Rightarrow> u64 list" where
  "latencies s = contents (st_client_client_latency s)"

definition lat_ok :: "'d Stats_thd \<Rightarrow> bool" where
  "lat_ok s \<longleftrightarrow> incr_inv (st_client_client_latency s) \<and> unat (sa_size (st_client_client_latency s)) < 2 ^ 63"

lemma length_latencies: "lat_ok s \<Longrightarrow> length (latencies s) = unat (sa_cnt (st_client_client_latency s))"
  by (simp add: latencies_def lat_ok_def incr_inv_def word_le_nat_alt)

definition later :: "('d :: ord) \<Rightarrow> 'd \<Rightarrow> 'd" where
  "later m r = (if m < r then r else m)"

lemma combine_one:
  assumes "lat_ok s" and "lat_ok t" and "length (latencies t) + length (latencies s) < 2 ^ 62"
  shows "\<exists>t'. Stats_thd_combine s t = Some t' \<and> lat_ok t' \<and> latencies t' = latencies t @ latencies s \<and>
    (\<forall>n. st_cnt t' n = (if n \<in> set counter_names then st_cnt t n + st_cnt s n else st_cnt t n)) \<and>
    (\<forall>n. st_time t' n = (if n \<in> set time_names then st_time t n + st_time s n else st_time t n)) \<and>
    st_total_runtime t' = later (st_total_runtime t) (st_total_runtime s)"
proof -
  let ?a = "st_client_client_latency t"
  obtain a' where a': "StatsArr_append (st_client_client_latency s) ?a = Some a'" "incr_inv a'"
      "contents a' = contents ?a @ latencies s" "unat (sa_size a') < 2 ^ 63"
    using inserts_grow [of ?a "latencies s"] append_contents [of "st_client_client_latency s" ?a] assms
      length_latencies [OF assms(2)] by (auto simp: lat_ok_def latencies_def)
  then show ?thesis by (simp add: Stats_thd_combine_def lat_ok_def later_def latencies_def)
qed

lemma combine_all:
  "\<forall>s \<in> set ss. lat_ok s \<Longrightarrow> lat_ok t \<Longrightarrow> length (latencies t) + sum_list (map (\<lambda>s. length (latencies s)) ss) < 2 ^ 62 \<Longrightarrow>
   \<exists>t'. fold_option Stats_thd_combine ss t = Some t' \<and> lat_ok t' \<and> latencies t' = latencies t @ concat (map latencies ss) \<and>
    (\<forall>n. st_cnt t' n = (if n \<in> set counter_names then st_cnt t n + sum_list (map (\<lambda>s. st_cnt s n) ss) else st_cnt t n)) \<and>
    (\<forall>n. st_time t' n = (if n \<in> set time_names then foldl (+) (st_time t n) (map (\<lambda>s. st_time s n) ss) else st_time t n)) \<and>
    st_total_runtime t' = foldl later (st_total_runtime t) (map st_total_runtime ss)"
proof (induction ss arbitrary: t)
  case (Cons s ss)
  have "lat_ok s" "length (latencies t) + length (latencies s) < 2 ^ 62" using Cons.prems by auto
  with combine_one [OF _ Cons.prems(2)] obtain t1 where
    t1: "Stats_thd_combine s t = Some t1" "lat_ok t1" "latencies t1 = latencies t @ latencies s"
      "\<forall>n. st_cnt t1 n = (if n \<in> set counter_names then st_cnt t n + st_cnt s n else st_cnt t n)"
      "\<forall>n. st_time t1 n = (if n \<in> set time_names then st_time t n + st_time s n else st_time t n)"
      "st_total_runtime t1 = later (st_total_runtime t) (st_total_runtime s)" by blast
  have "length (latencies t1) + sum_list (map (\<lambda>s. length (latencies s)) ss) < 2 ^ 62" using Cons.prems(3) t1(3) by simp
  from Cons.IH [OF _ t1(2) this] Cons.prems(1) obtain t' where
    t': "fold_option Stats_thd_combine ss t1 = Some t'" "lat_ok t'" "latencies t' = latencies t1 @ concat (map latencies ss)"
      "\<forall>n. st_cnt t' n = (if n \<in> set counter_names then st_cnt t1 n + sum_list (map (\<lambda>s. st_cnt s n) ss) else st_cnt t1 n)"
      "\<forall>n. st_time t' n = (if n \<in> set time_names then foldl (+) (st_time t1 n) (map (\<lambda>s. st_time s n) ss) else st_time t1 n)"
      "st_total_runtime t' = foldl later (st_total_runtime t1) (map st_total_runtime ss)" by auto
  show ?case
    by (rule exI [of _ t']) (use t' t1 in \<open>simp add: add.assoc\<close>)
qed simp

text \<open>
  A report returns and shows, for every counter that \<open>combine\<close> names, the sum over the threads (as
  64-bit words), for every such time the sum in the order of the threads, the largest running
  time and all latencies.  What the last report left in the totals does not matter.
\<close>

theorem totals_are_sums:
  assumes "\<forall>s \<in> set (ss_stats st). lat_ok s" and "lat_ok (ss_totals st)"
    and "sum_list (map (\<lambda>s. length (latencies s)) (ss_stats st)) < 2 ^ 62"
  shows "\<exists>t. sum_up st = Some (st\<lparr>ss_totals := t\<rparr>) \<and> lat_ok t \<and>
    (\<forall>n \<in> set counter_names. st_cnt t n = sum_list (map (\<lambda>s. st_cnt s n) (ss_stats st))) \<and>
    (\<forall>n \<in> set time_names. st_time t n = foldl (+) 0 (map (\<lambda>s. st_time s n) (ss_stats st))) \<and>
    st_total_runtime t = foldl later 0 (map st_total_runtime (ss_stats st)) \<and>
    latencies t = concat (map latencies (ss_stats st))"
proof -
  let ?t = "Stats_thd_clear (ss_totals st)"
  have t: "lat_ok ?t" "latencies ?t = []" "st_total_runtime ?t = 0"
      "n \<in> set counter_names \<Longrightarrow> st_cnt ?t n = 0" "n \<in> set time_names \<Longrightarrow> st_time ?t n = 0" for n
    using assms(2) by (simp_all add: latencies_def lat_ok_def incr_inv_def Stats_thd_clear_def StatsArr_clear_def)
  from combine_all [OF assms(1) t(1)] assms(3) t(2) obtain t' where
    "fold_option Stats_thd_combine (ss_stats st) ?t = Some t'" "lat_ok t'" "latencies t' = concat (map latencies (ss_stats st))"
    "\<forall>n. st_cnt t' n = (if n \<in> set counter_names then st_cnt ?t n + sum_list (map (\<lambda>s. st_cnt s n) (ss_stats st)) else st_cnt ?t n)"
    "\<forall>n. st_time t' n = (if n \<in> set time_names then foldl (+) (st_time ?t n) (map (\<lambda>s. st_time s n) (ss_stats st)) else st_time ?t n)"
    "st_total_runtime t' = foldl later (st_total_runtime ?t) (map st_total_runtime (ss_stats st))" by auto
  then show ?thesis using t(3,4,5) by (intro exI [of _ t']) (simp add: sum_up_def)
qed

text \<open>The other fields are neither cleared nor summed up: the totals keep what their memory held.\<close>

definition forgotten :: "string list" where
  "forgotten = [''time_pre_prepare'', ''time_prepare'', ''time_commit'', ''time_execute'', ''tput_msg'',
     ''msg_cl_in'', ''msg_node_in'', ''msg_cl_out'', ''msg_node_out'']"

lemma forgotten_times: "n \<in> set forgotten \<Longrightarrow> n \<notin> set time_names"
  by (auto simp: forgotten_def time_names_def)

lemma sum_up_forgets:
  assumes "n \<in> set forgotten" and "sum_up st = Some st'"
  shows "st_time (ss_totals st') n = st_time (ss_totals st) n"
proof -
  have n: "n \<notin> set time_names" by (rule forgotten_times [OF assms(1)])
  have "fold_option Stats_thd_combine ss t = Some t' \<Longrightarrow> st_time t' n = st_time t n" for ss and t t' :: "'a Stats_thd"
  proof (induction ss arbitrary: t)
    case (Cons s ss)
    then obtain t1 where "Stats_thd_combine s t = Some t1" "fold_option Stats_thd_combine ss t1 = Some t'"
      by (auto simp: bind_eq_Some_conv)
    moreover from this(1) have "st_time t1 n = st_time t n" using n by (auto simp: Stats_thd_combine_def bind_eq_Some_conv)
    ultimately show ?case using Cons.IH by simp
  qed simp
  with assms(2) n show ?thesis by (auto simp: sum_up_def bind_eq_Some_conv Stats_thd_clear_def)
qed

lemma get_txn_cnts_sum:
  assumes "g_node_id e < g_node_cnt e" and "unat (g_thread_cnt e + g_rem_thread_cnt e) \<le> length (ss_stats st)"
  shows "get_txn_cnts e st = Some (sum_list (map (\<lambda>s. st_cnt s ''txn_cnt'')
    (take (unat (g_thread_cnt e + g_rem_thread_cnt e)) (ss_stats st))))"
proof -
  have "fold_option (\<lambda>tid total. if tid < length xs then Some (total + f (xs ! tid)) else None) [0..<n] z =
      Some (z + sum_list (map f (take n xs)))" if "n \<le> length xs" for n z and xs :: "'a Stats_thd list" and f :: "_ \<Rightarrow> u64"
    using that
  proof (induction n)
    case (Suc n)
    then show ?case by (simp add: fold_option_append take_Suc_conv_app_nth add.assoc)
  qed simp
  from this [OF assms(2), of "\<lambda>s. st_cnt s ''txn_cnt''" 0] assms(1) show ?thesis
    by (simp add: get_txn_cnts_def not_le [THEN iffD2, OF assms(1)] del: take_all)
qed

section \<open>Intervals\<close>

text \<open>
  Only the execute thread \<open>x\<close> counts transactions.  Then the number printed for an interval is the
  number of transactions since the last report, which has set \<open>previous_interval_txn_cnt\<close>.
\<close>

definition only_thread :: "nat \<Rightarrow> 'd Stats \<Rightarrow> bool" where
  "only_thread x st \<longleftrightarrow> x < length (ss_stats st) \<and> (\<forall>i < length (ss_stats st). i \<noteq> x \<longrightarrow>
     st_cnt (ss_stats st ! i) ''txn_cnt'' = 0 \<and> st_cnt (ss_stats st ! i) ''previous_interval_txn_cnt'' = 0)"

lemma sum_list_single:
  fixes f :: "'a \<Rightarrow> u64"
  assumes "x < length xs" and "\<And>i. i < length xs \<Longrightarrow> i \<noteq> x \<Longrightarrow> f (xs ! i) = 0"
  shows "sum_list (map f xs) = f (xs ! x)"
proof -
  have "sum_list (map f xs) = (\<Sum>i \<in> {0..<length xs}. f (xs ! i))" by (simp add: sum_list_sum_nth)
  also have "\<dots> = (\<Sum>i \<in> {x}. f (xs ! i))" using assms by (intro sum.mono_neutral_right) auto
  finally show ?thesis by simp
qed

lemma interval_exact:
  assumes "\<forall>s \<in> set (ss_stats st). lat_ok s" and "lat_ok (ss_totals st)"
    and "sum_list (map (\<lambda>s. length (latencies s)) (ss_stats st)) < 2 ^ 62" and "only_thread x st"
  shows "\<exists>st'. sum_up st = Some st' \<and>
    interval_cnt st' = st_cnt (ss_stats st ! x) ''txn_cnt'' - st_cnt (ss_stats st ! x) ''previous_interval_txn_cnt''"
proof -
  have c: "''txn_cnt'' \<in> set counter_names" "''previous_interval_txn_cnt'' \<in> set counter_names" by (simp_all add: counter_names_def)
  obtain t where t: "sum_up st = Some (st\<lparr>ss_totals := t\<rparr>)"
      "\<forall>n \<in> set counter_names. st_cnt t n = sum_list (map (\<lambda>s. st_cnt s n) (ss_stats st))"
    using totals_are_sums [OF assms(1-3)] by blast
  have "sum_list (map (\<lambda>s. st_cnt s n) (ss_stats st)) = st_cnt (ss_stats st ! x) n"
    if "n = ''txn_cnt'' \<or> n = ''previous_interval_txn_cnt''" for n
    using assms(4) that by (intro sum_list_single) (auto simp: only_thread_def)
  with t c show ?thesis by (simp add: interval_cnt_def)
qed

lemma SET_STATS_nth:
  "SET_STATS w x n v st = Some st' \<Longrightarrow> w \<Longrightarrow> x < length (ss_stats st) \<and> ss_stats st' =
     (ss_stats st)[x := (ss_stats st ! x)\<lparr>st_cnt := (st_cnt (ss_stats st ! x))(n := v)\<rparr>]"
  by (auto simp: SET_STATS_def Let_def split: if_splits)

lemma progress_resets_interval:
  assumes "progress_stats e True d tm w0 0 now (p, st) = Some (p', st')" and "\<not> now - p < tm"
  shows "p' = now \<and> (let x = unat (g_thread_cnt e - g_checkpointing_thd e - g_execute_thd e)
    in x < length (ss_stats st') \<and>
       st_cnt (ss_stats st' ! x) ''previous_interval_txn_cnt'' = st_cnt (ss_stats st' ! x) ''txn_cnt'')"
proof -
  let ?x = "unat (g_thread_cnt e - g_checkpointing_thd e - g_execute_thd e)"
  obtain st1 st2 where s: "SET_STATS True ?x ''previous_interval_cross_shard_txn_cnt'' (st_cnt (ss_stats st1 ! ?x) ''cross_shard_txn_cnt'') st1 = Some st2"
      "SET_STATS True ?x ''previous_interval_txn_cnt'' (st_cnt (ss_stats st2 ! ?x) ''txn_cnt'') st2 = Some st'" "p' = now"
    using assms by (auto simp: progress_stats_def bind_eq_Some_conv Let_def split: list.splits)
  show ?thesis using SET_STATS_nth [OF s(2)] s(3) by (simp add: Let_def)
qed

end
