(* ===== verification/Txn_Stats.thy ===== *)
theory Txn_Stats
  imports Stats Txn_Table
begin

text \<open>
  The statistics of a transaction (\<open>TxnStats\<close>) and their use by \<open>TxnManager\<close> at a reset and at a
  commit (\<^verbatim>\<open>system/txn.cpp\<close>), with the counters of the thread that they raise.  Doubles are
  any type with the operations used.  \<open>now\<close> is the clock; \<open>local\<close> is \<open>IS_LOCAL(txn_id)\<close>, which is also the
  condition under which \<open>TxnStats::commit_stats\<close> only prints.
\<close>

record 'd TxnStats =
  ts_starttime :: u64
  ts_restart_starttime :: u64
  ts_wait_starttime :: u64
  ts_write_cnt :: u64
  ts_abort_cnt :: u64
  ts_total_process_time :: 'd
  ts_process_time :: 'd
  ts_total_local_wait_time :: 'd
  ts_local_wait_time :: 'd
  ts_total_remote_wait_time :: 'd
  ts_remote_wait_time :: 'd
  ts_total_abort_time :: 'd
  ts_total_msg_queue_time :: 'd
  ts_msg_queue_time :: 'd
  ts_total_work_queue_time :: 'd
  ts_work_queue_time :: 'd
  ts_total_work_queue_cnt :: u64
  ts_work_queue_cnt :: u64
  ts_work_queue_time_short :: 'd
  ts_cc_block_time_short :: 'd
  ts_cc_time_short :: 'd
  ts_msg_queue_time_short :: 'd
  ts_process_time_short :: 'd
  ts_network_time_short :: 'd
  ts_time_start_pre_prepare :: 'd
  ts_time_start_prepare :: 'd
  ts_time_start_commit :: 'd
  ts_time_start_execute :: 'd

definition TxnStats_clear_short :: "('d :: zero) TxnStats \<Rightarrow> 'd TxnStats" where
  "TxnStats_clear_short s = s\<lparr>ts_work_queue_time_short := 0, ts_cc_block_time_short := 0, ts_cc_time_short := 0,
     ts_msg_queue_time_short := 0, ts_process_time_short := 0, ts_network_time_short := 0\<rparr>"

definition TxnStats_init :: "u64 \<Rightarrow> ('d :: zero) TxnStats \<Rightarrow> 'd TxnStats" where
  "TxnStats_init now s = TxnStats_clear_short (s\<lparr>ts_starttime := 0, ts_wait_starttime := now,
     ts_total_process_time := 0, ts_process_time := 0, ts_total_local_wait_time := 0, ts_local_wait_time := 0,
     ts_total_remote_wait_time := 0, ts_remote_wait_time := 0, ts_write_cnt := 0, ts_abort_cnt := 0,
     ts_total_work_queue_time := 0, ts_work_queue_time := 0, ts_total_work_queue_cnt := 0, ts_work_queue_cnt := 0,
     ts_total_msg_queue_time := 0, ts_msg_queue_time := 0, ts_total_abort_time := 0,
     ts_time_start_pre_prepare := 0, ts_time_start_prepare := 0, ts_time_start_commit := 0, ts_time_start_execute := 0\<rparr>)"

text \<open>The running values are added to the totals, here and in the two methods below.\<close>

definition add_totals :: "('d :: plus) TxnStats \<Rightarrow> 'd TxnStats" where
  "add_totals s = s\<lparr>
     ts_total_process_time := ts_total_process_time s + ts_process_time s,
     ts_total_local_wait_time := ts_total_local_wait_time s + ts_local_wait_time s,
     ts_total_remote_wait_time := ts_total_remote_wait_time s + ts_remote_wait_time s,
     ts_total_work_queue_time := ts_total_work_queue_time s + ts_work_queue_time s,
     ts_total_msg_queue_time := ts_total_msg_queue_time s + ts_msg_queue_time s,
     ts_total_work_queue_cnt := ts_total_work_queue_cnt s + ts_work_queue_cnt s\<rparr>"

definition TxnStats_reset :: "u64 \<Rightarrow> ('d :: {zero, plus}) TxnStats \<Rightarrow> 'd TxnStats" where
  "TxnStats_reset now s = TxnStats_clear_short ((add_totals s)\<lparr>ts_wait_starttime := now, ts_process_time := 0,
     ts_local_wait_time := 0, ts_remote_wait_time := 0, ts_write_cnt := 0, ts_work_queue_time := 0,
     ts_work_queue_cnt := 0, ts_msg_queue_time := 0\<rparr>)"

definition abort_stats :: "('d :: {plus, ord}) TxnStats \<Rightarrow> 'd TxnStats option" where
  "abort_stats s = (let s = add_totals s in if ts_process_time s \<le> ts_total_process_time s then Some s else None)"

definition TxnStats_commit_stats :: "('d :: {plus, ord}) TxnStats \<Rightarrow> 'd TxnStats option" where
  "TxnStats_commit_stats s = (let s = add_totals s in if ts_process_time s \<le> ts_total_process_time s then Some s else None)"

section \<open>TxnManager\<close>

text \<open>\<open>reset\<close> also sets \<open>rsp_cnt\<close> and \<open>aborted\<close>, which belong to no field of the model's manager: nothing of it reads them.\<close>

definition TxnManager_reset :: "u64 \<Rightarrow> ('d :: {zero, plus}) TxnStats \<Rightarrow> TxnManager \<Rightarrow> TxnManager \<times> 'd TxnStats" where
  "TxnManager_reset now s t = (t\<lparr>tm_return_id := UINT64_MAX, tm_rc := RCOK\<rparr>, TxnStats_reset now s)"

definition INC_STATS_time :: "bool \<Rightarrow> nat \<Rightarrow> string \<Rightarrow> 'd \<Rightarrow> ('d :: plus) Stats \<Rightarrow> 'd Stats option" where
  "INC_STATS_time warmup_done tid name value st =
     (if \<not> warmup_done then Some st
      else if tid < length (ss_stats st)
      then Some (st\<lparr>ss_stats := (ss_stats st)[tid :=
             (let s = ss_stats st ! tid in s\<lparr>st_time := (st_time s)(name := st_time s name + value)\<rparr>)]\<rparr>)
      else None)"

definition TxnManager_commit_stats :: "bool \<Rightarrow> (u64 \<Rightarrow> 'd) \<Rightarrow> nat \<Rightarrow> bool \<Rightarrow> u64 \<Rightarrow> ('d :: {zero, plus, ord}) TxnStats \<times> 'd Stats \<Rightarrow>
    ('d TxnStats \<times> 'd Stats) option" where
  "TxnManager_commit_stats warmup_done to_double thd_id local now = (\<lambda>(s, st). do {
     let timespan_long = now - ts_starttime s;
     st \<leftarrow> INC_STATS warmup_done thd_id ''total_txn_commit_cnt'' 1 st;
     if \<not> local then do { s \<leftarrow> TxnStats_commit_stats s; Some (s, st) }
     else do {
       st \<leftarrow> INC_STATS_time warmup_done thd_id ''txn_run_time'' (to_double timespan_long) st;
       st \<leftarrow> INC_STATS warmup_done thd_id ''single_part_txn_cnt'' 1 st;
       s \<leftarrow> TxnStats_commit_stats s;
       Some (s, st) } })"

section \<open>Totals\<close>

text \<open>
  A reset moves the running process time into the total, so the sum of the two is kept; with it, after any
  sequence of charges and resets, the total at the commit is the sum of what was charged.  (The code itself
  charges nothing: no statement outside this class adds to \<open>process_time\<close>, so the totals it prints are zero.)
\<close>

datatype 'd stats_event = Charge 'd | Reset u64

fun stats_step :: "('d :: {zero, plus}) stats_event \<Rightarrow> 'd TxnStats \<Rightarrow> 'd TxnStats" where
  "stats_step (Charge d) s = s\<lparr>ts_process_time := ts_process_time s + d\<rparr>"
| "stats_step (Reset now) s = TxnStats_reset now s"

fun charge :: "('d :: zero) stats_event \<Rightarrow> 'd" where
  "charge (Charge d) = d"
| "charge (Reset now) = 0"

abbreviation processed :: "('d :: plus) TxnStats \<Rightarrow> 'd" where
  "processed s \<equiv> ts_total_process_time s + ts_process_time s"

lemma processed_step:
  "processed (stats_step ev s) = processed s + charge (ev :: ('d :: comm_monoid_add) stats_event)"
  by (cases ev) (simp_all add: TxnStats_reset_def TxnStats_clear_short_def add_totals_def add.assoc)

lemma processed_run:
  "processed (fold stats_step evs s) = processed s + sum_list (map charge (evs :: ('d :: comm_monoid_add) stats_event list))"
proof (induction evs arbitrary: s)
  case (Cons ev evs)
  have "processed (fold stats_step (ev # evs) s) = processed (stats_step ev s) + sum_list (map charge evs)"
    using Cons by simp
  also have "\<dots> = processed s + charge ev + sum_list (map charge evs)" by (simp only: processed_step)
  finally show ?case by (simp add: add.assoc)
qed simp

theorem commit_total:
  fixes evs :: "('d :: ordered_comm_monoid_add) stats_event list"
  assumes "\<forall>ev \<in> set evs. 0 \<le> charge ev"
  shows "\<exists>s'. TxnStats_commit_stats (fold stats_step evs (TxnStats_init now s)) = Some s' \<and>
    ts_total_process_time s' = sum_list (map charge evs)"
proof -
  let ?s = "fold stats_step evs (TxnStats_init now s)"
  have nonneg: "0 \<le> ts_total_process_time (fold stats_step evs s)"
    if "0 \<le> ts_total_process_time s" "0 \<le> ts_process_time s" "\<forall>ev \<in> set evs. 0 \<le> charge ev"
    for s :: "'d TxnStats" and evs
    using that
  proof (induction evs arbitrary: s)
    case (Cons ev evs)
    have "0 \<le> ts_total_process_time (stats_step ev s)" "0 \<le> ts_process_time (stats_step ev s)"
      using Cons.prems by (cases ev; simp add: TxnStats_reset_def TxnStats_clear_short_def add_totals_def add_nonneg_nonneg)+
    with Cons show ?case by simp
  qed simp
  have "0 \<le> ts_total_process_time ?s"
    by (rule nonneg) (use assms in \<open>simp_all add: TxnStats_init_def TxnStats_clear_short_def\<close>)
  then have "ts_process_time ?s \<le> processed ?s" by (rule add_increasing) simp
  moreover have "processed ?s = sum_list (map charge evs)"
    by (simp add: processed_run TxnStats_init_def TxnStats_clear_short_def)
  ultimately show ?thesis by (simp add: TxnStats_commit_stats_def add_totals_def Let_def)
qed

text \<open>A second commit without a reset counts the running time again.\<close>

lemma commit_twice:
  assumes "TxnStats_commit_stats s = Some s'" and "TxnStats_commit_stats s' = Some s''"
  shows "ts_total_process_time s'' = ts_total_process_time s + ts_process_time s + ts_process_time s"
  using assms by (auto simp: TxnStats_commit_stats_def add_totals_def Let_def split: if_splits)

text \<open>
  A commit after the warm-up raises the counters of the registered thread: one commit, and for a local
  transaction the time since its start.
\<close>

theorem commit_counted:
  assumes "tid < length (ss_stats st)" and "TxnManager_commit_stats True to_double tid local now (s, st) = Some (s', st')"
  shows "let old = ss_stats st ! tid; new = ss_stats st' ! tid in
     st_cnt new ''total_txn_commit_cnt'' = st_cnt old ''total_txn_commit_cnt'' + 1 \<and>
     st_cnt new ''single_part_txn_cnt'' = st_cnt old ''single_part_txn_cnt'' + (if local then 1 else 0) \<and>
     st_time new ''txn_run_time'' =
       (if local then st_time old ''txn_run_time'' + to_double (now - ts_starttime s) else st_time old ''txn_run_time'') \<and>
     (\<forall>j < length (ss_stats st). j \<noteq> tid \<longrightarrow> ss_stats st' ! j = ss_stats st ! j)"
  using assms
  by (cases local) (auto simp: TxnManager_commit_stats_def INC_STATS_def INC_STATS_time_def Let_def nth_list_update
      split: Option.bind_splits)

end
