(* ===== verification/Command_Line.thy ===== *)
theory Command_Line
  imports Global_Config
begin

text \<open>
  The command line (\<open>parser\<close> of \<^verbatim>\<open>system/parser.cpp\<close>, and \<open>init_client_globals\<close> of
  \<^verbatim>\<open>system/helper.cpp\<close>).  The code is a chain of tests of the characters after the dash, so
  the first prefix in its order decides.  The variables are entries of a map under their names.
  \<open>atof\<close> and the conversion of its result to an unsigned integer are arguments, with doubles in
  any type that has one and a difference.
\<close>

section \<open>Numbers\<close>

text \<open>\<open>atoi\<close>: white space, a sign, digits; a value that an \<open>int\<close> does not hold is undefined.\<close>

definition atoi :: "string \<Rightarrow> int option" where
  "atoi s =
     (let s = dropWhile is_space s;
          (sgn, s) = (case s of
              c # cs \<Rightarrow> if c = CHR ''-'' then (- 1, cs) else if c = CHR ''+'' then (1, cs) else (1, s)
            | [] \<Rightarrow> (1, s));
          n = sgn * int (undigits10 (takeWhile is_digit s))
      in if - (2 ^ 31) \<le> n \<and> n < 2 ^ 31 then Some n else None)"

section \<open>Options\<close>

datatype conversion =
    AtoiUnsigned nat
  | AtoiInt
  | AtoiBool
  | AtoiIsOne
  | Atof
  | AtofUnsigned
  | AtofWith string

datatype 'd setting =
    Num int
  | Flag bool
  | Dbl 'd

definition options :: "(string \<times> string \<times> conversion) list" where
  \<comment> \<open>the prefix, the variable it sets and how, in the order of the tests\<close>
  "options = [
     (''ndly'', ''g_network_delay'', AtoiUnsigned 32),
     (''done'', ''g_done_timer'', AtoiUnsigned 64),
     (''stmr'', ''g_seq_batch_time_limit'', AtoiUnsigned 64),
     (''sppt'', ''g_strict_ppt'', AtoiIsOne),
     (''prog'', ''g_thread_cnt'', AtoiUnsigned 32),
     (''zipf'', ''g_zipf_theta'', Atof),
     (''nid'', ''g_node_id'', AtoiUnsigned 32),
     (''ctr'', ''g_client_rem_thread_cnt'', AtoiUnsigned 32),
     (''cts'', ''g_client_send_thread_cnt'', AtoiUnsigned 32),
     (''lps'', ''g_load_per_server'', AtoiInt),
     (''tpp'', ''g_max_txn_per_part'', AtoiUnsigned 32),
     (''tif'', ''g_inflight_max'', AtoiInt),
     (''mpr'', ''g_mpr'', Atof),
     (''mpi'', ''g_mpitem'', Atof),
     (''ppt'', ''g_part_per_txn'', AtoiUnsigned 32),
     (''rpq'', ''g_req_per_query'', AtoiUnsigned 32),
     (''cn'', ''g_client_node_cnt'', AtoiUnsigned 32),
     (''tr'', ''g_rem_thread_cnt'', AtoiUnsigned 32),
     (''ts'', ''g_send_thread_cnt'', AtoiUnsigned 32),
     (''ct'', ''g_client_thread_cnt'', AtoiUnsigned 32),
     (''dp'', ''g_data_perc'', Atof),
     (''ap'', ''g_access_perc'', Atof),
     (''rn'', ''g_repl_cnt'', AtofUnsigned),
     (''rt'', ''g_repl_type'', AtofUnsigned),
     (''tw'', ''g_txn_write_perc'', AtofWith ''g_txn_read_perc''),
     (''p'', ''g_part_cnt'', AtoiUnsigned 32),
     (''n'', ''g_node_cnt'', AtoiUnsigned 32),
     (''t'', ''g_thread_cnt'', AtoiUnsigned 32),
     (''q'', ''g_query_intvl'', AtoiUnsigned 64),
     (''d'', ''g_prt_lat_distr'', AtoiBool),
     (''a'', ''g_part_alloc'', AtoiBool),
     (''m'', ''g_mem_pad'', AtoiBool),
     (''e'', ''g_perc_multi_part'', Atof),
     (''w'', ''g_tup_write_perc'', AtofWith ''g_tup_read_perc''),
     (''s'', ''g_synth_table_size'', AtoiUnsigned 64),
     (''f'', ''g_field_per_tuple'', AtoiUnsigned 32)]"

fun set_option :: "(string \<Rightarrow> 'd) \<Rightarrow> ('d \<Rightarrow> int) \<Rightarrow> string \<Rightarrow> conversion \<Rightarrow> string \<Rightarrow> (string \<rightharpoonup> ('d :: {one, minus}) setting) \<Rightarrow>
    (string \<rightharpoonup> 'd setting) option" where
  "set_option atof trunc var (AtoiUnsigned w) text g = map_option (\<lambda>n. g(var \<mapsto> Num (n mod 2 ^ w))) (atoi text)"
| "set_option atof trunc var AtoiInt text g = map_option (\<lambda>n. g(var \<mapsto> Num n)) (atoi text)"
| "set_option atof trunc var AtoiBool text g = map_option (\<lambda>n. g(var \<mapsto> Flag (n \<noteq> 0))) (atoi text)"
| "set_option atof trunc var AtoiIsOne text g = map_option (\<lambda>n. g(var \<mapsto> Flag (n = 1))) (atoi text)"
| "set_option atof trunc var Atof text g = Some (g(var \<mapsto> Dbl (atof text)))"
| "set_option atof trunc var AtofUnsigned text g = Some (g(var \<mapsto> Num (trunc (atof text) mod 2 ^ 32)))"
| "set_option atof trunc var (AtofWith other) text g =
     Some (g(var \<mapsto> Dbl (atof text), other \<mapsto> Dbl (1 - atof text)))"

definition has_prefix :: "string \<Rightarrow> string \<Rightarrow> bool" where
  "has_prefix p s \<longleftrightarrow> take (length p) s = p"

datatype 'd parsed =
    Continue "string \<rightharpoonup> 'd setting"
  | Usage  \<comment> \<open>\<open>print_usage\<close> and \<open>exit(0)\<close>\<close>
  | Fail  \<comment> \<open>a failed assertion\<close>

definition parse_arg :: "(string \<Rightarrow> 'd) \<Rightarrow> ('d \<Rightarrow> int) \<Rightarrow> string \<Rightarrow> (string \<rightharpoonup> ('d :: {one, minus}) setting) \<Rightarrow> 'd parsed" where
  "parse_arg atof trunc arg g =
     (case arg of
        [] \<Rightarrow> Fail
      | c # s \<Rightarrow>
          if c \<noteq> CHR ''-'' then Fail
          else case find (\<lambda>(p, _). has_prefix p s) options of
              Some (p, var, conv) \<Rightarrow> (case set_option atof trunc var conv (drop (length p) s) g of
                  Some g \<Rightarrow> Continue g | None \<Rightarrow> Fail)
            | None \<Rightarrow> if has_prefix ''h'' s then Usage else Fail)"

fun parse_args :: "(string \<Rightarrow> 'd) \<Rightarrow> ('d \<Rightarrow> int) \<Rightarrow> string list \<Rightarrow> (string \<rightharpoonup> ('d :: {one, minus}) setting) \<Rightarrow> 'd parsed" where
  "parse_args atof trunc [] g = Continue g"
| "parse_args atof trunc (a # as) g = (case parse_arg atof trunc a g of
       Continue g \<Rightarrow> parse_args atof trunc as g | r \<Rightarrow> r)"

text \<open>\<open>init_client_globals\<close>: the servers of a client, the clients of a server, the first server.\<close>

definition init_client_globals :: "env \<Rightarrow> u32 \<times> u32 \<times> u32" where
  "init_client_globals e =
     (g_node_cnt e, if g_node_cnt e > g_client_node_cnt e then 1 else g_client_node_cnt e div g_node_cnt e, 0)"

section \<open>Every option is read\<close>

lemma atoi_digits:
  assumes "n < 2 ^ 31"
  shows "atoi (digits10 n) = Some (int n)"
proof -
  obtain c cs where c: "digits10 n = c # cs" using digits10_nonempty by (cases "digits10 n") auto
  have d: "is_digit c" "takeWhile is_digit (c # cs) = digits10 n"
    using digits10_digits [of n] c by (simp_all add: takeWhile_eq_all_conv)
  show ?thesis using assms digit_not_special [OF d(1)] undigits10_digits10 [of n]
    by (simp add: atoi_def Let_def c d(2) del: takeWhile.simps undigits10.simps)
qed

text \<open>An option followed by a number is recognised as itself, never as a longer or an earlier one.\<close>

lemma has_prefix_number:
  assumes "list_all (\<lambda>x. \<not> is_digit x) q" and "is_digit c"
  shows "has_prefix q (p @ c # cs) = has_prefix q p"
proof (cases "length q \<le> length p")
  case True
  then show ?thesis by (simp add: has_prefix_def)
next
  case False
  have "q ! length p = c" if "take (length q) (p @ c # cs) = q"
    using that False by (metis nth_append_length nth_take not_le)
  with False assms show ?thesis
    by (auto simp: has_prefix_def list_all_iff)
qed

lemma options_self:
  "list_all (\<lambda>(p, var, conv). list_all (\<lambda>x. \<not> is_digit x) p) options"
  "list_all (\<lambda>o1. find (\<lambda>o2. has_prefix (fst o2) (fst o1)) options = Some o1) options"
  by code_simp+

lemma find_prefix_number:
  assumes "(p, var, conv) \<in> set options" and "is_digit c"
  shows "find (\<lambda>(q, _). has_prefix q (p @ c # cs)) options = Some (p, var, conv)"
proof -
  have "has_prefix q (p @ c # cs) = has_prefix q p" if "(q, v, k) \<in> set options" for q v k
    using options_self(1) that assms(2) by (intro has_prefix_number) (auto simp: list_all_iff)
  then have "find (\<lambda>(q, _). has_prefix q (p @ c # cs)) options = find (\<lambda>o2. has_prefix (fst o2) p) options"
    by (intro find_cong) auto
  also have "\<dots> = Some (p, var, conv)" using options_self(2) assms(1) by (auto simp: list_all_iff)
  finally show ?thesis .
qed

lemma option_read:
  assumes "(p, var, AtoiUnsigned w) \<in> set options" and "n < 2 ^ 31"
  shows "parse_arg atof trunc (CHR ''-'' # p @ digits10 n) g = Continue (g(var \<mapsto> Num (int n mod 2 ^ w)))"
proof -
  obtain c cs where c: "digits10 n = c # cs" using digits10_nonempty by (cases "digits10 n") auto
  then have "is_digit c" using digits10_digits [of n] by simp
  from find_prefix_number [OF assms(1) this, of cs] show ?thesis
    using atoi_digits [OF assms(2)] by (simp add: parse_arg_def c)
qed

text \<open>
  The usage text announces options that are not read as such: \<open>-prog\<close> sets the number of threads,
  \<open>-abrt\<close> and \<open>-wh\<close> are taken for \<open>-a\<close> and \<open>-w\<close>, and \<open>-v\<close>, \<open>-o\<close>, \<open>-i\<close>, \<open>-cf\<close> and \<open>-up\<close> fail.
\<close>

lemma usage_wrong:
  "parse_arg atof trunc ''-prog60'' g = Continue (g(''g_thread_cnt'' \<mapsto> Num 60))"
  "parse_arg atof trunc ''-abrt10'' g = Continue (g(''g_part_alloc'' \<mapsto> Flag False))"
  "parse_arg atof trunc ''-v4'' g = Fail" "parse_arg atof trunc ''-cfx'' g = Fail" "parse_arg atof trunc ''-up1'' g = Fail"
  by (simp_all add: parse_arg_def options_def has_prefix_def atoi_def is_digit_def is_space_def)

end
