(* ===== verification/Helpers.thy ===== *)
theory Helpers
  imports Prelude
begin

text \<open>
  The helper functions of \<^verbatim>\<open>system/helper.cpp\<close> that compute on machine integers and
  bytes: composite index keys, partitions, hexadecimal strings and the random number generator.
  A failed assertion, a division by zero, an access outside an array and a shift by the width of
  the type are \<open>None\<close>.
\<close>

unbundle bit_operations_syntax

section \<open>Functions\<close>

definition key_to_part :: "bool \<Rightarrow> u32 \<Rightarrow> u64 \<Rightarrow> u64 option" where
  "key_to_part g_part_alloc g_part_cnt key =
     (if g_part_alloc then (if g_part_cnt = 0 then None else Some (key mod ucast g_part_cnt)) else Some 0)"

definition PAGE_SIZE :: u64 where
  "PAGE_SIZE = 4096"

definition get_part_id :: "u32 \<Rightarrow> u64 \<Rightarrow> u64 option" where
  "get_part_id g_part_cnt addr = (if g_part_cnt = 0 then None else Some (addr div PAGE_SIZE mod ucast g_part_cnt))"

text \<open>The three overloads of \<open>merge_idx_key\<close>; the loop of the first runs to \<open>len\<close>, not to \<open>key_cnt\<close>.\<close>

definition merge_idx_keys :: "u64 \<Rightarrow> u64 list \<Rightarrow> u64 option" where
  "merge_idx_keys key_cnt keys =
     (if key_cnt = 0 then None
      else let len = 64 div unat key_cnt
           in fold_option (\<lambda>i key.
                  if i < length keys \<and> len < 64 \<and> keys ! i < push_bit len 1
                  then Some (push_bit len key OR keys ! i) else None)
                [0..<len] 0)"

definition merge_idx_key2 :: "u64 \<Rightarrow> u64 \<Rightarrow> u64 option" where
  "merge_idx_key2 key1 key2 =
     (if key1 < push_bit 32 1 \<and> key2 < push_bit 32 1 then Some (push_bit 32 key1 OR key2) else None)"

definition merge_idx_key3 :: "u64 \<Rightarrow> u64 \<Rightarrow> u64 \<Rightarrow> u64 option" where
  "merge_idx_key3 key1 key2 key3 =
     (if key1 < push_bit 21 1 \<and> key2 < push_bit 21 1 \<and> key3 < push_bit 21 1
      then Some (push_bit 42 key1 OR push_bit 21 key2 OR key3) else None)"

definition hexmap :: string where
  "hexmap = ''0123456789ABCDEF''"

definition hexStr :: "string \<Rightarrow> string" where
  "hexStr data = concat (map (\<lambda>c.
     [hexmap ! unat (drop_bit 4 ((of_char c :: 8 word) AND 0xF0)), hexmap ! unat ((of_char c :: 8 word) AND 0x0F)]) data)"

definition RAND_MAX :: u64 where
  "RAND_MAX = 2147483647"

definition myrand_next :: "u64 \<Rightarrow> u64 \<times> u64" where
  \<comment> \<open>the number and the new \<open>seed\<close>\<close>
  "myrand_next seed =
     (let seed = (seed * 1103515247 + 12345) mod push_bit 63 1
      in (seed div 65537 mod RAND_MAX, seed))"

section \<open>Composite keys can be taken apart\<close>

lemma bit_less_push: "(w :: u64) < push_bit n 1 \<Longrightarrow> n < 64 \<Longrightarrow> take_bit n w = w"
  by (simp add: take_bit_eq_mod push_bit_eq_mult mod_word_less)

lemma or_push:
  assumes "take_bit n (b :: u64) = b"
  shows "take_bit n (push_bit n a OR b) = b" "drop_bit n (push_bit n a OR b) = take_bit (64 - n) a"
proof -
  have b: "bit b i \<Longrightarrow> i < n" for i using assms by (metis bit_take_bit_iff)
  show "take_bit n (push_bit n a OR b) = b"
    using b by (intro bit_eqI) (auto simp: bit_simps)
  show "drop_bit n (push_bit n a OR b) = take_bit (64 - n) a"
    using b by (intro bit_eqI) (auto simp: bit_simps dest: b)
qed

lemma merge_idx_key2_parts:
  assumes "merge_idx_key2 key1 key2 = Some k"
  shows "drop_bit 32 k = key1 \<and> take_bit 32 k = key2"
  using assms or_push [of 32 key2 key1] bit_less_push [of key1 32] bit_less_push [of key2 32]
  by (auto simp: merge_idx_key2_def split: if_splits)

lemma merge_idx_key3_parts:
  assumes "merge_idx_key3 key1 key2 key3 = Some k"
  shows "drop_bit 42 k = key1 \<and> take_bit 21 (drop_bit 21 k) = key2 \<and> take_bit 21 k = key3"
proof -
  have b: "take_bit 21 key1 = key1" "take_bit 21 key2 = key2" "take_bit 21 key3 = key3"
      "k = push_bit 42 key1 OR push_bit 21 key2 OR key3"
    using assms bit_less_push [of _ 21] by (auto simp: merge_idx_key3_def split: if_splits)
  have bits: "bit key1 i \<Longrightarrow> i < 21" "bit key2 i \<Longrightarrow> i < 21" "bit key3 i \<Longrightarrow> i < 21" for i
    using b by (metis bit_take_bit_iff)+
  have "drop_bit 42 k = key1" unfolding b(4) by (intro bit_eqI) (auto simp: bit_simps dest: bits)
  moreover have "take_bit 21 (drop_bit 21 k) = key2" unfolding b(4) by (intro bit_eqI) (auto simp: bit_simps dest: bits)
  moreover have "take_bit 21 k = key3" unfolding b(4) by (intro bit_eqI) (auto simp: bit_simps dest: bits)
  ultimately show ?thesis by blast
qed

text \<open>
  With two to seven keys the loop of the first overload leaves the array or meets the assertion, so
  it never returns a key.
\<close>

lemma fold_option_fails:
  "x \<in> set xs \<Longrightarrow> (\<And>s. f x s = None) \<Longrightarrow> fold_option f xs s = None"
proof (induction xs arbitrary: s)
  case (Cons y ys)
  then show ?case by (cases "f y s") auto
qed simp

lemma merge_idx_keys_fails:
  assumes "1 \<le> length keys" and "length keys < 8"
  shows "merge_idx_keys (word_of_nat (length keys)) keys = None"
proof -
  have n: "unat (word_of_nat (length keys) :: u64) = length keys" using assms by (intro unat_of_nat_u64) simp
  have "length keys + 1 \<le> 64 div length keys"
    using assms mult_le_mono [of "length keys + 1" 8 "length keys" 7] by (subst less_eq_div_iff_mult_less_eq) auto
  then have "length keys = 1 \<or> length keys < 64 div length keys" by simp
  then show ?thesis
  proof
    assume "length keys = 1"
    then show ?thesis using n by (auto simp: merge_idx_keys_def Let_def intro!: fold_option_fails [of 0])
  next
    assume "length keys < 64 div length keys"
    then show ?thesis using n by (auto simp: merge_idx_keys_def Let_def intro!: fold_option_fails [of "length keys"])
  qed
qed

section \<open>Hexadecimal strings and random numbers\<close>

lemma length_hexStr [simp]: "length (hexStr data) = 2 * length data"
  by (induction data) (simp_all add: hexStr_def)

fun unhex :: "string \<Rightarrow> string" where
  "unhex (a # b # s) =
     char_of (16 * length (takeWhile (\<lambda>c. c \<noteq> a) hexmap) + length (takeWhile (\<lambda>c. c \<noteq> b) hexmap)) # unhex s"
| "unhex _ = []"

lemma hex_digit: "n < 16 \<Longrightarrow> length (takeWhile (\<lambda>c. c \<noteq> hexmap ! n) hexmap) = n"
  by (auto simp: hexmap_def numeral_eq_Suc less_Suc_eq)

lemma hex_nibbles:
  "unat (drop_bit 4 ((of_char c :: 8 word) AND 0xF0)) = of_char c div 16"
  "unat ((of_char c :: 8 word) AND 0x0F) = of_char c mod 16"
proof -
  let ?w = "of_char c :: 8 word"
  have c: "(of_char c :: nat) < 256" by simp
  have "?w = word_of_nat (of_char c)" by (rule of_nat_of_char [symmetric])
  then have u: "unat ?w = of_char c" using c by (simp only: unsigned_of_nat take_bit_nat_eq_self_iff) (simp add: take_bit_nat_eq_self)
  have lo: "x AND 0x0F = take_bit 4 x" for x :: "8 word" by (simp add: take_bit_eq_mask mask_eq_exp_minus_1)
  show "unat (?w AND 0x0F) = of_char c mod 16"
    unfolding lo unsigned_take_bit_eq u by (simp add: take_bit_eq_mod)
  have hi: "drop_bit 4 (?w AND 0xF0) = take_bit 4 (drop_bit 4 ?w)" unfolding drop_bit_and lo [symmetric] by simp
  have "unat (drop_bit 4 (?w AND 0xF0)) = of_char c div 16 mod 16"
    unfolding hi unsigned_take_bit_eq unat_drop_bit_eq u by (simp add: drop_bit_eq_div take_bit_eq_mod)
  also have "\<dots> = of_char c div 16" using c by (intro mod_less) linarith
  finally show "unat (drop_bit 4 (?w AND 0xF0)) = of_char c div 16" .
qed

lemma hexStr_Cons: "hexStr (c # data) = hexmap ! (of_char c div 16) # hexmap ! (of_char c mod 16) # hexStr data"
  unfolding hexStr_def list.map concat.simps hex_nibbles by simp

lemma unhex_hexStr: "unhex (hexStr data) = data"
proof (induction data)
  case (Cons c data)
  have "(of_char c :: nat) < 256" by simp
  then have "of_char c div 16 < (16 :: nat)" "of_char c mod 16 < (16 :: nat)" by linarith+
  from hex_digit [OF this(1)] hex_digit [OF this(2)] Cons show ?case
    unfolding hexStr_Cons unhex.simps by simp
qed (simp add: hexStr_def)

lemma myrand_bounds:
  "fst (myrand_next seed) < RAND_MAX \<and> snd (myrand_next seed) < push_bit 63 1"
  by (auto simp: myrand_next_def Let_def RAND_MAX_def push_bit_eq_mult intro: word_mod_less_divisor)

end
