(* ===== verification/Plain_Execution.thy ===== *)
theory Plain_Execution
  imports Execution_Facts
begin

text \<open>
  \<open>WorkerThread::process_execute_msg\<close> (\<^verbatim>\<open>system/worker_thread.cpp\<close>), the execution of a
  batch when \<open>CONSENSUS\<close> is not \<open>HOTSTUFF\<close>.  It counts the transactions one by one where
  \<open>process_hotstuff_execute\<close> counts the batch, fetches no manager in advance and has no invalid
  batches.  The two agree on a batch whose last manager exists.
\<close>

definition with_index :: "(u64 \<Rightarrow> ClientResponseMessage \<times> node \<Rightarrow> (ClientResponseMessage \<times> node) option) \<Rightarrow>
    u64 \<Rightarrow> ClientResponseMessage \<times> node \<Rightarrow> (ClientResponseMessage \<times> node) option" where
  \<comment> \<open>the body of a loop, with \<open>inc_next_index()\<close>\<close>
  "with_index F i = (\<lambda>(crsp, s). F i (crsp, inc_next_index 1 s))"

definition process_execute_msg :: "env \<Rightarrow> ExecuteMessage \<Rightarrow> node \<Rightarrow> (u64 option \<times> node) option" where
  "process_execute_msg e emsg s =
     (let crsp = new_CR e CL_RSP;
          i0 = ex_index emsg;
          i1 = max i0 (ex_end_index emsg - 4);
          i2 = max i1 (ex_end_index emsg)
      in do {
        (crsp, s) \<leftarrow> fold_option (with_index (execute_one e)) (u64_upto i0 i1) (crsp, s);
        (crsp, s) \<leftarrow> fold_option (with_index (execute_one_held e)) (u64_upto i1 i2) (crsp, s);
        s \<leftarrow> unset_ready_txn e i2 (get_tman e i2 s);
        let s = run_txn e i2 (inc_next_index 1 s);
        crsp \<leftarrow> CR_copy_from_txn e (tman e s i2) crsp;
        let s = send_out (MClientResponse crsp) [tm_client_id (tman e s i2)] s;
        s \<leftarrow> send_checkpoints e (tm_txn_id (tman e s i2)) s;
        Some (Some i2, set_expectedExecuteCount e (get_batch_size e + m_txn_id (ex_base emsg)) s) })"

text \<open>Counting commutes with every step of the execution.\<close>

abbreviation inc_snd :: "u64 \<Rightarrow> 'a \<times> node \<Rightarrow> 'a \<times> node" where
  "inc_snd n \<equiv> apsnd (inc_next_index n)"

lemma inc_frame [simp]:
  "txn_table (inc_next_index n s) = txn_table s" "tman e (inc_next_index n s) i = tman e s i"
  "has_tman e (inc_next_index n s) i = has_tman e s i" "db (inc_next_index n s) = db s"
  "get_tman e i (inc_next_index n s) = inc_next_index n (get_tman e i s)"
  "upd_tman e i f (inc_next_index n s) = inc_next_index n (upd_tman e i f s)"
  "run_txn e i (inc_next_index n s) = inc_next_index n (run_txn e i s)"
  "inc_next_index m (inc_next_index n s) = inc_next_index (n + m) s"
  by (simp_all add: inc_next_index_def tman_def has_tman_def get_tman_def upd_tman_def run_txn_def add.assoc)

lemma inc_ready [simp]:
  "unset_ready_txn e i (inc_next_index n s) = map_option (inc_next_index n) (unset_ready_txn e i s)"
  "set_ready_txn e i (inc_next_index n s) = map_option (inc_next_index n) (set_ready_txn e i s)"
  by (simp_all add: unset_ready_txn_def set_ready_txn_def)

lemma inc_execute_one: "execute_one e i (inc_snd n cs) = map_option (inc_snd n) (execute_one e i cs)"
  by (cases cs) (auto simp: execute_one_def Let_def map_option_bind comp_def)

lemma inc_execute_held: "execute_one_held e i (inc_snd n cs) = map_option (inc_snd n) (execute_one_held e i cs)"
  by (cases cs) (auto simp: execute_one_held_def Let_def map_option_bind bind_map_option comp_def)

lemma with_index_fold:
  assumes "\<And>i n cs. F i (inc_snd n cs) = map_option (inc_snd n) (F i cs)"
  shows "fold_option (with_index F) xs cs = map_option (inc_snd (word_of_nat (length xs))) (fold_option F xs cs)"
proof -
  have one: "with_index F i cs = F i (inc_snd 1 cs)" for i cs by (cases cs) (simp add: with_index_def)
  have inc: "fold_option F xs (inc_snd n cs) = map_option (inc_snd n) (fold_option F xs cs)" for n cs xs
  proof (induction xs arbitrary: cs)
    case (Cons x xs)
    show ?case by (cases "F x cs") (simp_all add: assms Cons)
  qed simp
  show ?thesis
  proof (induction xs arbitrary: cs)
    case Nil
    then show ?case by (cases cs) (simp add: inc_next_index_def)
  next
    case (Cons x xs)
    have c: "inc_snd m (inc_snd n q) = inc_snd (n + m) q" for m n and q :: "ClientResponseMessage \<times> node" by (cases q) simp
    show ?case
    proof (cases "F x cs")
      case (Some q)
      then have "with_index F x cs = Some (inc_snd 1 q)" by (simp add: one assms)
      then have "fold_option (with_index F) (x # xs) cs = fold_option (with_index F) xs (inc_snd 1 q)" by simp
      also have "\<dots> = map_option (inc_snd (word_of_nat (length (x # xs)))) (fold_option F xs q)"
        by (simp add: Cons inc option.map_comp comp_def c)
      finally show ?thesis using Some by simp
    qed (simp add: one assms)
  qed
qed

lemma with_index_loops:
  "fold_option (with_index (execute_one e)) xs cs = map_option (inc_snd (word_of_nat (length xs))) (fold_option (execute_one e) xs cs)"
  "fold_option (with_index (execute_one_held e)) xs cs = map_option (inc_snd (word_of_nat (length xs))) (fold_option (execute_one_held e) xs cs)"
  "fold_option (execute_one_held e) xs (inc_snd n cs) = map_option (inc_snd n) (fold_option (execute_one_held e) xs cs)"
proof -
  show "fold_option (execute_one_held e) xs (inc_snd n cs) = map_option (inc_snd n) (fold_option (execute_one_held e) xs cs)"
  proof (induction xs arbitrary: cs)
    case (Cons x xs)
    show ?case by (cases "execute_one_held e x cs") (simp_all add: inc_execute_held Cons)
  qed simp
qed (rule with_index_fold, rule inc_execute_one inc_execute_held)+

lemma has_tman_get_self: "has_tman e (get_tman e i s) i"
proof (cases "tt_lookup e (txn_table s) i 0")
  case (Some m)
  then show ?thesis by (simp add: has_tman_def get_tman_def get_transaction_manager_def)
next
  case None
  obtain m t' where g: "TxnManPool_get e i (txn_table s) = (m, t')" by force
  have "find P (xs @ [x]) \<noteq> None" if "P x" for P and x :: TxnManager and xs using that by (induction xs) auto
  then show ?thesis
    unfolding has_tman_def get_tman_def using get_new [OF None g] by (simp add: tt_lookup_def is_matching_txn_node_def)
qed

lemma last_id:
  assumes "unset_ready_txn e i (get_tman e i s) = Some s'"
  shows "tm_txn_id (tman e s' i) = i"
proof -
  have "s' = upd_tman e i (snd \<circ> unset_ready) (get_tman e i s)"
    using assms by (auto simp: unset_ready_txn_def split: if_splits)
  then show ?thesis using tman_id [OF has_tman_get_self, of e i s]
    by (simp add: has_tman_get_self unset_ready_def)
qed

theorem plain_equivalent:
  assumes valid: "ex_valid x" and last: "m_txn_id (ex_base x) + 1 = ex_end_index x" and z: "has_tman e s (ex_end_index x)"
    and range: "ex_index x \<le> ex_end_index x" "4 \<le> ex_end_index x"
    and size: "word_of_nat (length (batch_ids x)) = get_batch_size e"
  shows "process_execute_msg e x s = process_hotstuff_execute e x s"
proof -
  let ?a = "ex_index x" and ?z = "ex_end_index x"
  define i1 where "i1 = max ?a (?z - 4)"
  have "?z - 4 \<le> ?z" using range(2) by (simp add: word_le_nat_alt unat_sub)
  then have i1: "?a \<le> i1" "i1 \<le> ?z" "max i1 ?z = ?z" using range(1) by (auto simp: i1_def)
  define xs ys where "xs = u64_upto ?a i1" and "ys = u64_upto i1 ?z"
  have n: "word_of_nat (length xs) + (word_of_nat (length ys) + 1) = get_batch_size e"
  proof -
    have "u64_upto ?a ?z = xs @ ys" using u64_upto_append [OF i1(1,2)] by (simp add: xs_def ys_def)
    then have "length (batch_ids x) = length xs + (length ys + 1)" by (simp add: batch_ids_def del: length_u64_upto)
    then show ?thesis using size by (metis of_nat_1 of_nat_add)
  qed
  show ?thesis
  proof (cases "fold_option (execute_one e) xs (new_CR e CL_RSP, s)")
    case None
    then show ?thesis using valid last z i1
      by (simp add: process_execute_msg_def process_hotstuff_execute_def Let_def with_index_loops
          flip: i1_def xs_def ys_def)
  next
    case (Some q1)
    obtain c1 s1 where q1: "q1 = (c1, s1)" by force
    have l: "fold_option (with_index (execute_one_held e)) ys (c1, inc_next_index m s1) =
        map_option (inc_snd (m + word_of_nat (length ys))) (fold_option (execute_one_held e) ys (c1, s1))" for m
      using with_index_loops(2) [of e ys "(c1, inc_next_index m s1)"] with_index_loops(3) [of e ys m "(c1, s1)"]
      by (cases "fold_option (execute_one_held e) ys (c1, s1)") auto
    show ?thesis
    proof (cases "fold_option (execute_one_held e) ys (c1, s1)")
      case None
      then show ?thesis using Some valid last z i1 q1
        by (simp add: process_execute_msg_def process_hotstuff_execute_def Let_def with_index_loops(1) l
            flip: i1_def xs_def ys_def)
    next
      case r2: (Some q2)
      obtain c2 s2 where q2: "q2 = (c2, s2)" by force
      show ?thesis
      proof (cases "unset_ready_txn e ?z (get_tman e ?z s2)")
        case None
        then show ?thesis using Some r2 valid last z i1 q1 q2
          by (simp add: process_execute_msg_def process_hotstuff_execute_def Let_def with_index_loops(1) l
              flip: i1_def xs_def ys_def)
      next
        case r3: (Some s3)
        have id: "tm_txn_id (tman e s3 ?z) = ?z" by (rule last_id [OF r3])
        have so: "tman e (send_out m d s) j = tman e s j" for m d s j by (simp add: send_out_def tman_def)
        show ?thesis using Some r2 r3 valid last z i1 q1 q2 n
          by (simp add: process_execute_msg_def process_hotstuff_execute_def Let_def with_index_loops(1) l id so add.assoc
              del: length_u64_upto flip: i1_def xs_def ys_def)
      qed
    qed
  qed
qed

end
