(* ===== verification/Start_Up.thy ===== *)
theory Start_Up
  imports Worker_Thread Queue_Facts
begin

text \<open>
  The start of a process (\<open>main\<close> of \<^verbatim>\<open>system/main.cpp\<close> and
  \<^verbatim>\<open>client/client_main.cpp\<close>): the keys that are expected, the identifiers of the threads,
  and the queues that \<open>QWorkQueue::init\<close> allocates; and \<open>ClientThread::send_key\<close>.  The keys
  themselves come from Crypto++ and are arguments.  The lemmas show that the allocated queues are
  those that are used, one purpose each, and that the exchange of keys ends with one READY message
  to each client.
\<close>

section \<open>Keys\<close>

text \<open>The two loops that count the keys to come, one per kind of key.\<close>

definition expect_keys :: "env \<Rightarrow> (u64 \<Rightarrow> u64) \<Rightarrow> u64 \<Rightarrow> u64" where
  "expect_keys e r = fold (\<lambda>i r. if i = node_id e then r else r(i := r i + 1)) (u64_upto 0 (totnodes e)) r"

definition received_keys_init :: "env \<Rightarrow> u64 \<Rightarrow> u64" where
  "received_keys_init e =
     expect_keys e (expect_keys e (fold (\<lambda>i r. r(i := 0)) (u64_upto 0 (totnodes e)) (\<lambda>_. 0)))"

definition generate_keys :: "env \<Rightarrow> string \<Rightarrow> string \<Rightarrow> (u64 \<Rightarrow> string) \<Rightarrow> keystore \<Rightarrow> keystore" where
  \<comment> \<open>\<open>private\<close> and \<open>public\<close> are the ED25519 keys, \<open>cmac i\<close> the key generated for node \<open>i\<close>\<close>
  "generate_keys e private public cmac k =
     (let k = k\<lparr>g_priv_key := private, g_public_key := public, g_pub_keys := (g_pub_keys k)(node_id e := public)\<rparr>;
          k = k\<lparr>cmacPrivateKeys := (\<lambda>i. if i < totnodes e then cmac i else cmacPrivateKeys k i)\<rparr>
      in k\<lparr>cmacOthersKeys := (cmacOthersKeys k)(node_id e := cmacPrivateKeys k (node_id e))\<rparr>)"

definition client_send_key :: "env \<Rightarrow> keystore \<Rightarrow> (msg \<times> u64 list) list" where
  \<comment> \<open>\<open>ClientThread::send_key\<close>: what it enqueues, with the destinations\<close>
  "client_send_key e k = concat (map (\<lambda>i.
     [(keyex_msg e (''ED2-'' @ g_public_key k), [i]), (keyex_msg e (''CMA-'' @ cmacPrivateKeys k i), [i])])
       (other_nodes e (g_node_cnt e + g_client_node_cnt e)))"

section \<open>Threads\<close>

datatype thread_kind = WorkerThd | ClientThd | InputThd | OutputThd

text \<open>The threads in the order of their creation, with their identifiers; a failed assertion is \<open>None\<close>.\<close>

definition spawn :: "thread_kind \<Rightarrow> (u64 \<Rightarrow> bool) \<Rightarrow> u64 \<Rightarrow> (thread_kind \<times> u64) list \<times> u64 \<Rightarrow> ((thread_kind \<times> u64) list \<times> u64) option" where
  "spawn kind check n st =
     fold_option (\<lambda>_ (ts, id). if check id then Some (ts @ [(kind, id)], id + 1) else None) [0..<unat n] st"

definition start_threads :: "env \<Rightarrow> (thread_kind \<times> u64) list option" where
  "start_threads e =
     (let wthd_cnt = ucast (g_thread_cnt e); rthd_cnt = ucast (g_rem_thread_cnt e); sthd_cnt = ucast (g_send_thread_cnt e)
      in if wthd_cnt + rthd_cnt + sthd_cnt \<noteq> (ucast (g_total_thread_cnt e) :: u64) then None
         else do {
           st \<leftarrow> spawn WorkerThd (\<lambda>id. id < wthd_cnt) (wthd_cnt - 1) ([], 0);
           st \<leftarrow> spawn WorkerThd (\<lambda>id. id < wthd_cnt) 1 st;
           st \<leftarrow> spawn InputThd (\<lambda>id. id \<ge> wthd_cnt \<and> id < wthd_cnt + rthd_cnt) rthd_cnt st;
           (ts, _) \<leftarrow> spawn OutputThd (\<lambda>id. id \<ge> wthd_cnt + rthd_cnt \<and> id < wthd_cnt + rthd_cnt + sthd_cnt) sthd_cnt st;
           Some ts })"

section \<open>Queues\<close>

definition effective_queue_cnt :: "env \<Rightarrow> u64" where
  "effective_queue_cnt e = 1 + indexSize e + 1 + (get_multi_threads e - 1)"

definition released_queue_cnt :: "env \<Rightarrow> u64" where
  \<comment> \<open>the number that \<open>QWorkQueue::release\<close> deletes\<close>
  "released_queue_cnt e = 1 + indexSize e + 1"

text \<open>What an entry of \<open>work_queue\<close> is for, by its index.\<close>

definition queue_of :: "env \<Rightarrow> msg \<Rightarrow> u64" where
  "queue_of e m =
     (if msg_rtype m = EXECUTE_MSG then execute_qid e (txn_id m)
      else if msg_rtype m = PBFT_CHKPT_MSG then get_multi_threads e + indexSize e
      else inst_id m mod get_multi_threads e)"

section \<open>The expected keys\<close>

lemma fold_count:
  "fold (\<lambda>i r. if i = a then r else r(i := r i + (1 :: u64))) xs r j =
     (if j = a then r j else r j + word_of_nat (count_list xs j))"
  by (induction xs arbitrary: r) (auto simp: algebra_simps)

lemma distinct_u64_upto: "distinct (u64_upto a b)"
proof -
  have "inj_on (word_of_nat :: nat \<Rightarrow> u64) (set [unat a..<unat b])"
    using unat_u64_less [of b] by (intro inj_on_subset [OF inj_on_of_nat_u64 [of "unat b"]]) auto
  then show ?thesis by (simp add: u64_upto_def distinct_map)
qed

lemma set_u64_range: "i \<in> set (u64_upto 0 n) \<longleftrightarrow> i < n"
proof
  assume "i < n"
  then have "unat i \<in> set [0..<unat n]" by (simp add: word_less_nat_alt)
  then have "word_of_nat (unat i) \<in> (word_of_nat :: nat \<Rightarrow> u64) ` set [0..<unat n]" by (rule imageI)
  then show "i \<in> set (u64_upto 0 n)" by (simp add: u64_upto_def)
next
  assume "i \<in> set (u64_upto 0 n)"
  then obtain k where "i = word_of_nat k" "k < unat n" by (auto simp: u64_upto_def)
  then show "i < n" using unat_u64_less [of n] by (simp add: word_less_nat_alt unat_of_nat_u64)
qed

lemma expect_keys_eq:
  "expect_keys e r i = (if i < totnodes e \<and> i \<noteq> node_id e then r i + 1 else r i)"
  using set_u64_range [of i "totnodes e"]
  by (auto simp: expect_keys_def fold_count count_list_distinct [OF distinct_u64_upto])

text \<open>\<open>init_node\<close> starts with the numbers of keys that \<open>main\<close> computes.\<close>

lemma received_keys_init_eq: "received_keys_init e = receivedKeys (init_node e k)"
proof
  fix i
  have "fold (\<lambda>i r. r(i := 0)) xs (\<lambda>_. 0) = (\<lambda>_. 0 :: u64)" for xs :: "u64 list" by (induction xs) auto
  then show "received_keys_init e i = receivedKeys (init_node e k) i"
    by (simp add: received_keys_init_def expect_keys_eq init_node_def totnodes_def)
qed

section \<open>The allocated queues\<close>

text \<open>
  Sizes that do not overflow.  Then every queue that \<open>enqueue\<close> and \<open>dequeue\<close> use is allocated, and the queues of
  the instances, those of the execute thread and that of the checkpoint threads are different ones.
\<close>

definition queue_sizes :: "env \<Rightarrow> bool" where
  "queue_sizes e \<longleftrightarrow> 0 < unat (get_multi_threads e) \<and> 0 < unat (indexSize e) \<and>
     unat (get_multi_threads e) + unat (indexSize e) + 1 < 2 ^ 64"

theorem queue_layout:
  assumes "queue_sizes e"
  shows "unat (effective_queue_cnt e) = unat (get_multi_threads e) + unat (indexSize e) + 1"
    and "queue_of e m < effective_queue_cnt e"
    and "msg_rtype m = EXECUTE_MSG \<Longrightarrow> msg_rtype m' \<noteq> EXECUTE_MSG \<Longrightarrow> queue_of e m \<noteq> queue_of e m'"
    and "msg_rtype m = PBFT_CHKPT_MSG \<Longrightarrow> msg_rtype m' \<noteq> PBFT_CHKPT_MSG \<Longrightarrow> queue_of e m \<noteq> queue_of e m'"
proof -
  have w: "effective_queue_cnt e = get_multi_threads e + indexSize e + 1" by (simp add: effective_queue_cnt_def)
  have s: "unat (get_multi_threads e + indexSize e) = unat (get_multi_threads e) + unat (indexSize e)"
    using assms by (intro unat_add_u64) (simp add: queue_sizes_def)
  then show c: "unat (effective_queue_cnt e) = unat (get_multi_threads e) + unat (indexSize e) + 1"
    using assms unat_add_u64 [of "get_multi_threads e + indexSize e" 1] unfolding w by (simp add: queue_sizes_def)
  have i: "unat (inst_id m mod get_multi_threads e) < unat (get_multi_threads e)" for m
    using assms by (simp add: queue_sizes_def unat_mod)
  have x: "get_multi_threads e \<le> execute_qid e t" "execute_qid e t < get_multi_threads e + indexSize e" for t
    using assms by (auto intro!: execute_qid_range simp: queue_sizes_def)
  show "queue_of e m < effective_queue_cnt e"
    using x [of "txn_id m"] i [of m] c s by (auto simp: queue_of_def word_less_nat_alt word_le_nat_alt)
  show "msg_rtype m = EXECUTE_MSG \<Longrightarrow> msg_rtype m' \<noteq> EXECUTE_MSG \<Longrightarrow> queue_of e m \<noteq> queue_of e m'"
    using x [of "txn_id m"] i [of m'] by (auto simp: queue_of_def word_less_nat_alt word_le_nat_alt)
  show "msg_rtype m = PBFT_CHKPT_MSG \<Longrightarrow> msg_rtype m' \<noteq> PBFT_CHKPT_MSG \<Longrightarrow> queue_of e m \<noteq> queue_of e m'"
    using x [of "txn_id m'"] i [of m'] s by (auto simp: queue_of_def word_less_nat_alt word_le_nat_alt)
qed

text \<open>\<open>enqueue\<close> changes no other entry of \<open>work_queue\<close>.\<close>

lemma enqueue_queue:
  assumes "enqueue e m s = Some s'" and "q \<noteq> queue_of e m"
  shows "work_queue s' q = work_queue s q"
  using assms
  by (auto simp: enqueue_def enqueue_client_batch_def queue_of_def sem_post_worker_def push_work_def push_prior_def
      execute_msg_heap_push_def Let_def split: if_splits option.splits)

section \<open>The threads\<close>

lemma spawn_ids:
  assumes "\<And>j. j < n \<Longrightarrow> check (id0 + word_of_nat j)"
  shows "fold_option (\<lambda>_ (ts, id). if check id then Some (ts @ [(kind, id)], id + 1) else None) [0..<n] (ts, id0) =
    Some (ts @ map (\<lambda>j. (kind, id0 + word_of_nat j)) [0..<n], id0 + word_of_nat n)"
  using assms
proof (induction n)
  case (Suc n)
  then show ?case by (simp add: fold_option_append algebra_simps)
qed simp

text \<open>
  The worker threads get the identifiers from 0 on, then the input threads, then the output threads:
  \<open>_thd_id - g_thread_cnt\<close> numbers the input threads, as \<open>InputThread\<close> and the transport assume.
\<close>

lemma threads_numbered:
  assumes "0 < unat (g_thread_cnt e)"
    and "unat (g_thread_cnt e) + unat (g_rem_thread_cnt e) + unat (g_send_thread_cnt e) < 2 ^ 32"
  shows "start_threads e = Some (map (\<lambda>j. (WorkerThd, word_of_nat j)) [0..<unat (g_thread_cnt e)] @
    map (\<lambda>j. (InputThd, ucast (g_thread_cnt e) + word_of_nat j)) [0..<unat (g_rem_thread_cnt e)] @
    map (\<lambda>j. (OutputThd, ucast (g_thread_cnt e) + ucast (g_rem_thread_cnt e) + word_of_nat j)) [0..<unat (g_send_thread_cnt e)])"
proof -
  define w r q :: u64 where "w = ucast (g_thread_cnt e)" and "r = ucast (g_rem_thread_cnt e)" and "q = ucast (g_send_thread_cnt e)"
  have u: "unat w = unat (g_thread_cnt e)" "unat r = unat (g_rem_thread_cnt e)" "unat q = unat (g_send_thread_cnt e)"
    by (simp_all add: w_def r_def q_def)
  have sz: "0 < unat w" "unat w + unat r + unat q < 2 ^ 32" using assms u by simp_all
  have add: "unat (w + r) = unat w + unat r" "unat (w + r + q) = unat w + unat r + unat q"
    using sz by (simp_all add: unat_add_u64)
  have "unat (g_total_thread_cnt e) = unat w + unat r + unat q"
    using assms u by (simp add: g_total_thread_cnt_def unat_word_ariths)
  then have t: "w + r + q = ucast (g_total_thread_cnt e)" using add(2) by (simp add: word_unat_eq_iff)
  have w1: "unat (w - 1) = unat w - 1" using sz(1) unat_sub_u64 [of 1 w] by (simp add: word_le_nat_alt)
  have lt: "unat (a + word_of_nat j) = unat a + j" if "unat a + j < 2 ^ 33" for a :: u64 and j
    using that unat_add_u64 [of a "word_of_nat j"] by (simp add: unat_of_nat_u64)
  have lt0: "unat (word_of_nat j :: u64) = j" if "j < 2 ^ 33" for j using that by (simp add: unat_of_nat_u64)
  let ?W = "map (\<lambda>j. (WorkerThd, word_of_nat j)) [0..<unat w]"
  have 1: "spawn WorkerThd (\<lambda>id. id < w) (w - 1) ([], 0) =
      Some (map (\<lambda>j. (WorkerThd, word_of_nat j)) [0..<unat w - 1], w - 1)"
  proof -
    have "word_of_nat (unat w - 1) = w - 1" unfolding w1 [symmetric] by simp
    moreover have "0 + word_of_nat j < w" if "j < unat w - 1" for j
      using that sz lt0 [of j] by (simp add: word_less_nat_alt)
    ultimately show ?thesis
      using spawn_ids [of "unat w - 1" "\<lambda>id. id < w" 0 WorkerThd "[]"] unfolding spawn_def w1 by simp
  qed
  have "[0..<unat w] = [0..<unat w - 1] @ [unat w - 1]" using sz(1) by (metis Suc_pred' le0 upt_Suc_append)
  moreover have "word_of_nat (unat w - 1) = w - 1" unfolding w1 [symmetric] by simp
  ultimately have W: "?W = map (\<lambda>j. (WorkerThd, word_of_nat j)) [0..<unat w - 1] @ [(WorkerThd, w - 1)]" by simp
  have "w - 1 < w" using w1 sz(1) by (simp add: word_less_nat_alt)
  then have 2: "spawn WorkerThd (\<lambda>id. id < w) 1 (map (\<lambda>j. (WorkerThd, word_of_nat j)) [0..<unat w - 1], w - 1) = Some (?W, w)"
    by (simp add: spawn_def W)
  have 3: "spawn InputThd (\<lambda>id. id \<ge> w \<and> id < w + r) r (?W, w) =
      Some (?W @ map (\<lambda>j. (InputThd, w + word_of_nat j)) [0..<unat r], w + r)"
    using spawn_ids [of "unat r" "\<lambda>id. id \<ge> w \<and> id < w + r" w InputThd ?W] sz lt add(1)
    by (simp add: spawn_def word_less_nat_alt word_le_nat_alt)
  have 4: "spawn OutputThd (\<lambda>id. id \<ge> w + r \<and> id < w + r + q) q (V, w + r) =
      Some (V @ map (\<lambda>j. (OutputThd, w + r + word_of_nat j)) [0..<unat q], w + r + q)" for V
    using spawn_ids [of "unat q" "\<lambda>id. id \<ge> w + r \<and> id < w + r + q" "w + r" OutputThd V] sz lt [of "w + r"] add
    by (simp add: spawn_def word_less_nat_alt word_le_nat_alt)
  show ?thesis
    unfolding start_threads_def Let_def w_def [symmetric] r_def [symmetric] q_def [symmetric] u [symmetric]
    by (simp add: t [symmetric] 1 2 3 4 del: One_nat_def)
qed

section \<open>The exchange of keys\<close>

definition kx_alg :: "KeyExchange \<Rightarrow> string" where
  "kx_alg k = take 4 (pkey k)"

definition is_key :: "u64 \<Rightarrow> KeyExchange \<Rightarrow> bool" where
  "is_key i k \<longleftrightarrow> kx_return_node k = i \<and> (kx_alg k = ''CMA-'' \<or> kx_alg k = ''ED2-'')"

definition is_share :: "KeyExchange \<Rightarrow> bool" where
  "is_share k \<longleftrightarrow> kx_alg k = ''SECP''"

definition exchange_state :: "env \<Rightarrow> KeyExchange list \<Rightarrow> node \<Rightarrow> bool" where
  "exchange_state e ks s \<longleftrightarrow>
     (\<forall>i. receivedKeys s i = (if i < totnodes e \<and> i \<noteq> node_id e then 2 else 0) - word_of_nat (length (filter (is_key i) ks))) \<and>
     secp_keys s = insert (node_id e) (kx_return_node ` set (filter is_share ks))"

lemma exchange_state_step:
  assumes "exchange_state e ks s" and "4 \<le> length (pkey k)" and "kx_return_node k < totnodes e"
  shows "\<exists>s1. exchange_state e (ks @ [k]) s1 \<and> outbox s1 = outbox s \<and>
    process_key_exchange e k s = Some (if all_keys e s1
      then fold (\<lambda>i. send_out (MReady (new_Message e READY)) [i]) (u64_upto (node_cnt e) (totnodes e)) s1 else s1)"
proof -
  define s1 where "s1 = store_key (kx_alg k) (k\<lparr>pkey := drop 4 (pkey k)\<rparr>) s"
  have "exchange_state e (ks @ [k]) s1"
    using assms(1) by (auto simp: exchange_state_def s1_def store_key_def Let_def is_key_def is_share_def)
  moreover have "outbox s1 = outbox s" by (simp add: s1_def store_key_def Let_def)
  moreover have "process_key_exchange e k s = Some (if all_keys e s1
      then fold (\<lambda>i. send_out (MReady (new_Message e READY)) [i]) (u64_upto (node_cnt e) (totnodes e)) s1 else s1)"
    using assms(2,3) by (simp add: process_key_exchange_def s1_def kx_alg_def Let_def)
  ultimately show ?thesis by blast
qed

lemma exchange_prefix:
  assumes "ks = ps @ k # qs" and "exchange_state e ps s"
    and "\<forall>i < totnodes e. length (filter (is_key i) ks) = (if i = node_id e then 0 else 2)"
    and "\<forall>k \<in> set ks. kx_return_node k < totnodes e \<and> (is_share k \<or> is_key (kx_return_node k) k)"
    and "distinct (map kx_return_node (filter is_share ks))"
    and "set (map kx_return_node (filter is_share ks)) = {i. i < node_cnt e \<and> i \<noteq> node_id e}"
    and "node_id e < node_cnt e"
  shows "\<not> all_keys e s"
proof (cases "is_share k")
  case True
  let ?i = "kx_return_node k"
  have i: "?i \<in> {i. i < node_cnt e \<and> i \<noteq> node_id e}"
    using True assms(1) unfolding assms(6) [symmetric] by auto
  define S where "S = kx_return_node ` set (filter is_share ps)"
  have "secp_keys s = insert (node_id e) S" using assms(2) by (simp add: exchange_state_def S_def)
  moreover have "S \<subseteq> {i. i < node_cnt e \<and> i \<noteq> node_id e}"
    unfolding assms(6) [symmetric] S_def using assms(1) by auto
  moreover have "?i \<notin> S" using assms(1,5) True by (auto simp: S_def)
  ultimately have "secp_keys s \<subseteq> {i. i < node_cnt e} - {?i}" using i assms(7) by auto
  then have "card (secp_keys s) \<le> card ({i. i < node_cnt e} - {?i})" by (intro card_mono) auto
  also have "\<dots> < card {i. i < node_cnt e}" using i by (intro card_Diff1_less) auto
  also have "card {i. i < node_cnt e} = unat (g_node_cnt e)"
  proof -
    have "{i. i < node_cnt e} = set (u64_upto 0 (node_cnt e))" using set_u64_range by blast
    then show ?thesis using distinct_card [OF distinct_u64_upto, of 0 "node_cnt e"] by (simp add: u64_upto_def)
  qed
  finally show ?thesis by (simp add: all_keys_def)
next
  case False
  let ?i = "kx_return_node k"
  have k: "is_key ?i k" "?i < totnodes e" using False assms(1,4) by auto
  have n: "length (filter (is_key ?i) ks) = 2" using assms(3) k(2) assms(1) k(1) by (metis (no_types, lifting) filter.simps(2) filter_append length_append length_Cons add_is_0 nat.distinct(1))
  moreover have "length (filter (is_key ?i) ks) = length (filter (is_key ?i) ps) + Suc (length (filter (is_key ?i) qs))"
    using assms(1) k(1) by simp
  ultimately have l: "length (filter (is_key ?i) ps) = 0 \<or> length (filter (is_key ?i) ps) = 1" by linarith
  have "?i \<noteq> node_id e" using n assms(3) k(2) by auto
  then have "receivedKeys s ?i = 2 - word_of_nat (length (filter (is_key ?i) ps))"
    using assms(2) k(2) by (simp add: exchange_state_def)
  with l have "receivedKeys s ?i \<noteq> 0" by auto
  moreover have "?i \<in> set (u64_upto 0 (totnodes e))" using k(2) set_u64_range by blast
  ultimately show ?thesis by (auto simp: all_keys_def list_all_iff)
qed

text \<open>
  Two keys from every other node and a share from every other replica, in whatever order they
  arrive: the last message makes the replica send READY to every client, and no other does.
\<close>

theorem key_exchange_ready:
  assumes srv: "node_id e < node_cnt e" and ne: "ks \<noteq> []"
    and two: "\<forall>i < totnodes e. length (filter (is_key i) ks) = (if i = node_id e then 0 else 2)"
    and wf: "\<forall>k \<in> set ks. kx_return_node k < totnodes e \<and> (is_share k \<or> is_key (kx_return_node k) k)"
    and shares: "distinct (map kx_return_node (filter is_share ks))"
      "set (map kx_return_node (filter is_share ks)) = {i. i < node_cnt e \<and> i \<noteq> node_id e}"
  shows "\<exists>s. fold_option (process_key_exchange e) ks (init_node e k0) = Some s \<and>
    outbox s = map (\<lambda>i. (MReady (new_Message e READY), [i])) (u64_upto (node_cnt e) (totnodes e))"
proof -
  have len: "4 \<le> length (pkey k)" if "k \<in> set ks" for k
  proof -
    have "length (kx_alg k) = 4" using wf that by (auto simp: is_share_def is_key_def)
    then show ?thesis by (simp add: kx_alg_def)
  qed
  have pre: "\<exists>s. fold_option (process_key_exchange e) ps (init_node e k0) = Some s \<and> exchange_state e ps s \<and> outbox s = []"
    if "ks = ps @ qs" "qs \<noteq> []" for ps qs
    using that
  proof (induction ps arbitrary: qs rule: rev_induct)
    case Nil
    then show ?case by (simp add: exchange_state_def init_node_def totnodes_def)
  next
    case (snoc k ps)
    then obtain s where s: "fold_option (process_key_exchange e) ps (init_node e k0) = Some s" "exchange_state e ps s" "outbox s = []"
      using snoc.IH [of "k # qs"] by auto
    have k: "k \<in> set ks" using snoc.prems(1) by simp
    obtain s1 where s1: "exchange_state e (ps @ [k]) s1" "outbox s1 = outbox s" "process_key_exchange e k s = Some (if all_keys e s1
        then fold (\<lambda>i. send_out (MReady (new_Message e READY)) [i]) (u64_upto (node_cnt e) (totnodes e)) s1 else s1)"
      using exchange_state_step [OF s(2) len [OF k]] wf k by blast
    obtain k' qs' where "qs = k' # qs'" using snoc.prems(2) by (cases qs) auto
    then have "\<not> all_keys e s1" using exchange_prefix [OF _ s1(1) two wf shares srv, of k' qs'] snoc.prems(1) by simp
    then show ?case using s s1 by (simp add: fold_option_append)
  qed
  obtain ps k where ks: "ks = ps @ [k]" using ne by (cases ks rule: rev_cases) auto
  then obtain s where s: "fold_option (process_key_exchange e) ps (init_node e k0) = Some s" "exchange_state e ps s" "outbox s = []"
    using pre [of ps "[k]"] by auto
  obtain s1 where s1: "exchange_state e ks s1" "outbox s1 = []" "process_key_exchange e k s = Some (if all_keys e s1
      then fold (\<lambda>i. send_out (MReady (new_Message e READY)) [i]) (u64_upto (node_cnt e) (totnodes e)) s1 else s1)"
    using exchange_state_step [OF s(2) len, of k] wf ks s(3) by auto
  have "receivedKeys s1 i = 0" if "i < totnodes e" for i using s1(1) two that by (simp add: exchange_state_def)
  moreover have "secp_keys s1 = {i. i < node_cnt e}"
    using s1(1) shares(2) srv by (auto simp: exchange_state_def)
  moreover have "card {i. i < node_cnt e} = unat (g_node_cnt e)"
  proof -
    have "{i. i < node_cnt e} = set (u64_upto 0 (node_cnt e))" using set_u64_range by blast
    then show ?thesis using distinct_card [OF distinct_u64_upto, of 0 "node_cnt e"] by (simp add: u64_upto_def)
  qed
  ultimately have all: "all_keys e s1" by (auto simp: all_keys_def list_all_iff set_u64_range)
  have out: "outbox (fold (\<lambda>i. send_out m [i]) xs s) = outbox s @ map (\<lambda>i. (m, [i])) xs" for m xs s
    by (induction xs arbitrary: s) (simp_all add: send_out_def)
  show ?thesis using s(1) s1 all by (simp add: ks fold_option_append out)
qed

text \<open>
  What the replicas send.  A client puts the receiver into the destinations of both keys; a replica
  sends its CMAC keys to nobody.
\<close>

lemma send_key_outbox:
  "outbox (send_key e s) = outbox s @ concat (map (\<lambda>i.
     [(keyex_msg e (''ED2-'' @ g_public_key (keys s)), [i]), (keyex_msg e (''CMA-'' @ cmacPrivateKeys (keys s) i), [])])
       (other_nodes e (g_node_cnt e + g_client_node_cnt e)))"
proof -
  have "outbox (fold (\<lambda>i s. send_out (keyex_msg e (''CMA-'' @ cmacPrivateKeys (keys s) i)) []
            (send_out (keyex_msg e (''ED2-'' @ g_public_key (keys s))) [i] s)) xs s) = outbox s @ concat (map (\<lambda>i.
     [(keyex_msg e (''ED2-'' @ g_public_key (keys s)), [i]), (keyex_msg e (''CMA-'' @ cmacPrivateKeys (keys s) i), [])]) xs)" for xs
    by (induction xs arbitrary: s) (simp_all add: send_out_def)
  then show ?thesis by (simp add: send_key_def)
qed

text \<open>A replica that gets only one of the two keys of some node never sends READY.\<close>

theorem no_ready_without_cmac:
  assumes "i < totnodes e" and "i \<noteq> node_id e"
  shows "length (filter (is_key i) ks) \<le> 1 \<Longrightarrow> \<forall>k \<in> set ks. kx_return_node k < totnodes e \<and> 4 \<le> length (pkey k) \<Longrightarrow>
    \<exists>s. fold_option (process_key_exchange e) ks (init_node e k0) = Some s \<and> exchange_state e ks s \<and> outbox s = []"
proof (induction ks rule: rev_induct)
  case Nil
  then show ?case by (simp add: exchange_state_def init_node_def totnodes_def)
next
  case (snoc k ks)
  have "length (filter (is_key i) ks) \<le> 1" using snoc.prems(1) by (auto split: if_splits)
  then obtain s where s: "fold_option (process_key_exchange e) ks (init_node e k0) = Some s" "exchange_state e ks s" "outbox s = []"
    using snoc.IH snoc.prems(2) by auto
  obtain s1 where s1: "exchange_state e (ks @ [k]) s1" "outbox s1 = outbox s" "process_key_exchange e k s = Some (if all_keys e s1
      then fold (\<lambda>i. send_out (MReady (new_Message e READY)) [i]) (u64_upto (node_cnt e) (totnodes e)) s1 else s1)"
    using exchange_state_step [OF s(2), of k] snoc.prems(2) by auto
  have rk: "receivedKeys s1 i = 2 - word_of_nat (length (filter (is_key i) (ks @ [k])))"
    using conjunct1 [OF s1(1) [unfolded exchange_state_def], THEN spec, of i] assms by (simp del: filter_append)
  have "length (filter (is_key i) (ks @ [k])) = 0 \<or> length (filter (is_key i) (ks @ [k])) = 1"
    using snoc.prems(1) by linarith
  then have "receivedKeys s1 i \<noteq> 0" unfolding rk by (elim disjE) (simp_all only: of_nat_0 of_nat_1, simp_all)
  moreover have "i \<in> set (u64_upto 0 (totnodes e))" using assms(1) by (simp add: set_u64_range)
  ultimately have "\<not> all_keys e s1" by (auto simp: all_keys_def list_all_iff)
  then show ?case using s s1 by (simp add: fold_option_append)
qed

end
