(* ===== verification/Client_Start_Up.thy ===== *)
theory Client_Start_Up
  imports Start_Up Transport
begin

text \<open>
  The start of a client's threads (\<open>main\<close> of \<^verbatim>\<open>client/client_main.cpp\<close>; the keys are set up as
  in a replica, see \<open>Start_Up\<close>).  The identifiers are handed out in the order client, input, output threads,
  without the assertions of the replica's \<open>main\<close>.
\<close>

definition g_total_client_thread_cnt :: "transport_config \<Rightarrow> u32" where
  "g_total_client_thread_cnt c = g_client_thread_cnt c + g_client_rem_thread_cnt c + g_client_send_thread_cnt c"

definition client_start_threads :: "transport_config \<Rightarrow> (thread_kind \<times> u64) list option" where
  "client_start_threads c =
     (let thd_cnt = ucast (g_client_thread_cnt c); rthd_cnt = ucast (g_client_rem_thread_cnt c);
          sthd_cnt = ucast (g_client_send_thread_cnt c)
      in if thd_cnt + rthd_cnt + sthd_cnt \<noteq> (ucast (g_total_client_thread_cnt c) :: u64) then None
         else do {
           st \<leftarrow> spawn ClientThd (\<lambda>_. True) thd_cnt ([], 0);
           st \<leftarrow> spawn InputThd (\<lambda>_. True) rthd_cnt st;
           (ts, _) \<leftarrow> spawn OutputThd (\<lambda>_. True) sthd_cnt st;
           Some ts })"

lemma spawn_all:
  "spawn kind (\<lambda>_. True) n (ts, id0) = Some (ts @ map (\<lambda>j. (kind, id0 + word_of_nat j)) [0..<unat n], id0 + n)"
  using spawn_ids [of "unat n" "\<lambda>_. True" id0 kind ts] by (simp add: spawn_def)

lemma client_threads_numbered:
  assumes "unat (g_client_thread_cnt c) + unat (g_client_rem_thread_cnt c) + unat (g_client_send_thread_cnt c) < 2 ^ 32"
  shows "client_start_threads c = Some (map (\<lambda>j. (ClientThd, word_of_nat j)) [0..<unat (g_client_thread_cnt c)] @
    map (\<lambda>j. (InputThd, ucast (g_client_thread_cnt c) + word_of_nat j)) [0..<unat (g_client_rem_thread_cnt c)] @
    map (\<lambda>j. (OutputThd, ucast (g_client_thread_cnt c) + ucast (g_client_rem_thread_cnt c) + word_of_nat j))
      [0..<unat (g_client_send_thread_cnt c)])"
proof -
  have "ucast (g_client_thread_cnt c) + ucast (g_client_rem_thread_cnt c) + ucast (g_client_send_thread_cnt c) =
      (ucast (g_total_client_thread_cnt c) :: u64)"
    using assms by (simp add: word_unat_eq_iff g_total_client_thread_cnt_def unat_word_ariths)
  then show ?thesis by (simp add: client_start_threads_def Let_def spawn_all)
qed

text \<open>
  A sum that does not fit 32 bits stops the client: \<open>g_total_client_thread_cnt\<close> wraps around and the 64-bit sum of
  \<open>main\<close> does not.
\<close>

lemma client_threads_overflow:
  assumes "2 ^ 32 \<le> unat (g_client_thread_cnt c) + unat (g_client_rem_thread_cnt c) + unat (g_client_send_thread_cnt c)"
  shows "client_start_threads c = None"
proof -
  let ?s = "ucast (g_client_thread_cnt c) + ucast (g_client_rem_thread_cnt c) + ucast (g_client_send_thread_cnt c) :: u64"
  have lt: "unat (w :: u32) < 2 ^ 32" for w by (rule unat_u32_less)
  have "unat ?s = unat (g_client_thread_cnt c) + unat (g_client_rem_thread_cnt c) + unat (g_client_send_thread_cnt c)"
    using lt [of "g_client_thread_cnt c"] lt [of "g_client_rem_thread_cnt c"] lt [of "g_client_send_thread_cnt c"]
    by (simp add: unat_add_u64)
  moreover have "unat (ucast (g_total_client_thread_cnt c) :: u64) < 2 ^ 32" using lt by simp
  ultimately have "?s \<noteq> ucast (g_total_client_thread_cnt c)" using assms by (metis not_le)
  then show ?thesis by (simp add: client_start_threads_def Let_def)
qed

end
