(* ===== verification/Batch_Messages.thy ===== *)
theory Batch_Messages
  imports Worker Smart_Contracts
begin

text \<open>
  The message classes of \<^verbatim>\<open>transport/message.cpp\<close> that \<open>create_message\<close> does not build in
  the configuration of the repository: \<open>BatchRequests\<close>, the proposal of the protocols other than
  SpotLess, with the \<open>set_txn_man_fields\<close> that handles it; \<open>BankingSmartContractMessage\<close>, the request of a
  client with \<open>BANKING_SMART_CONTRACT\<close>; \<open>QueryMessage\<close>, \<open>YCSBQueryMessage\<close> and \<open>ClientQueryMessage\<close>.
  \<open>BatchRequests\<close> has the fields and the wire format of \<open>SpotLessProposalMsg\<close>, so its codec is that of the
  proposal; it signs less, and its \<open>release\<close> leaves the hash behind.
\<close>

section \<open>BatchRequests\<close>

record BatchRequests =
  br_base :: Message
  br_view :: u64
  br_index :: "u64 list"
  br_requestMsg :: "YCSBClientQueryMessage option list"
  br_hashSize :: u64
  br_hash :: string
  br_batch_size :: u32

definition new_Batch :: "env \<Rightarrow> RemReqType \<Rightarrow> BatchRequests" where
  "new_Batch e rt = \<lparr>br_base = new_Message e rt, br_view = 0, br_index = [], br_requestMsg = [],
     br_hashSize = 0, br_hash = '''', br_batch_size = 0\<rparr>"

definition br_requests :: "env \<Rightarrow> BatchRequests \<Rightarrow> YCSBClientQueryMessage list option" where
  "br_requests e m = Option.bind (first_n (batch_n e) (br_requestMsg m)) those"

definition Batch_get_size :: "env \<Rightarrow> BatchRequests \<Rightarrow> nat option" where
  "Batch_get_size e m = do {
     qs \<leftarrow> br_requests e m;
     Some (mget_size (br_base m) + 8 + 8 * length (br_index m) + 8 + length (br_hash m)
           + sum_list (map YCSB_get_size qs) + 4) }"

definition Batch_add_request_msg :: "nat \<Rightarrow> YCSBClientQueryMessage \<Rightarrow> BatchRequests \<Rightarrow> BatchRequests option" where
  "Batch_add_request_msg idx msg m =
     (if idx < length (br_requestMsg m)
      then Some (m\<lparr>br_requestMsg := (br_requestMsg m)[idx := Some msg]\<rparr>) else None)"

definition Batch_init :: "env \<Rightarrow> node \<Rightarrow> u64 \<Rightarrow> BatchRequests \<Rightarrow> BatchRequests option" where
  "Batch_init e s thd_id m =
     (if get_current_view s thd_id = node_id e
      then Some (m\<lparr>br_view := get_current_view s thd_id, br_index := [],
             br_requestMsg := take (batch_n e) (br_requestMsg m) @ replicate (batch_n e - length (br_requestMsg m)) None\<rparr>)
      else None)"

definition Batch_copy_request :: "env \<Rightarrow> TxnManager \<Rightarrow> YCSBClientQueryMessage \<Rightarrow> BatchRequests \<Rightarrow> BatchRequests option" where
  "Batch_copy_request e t clqry m = do {
     bfr \<leftarrow> YCSB_copy_to_buf e clqry (replicate (YCSB_get_size clqry) CHR 0x00);
     yqry \<leftarrow> create_query e bfr;
     m \<leftarrow> Batch_add_request_msg (unat (tm_txn_id t mod get_batch_size e)) yqry m;
     if length (br_index m) < batch_n e then Some (m\<lparr>br_index := br_index m @ [tm_txn_id t]\<rparr>) else None }"

definition Batch_copy_from_txn :: "env \<Rightarrow> TxnManager \<Rightarrow> BatchRequests \<Rightarrow> BatchRequests" where
  "Batch_copy_from_txn e t m =
     m\<lparr>br_base := (br_base m)\<lparr>m_txn_id := tm_txn_id t - 2\<rparr>, br_batch_size := ucast (get_batch_size e),
       br_hash := tm_hash t, br_hashSize := tm_hashSize t\<rparr>"

definition Batch_release :: "BatchRequests \<Rightarrow> BatchRequests option" where
  \<comment> \<open>\<open>release_message\<close> dereferences every pointer\<close>
  "Batch_release m = (if None \<in> set (br_requestMsg m) then None else Some (m\<lparr>br_index := [], br_requestMsg := []\<rparr>))"

definition Batch_read :: "env \<Rightarrow> BatchRequests \<Rightarrow> Message \<Rightarrow> string \<Rightarrow> nat \<Rightarrow> (BatchRequests \<times> nat) option" where
  "Batch_read e this b buf ptr = do {
     (vw, ptr) \<leftarrow> COPY_VAL_u64 buf ptr;
     this \<leftarrow> Batch_release this;
     (entries, ptr) \<leftarrow> read_n (read_entry e) (batch_n e) buf ptr;
     (hsz, ptr) \<leftarrow> COPY_VAL_u64 buf ptr;
     (h, ptr) \<leftarrow> buf_to_string buf ptr (br_hash this) (unat hsz);
     (bsz, ptr) \<leftarrow> COPY_VAL_u32 buf ptr;
     Some (this\<lparr>br_base := b, br_view := vw, br_index := map fst entries,
        br_requestMsg := map (Some \<circ> snd) entries, br_hashSize := hsz, br_hash := h, br_batch_size := bsz\<rparr>, ptr) }"

definition Batch_copy_from_buf :: "env \<Rightarrow> BatchRequests \<Rightarrow> string \<Rightarrow> BatchRequests option" where
  "Batch_copy_from_buf e this buf = copy_from_buf_with e (br_base this) (Batch_read e this) (Batch_get_size e) buf"

definition Batch_entries :: "env \<Rightarrow> BatchRequests \<Rightarrow> writer list option" where
  "Batch_entries e m = do {
     idx \<leftarrow> first_n (batch_n e) (br_index m);
     qs \<leftarrow> br_requests e m;
     Some (concat (map (\<lambda>(i, q). [COPY_BUF (u64_bytes i),
        COPY_NESTED (YCSB_copy_to_buf e q) (YCSB_get_size q)]) (zip idx qs))) }"

definition Batch_writers :: "env \<Rightarrow> BatchRequests \<Rightarrow> writer list" where
  "Batch_writers e m =
     [COPY_BUF (u64_bytes (br_view m)), COPY_CHECKED (Batch_entries e m), COPY_BUF (u64_bytes (br_hashSize m))] @
     map (\<lambda>c. COPY_BUF [c]) (br_hash m) @ [COPY_BUF (u32_bytes (br_batch_size m))]"

definition Batch_copy_to_buf :: "env \<Rightarrow> u64 \<Rightarrow> BatchRequests \<Rightarrow> string \<Rightarrow> string option" where
  "Batch_copy_to_buf e now m buf = copy_to_buf_with now (br_base m) (Batch_writers e m) (Batch_get_size e m) buf"

definition Batch_getString :: "env \<Rightarrow> u64 \<Rightarrow> BatchRequests \<Rightarrow> string option" where
  "Batch_getString e sender m = do {
     idx \<leftarrow> first_n (batch_n e) (br_index m);
     qs \<leftarrow> br_requests e m;
     Some (to_string sender @ concat (map (\<lambda>(i, q). to_string i @ YCSB_getRequestString q) (zip idx qs)) @ br_hash m) }"

definition Batch_sign :: "env \<Rightarrow> keystore \<Rightarrow> u64 \<Rightarrow> BatchRequests \<Rightarrow> BatchRequests option" where
  "Batch_sign e k dest_node m = do {
     message \<leftarrow> Batch_getString e (node_id e) m;
     Some (m\<lparr>br_base := set_signature (signingNodeNode e k message dest_node) (br_base m)\<rparr>) }"

text \<open>Every failed check is also an assertion, so the method never returns false.\<close>

definition Batch_validate :: "env \<Rightarrow> keystore \<Rightarrow> node \<Rightarrow> u64 \<Rightarrow> BatchRequests \<Rightarrow> bool option" where
  "Batch_validate e k s thd_id m = do {
     message \<leftarrow> Batch_getString e (m_return_node_id (br_base m)) m;
     ok \<leftarrow> validateNodeNode e k message (m_pubKey (br_base m)) (m_signature (br_base m)) (m_return_node_id (br_base m));
     if \<not> ok then None else do {
       qs \<leftarrow> br_requests e m;
       if br_hash m \<noteq> calculateHash e (concat (map YCSB_getString qs)) then None
       else if br_view m \<noteq> get_current_view s thd_id then None
       else Some True } }"

text \<open>\<open>set_txn_man_fields(BatchRequests*, bid)\<close>; the managers are those of \<open>bid = 0\<close>.\<close>

definition Batch_setup_txn :: "env \<Rightarrow> u64 \<Rightarrow> u64 \<Rightarrow> YCSBClientQueryMessage \<Rightarrow> node \<Rightarrow> node option" where
  "Batch_setup_txn e ret tid clqry s = do {
     s \<leftarrow> unset_ready_txn e tid (get_tman e tid s);
     let s = upd_tman e tid (\<lambda>t. t\<lparr>tm_return_id := ret\<rparr>) s;
     s \<leftarrow> init_txn_man e clqry tid s;
     set_ready_txn e tid s }"

definition Batch_set_txn_man_fields :: "env \<Rightarrow> BatchRequests \<Rightarrow> u64 \<Rightarrow> node \<Rightarrow> (u64 \<times> node) option" where
  "Batch_set_txn_man_fields e breq tid0 s = do {
     idx \<leftarrow> first_n (batch_n e) (br_index breq);
     qs \<leftarrow> br_requests e breq;
     s \<leftarrow> fold_option (\<lambda>(tid, q). Batch_setup_txn e (m_return_node_id (br_base breq)) tid q) (zip idx qs) s;
     let tid = (if idx = [] then tid0 else last idx);
     s \<leftarrow> unset_ready_txn e tid s;
     Some (tid, upd_tman e tid (set_hash (br_hash breq)) s) }"

subsection \<open>The format is that of a proposal\<close>

definition as_prop :: "BatchRequests \<Rightarrow> SpotLessProposalMsg" where
  "as_prop m = \<lparr>prop_base = br_base m, prop_view = br_view m, prop_index = br_index m,
     prop_requestMsg = br_requestMsg m, prop_hashSize = br_hashSize m, prop_hash = br_hash m,
     prop_batch_size = br_batch_size m\<rparr>"

definition of_prop :: "SpotLessProposalMsg \<Rightarrow> BatchRequests" where
  "of_prop m = \<lparr>br_base = prop_base m, br_view = prop_view m, br_index = prop_index m,
     br_requestMsg = prop_requestMsg m, br_hashSize = prop_hashSize m, br_hash = prop_hash m,
     br_batch_size = prop_batch_size m\<rparr>"

lemma as_of_prop [simp]: "as_prop (of_prop p) = p" "of_prop (as_prop m) = m"
  by (simp_all add: as_prop_def of_prop_def)

lemma as_prop_simps [simp]:
  "prop_base (as_prop m) = br_base m" "prop_requests e (as_prop m) = br_requests e m"
  "prop_hash (as_prop m) = br_hash m" "prop_index (as_prop m) = br_index m" "prop_view (as_prop m) = br_view m"
  by (simp_all add: as_prop_def prop_requests_def br_requests_def)

lemma Batch_size_prop: "Batch_get_size e m = Proposal_get_size e (as_prop m)"
  by (simp add: Batch_get_size_def Proposal_get_size_def)

lemma Batch_to_buf_prop: "Batch_copy_to_buf e now m buf = Proposal_copy_to_buf e now (as_prop m) buf"
proof -
  have "Batch_writers e m = Proposal_writers e (as_prop m)"
    by (simp add: Batch_writers_def Proposal_writers_def Batch_entries_def Proposal_entries_def)
      (simp add: as_prop_def)
  then show ?thesis by (simp add: Batch_copy_to_buf_def Proposal_copy_to_buf_def Batch_size_prop)
qed

lemma Batch_from_buf_prop:
  "Batch_copy_from_buf e (new_Batch e rt) buf = map_option of_prop (Proposal_copy_from_buf e (new_Proposal e rt) buf)"
proof -
  have "Batch_read e (new_Batch e rt) b buf ptr =
      map_option (apfst of_prop) (Proposal_read e (new_Proposal e rt) b buf ptr)" for b ptr
    by (simp add: Batch_read_def Proposal_read_def new_Batch_def new_Proposal_def Batch_release_def of_prop_def
        split: Option.bind_split prod.splits)
  then show ?thesis
    by (auto simp: Batch_copy_from_buf_def Proposal_copy_from_buf_def copy_from_buf_with_def new_Batch_def new_Proposal_def
        Batch_size_prop split: Option.bind_split prod.splits)
qed

definition br_wire :: "env \<Rightarrow> u64 \<Rightarrow> BatchRequests \<Rightarrow> BatchRequests" where
  "br_wire e now m = of_prop (prop_wire e now (as_prop m))"

interpretation brq: wire_codec "Batch_get_size e" "Batch_copy_to_buf e now" "Batch_copy_from_buf e (new_Batch e rt)"
    "\<lambda>m. prop_enc now (as_prop m)" "br_wire e now" "\<lambda>m. prop_ok e (as_prop m)" for e now rt
  by unfold_locales
    (simp_all add: Batch_size_prop Batch_to_buf_prop Batch_from_buf_prop br_wire_def prp.size prp.to_buf prp.from_buf prp.wire_size)

subsection \<open>What differs from a proposal\<close>

text \<open>
  \<open>release\<close> leaves \<open>hash\<close> as it is and \<open>buf_to_string\<close> appends, so a message cannot be read into an object
  that has held one: the size at the end of \<open>copy_from_buf\<close> is wrong.
\<close>

lemma buf_to_string_size:
  "buf_to_string buf ptr str n = Some (s, ptr') \<Longrightarrow> ptr' = ptr + n \<and> length s = length str + n"
  by (induction n arbitrary: ptr str)
    (fastforce simp: COPY_VAL_def split: Option.bind_splits prod.splits if_splits)+

lemma read_entry_size:
  "read_entry e buf ptr = Some ((i, q), ptr') \<Longrightarrow> ptr' = ptr + 8 + YCSB_get_size q"
  by (auto simp: read_entry_def read_query_def COPY_VAL_u64_def COPY_VAL_def split: Option.bind_splits prod.splits if_splits)

lemma read_entries_size:
  "read_n (read_entry e) n buf ptr = Some (es, ptr') \<Longrightarrow>
   length es = n \<and> ptr' = ptr + 8 * n + sum_list (map (YCSB_get_size \<circ> snd) es)"
  by (induction n arbitrary: ptr es) (fastforce dest!: read_entry_size split: Option.bind_splits prod.splits)+

theorem batch_object_not_reusable:
  assumes "br_hash this \<noteq> []"
  shows "Batch_copy_from_buf e this buf = None"
proof -
  have False if b: "Batch_read e this b buf (mget_size b) = Some (m, ptr)" and sz: "Batch_get_size e m = Some ptr" for b m ptr
  proof -
    from b obtain es vw hsz h bsz p1 p2 p3 p4 where es: "read_n (read_entry e) (batch_n e) buf p1 = Some (es, p2)"
      and v: "COPY_VAL_u64 buf (mget_size b) = Some (vw, p1)" "COPY_VAL_u64 buf p2 = Some (hsz, p3)"
      and h: "buf_to_string buf p3 (br_hash this) (unat hsz) = Some (h, p4)" "COPY_VAL_u32 buf p4 = Some (bsz, ptr)"
      and m: "br_base m = b" "br_index m = map fst es" "br_requestMsg m = map (Some \<circ> snd) es" "br_hash m = h"
      by (auto simp: Batch_read_def Batch_release_def split: Option.bind_splits prod.splits if_splits)
    have "those (map (Some \<circ> snd) es) = Some (map snd es)" for es :: "(u64 \<times> YCSBClientQueryMessage) list"
      by (induction es) auto
    then have "br_requests e m = Some (map snd es)"
      using read_entries_size [OF es] by (simp add: br_requests_def m(3) del: map_map)
    then have "ptr = mget_size b + 8 + 8 * length es + 8 + length h + sum_list (map (YCSB_get_size \<circ> snd) es) + 4"
      using sz by (simp add: Batch_get_size_def m)
    moreover have "p1 = mget_size b + 8" "p3 = p2 + 8" "ptr = p4 + 4"
      using v h(2) by (auto simp: COPY_VAL_u64_def COPY_VAL_u32_def COPY_VAL_def split: if_splits)
    moreover have "p4 = p3 + unat hsz" "length h = length (br_hash this) + unat hsz"
      using buf_to_string_size [OF h(1)] by simp_all
    ultimately show False using read_entries_size [OF es] assms by simp
  qed
  then show ?thesis
    by (auto simp: Batch_copy_from_buf_def copy_from_buf_with_def split: Option.bind_split prod.splits)
qed

text \<open>The view is neither signed nor hashed: a valid message is valid with the view of any later time.\<close>

lemma batch_view_unsigned:
  "Batch_getString e sender (m\<lparr>br_view := v\<rparr>) = Batch_getString e sender m"
  "Batch_validate e k s thd_id m = Some True \<Longrightarrow>
   Batch_validate e k s' thd_id' (m\<lparr>br_view := get_current_view s' thd_id'\<rparr>) = Some True"
  by (auto simp: Batch_getString_def Batch_validate_def br_requests_def split: Option.bind_splits if_splits)

lemma batch_validated:
  assumes "Batch_validate e k s thd_id m = Some r"
  shows "r \<and> br_view m = get_current_view s thd_id \<and>
    (\<exists>qs. br_requests e m = Some qs \<and> br_hash m = calculateHash e (concat (map YCSB_getString qs)))"
  using assms by (auto simp: Batch_validate_def split: Option.bind_splits if_splits)

section \<open>BankingSmartContractMessage\<close>

text \<open>
  No header: the fields that travel are the type, the sender, the time of the client, the inputs and the kind of
  contract.  The type is kept as its number, since \<open>BSC_MSG\<close> is a member of the enumeration in this configuration only.
\<close>

record ContractMessage =
  cm_rtype :: u32
  cm_return_node_id :: u64
  cm_client_startts :: u64
  cm_contract :: BankingSmartContractMessage

fun bsc_code :: "BSCType \<Rightarrow> u32" where
  "bsc_code BSC_TRANSFER = 0"
| "bsc_code BSC_DEPOSIT = 1"
| "bsc_code BSC_WITHDRAW = 2"

definition bsc_of_code :: "u32 \<Rightarrow> BSCType option" where
  "bsc_of_code n = (if n = 0 then Some BSC_TRANSFER else if n = 1 then Some BSC_DEPOSIT
     else if n = 2 then Some BSC_WITHDRAW else None)"

definition BSC_get_size :: "ContractMessage \<Rightarrow> nat" where
  "BSC_get_size m = 4 + 8 + 8 + 8 + 8 * length (inputs (cm_contract m)) + 4"

definition BSC_copy_to_buf :: "ContractMessage \<Rightarrow> string \<Rightarrow> string option" where
  "BSC_copy_to_buf m buf = do {
     (buf, ptr) \<leftarrow> run_writers ([COPY_BUF (u32_bytes (cm_rtype m)), COPY_BUF (u64_bytes (cm_return_node_id m)),
         COPY_BUF (u64_bytes (cm_client_startts m)), COPY_BUF (size_bytes (length (inputs (cm_contract m))))] @
       map (\<lambda>i. COPY_BUF (u64_bytes i)) (inputs (cm_contract m)) @
       [COPY_BUF (u32_bytes (bsc_code (bsc_type (cm_contract m))))]) (buf, 0);
     if ptr = BSC_get_size m then Some buf else None }"

definition BSC_read :: "string \<Rightarrow> nat \<Rightarrow> (ContractMessage \<times> nat) option" where
  "BSC_read buf ptr = do {
     (rt, ptr) \<leftarrow> COPY_VAL_u32 buf ptr;
     (ret, ptr) \<leftarrow> COPY_VAL_u64 buf ptr;
     (ts, ptr) \<leftarrow> COPY_VAL_u64 buf ptr;
     (sz, ptr) \<leftarrow> COPY_VAL_size buf ptr;
     (ins, ptr) \<leftarrow> read_n COPY_VAL_u64 sz buf ptr;
     (k, ptr) \<leftarrow> COPY_VAL_u32 buf ptr;
     k \<leftarrow> bsc_of_code k;
     Some (\<lparr>cm_rtype = rt, cm_return_node_id = ret, cm_client_startts = ts,
        cm_contract = \<lparr>bsc_type = k, inputs = ins\<rparr>\<rparr>, ptr) }"

definition BSC_copy_from_buf :: "string \<Rightarrow> ContractMessage option" where
  "BSC_copy_from_buf buf = do {
     (this, ptr) \<leftarrow> BSC_read buf 0;
     if ptr = BSC_get_size this then Some this else None }"

definition BSC_getRequestString :: "ContractMessage \<Rightarrow> string" where
  "BSC_getRequestString m = concat (map (\<lambda>i. to_string i @ '' '') (inputs (cm_contract m)))"

definition BSC_getString :: "ContractMessage \<Rightarrow> string" where
  "BSC_getString m = BSC_getRequestString m @ '' '' @ to_string (cm_client_startts m)"

definition bsc_enc :: "ContractMessage \<Rightarrow> string" where
  "bsc_enc m = u32_bytes (cm_rtype m) @ u64_bytes (cm_return_node_id m) @ u64_bytes (cm_client_startts m) @
     size_bytes (length (inputs (cm_contract m))) @ concat (map u64_bytes (inputs (cm_contract m))) @
     u32_bytes (bsc_code (bsc_type (cm_contract m)))"

definition bsc_ok :: "ContractMessage \<Rightarrow> bool" where
  "bsc_ok m \<longleftrightarrow> length (inputs (cm_contract m)) < 2 ^ 64"

lemma bsc_of_code [simp]: "bsc_of_code (bsc_code k) = Some k"
  by (cases k) (simp_all add: bsc_of_code_def)

lemma length_bsc_enc [size_simps]: "length (bsc_enc m) = BSC_get_size m"
  by (simp add: bsc_enc_def BSC_get_size_def size_simps)

lemma reads_BSC:
  assumes "bsc_ok m"
  shows "reads BSC_read (bsc_enc m) m"
  unfolding BSC_read_def [abs_def] bsc_enc_def
  by (rule reads_bind reads_bind_check reads_values reads_u64s refl assms [unfolded bsc_ok_def] | simp)+

lemma BSC_to_buf:
  assumes "BSC_get_size m \<le> length buf"
  shows "BSC_copy_to_buf m buf = Some (bsc_enc m @ drop (length (bsc_enc m)) buf)"
proof -
  have "emits ([COPY_BUF (u32_bytes (cm_rtype m)), COPY_BUF (u64_bytes (cm_return_node_id m)),
         COPY_BUF (u64_bytes (cm_client_startts m)), COPY_BUF (size_bytes (length (inputs (cm_contract m))))] @
       map (\<lambda>i. COPY_BUF (u64_bytes i)) (inputs (cm_contract m)) @
       [COPY_BUF (u32_bytes (bsc_code (bsc_type (cm_contract m))))]) (bsc_enc m)"
    unfolding bsc_enc_def by (auto intro!: emits_intros emits_map)
  from emitsD [OF this, of 0 buf] assms show ?thesis by (simp add: BSC_copy_to_buf_def length_bsc_enc)
qed

interpretation bsc: wire_codec "\<lambda>m. Some (BSC_get_size m)" BSC_copy_to_buf BSC_copy_from_buf bsc_enc "\<lambda>m. m" bsc_ok
  using readsD [OF reads_BSC, of _ "[]" 0]
  by unfold_locales (simp_all add: BSC_to_buf BSC_copy_from_buf_def length_bsc_enc)

text \<open>
  A contract keeps its kind and its inputs on the way to a replica, but what it signs does not name its kind: a deposit
  and a withdrawal of the same amount have the same string.
\<close>

lemma contract_kind_unsigned:
  "BSC_getString (m\<lparr>cm_contract := (cm_contract m)\<lparr>bsc_type := k\<rparr>\<rparr>) = BSC_getString m"
  by (simp add: BSC_getString_def BSC_getRequestString_def)

section \<open>QueryMessage, YCSBQueryMessage, ClientQueryMessage\<close>

record YCSBQueryMessage =
  yq_base :: Message
  yq_reqs :: "ycsb_request list"

record ClientQueryMessage =
  cq_base :: Message
  cq_client_startts :: u64
  cq_first_startts :: u64
  cq_partitions :: "u64 list"

definition Query_get_size :: "Message \<Rightarrow> nat" where
  "Query_get_size m = mget_size m"

definition YQ_get_size :: "YCSBQueryMessage \<Rightarrow> nat" where
  "YQ_get_size m = Query_get_size (yq_base m) + 8 + 16 * length (yq_reqs m)"

definition YQ_writers :: "YCSBQueryMessage \<Rightarrow> writer list" where
  "YQ_writers m = COPY_BUF (size_bytes (length (yq_reqs m))) #
     map (\<lambda>r. COPY_BUF (u64_bytes (req_key r) @ u64_bytes (req_value r))) (yq_reqs m)"

definition YQ_copy_to_buf :: "u64 \<Rightarrow> YCSBQueryMessage \<Rightarrow> string \<Rightarrow> string option" where
  "YQ_copy_to_buf now m buf = copy_to_buf_with now (yq_base m) (YQ_writers m) (Some (YQ_get_size m)) buf"

definition YQ_read :: "env \<Rightarrow> Message \<Rightarrow> string \<Rightarrow> nat \<Rightarrow> (YCSBQueryMessage \<times> nat) option" where
  "YQ_read e b buf ptr = do {
     (sz, ptr) \<leftarrow> COPY_VAL_size buf ptr;
     if unat (g_req_per_query e) < sz then None else do {
       (reqs, ptr) \<leftarrow> read_n (read_request e) sz buf ptr;
       Some (\<lparr>yq_base = b, yq_reqs = reqs\<rparr>, ptr) } }"

definition YQ_copy_from_buf :: "env \<Rightarrow> YCSBQueryMessage \<Rightarrow> string \<Rightarrow> YCSBQueryMessage option" where
  "YQ_copy_from_buf e this buf = copy_from_buf_with e (yq_base this) (YQ_read e) (\<lambda>m. Some (YQ_get_size m)) buf"

definition YQ_copy_from_txn :: "TxnManager \<Rightarrow> YCSBQueryMessage \<Rightarrow> YCSBQueryMessage" where
  "YQ_copy_from_txn t m = m\<lparr>yq_base := mcopy_from_txn t (yq_base m), yq_reqs := []\<rparr>"

definition CQ_get_size :: "ClientQueryMessage \<Rightarrow> nat" where
  "CQ_get_size m = mget_size (cq_base m) + 8 + 8 + 8 * length (cq_partitions m)"

definition CQ_writers :: "ClientQueryMessage \<Rightarrow> writer list" where
  "CQ_writers m = [COPY_BUF (u64_bytes (cq_client_startts m)), COPY_BUF (size_bytes (length (cq_partitions m)))] @
     map (\<lambda>p. COPY_BUF (u64_bytes p)) (cq_partitions m)"

definition CQ_copy_to_buf :: "u64 \<Rightarrow> ClientQueryMessage \<Rightarrow> string \<Rightarrow> string option" where
  "CQ_copy_to_buf now m buf = do {
     buf \<leftarrow> mcopy_to_buf now (cq_base m) buf;
     (buf, ptr) \<leftarrow> run_writers (CQ_writers m) (buf, mget_size (cq_base m));
     Some buf }"

definition CQ_copy_from_buf :: "env \<Rightarrow> ClientQueryMessage \<Rightarrow> string \<Rightarrow> ClientQueryMessage option" where
  "CQ_copy_from_buf e this buf = do {
     b \<leftarrow> mcopy_from_buf e (cq_base this) buf;
     (ts, ptr) \<leftarrow> COPY_VAL_u64 buf (mget_size b);
     (sz, ptr) \<leftarrow> COPY_VAL_size buf ptr;
     (ps, ptr) \<leftarrow> read_n COPY_VAL_u64 sz buf ptr;
     Some (this\<lparr>cq_base := b, cq_client_startts := ts, cq_partitions := ps\<rparr>) }"

definition CQ_release :: "ClientQueryMessage \<Rightarrow> ClientQueryMessage" where
  "CQ_release m = m\<lparr>cq_partitions := [], cq_first_startts := 0\<rparr>"

definition yq_fields :: "YCSBQueryMessage \<Rightarrow> string" where
  "yq_fields m = size_bytes (length (yq_reqs m)) @ concat (map request_enc (yq_reqs m))"

definition yq_ok :: "env \<Rightarrow> YCSBQueryMessage \<Rightarrow> bool" where
  "yq_ok e m \<longleftrightarrow> header_ok (yq_base m) \<and> length (yq_reqs m) \<le> unat (g_req_per_query e) \<and>
     (\<forall>r \<in> set (yq_reqs m). req_key r < g_synth_table_size e)"

definition new_YQ :: "env \<Rightarrow> RemReqType \<Rightarrow> YCSBQueryMessage" where
  "new_YQ e rt = \<lparr>yq_base = new_Message e rt, yq_reqs = []\<rparr>"

definition new_CQ :: "env \<Rightarrow> RemReqType \<Rightarrow> ClientQueryMessage" where
  "new_CQ e rt = \<lparr>cq_base = new_Message e rt, cq_client_startts = 0, cq_first_startts = 0, cq_partitions = []\<rparr>"

definition cq_fields :: "ClientQueryMessage \<Rightarrow> string" where
  "cq_fields m = u64_bytes (cq_client_startts m) @ size_bytes (length (cq_partitions m)) @
     concat (map u64_bytes (cq_partitions m))"

lemma length_requests [size_simps]: "length (concat (map request_enc rs)) = 16 * length rs"
  by (induction rs) (auto simp: request_enc_def)

lemma emits_YQ: "emits (YQ_writers m) (yq_fields m)"
  unfolding YQ_writers_def yq_fields_def
  by (intro emits_COPY_BUF_Cons emits_map) (simp add: request_enc_def emits_COPY_BUF)

lemma reads_YQ:
  assumes "yq_ok e m"
  shows "reads (YQ_read e (header_wire e now (yq_base m))) (yq_fields m) (m\<lparr>yq_base := header_wire e now (yq_base m)\<rparr>)"
proof -
  have n: "length (yq_reqs m) < 2 ^ 64" "\<not> unat (g_req_per_query e) < length (yq_reqs m)"
    using assms unsigned_less [of "g_req_per_query e", where 'a = nat] by (auto simp: yq_ok_def)
  have "reads (read_n (read_request e) (length (yq_reqs m))) (concat (map request_enc (yq_reqs m))) (yq_reqs m)"
    using assms reads_read_n [of "yq_reqs m" "read_request e" request_enc id] by (simp add: yq_ok_def reads_request)
  then have rs: "reads (\<lambda>buf ptr. Option.bind (read_n (read_request e) (length (yq_reqs m)) buf ptr)
      (\<lambda>(reqs, ptr). Some (\<lparr>yq_base = header_wire e now (yq_base m), yq_reqs = reqs\<rparr>, ptr)))
      (concat (map request_enc (yq_reqs m))) (m\<lparr>yq_base := header_wire e now (yq_base m)\<rparr>)"
    by (rule reads_bind_return) simp
  show ?thesis
    unfolding YQ_read_def [abs_def] yq_fields_def
    by (rule reads_bind [OF reads_values(3) [OF n(1)]]) (use n(2) rs in simp)
qed

interpretation yq: wire_codec "\<lambda>m. Some (YQ_get_size m)" "YQ_copy_to_buf now" "YQ_copy_from_buf e (new_YQ e rt)"
    "\<lambda>m. header_enc now (yq_base m) @ yq_fields m" "\<lambda>m. m\<lparr>yq_base := header_wire e now (yq_base m)\<rparr>" "yq_ok e" for e now rt
  using wire_codec_skeleton [where ok = "yq_ok e" and base = yq_base and writers = YQ_writers and fs = yq_fields
      and gs = "\<lambda>m. Some (YQ_get_size m)" and rd = "YQ_read e" and wr = "\<lambda>m. m\<lparr>yq_base := header_wire e now (yq_base m)\<rparr>"
      and e = e and now = now and rt = rt, OF _ emits_YQ _ reads_YQ]
  by (simp add: YQ_copy_to_buf_def [abs_def] YQ_copy_from_buf_def [abs_def] new_YQ_def yq_ok_def YQ_get_size_def
      Query_get_size_def yq_fields_def size_simps)

text \<open>A client query message is read back, whatever the buffer held.\<close>

lemma client_query_round_trip:
  assumes "header_ok (cq_base m)" and "length (cq_partitions m) < 2 ^ 64" and "length buf = CQ_get_size m"
  shows "Option.bind (CQ_copy_to_buf now m buf) (CQ_copy_from_buf e (new_CQ e rt)) =
    Some (m\<lparr>cq_base := header_wire e now (cq_base m), cq_first_startts := 0\<rparr>)"
proof -
  let ?h = "header_enc now (cq_base m)" and ?ps = "concat (map u64_bytes (cq_partitions m))"
  have e: "emits (CQ_writers m) (cq_fields m)"
    unfolding CQ_writers_def cq_fields_def by (auto intro!: emits_intros emits_map)
  have len: "length (cq_fields m) = 8 + 8 + 8 * length (cq_partitions m)" by (simp add: cq_fields_def size_simps)
  have "CQ_copy_to_buf now m buf = Some (?h @ cq_fields m)"
    using emitsD [OF e, of "mget_size (cq_base m)" "?h @ drop (mget_size (cq_base m)) buf"] assms(3) len
    by (simp add: CQ_copy_to_buf_def CQ_get_size_def mcopy_to_buf [OF assms(1)] length_header_enc)
  moreover have "COPY_VAL_u64 (?h @ cq_fields m) (length ?h) = Some (cq_client_startts m, length ?h + 8)"
    "COPY_VAL_size (?h @ cq_fields m) (length ?h + 8) = Some (length (cq_partitions m), length ?h + 16)"
    "read_n COPY_VAL_u64 (length (cq_partitions m)) (?h @ cq_fields m) (length ?h + 16) =
      Some (cq_partitions m, length ?h + 16 + length ?ps)"
    using readsD [OF reads_values(1), of "?h" "length ?h" "cq_client_startts m"]
      readsD [OF reads_values(3) [OF assms(2)], of "?h @ u64_bytes (cq_client_startts m)" "length ?h + 8" ?ps]
      readsD [OF reads_u64s [OF refl], of "?h @ u64_bytes (cq_client_startts m) @ size_bytes (length (cq_partitions m))"
        "length ?h + 16" "cq_partitions m" "[]"]
    by (simp_all add: cq_fields_def)
  ultimately show ?thesis
    using mcopy_from_buf [OF assms(1), of e rt now "cq_fields m"]
    by (simp add: CQ_copy_from_buf_def new_CQ_def length_header_enc)
qed

end
