(* ===== verification/Block_Log.thy ===== *)
theory Block_Log
  imports Txn_Messages
begin

text \<open>
  The chain of executed batches (\<^verbatim>\<open>blockchain/chain.cpp\<close>), which \<open>ENABLE_CHAIN\<close> adds to the
  execution; the switch is off in the repository.  \<open>batchreq\<close> is the pointer of the manager to the batch of the
  primary; \<open>create_message\<close> builds what it points to, so it is a message of the classes in \<open>Packets\<close>.  The
  call of \<open>add_commit_proof\<close> is commented out, so \<open>commit_proof\<close> stays empty.
\<close>

record BChainStruct =
  blk_txn_id :: u64
  batch_info :: msg
  commit_proof :: "msg list"

text \<open>A null pointer has no size.\<close>

definition add_batch :: "env \<Rightarrow> u64 \<Rightarrow> msg option \<Rightarrow> msg option" where
  "add_batch e now batchreq = do {
     m \<leftarrow> batchreq;
     sz \<leftarrow> msg_get_size e m;
     deep_copy_msg e now (replicate sz CHR 0x00) m }"

definition add_commit_proof :: "env \<Rightarrow> u64 \<Rightarrow> msg \<Rightarrow> BChainStruct \<Rightarrow> BChainStruct option" where
  "add_commit_proof e now m blk = do {
     sz \<leftarrow> msg_get_size e m;
     c \<leftarrow> deep_copy_msg e now (replicate sz CHR 0x00) m;
     Some (blk\<lparr>commit_proof := commit_proof blk @ [c]\<rparr>) }"

definition add_block :: "env \<Rightarrow> u64 \<Rightarrow> u64 \<Rightarrow> msg option \<Rightarrow> BChainStruct list \<Rightarrow> BChainStruct list option" where
  "add_block e now tid batchreq chain = do {
     b \<leftarrow> add_batch e now batchreq;
     Some (chain @ [\<lparr>blk_txn_id = tid, batch_info = b, commit_proof = []\<rparr>]) }"

text \<open>\<open>remove_block\<close>: the first block with the identifier, which is then released.\<close>

fun remove_block :: "u64 \<Rightarrow> BChainStruct list \<Rightarrow> BChainStruct list \<times> BChainStruct option" where
  "remove_block tid [] = ([], None)"
| "remove_block tid (blk # chain) =
     (if blk_txn_id blk = tid then (chain, Some blk) else apfst ((#) blk) (remove_block tid chain))"

abbreviation block_ids :: "BChainStruct list \<Rightarrow> u64 list" where
  "block_ids \<equiv> map blk_txn_id"

lemma add_block_ok:
  assumes "msg_ok e m"
  shows "add_block e now tid (Some m) chain = Some (chain @ [\<lparr>blk_txn_id = tid, batch_info = msg_wire e now m, commit_proof = []\<rparr>])"
proof -
  have sz: "msg_get_size e m = Some (length (msg_enc now m))" by (rule pk.size [OF assms])
  then have "deep_copy_msg e now (replicate (length (msg_enc now m)) CHR 0x00) m = Some (msg_wire e now m)"
    using pk.round_trip [OF assms, of "replicate (length (msg_enc now m)) CHR 0x00" now] by (simp add: deep_copy_msg_def)
  then show ?thesis by (simp add: add_block_def add_batch_def sz)
qed

lemma remove_block_ids: "block_ids (fst (remove_block tid chain)) = remove1 tid (block_ids chain)"
  by (induction chain) auto

lemma remove_block_found:
  "snd (remove_block tid chain) = Some b \<Longrightarrow> blk_txn_id b = tid \<and> b \<in> set chain"
  "snd (remove_block tid chain) = None \<longleftrightarrow> tid \<notin> set (block_ids chain)"
  by (induction chain) (auto split: if_splits)

text \<open>
  A history of the log: the blocks in the log are those added and not removed, in the order of their execution, when
  every batch is executed once.
\<close>

datatype log_event = Add u64 msg | Remove u64

fun log_step :: "env \<Rightarrow> u64 \<Rightarrow> log_event \<Rightarrow> BChainStruct list \<Rightarrow> BChainStruct list option" where
  "log_step e now (Add tid m) chain = add_block e now tid (Some m) chain"
| "log_step e now (Remove tid) chain = Some (fst (remove_block tid chain))"

fun log_ids :: "log_event list \<Rightarrow> u64 list \<Rightarrow> u64 list" where
  "log_ids [] ids = ids"
| "log_ids (Add tid m # evs) ids = log_ids evs (ids @ [tid])"
| "log_ids (Remove tid # evs) ids = log_ids evs (filter (\<lambda>i. i \<noteq> tid) ids)"

fun executed_once :: "log_event list \<Rightarrow> u64 set \<Rightarrow> bool" where
  "executed_once [] seen \<longleftrightarrow> True"
| "executed_once (Add tid m # evs) seen \<longleftrightarrow> tid \<notin> seen \<and> executed_once evs (insert tid seen)"
| "executed_once (Remove tid # evs) seen \<longleftrightarrow> executed_once evs seen"

theorem log_history:
  assumes "executed_once evs seen" and "set (block_ids chain) \<subseteq> seen" and "distinct (block_ids chain)"
    and "\<forall>tid m. Add tid m \<in> set evs \<longrightarrow> msg_ok e m"
  shows "\<exists>chain'. fold_option (log_step e now) evs chain = Some chain' \<and>
    block_ids chain' = log_ids evs (block_ids chain) \<and> distinct (block_ids chain')"
  using assms
proof (induction evs arbitrary: chain seen)
  case (Cons ev evs)
  show ?case
  proof (cases ev)
    case (Add tid m)
    let ?b = "\<lparr>blk_txn_id = tid, batch_info = msg_wire e now m, commit_proof = []\<rparr>"
    have "log_step e now ev chain = Some (chain @ [?b])" using Cons.prems(4) by (simp add: Add add_block_ok)
    moreover have "\<exists>chain'. fold_option (log_step e now) evs (chain @ [?b]) = Some chain' \<and>
        block_ids chain' = log_ids evs (block_ids (chain @ [?b])) \<and> distinct (block_ids chain')"
      using Cons.prems by (intro Cons.IH [of "insert tid seen"]) (auto simp: Add)
    ultimately show ?thesis by (simp add: Add)
  next
    case (Remove tid)
    let ?c = "fst (remove_block tid chain)"
    have ids: "block_ids ?c = filter (\<lambda>i. i \<noteq> tid) (block_ids chain)"
      using Cons.prems(3) by (simp add: remove_block_ids distinct_remove1_removeAll removeAll_filter_not_eq) (metis (lifting))
    have "\<exists>chain'. fold_option (log_step e now) evs ?c = Some chain' \<and>
        block_ids chain' = log_ids evs (block_ids ?c) \<and> distinct (block_ids chain')"
      using Cons.prems by (intro Cons.IH [of seen]) (auto simp: Remove ids)
    then show ?thesis by (simp add: Remove ids)
  qed
qed simp

text \<open>
  In SpotLess the pointer is null: \<open>set_primarybatch\<close> stores the proposal in \<open>propmsg\<close>, and \<open>init\<close> clears
  \<open>batchreq\<close>.  With the switch on, the first execution stops there.
\<close>

lemma chain_of_nothing: "add_block e now tid None chain = None"
  by (simp add: add_block_def add_batch_def)

end
