(* ===== verification/Equivocation.thy ===== *)
theory Equivocation
  imports Start_Up
begin

text \<open>
  The faulty primary that \<open>EQUIV_TEST\<close> compiles into a replica (\<^verbatim>\<open>system/txn.cpp\<close>,
  \<^verbatim>\<open>system/worker_thread_hotstuff.cpp\<close>): it proposes two batches with one identifier, sends the second
  one to a group of victims, tells the other faulty replicas both hashes, and votes for both.  The switch is off in
  the repository.  The second hash of a manager, \<open>hash2\<close>, is a map of its own; \<open>hashSize2\<close> is always its
  length.  The lemmas show who receives what, that the two hashes travel in one field and are recovered, and that the
  receivers of the second hash cannot certify it.
\<close>

definition EQUIV_FREQ :: u64 where "EQUIV_FREQ = 3"
definition EQUIV_ID :: u64 where "EQUIV_ID = 2"
definition EQ_VICTIM_ID :: u64 where "EQ_VICTIM_ID = 1"
definition EQUIV_CNT :: u64 where "EQUIV_CNT = 1"

definition is_victim :: "u64 \<Rightarrow> bool" where
  "is_victim i \<longleftrightarrow> i mod EQUIV_FREQ = EQ_VICTIM_ID"

definition is_equivocator :: "u64 \<Rightarrow> bool" where
  "is_equivocator i \<longleftrightarrow> i mod EQUIV_FREQ = EQUIV_ID \<and> i div EQUIV_FREQ < EQUIV_CNT"

section \<open>Votes and generic messages\<close>

text \<open>The three destinations: the replicas that get the first hash, the victims, the other faulty replicas.\<close>

definition generic_dests :: "env \<Rightarrow> u64 list \<times> u64 list \<times> u64 list" where
  "generic_dests e =
     (let others = other_nodes e (g_node_cnt e)
      in (filter (\<lambda>i. \<not> is_victim i \<and> \<not> is_equivocator i) others,
          filter is_victim others,
          filter (\<lambda>i. \<not> is_victim i \<and> is_equivocator i) others))"

definition send_nonempty :: "msg \<Rightarrow> u64 list \<Rightarrow> node \<Rightarrow> node" where
  "send_nonempty m dest s = (if dest = [] then s else send_out m dest s)"

definition equivocate_generic :: "env \<Rightarrow> (u64 \<Rightarrow> string) \<Rightarrow> u64 \<Rightarrow> node \<Rightarrow> node option" where
  "equivocate_generic e hash2 tid s =
     (let t = tman e s tid;
          qc = g_preparedQC s (tm_instance_id t);
          base = (new_Generic_txn e s t)\<lparr>gen_highQC := qc\<rparr>;
          hash3 = take (unat (tm_hashSize t + word_of_nat (length (hash2 tid)))) (tm_hash t @ hash2 tid);
          gene = Generic_digital_sign e (keys s) base;
          gene2 = Generic_digital_sign e (keys s)
            (base\<lparr>gen_hash := hash2 tid, gen_hashSize := word_of_nat (length (hash2 tid))\<rparr>);
          gene3 = Generic_digital_sign e (keys s) (base\<lparr>gen_hash := hash3, gen_hashSize := word_of_nat (length hash3)\<rparr>);
          s = upd_tman e tid (\<lambda>t. t\<lparr>tm_highQC := qc, tm_psig_share := m_psig_share (gen_base gene)\<rparr>) s;
          (dest, dest2, dest3) = generic_dests e
      in if tm_hash t = '''' \<or> gen_hashSize gene3 \<noteq> 64 then None
         else Some (send_nonempty (MGeneric gene3) dest3 (send_nonempty (MGeneric gene2) dest2
                (send_nonempty (MGeneric gene) dest s))))"

definition vote_for :: "bool \<Rightarrow> u64 \<Rightarrow> bool" where
  \<comment> \<open>whether a replica is sent the vote for the second hash (\<open>is_equi\<close>) or for the first\<close>
  "vote_for is_equi i \<longleftrightarrow> is_equi \<and> is_victim i \<or> \<not> is_equi \<and> \<not> is_victim i"

definition equivocate_hotstuff_newview :: "env \<Rightarrow> (u64 \<Rightarrow> string) \<Rightarrow> bool \<Rightarrow> u64 \<Rightarrow> node \<Rightarrow> node" where
  "equivocate_hotstuff_newview e hash2 is_equi tid s =
     (let t = tman e s tid;
          dest_node_id = get_view_primary e (get_current_view s (tm_instance_id t) + 1) (tm_instance_id t);
          base = new_Sync_txn e s t;
          nv = (if is_equi then base\<lparr>sync_hash := hash2 tid, sync_hashSize := word_of_nat (length (hash2 tid))\<rparr> else base);
          force = (\<lambda>m. m\<lparr>sync_base := (sync_base m)\<lparr>m_force := (tm_instance_id t = 0 \<or> m_force (sync_base m))\<rparr>\<rparr>);
          nvmsg = Sync_digital_sign e (keys s) nv;
          nvmsg = nvmsg\<lparr>sync_base := (sync_base nvmsg)\<lparr>m_sig_empty := False\<rparr>\<rparr>;
          s = (if node_id e \<noteq> dest_node_id
               then (if vote_for is_equi dest_node_id then send_out (MSync (force nvmsg)) [dest_node_id] s else s)
               else if \<not> is_equi
               then upd_tman e tid (\<lambda>t. t\<lparr>tm_genericQC := (tm_genericQC t)\<lparr>signature_share_map :=
                      map_put (node_id e) (m_sig_share (sync_base nvmsg)) (signature_share_map (tm_genericQC t))\<rparr>\<rparr>) s
               else s);
          s = send_out (MSync (force nv)) (filter (vote_for is_equi) (sync_dests e dest_node_id)) s
      in if is_equi then s else upd_tman e tid (vote_own e) s)"

definition equivocate_generic_p :: "env \<Rightarrow> (u64 \<Rightarrow> string) \<Rightarrow> u64 \<Rightarrow> node \<Rightarrow> node option" where
  \<comment> \<open>the branch of \<open>process_hotstuff_generic_p\<close>\<close>
  "equivocate_generic_p e hash2 tid s = do {
     s \<leftarrow> equivocate_generic e hash2 tid s;
     let s = upd_tman e tid (\<lambda>t. t\<lparr>tm_generic_received := True\<rparr>) s;
     let s = equivocate_hotstuff_newview e hash2 False tid s;
     Some (equivocate_hotstuff_newview e hash2 True tid s) }"

definition process_equivocate_generic :: "env \<Rightarrow> SpotLessGenericMsg \<Rightarrow> u64 \<Rightarrow> (u64 \<Rightarrow> string) \<times> node \<Rightarrow>
    ((u64 \<Rightarrow> string) \<times> node) option" where
  "process_equivocate_generic e gene tid = (\<lambda>(hash2, s).
     let instance_id = m_instance_id (gen_base gene)
     in if get_view_primary e (get_current_view s instance_id) instance_id \<noteq> m_return_node_id (gen_base gene)
        then Some (hash2, s)
        else do {
          ok \<leftarrow> validate_msg e (keys s) (MGeneric gene);
          if word_of_nat (length (gen_hash gene)) \<noteq> gen_hashSize gene \<or> length (gen_hash gene) \<noteq> 64 then None
          else do {
            let half = unat (gen_hashSize gene div 2);
            let h2 = take half (drop half (gen_hash gene));
            let h = take half (gen_hash gene);
            if \<not> SafeNode s (gen_highQC gene) instance_id then Some (hash2, s)
            else do {
              let s = upd_tman e tid (\<lambda>t. (set_hash h t)\<lparr>tm_view := gen_view gene, tm_instance_id := instance_id\<rparr>) s;
              let hash2 = hash2(tid := h2);
              let s = upd_tman e tid (\<lambda>t. t\<lparr>tm_highQC := gen_highQC gene, tm_generic_received := True\<rparr>) s;
              let s = put_hash_to_QC instance_id (batch_hash (gen_highQC gene)) (gen_highQC gene) s;
              s \<leftarrow> (if viewNumber (gen_highQC gene) > viewNumber (g_preparedQC s instance_id)
                    then update_lockQC e (gen_highQC gene) (gen_view gene)
                           (tid - get_totInstances e * get_batch_size e) instance_id s
                    else Some s);
              let s = equivocate_hotstuff_newview e hash2 False tid s;
              let s = equivocate_hotstuff_newview e hash2 True tid s;
              s \<leftarrow> (if tm_new_viewed (tman e s tid) \<and> tm_proposal_received (tman e s tid) then advance_view e tid s else Some s);
              Some (hash2, s) } } })"

section \<open>Proposals\<close>

text \<open>The last query of the second batch: its first request writes 0 under the key 0.\<close>

definition forge_query :: "YCSBClientQueryMessage \<Rightarrow> YCSBClientQueryMessage option" where
  "forge_query q = (case yc_requests q of [] \<Rightarrow> None
     | r # rs \<Rightarrow> Some (q\<lparr>yc_requests := r\<lparr>req_key := 0, req_value := 0\<rparr> # rs\<rparr>))"

definition forge_last :: "YCSBClientQueryMessage list \<Rightarrow> YCSBClientQueryMessage list option" where
  "forge_last qs = map_option (\<lambda>q. butlast qs @ [q]) (forge_query (last qs))"

text \<open>The body of the loop; the two queries differ in the last round only.\<close>

definition equivocate_txn :: "env \<Rightarrow> u64 \<Rightarrow> u64 \<Rightarrow> u64 \<Rightarrow> u64 \<times> YCSBClientQueryMessage \<times> YCSBClientQueryMessage \<Rightarrow>
    SpotLessProposalMsg \<times> SpotLessProposalMsg \<times> node \<Rightarrow> (SpotLessProposalMsg \<times> SpotLessProposalMsg \<times> node) option" where
  "equivocate_txn e ret view instance_id = (\<lambda>(tid, clqry, clqry2) (prep, prep2, s). do {
     s \<leftarrow> unset_ready_txn e tid (get_tman e tid s);
     let s = upd_tman e tid (\<lambda>t. t\<lparr>tm_return_id := ret, tm_view := view, tm_instance_id := instance_id\<rparr>) s;
     s \<leftarrow> init_txn_man e clqry tid s;
     prep \<leftarrow> Proposal_copy_request e (tman e s tid) clqry prep;
     prep2 \<leftarrow> Proposal_copy_request e (tman e s tid) clqry2 prep2;
     s \<leftarrow> set_ready_txn e tid s;
     Some (prep, prep2, s) })"

definition equivocate :: "env \<Rightarrow> u64 \<Rightarrow> ClientQueryBatch \<Rightarrow> (u64 \<Rightarrow> string) \<times> node \<Rightarrow>
    (u64 \<times> (u64 \<Rightarrow> string) \<times> node) option" where
  "equivocate e now msg = (\<lambda>(hash2, s).
     let next_set = m_txn_id (cb_base msg);
         instance_id = next_set mod get_totInstances e;
         view = get_last_sent_view s instance_id;
         tids = map (\<lambda>i. get_next_txn_id e next_set + word_of_nat i) [0..<batch_n e]
     in do {
       prep \<leftarrow> Proposal_init e s instance_id (new_Proposal e SpotLess_PROPOSAL_MSG);
       prep2 \<leftarrow> Proposal_init e s instance_id (new_Proposal e SpotLess_PROPOSAL_MSG);
       qs \<leftarrow> first_n (batch_n e) (cqrySet msg);
       if qs = [] then None
       else do {
         qs2 \<leftarrow> forge_last qs;
         (prep, prep2, s) \<leftarrow> fold_option (equivocate_txn e (cb_return_node msg) view instance_id)
            (zip tids (zip qs qs2)) (prep, prep2, s);
         let tid = last tids;
         s \<leftarrow> unset_ready_txn e tid s;
         let hash = calculateHash e (concat (map YCSB_getString qs));
         let hash2 = hash2(tid := calculateHash e (concat (map YCSB_getString qs2)));
         if hash = '''' then None
         else do {
           let s = upd_tman e tid (set_hash hash) s;
           let s = put_hash_to_txnid instance_id hash tid s;
           let prep = Proposal_copy_from_txn e (tman e s tid) prep;
           let prep2 = (Proposal_copy_from_txn e (tman e s tid) prep2)\<lparr>prop_hash := hash2 tid\<rparr>;
           s \<leftarrow> set_primarybatch e now (MProposal prep) tid s;
           let s = upd_tman e tid (\<lambda>t. t\<lparr>tm_proposal_received := True\<rparr>) s;
           let others = other_nodes e (g_node_cnt e);
           let s = send_out (MProposal prep) (filter (\<lambda>i. \<not> is_victim i) others) s;
           Some (tid, hash2, send_out (MProposal prep2) (filter is_victim others) s) } } })"

section \<open>Who receives what\<close>

lemma set_other_nodes: "set (other_nodes e n) = {i. i < ucast n \<and> i \<noteq> node_id e}"
  by (auto simp: other_nodes_def set_u64_range)

lemma distinct_other_nodes: "distinct (other_nodes e n)"
  by (simp add: other_nodes_def distinct_u64_upto)

text \<open>Every other replica is in exactly one of the three destinations, once.\<close>

lemma generic_dests_partition:
  assumes "generic_dests e = (dest, dest2, dest3)"
  shows "distinct (dest @ dest2 @ dest3)" and "set (dest @ dest2 @ dest3) = {i. i < node_cnt e \<and> i \<noteq> node_id e}"
  using assms by (auto simp: generic_dests_def Let_def distinct_other_nodes set_other_nodes)

text \<open>The messages that are sent to a replica.\<close>

definition sent_to :: "u64 \<Rightarrow> (msg \<times> u64 list) list \<Rightarrow> msg list" where
  "sent_to i out = map fst (filter (\<lambda>(m, dest). i \<in> set dest) out)"

lemma sent_to_append [simp]: "sent_to i (xs @ ys) = sent_to i xs @ sent_to i ys"
  by (simp add: sent_to_def)

lemma outbox_send [simp]:
  "sent_to i (outbox (send_nonempty m dest s)) = sent_to i (outbox s) @ (if i \<in> set dest then [m] else [])"
  "sent_to i (outbox (send_out m dest s)) = sent_to i (outbox s) @ (if i \<in> set dest then [m] else [])"
  by (auto simp: send_nonempty_def send_out_def sent_to_def)

lemma outbox_upd_tman [simp]: "outbox (upd_tman e tid f s) = outbox s"
  by (simp add: upd_tman_def)

lemma gen_hash_sign [simp]: "gen_hash (Generic_digital_sign e k m) = gen_hash m"
  by (simp add: Generic_digital_sign_def Let_def)

theorem equivocate_generic_sent:
  assumes "equivocate_generic e hash2 tid s = Some s'" and "i < node_cnt e" and "i \<noteq> node_id e"
    and "length (tm_hash (tman e s tid)) = 32" and "length (hash2 tid) = 32" and "tm_hashSize (tman e s tid) = 32"
  shows "\<exists>g. sent_to i (outbox s') = sent_to i (outbox s) @ [MGeneric g] \<and>
    gen_hash g = (if is_victim i then hash2 tid else if is_equivocator i then tm_hash (tman e s tid) @ hash2 tid
      else tm_hash (tman e s tid))"
proof -
  have "i \<in> set (other_nodes e (g_node_cnt e))" using assms(2,3) by (simp add: set_other_nodes)
  moreover have "gen_hash (new_Generic_txn e s t) = tm_hash t" for t
    by (simp add: new_Generic_txn_def Generic_copy_from_txn_def Let_def)
  ultimately show ?thesis
    using assms(1,4-6) by (auto simp: equivocate_generic_def generic_dests_def Let_def split: if_splits)
qed

text \<open>Another faulty replica takes the two hashes apart again.\<close>

theorem hashes_recovered:
  assumes "process_equivocate_generic e gene tid (hash2, s) = Some (hash2', s')"
    and "gen_hash gene = h @ h2" and "length h = 32" and "length h2 = 32" and "SafeNode s (gen_highQC gene) (m_instance_id (gen_base gene))"
    and "get_view_primary e (get_current_view s (m_instance_id (gen_base gene))) (m_instance_id (gen_base gene)) =
      m_return_node_id (gen_base gene)"
  shows "hash2' = hash2(tid := h2)"
proof -
  have "gen_hashSize gene = 64"
    using assms by (auto simp: process_equivocate_generic_def Let_def split: Option.bind_splits if_splits)
  then have "unat (gen_hashSize gene div 2) = 32" by simp
  then show ?thesis
    using assms by (auto simp: process_equivocate_generic_def Let_def split: Option.bind_splits if_splits)
qed

section \<open>The second hash has no quorum\<close>

lemma card_victims:
  assumes "unat n = 3 * f + 1"
  shows "card {i :: u64. i < n \<and> is_victim i} = f"
proof -
  have eq: "is_victim i \<longleftrightarrow> unat i mod 3 = 1" for i
    by (simp add: is_victim_def EQUIV_FREQ_def EQ_VICTIM_ID_def word_unat_eq_iff unat_mod)
  have lt: "3 * k + 1 < 2 ^ 64" if "k < f" for k using that assms unat_u64_less [of n] by simp
  have "{i :: u64. i < n \<and> is_victim i} = (\<lambda>k. word_of_nat (3 * k + 1)) ` {..<f}"
  proof (intro set_eqI iffI)
    fix i :: u64
    assume "i \<in> {i. i < n \<and> is_victim i}"
    then have "unat i < 3 * f + 1" "unat i mod 3 = 1" using assms by (simp_all add: eq word_less_nat_alt)
    then obtain k where "unat i = 3 * k + 1" "k < f" by (intro that [of "unat i div 3"]) presburger+
    moreover have "i = word_of_nat (unat i)" by simp
    ultimately show "i \<in> (\<lambda>k. word_of_nat (3 * k + 1)) ` {..<f}" by auto
  next
    fix i :: u64
    assume "i \<in> (\<lambda>k. word_of_nat (3 * k + 1)) ` {..<f}"
    then obtain k where k: "k < f" "i = word_of_nat (3 * k + 1)" by auto
    then have "unat i = 3 * k + 1" using lt by (simp add: unat_of_nat_u64 del: of_nat_add of_nat_mult of_nat_Suc)
    with k(1) show "i \<in> {i. i < n \<and> is_victim i}" using assms by (simp add: eq word_less_nat_alt)
  qed
  moreover have "inj_on (\<lambda>k. word_of_nat (3 * k + 1) :: u64) {..<f}"
  proof (rule inj_onI)
    fix a b
    assume "a \<in> {..<f}" "b \<in> {..<f}" "word_of_nat (3 * a + 1) = (word_of_nat (3 * b + 1) :: u64)"
    then have "unat (word_of_nat (3 * a + 1) :: u64) = unat (word_of_nat (3 * b + 1) :: u64)" by simp
    then have "3 * a + 1 = 3 * b + 1" using lt [of a] lt [of b] \<open>a \<in> _\<close> \<open>b \<in> _\<close>
      by (simp only: unat_of_nat_u64 lessThan_iff)
    then show "a = b" by simp
  qed
  ultimately show ?thesis by (simp add: card_image)
qed

lemma equivocator_only_two: "is_equivocator i \<Longrightarrow> i = 2"
proof -
  assume "is_equivocator i"
  then have "unat i mod 3 = 2" "unat i div 3 < 1"
    by (simp_all add: is_equivocator_def EQUIV_FREQ_def EQUIV_ID_def EQUIV_CNT_def word_unat_eq_iff word_less_nat_alt unat_mod unat_div)
  then have "unat i = 2" by presburger
  then show "i = 2" by (simp add: word_unat_eq_iff)
qed

text \<open>
  The victims and the faulty replicas together are fewer than a quorum, and the others with the faulty ones reach it
  exactly: the attack needs every one of them.
\<close>

theorem second_hash_no_quorum:
  assumes "NODE_CNT e mod 3 = 1" and "V \<subseteq> {i. i < ucast (NODE_CNT e) \<and> (is_victim i \<or> is_equivocator i)}"
  shows "card V < unat (nf e)"
proof -
  obtain f where f: "unat (NODE_CNT e) = 3 * f + 1" "unat (nf e) = 2 * f + 1"
    using thresholds_3f1 [OF assms(1)] by metis
  let ?n = "ucast (NODE_CNT e) :: u64"
  have n: "unat ?n = 3 * f + 1" using f(1) by simp
  have "V \<subseteq> {i. i < ?n \<and> is_victim i} \<union> ({2} \<inter> {i. i < ?n})"
    using assms(2) equivocator_only_two by auto
  then have "card V \<le> card ({i. i < ?n \<and> is_victim i} \<union> ({2} \<inter> {i. i < ?n}))"
    by (intro card_mono) simp_all
  also have "\<dots> \<le> card {i. i < ?n \<and> is_victim i} + card ({2} \<inter> {i. i < ?n})" by (rule card_Un_le)
  also have "\<dots> \<le> f + (if 2 < ?n then 1 else 0)" by (simp add: card_victims [OF n])
  also have "\<dots> < unat (nf e)" using n by (auto simp: f(2) word_less_nat_alt)
  finally show ?thesis .
qed

lemma first_hash_quorum:
  assumes "NODE_CNT e mod 3 = 1"
  shows "card {i. i < ucast (NODE_CNT e) \<and> \<not> is_victim i} = unat (nf e)"
proof -
  obtain f where f: "unat (NODE_CNT e) = 3 * f + 1" "unat (nf e) = 2 * f + 1"
    using thresholds_3f1 [OF assms] by metis
  let ?n = "ucast (NODE_CNT e) :: u64"
  have "card {i. i < ?n \<and> \<not> is_victim i} = card ({i. i < ?n} - {i. i < ?n \<and> is_victim i})"
    by (rule arg_cong [of _ _ card]) auto
  also have "\<dots> = card {i. i < ?n} - card {i. i < ?n \<and> is_victim i}" by (rule card_Diff_subset) auto
  finally show ?thesis using f card_victims [of ?n f] by (simp add: card_replicas)
qed

text \<open>No replica is sent both votes, and every other replica is sent one of them.\<close>

lemma votes_split: "vote_for True i \<longleftrightarrow> \<not> vote_for False i"
  by (auto simp: vote_for_def)

theorem one_vote_each:
  assumes "i < node_cnt e" and "i \<noteq> node_id e" and "vote_for b i"
  shows "\<exists>v. sent_to i (outbox (equivocate_hotstuff_newview e hash2 b tid s)) = sent_to i (outbox s) @ [MSync v] \<and>
      sync_hash v = (if b then hash2 tid else tm_hash (tman e s tid))"
    and "sent_to i (outbox (equivocate_hotstuff_newview e hash2 (\<not> b) tid s)) = sent_to i (outbox s)"
proof -
  have d: "i \<in> set (sync_dests e d) \<longleftrightarrow> i \<noteq> d" for d
  proof -
    have "i \<in> word_of_nat ` {0..<unat (node_cnt e)}"
      using assms(1) by (intro image_eqI [of _ _ "unat i"]) (simp_all add: word_less_nat_alt)
    then show ?thesis using assms(2) by (auto simp: sync_dests_def)
  qed
  have h: "sync_hash (new_Sync_txn e s t) = tm_hash t" "sync_hash (Sync_digital_sign e k m) = sync_hash m" for t k m
    by (simp_all add: new_Sync_txn_def Sync_copy_from_txn_def Sync_digital_sign_def Let_def)
  show "\<exists>v. sent_to i (outbox (equivocate_hotstuff_newview e hash2 b tid s)) = sent_to i (outbox s) @ [MSync v] \<and>
      sync_hash v = (if b then hash2 tid else tm_hash (tman e s tid))"
    using assms(2,3) by (cases b) (auto simp: equivocate_hotstuff_newview_def Let_def d h)
  show "sent_to i (outbox (equivocate_hotstuff_newview e hash2 (\<not> b) tid s)) = sent_to i (outbox s)"
    using assms(2,3) by (cases b) (auto simp: equivocate_hotstuff_newview_def Let_def d vote_for_def)
qed

end
