(* ===== verification/Spec2Isabelle.thy ===== *)
theory Spec2Isabelle
  imports Sample_Io Table_Heap Txn_Stats Command_Line Helpers Plain_Execution Client_Start_Up Batch_Messages Block_Log Equivocation
begin

text \<open>
  \<^bold>\<open>SpotLess: a verified model of a replicated key-value store.\<close>

  SpotLess is a Byzantine fault-tolerant database.  Each of \<open>NODE_CNT\<close> replicas takes part in
  \<open>totInstances\<close> concurrent instances of a chained consensus protocol (three-chain commit rule,
  as in HotStuff); in view \<open>v\<close> instance \<open>i\<close> is led by replica \<open>(i + v) mod NODE_CNT\<close>.  Clients send
  batches of YCSB transactions; the primary of a view proposes a batch, the replicas vote for its
  hash, \<open>nf\<close> votes make a quorum certificate, a chain of certificates in consecutive views locks
  and commits, and committed batches are executed in one global order.

  \<^bold>\<open>The parts of the program and the theories that model them.\<close>  All paths are below
  \<^verbatim>\<open>src/\<close>.

  \<^item> \<^emph>\<open>Vocabulary.\<close>  \<open>Prelude\<close>: machine integers (\<open>u8\<close>, \<open>u32\<close>, \<open>u64\<close> are words, so that
    arithmetic wraps as in the code), byte buffers with the macros \<open>COPY_VAL\<close> and \<open>COPY_BUF\<close>
    (\<^verbatim>\<open>system/helper.h\<close>).
    \<open>Global_Config\<close>: the constants of \<^verbatim>\<open>config.h\<close> and \<^verbatim>\<open>system/global.h\<close> as the
    record \<open>env\<close>, thresholds (\<open>g_min_invalid_nodes\<close>, \<open>nf\<close>, \<open>fp1\<close>), the rotation of primaries.
    \<open>env\<close> also has the functions of third-party libraries as fields: hash functions, Ed25519, CMAC
    and secp256k1.
  \<^item> \<^emph>\<open>Messages\<close> (\<^verbatim>\<open>transport/message.cpp\<close>, \<^verbatim>\<open>blockchain/crypto.h\<close>).  \<open>Quorum_Certificate\<close>,
    \<open>Message_Base\<close>, \<open>Client_Messages\<close> and \<open>Consensus_Messages\<close> have one record per class with
    \<open>get_size\<close>, \<open>copy_to_buf\<close>, \<open>copy_from_buf\<close>, \<open>sign\<close> and \<open>validate\<close>; \<open>Txn_Messages\<close> has the
    \<open>copy_from_txn\<close> methods; \<open>Crypto\<close> has the signing wrappers; \<open>Packets\<close> has the datatype of all
    messages with its dispatch, \<open>create_message(s)\<close> and the packet buffers of
    \<^verbatim>\<open>transport/msg_thread.cpp\<close>.  The locale \<open>wire_codec\<close> is the contract of a message class (what
    is written in \<open>get_size\<close> bytes is read back, whatever follows); it is interpreted on every
    class and on the dispatch.
  \<^item> \<^emph>\<open>State of a replica.\<close>  \<open>Txn_Table\<close> has transaction managers, their pool and table
    (\<^verbatim>\<open>system/txn.cpp\<close>, \<^verbatim>\<open>system/txn_table.cpp\<close>, \<^verbatim>\<open>system/pool.cpp\<close>; locale \<open>txn_store\<close>),
    where a pointer to a manager is its identifier.  \<open>Pools\<close> (the other object pools, over addresses;
    locales \<open>object_pool\<close> and \<open>pushes\<close>), \<open>Linked_Lists\<close> (the list macros of
    \<^verbatim>\<open>system/helper.h\<close> on a heap of nodes) and \<open>Table_Heap\<close> (the table as linked nodes from a pool)
    are the memory below it, and \<open>Table_Heap\<close> proves that the memory refines the table;
    \<open>Database\<close> the store (\<^verbatim>\<open>db/in_memory_db.cpp\<close>; locale \<open>kv_store\<close>); \<open>Node_State\<close> the record
    \<open>node\<close> with the global variables of \<^verbatim>\<open>system/global.cpp\<close> and their accessors;
    \<open>Message_Queue\<close> and \<open>Work_Queue\<close> the queues between threads (\<^verbatim>\<open>system/msg_queue.cpp\<close>,
    \<^verbatim>\<open>system/work_queue_pvp.cpp\<close>).
  \<^item> \<^emph>\<open>Handlers.\<close>  \<open>Worker\<close> and \<open>Execution\<close> have the handlers of
    \<^verbatim>\<open>system/worker_thread_hotstuff.cpp\<close> (client batch, proposal, vote, generic message, new view,
    \<open>advance_view\<close>, \<open>skip_view\<close>, \<open>update_lockQC\<close>, \<open>send_execute_msg_hotstuff\<close>, execution);
    \<open>Worker_Thread\<close> has the rest of \<^verbatim>\<open>system/worker_thread.cpp\<close> (key exchange, checkpoints,
    \<open>process\<close>, \<open>exception_msg_handling\<close>) and \<open>worker_iteration\<close>, one round of
    \<open>WorkerThread::run\<close>.  A handler is a function from \<open>node\<close> to \<open>node option\<close>; \<open>None\<close> is a failed
    assertion, an access out of bounds or a loop that does not end.
  \<^item> \<^emph>\<open>Network.\<close>  \<open>Transport\<close> has the sockets and ports of a node, the sender's choice of a socket
    and the receiver's search (\<^verbatim>\<open>transport/transport.cpp\<close>; locale \<open>polling\<close>, interpreted for the
    walk of a replica and that of a client); \<open>Io_Threads\<close> has the simulation manager and
    the input threads with the two phases of a run (\<^verbatim>\<open>system/io_thread.cpp\<close>,
    \<^verbatim>\<open>system/sim_manager.cpp\<close>).
  \<^item> \<^emph>\<open>Clients.\<close>  \<open>Client\<close>: the window of batches in flight, the query tables, the sending loop and
    the counting of responses (\<^verbatim>\<open>system/client_thread.cpp\<close>, \<^verbatim>\<open>client/\<close>,
    \<^verbatim>\<open>benchmarks/ycsb_query.cpp\<close>).
  \<^item> \<^emph>\<open>Options.\<close>  \<open>Timers\<close>: view timers and the votes on failed views
    (\<^verbatim>\<open>system/timer_manager.cpp\<close>, \<^verbatim>\<open>system/fault_manager.cpp\<close>, compiled with \<open>SpotLess_FAIL\<close>).
    \<open>Smart_Contracts\<close>: the banking workload (\<^verbatim>\<open>smart_contracts/banking_sc.cpp\<close>, compiled with
    \<open>BANKING_SMART_CONTRACT\<close>).
    \<open>Plain_Execution\<close>: the handler of execute messages without HotStuff
    (\<^verbatim>\<open>system/worker_thread.cpp\<close>), which agrees with the one that is compiled.
    \<open>Batch_Messages\<close>: the message classes of the other protocols and of the banking workload.
    \<open>Block_Log\<close>: the chain of executed batches (\<^verbatim>\<open>blockchain/chain.cpp\<close>, \<open>ENABLE_CHAIN\<close>).
    \<open>Equivocation\<close>: the faulty primary of \<open>EQUIV_TEST\<close> (\<^verbatim>\<open>system/txn.cpp\<close>,
    \<^verbatim>\<open>system/worker_thread_hotstuff.cpp\<close>).
  \<^item> \<^emph>\<open>Start-up.\<close>  \<open>Command_Line\<close>: the options (\<^verbatim>\<open>system/parser.cpp\<close>).  \<open>Start_Up\<close> and
    \<open>Client_Start_Up\<close>: the keys that a process expects, the numbering of its threads and its queues
    (\<^verbatim>\<open>system/main.cpp\<close>, \<^verbatim>\<open>client/client_main.cpp\<close>, \<open>QWorkQueue::init\<close>), and the keys a client
    sends.
  \<^item> \<^emph>\<open>Utilities.\<close>  \<open>Stats_Array\<close>, \<open>Stats\<close> (\<^verbatim>\<open>statistics/\<close>) and \<open>Txn_Stats\<close>
    (\<open>TxnStats\<close> of \<^verbatim>\<open>system/txn.cpp\<close>), \<open>Containers\<close>
    (\<^verbatim>\<open>system/array.h\<close>, \<^verbatim>\<open>data_structures/\<close>; locale \<open>dictionary\<close>) and \<open>Helpers\<close>
    (\<^verbatim>\<open>system/helper.cpp\<close>).

  The other switches of \<^verbatim>\<open>config.h\<close> have the values of the file, e.g. \<open>THRESHOLD_SIGNATURE\<close>,
  \<open>SECP256K1\<close>, \<open>PROPOSAL_THREAD\<close>, \<open>SEPARATE\<close>, \<open>MAC_VERSION\<close> and \<open>SYNC_QC\<close> are on and \<open>ENABLE_ASK\<close>,
  \<open>EQUIV_TEST\<close>, \<open>DARK_TEST\<close> and \<open>IGNORE_TEST\<close> are off (the theories under \<^emph>\<open>Options\<close> apart).  The sizes (replicas, instances, batch size,
  threads) are fields of \<open>env\<close>, and every theorem holds for all their values that it does not
  restrict.

  \<^bold>\<open>How the parts interact.\<close>  An input thread parses a packet (\<open>Packets\<close>) and puts its messages
  into the work queues (\<open>Work_Queue\<close>); a worker thread takes one, handles it (\<open>Worker\<close>,
  \<open>Execution\<close>, \<open>Worker_Thread\<close>) on the shared state and puts messages for other nodes into the
  message queues (\<open>Message_Queue\<close>); a sending thread collects these in packets (\<open>Packets\<close>) and
  sends them on a socket (\<open>Transport\<close>).  The inductive predicate \<open>reachable\<close> interleaves the
  iterations of all worker threads, in any order, with the arrival of any messages; the
  messages sent so far are the field \<open>outbox\<close>.  An iteration is one atomic step: that a handler
  is not interrupted by another one on the same manager is what the flag \<open>txn_ready\<close> and the
  mutexes of the code are for, and interleavings inside a handler are not modelled.

  \<^bold>\<open>What the lemmas show.\<close>

  \<^item> \<open>Votes\<close>, \<open>Protocol\<close>, \<open>Commit\<close>: votes are counted once per replica and a certificate needs \<open>nf\<close>
    of them (locale \<open>vote_box\<close>); a vote is cast once per view; the guards of the generic handler;
    the chain rules; the loop over the ancestors of a committed certificate is a walk along stored
    certificates of decreasing views, so it ends.
  \<^item> \<open>Steps\<close> and \<open>Reachability\<close>: the locales \<open>node_inv\<close>, \<open>node_steps\<close>, \<open>node_exec\<close> and \<open>node_iter\<close> reduce the
    invariance of a predicate under a whole thread iteration to a few laws on single
    assignments.  They are interpreted for the stored certificates, the votes, the
    views, the progress of execution, and their facts give the invariants of \<open>reachable\<close>.
  \<^item> \<open>Agreement\<close>: a system of replicas.  Correct ones handle messages with \<open>worker_handle\<close>, in any order and
    whatever the messages are; it is assumed that a vote in the name of a correct replica is one that
    it has sent (the code does not enforce this, see \<open>vote_forgeable\<close>) and that the manager in
    question is not released (see \<open>checkpoint_revote\<close>).  An interpretation of \<open>node_exec\<close> shows that a
    replica votes for one hash per identifier, and two quorums share a correct replica.
  \<^item> \<open>Queue_Facts\<close>: the queues are first-in first-out (locales \<open>source\<close> and \<open>fifo\<close>), early messages
    return, batches go to the least loaded instance, and the scan for a batch to propose finds one.
    \<open>Proposals\<close>: over runs of any length, proposals are made in views the replica leads.
    \<open>Sending_Facts\<close>: who gets a message.  \<open>Execution_Facts\<close>: execution is in order and applies each
    batch; checkpoints release what they should.
  \<^item> \<open>Commit\<close> also shows what the safety of commits would need and the code lacks: the certificate
    in a generic message is taken on trust (\<open>certificate_unchecked\<close>), so no theorem relates the
    commits of different views.
  \<^item> \<open>Pools\<close>, \<open>Linked_Lists\<close> and \<open>Table_Heap\<close>: nobody holds one object twice; each list macro is an
    operation on a list of addresses and leaves all other nodes alone; the table in memory refines
    the table of lists, pointers stay valid until their manager is released, and no node is lost.
  \<^item> \<open>Start_Up\<close>: the allocated queues are those that are used, one purpose each; the exchange of keys
    ends with one READY to each client, and never if a key is missing, as it is for the CMAC keys
    that replicas send to an empty vector of destinations.
  \<^item> \<open>Batch_Messages\<close>: \<open>BatchRequests\<close> has the format of a proposal, and the interpretation of \<open>wire_codec\<close>
    is inherited from it; an object cannot be read into twice, and the view is not signed.  \<open>Equivocation\<close>: each
    replica gets one of the two stories, and the receivers of the second are fewer than a quorum.
    \<open>Block_Log\<close>: the log holds the batches added and not removed, in order.
  \<^item> \<open>Transport\<close>, \<open>Io_Threads\<close>, \<open>Client\<close>, \<open>Timers\<close>, \<open>Smart_Contracts\<close>, \<open>Stats_Array\<close>, \<open>Stats\<close>,
    \<open>Txn_Stats\<close>, \<open>Containers\<close>, \<open>Command_Line\<close>, \<open>Helpers\<close>, \<open>Client_Start_Up\<close>: each holds the lemmas of its component next to its
    definitions.
  \<^item> \<open>Sample\<close> and \<open>Sample_Io\<close>: a concrete configuration of four replicas, on which the theorems
    with hypotheses are applied.

  \<^bold>\<open>Loops, fuel and bounds.\<close>  \<open>execute_ancestors\<close>, \<open>poll\<close>, the walks along the lists of
  \<open>Table_Heap\<close> and the loops of \<open>quicksort\<close> are \<open>partial_function\<close>s, and it is proved that they return.  \<open>clb_search\<close> (the search for the least
  loaded instance) has fuel \<open>2 n\<close> for \<open>n\<close> instances: one round to learn the minimum and one to find
  it, which is proved to be enough.  \<open>find_batch\<close> has fuel \<open>n\<close>, one round.
  \<open>dequeue_generic\<close> and \<open>dequeue_proposal\<close> wait for a message in the code; their fuel is the
  number of rounds for which a thread is willing to wait, an argument of the step, and \<open>reachable\<close>
  allows any number.  Side conditions exclude the wrap-around of counters where the
  code would misbehave: for the proposals, that the number of steps of the run (\<open>reachable_in\<close>) times the numbers of nodes and of
  instances is below \<open>2^64\<close>; \<open>2^64\<close> for the counter of a priority queue; \<open>net_ok\<close> asks that the ports of a node
  fit into \<open>TPORT_WINDOW\<close>, and the length of a timer is proved to stay within
  \<open>INITIAL_TIMEOUT_LENGTH\<close>.

  \<^bold>\<open>Not modelled.\<close>  All printing, and the updates of statistics inside the handlers: no handler
  reads them.  The buffers of a sending thread are a function of the destination: an index beyond
  the array of \<open>g_total_node_cnt\<close> buffers is not represented, since destinations are numbers of nodes.  The rest of \<open>main\<close>: clocks, processor affinity, joining threads, and the network
  test, which is empty.  \<^verbatim>\<open>db/sqlite.cpp\<close>: calls of the SQLite library, not selected.
  \<^verbatim>\<open>system/mem_alloc.cpp\<close>: calls of the allocator.  \<^verbatim>\<open>system/lock_free_queue.cpp\<close>, which
  nothing uses.  Loading of the workload (\<^verbatim>\<open>benchmarks/ycsb_wl.cpp\<close>): reading a schema file.
  The fault injection of \<open>DARK_TEST\<close> and \<open>IGNORE_TEST\<close>, and what \<open>EQUIV_TEST\<close> adds to the handlers of the
  victims: code to misbehave, compiled out.  The libraries
  nng, Crypto++, libsecp256k1 and boost are parameters or, for boost's queues, lists.
\<close>

section \<open>Quorums\<close>

text \<open>C2. With \<open>3 f + 1\<close> replicas, any two sets of \<open>nf\<close> replicas (the votes that
  \<open>hotstuff_new_viewed\<close> waits for) have at least \<open>fp1 = f + 1\<close> replicas in common, so they
  share a correct one.\<close>

theorem quorum_intersection:
  assumes "NODE_CNT e mod 3 = 1"
    and "A \<subseteq> {i :: u64. i < ucast (NODE_CNT e)}" and "B \<subseteq> {i. i < ucast (NODE_CNT e)}"
    and "unat (nf e) \<le> card A" and "unat (nf e) \<le> card B"
  shows "unat (fp1 e) \<le> card (A \<inter> B)"
  using quorum_overlap [OF assms(2-5,1)] .

theorem quorum_intersection_witness: "unat (fp1 sample_env) \<le> card ({0, 1, 2} \<inter> {1, 2, 3 :: u64})"
  by (rule quorum_intersection) auto

section \<open>Votes\<close>

text \<open>C3. In every reachable state of a replica, whatever messages it has received, the votes that a
  transaction manager has counted for a hash come from different replicas, no replica is counted for
  two hashes, and the manager is marked \<open>new_viewed\<close> only when some hash has \<open>nf\<close> votes.\<close>

theorem votes_counted_once:
  assumes "reachable e k s" and "NODE_CNT e \<noteq> 0" and "has_tman e s i"
  shows "let voters = (\<lambda>h. hv_voters h (tm_hash_voters (tman e s i))) in
    (\<forall>h. distinct (voters h)) \<and>
    (\<forall>h h'. h \<noteq> h' \<longrightarrow> set (voters h) \<inter> set (voters h') = {}) \<and>
    (tm_new_viewed (tman e s i) \<longrightarrow> (\<exists>h. unat (nf e) \<le> length (voters h)))"
  using reachable_vote_inv [OF assms] unfolding vote_inv_def Let_def by blast

theorem votes_counted_once_witness:
  "\<forall>h. distinct (hv_voters h (tm_hash_voters (tman sample_env3 sample_voted 3)))"
  using votes_counted_once [OF sample_voted(1) _ sample_voted(2)] by (simp add: Let_def)

text \<open>C4. When \<open>hotstuff_new_viewed\<close> reports a quorum in a reachable state, exactly \<open>nf\<close> different
  replicas have voted for the hash of the message, the sender among them; it had not reported one for
  this manager before, and it does not report one again.\<close>

theorem quorum_reported:
  assumes "reachable e k s" and "NODE_CNT e \<noteq> 0" and "has_tman e s tid"
    and "hotstuff_new_viewed e m tid s = (True, s')"
  shows "let vs = hv_voters (sync_hash m) (tm_hash_voters (tman e s' tid)) in
    distinct vs \<and> length vs = unat (nf e) \<and> m_return_node_id (sync_base m) \<in> set vs \<and>
    \<not> tm_new_viewed (tman e s tid) \<and> (\<forall>m'. \<not> fst (hotstuff_new_viewed e m' tid s'))"
proof -
  have q: "fst (count_vote e m (tman e s tid))" and s': "tman e s' tid = snd (count_vote e m (tman e s tid))"
    using assms(4) hotstuff_new_viewed_eq(1) [of e m tid s] hotstuff_new_viewed_eq(2) [OF assms(3), of m] by simp_all
  note inv = reachable_vote_inv [OF assms(1-3)]
  have "vote_fresh e m (tman e s tid)" using q count_vote_stale by (metis fst_conv)
  then have "m_return_node_id (sync_base m) \<in> set (hv_voters (sync_hash m) (tm_hash_voters (tman e s' tid)))"
    by (simp add: s' count_vote_fresh(2) counted_def)
  moreover have "\<not> fst (hotstuff_new_viewed e m' tid s')" for m'
    using count_vote_quorum(3) [OF inv assms(2) q] s'
    by (simp add: hotstuff_new_viewed_eq(1) count_vote_stale vote_fresh_def)
  ultimately show ?thesis
    using count_vote_quorum [OF inv assms(2) q] by (simp add: s' Let_def)
qed

theorem quorum_reported_witness:
  "length (hv_voters ''h'' (tm_hash_voters
     (tman sample_env3 (snd (hotstuff_new_viewed sample_env3 (sample_sync 2) 3 sample_voted)) 3))) = unat (nf sample_env3)"
  using quorum_reported [OF sample_voted(1) _ sample_voted(2), of "sample_sync 2"] sample_voted(3)
  by (simp add: Let_def prod_eq_iff) (simp add: sample_sync_def Sync_sign_def)

text \<open>C5. With \<open>3 f + 1\<close> replicas, one manager cannot hold quorums for two hashes: two hashes that both
  have \<open>nf\<close> replicas as voters in a reachable state are equal.\<close>

theorem one_hash_per_manager:
  assumes "reachable e k s" and "NODE_CNT e mod 3 = 1" and "has_tman e s i"
    and "\<forall>v \<in> votes_for (tman e s i) h \<union> votes_for (tman e s i) h'. v < ucast (NODE_CNT e)"
    and "unat (nf e) \<le> card (votes_for (tman e s i) h)" and "unat (nf e) \<le> card (votes_for (tman e s i) h')"
  shows "h = h'"
proof (rule vb.majority_unique [where R = "{v :: u64. v < ucast (NODE_CNT e)}" and q = "unat (nf e)"])
  have "NODE_CNT e \<noteq> 0" using assms(2) by auto
  then show "vote_inv e (tman e s i)" by (rule reachable_vote_inv [OF assms(1) _ assms(3)])
  obtain f where "unat (NODE_CNT e) = 3 * f + 1" "unat (nf e) = 2 * f + 1"
    using thresholds_3f1 [OF assms(2)] by metis
  then show "card {v :: u64. v < ucast (NODE_CNT e)} < 2 * unat (nf e)" by (simp add: card_replicas)
qed (use assms in auto)

theorem one_hash_per_manager_witness: "''h'' = ''h'' \<and> card (votes_for (tman sample_env1 sample_single 3) ''h'') = 1"
  using one_hash_per_manager [OF sample_single(1) _ sample_single(2), of "''h''" "''h''"]
  by (simp add: sample_single(3))

text \<open>C1. Agreement: in a system of \<open>3 f + 1\<close> replicas of which at most \<open>f\<close> are faulty, no two correct
  replicas ever see quorums for different hashes under one transaction identifier, that is in one view of
  one instance.  Correct replicas handle any messages in any order; votes in the name of a correct replica
  are ones it has sent, and the manager of the identifier has not been released by a checkpoint.\<close>

theorem agreement:
  assumes "system_run e k C tid \<sigma>" and "tid \<noteq> UINT64_MAX" and "NODE_CNT e mod 3 = 1"
    and "card {j. j < NODE_CNT e \<and> j \<notin> C} < unat (fp1 e)"
    and "a \<in> C" and "a < NODE_CNT e" and "has_tman (at_replica e a) (\<sigma> a) tid"
    and "b \<in> C" and "b < NODE_CNT e" and "has_tman (at_replica e b) (\<sigma> b) tid"
    and "unat (nf e) \<le> length (hv_voters h (tm_hash_voters (tman (at_replica e a) (\<sigma> a) tid)))"
    and "unat (nf e) \<le> length (hv_voters h' (tm_hash_voters (tman (at_replica e b) (\<sigma> b) tid)))"
  shows "h = h'"
  by (rule agreement_holds [OF assms])

theorem agreement_witness:
  "\<exists>\<sigma>. system_run sample_env (\<lambda>_. sample_keys) {0, 1, 2} 7 \<sigma> \<and>
     (\<forall>h. 3 \<le> length (hv_voters h (tm_hash_voters (tman (at_replica sample_env 0) (\<sigma> 0) 7))) \<longleftrightarrow> h = ''g'')"
proof -
  obtain \<sigma> where \<sigma>: "system_run sample_env (\<lambda>_. sample_keys) {0, 1, 2} 7 \<sigma>"
      "has_tman (at_replica sample_env 0) (\<sigma> 0) 7"
      "length (hv_voters ''g'' (tm_hash_voters (tman (at_replica sample_env 0) (\<sigma> 0) 7))) = 3"
    by (rule sample_system)
  have "h = ''g''" if "3 \<le> length (hv_voters h (tm_hash_voters (tman (at_replica sample_env 0) (\<sigma> 0) 7)))" for h
    using agreement [OF \<sigma>(1) _ _ _ _ _ \<sigma>(2) _ _ \<sigma>(2), of h "''g''"] that \<sigma>(3) sample_faulty
    by simp
  with \<sigma>(1,3) show ?thesis by (intro exI [of _ \<sigma>]) auto
qed

text \<open>C6. The condition on checkpoints in the agreement theorem is needed: \<open>process_pbft_chkpt_msg\<close> does not
  validate the message and one message is enough, so a checkpoint from anyone can release the manager of
  a view that is still being voted on; the replica forgets its vote and votes for another hash
  under the same identifier.\<close>

theorem checkpoint_revote:
  "\<exists>e k g c g' s1 s2 s3. ISSERVER e \<and>
     worker_handle e 0 1 1 (MGeneric g) (init_node e k) = Some s1 \<and>
     worker_handle e 0 5 5 (MCheckpoint c) s1 = Some s2 \<and>
     worker_handle e 0 1 1 (MGeneric g') s2 = Some s3 \<and>
     (\<exists>tid h h'. h \<noteq> h' \<and> {h, h'} \<subseteq> cast_votes tid s3)"
proof -
  obtain s1 s2 s3 where s: "worker_handle sample_env 0 1 1 (MGeneric (sample_first ''g'')) sample_node = Some s1"
    "worker_handle sample_env 0 5 5 (MCheckpoint sample_forged) s1 = Some s2"
    "worker_handle sample_env 0 1 1 (MGeneric (sample_first ''x'')) s2 = Some s3"
    "''g'' \<in> cast_votes 1 s3" "''x'' \<in> cast_votes 1 s3"
    by (rule sample_revote)
  have "''g'' \<noteq> ''x''" and "{''g'', ''x''} \<subseteq> cast_votes 1 s3" using s(4,5) by simp_all
  with s(1-3) sample_server show ?thesis
    unfolding sample_node_def by (intro exI conjI) assumption+
qed

text \<open>C7. The vote of a replica is sent to every other replica exactly once: all messages sent are votes
  for the manager's hash in the current view, and their destinations are the replicas other than the
  sender, each once (the next primary gets the copy with the signature share).\<close>

theorem vote_reaches_all:
  assumes "has_tman e s tid" and "\<not> tm_sync_sent (tman e s tid)" and "g_node_cnt e \<noteq> 0"
  shows "\<exists>ms. outbox (send_hotstuff_newview e None tid s) = outbox s @ ms \<and>
    (\<forall>m \<in> set ms. is_vote (tm_hash (tman e s tid)) (get_current_view s (tm_instance_id (tman e s tid))) (fst m)) \<and>
    (\<forall>j. count_list (concat (map snd ms)) j = (if j < node_cnt e \<and> j \<noteq> node_id e then 1 else 0))"
  by (rule vote_broadcast [OF assms])

theorem vote_reaches_all_witness:
  "\<exists>ms. outbox (send_hotstuff_newview sample_env3 None 3 sample_voted) = outbox sample_voted @ ms \<and>
    count_list (concat (map snd ms)) 1 = 1"
  using vote_reaches_all [OF sample_voted(2,4)] by (auto simp: sample_env3_def)

section \<open>Certificates\<close>

text \<open>C8. A replica votes for a generic message (sends anything while handling it) only if it has not
  handled one for this manager before, its sender leads the view, the message verifies and its certificate
  is safe with respect to the lock.\<close>

theorem generic_vote_guarded:
  assumes "process_hotstuff_generic e gene tid s = Some s'" and "outbox s' \<noteq> outbox s"
  shows "let i = m_instance_id (gen_base gene) in
    \<not> tm_generic_received (tman e s tid) \<and>
    get_view_primary e (max (newView s i) (gen_view gene)) i = m_return_node_id (gen_base gene) \<and>
    validate_msg e (keys s) (MGeneric gene) = Some True \<and> SafeNode s (gen_highQC gene) i"
  using generic_guard [OF assms] by (simp add: Let_def)

theorem generic_vote_guarded_witness: "SafeNode (get_tman sample_env 7 sample_node) (gen_highQC sample_generic) 1"
proof -
  obtain s' where s': "process_hotstuff_generic sample_env sample_generic 7 (get_tman sample_env 7 sample_node) = Some s'"
      "length (outbox s') = 2"
    using sample_handled unfolding sample_handled_def by (auto split: option.splits)
  have "outbox (get_tman sample_env 7 sample_node) = []" by (simp add: sample_node_def init_node_def)
  then have "outbox s' \<noteq> outbox (get_tman sample_env 7 sample_node)" using s'(2) by auto
  moreover have "m_instance_id (gen_base sample_generic) = 1"
    by (simp add: sample_generic_def Generic_sign_def Generic_digital_sign_def set_signature_def)
  ultimately show ?thesis using generic_vote_guarded [OF s'(1)] by (simp add: Let_def)
qed



text \<open>C10. \<open>update_lockQC\<close> returns on every replica whose certificates are filed under their hashes, and
  follows the chain rules: a certificate of the previous view is prepared, its parent is locked when the
  views are consecutive, and with three consecutive views, and only then, batches are committed: an execute message
  for the batch two views before, with its hash, is put at the end of its queue, and what waits for the execute
  thread already stays.  Views, the store, the keys and the outgoing messages do not change.\<close>

theorem chain_rules:
  assumes "ISSERVER e" and "qc_map_ok (hash_to_QC s i)" and "table_inv e s"
  shows "\<exists>s'. update_lockQC e qc view txnid i s = Some s' \<and>
    newView s' = newView s \<and> outbox s' = outbox s \<and> db s' = db s \<and> keys s' = keys s \<and>
    g_preparedQC s' = (if one_chain qc view then (g_preparedQC s)(i := newer qc (g_preparedQC s i)) else g_preparedQC s) \<and>
    g_lockedQC s' = (if two_chain s i qc view
       then (g_lockedQC s)(i := newer (qc_at s i (parent_hash qc)) (g_lockedQC s i)) else g_lockedQC s) \<and>
    (if three_chain s i qc view
     then let t = txnid - 2 * get_totInstances e * get_batch_size e
          in set (execute_msg_heap s) \<subseteq> set (execute_msg_heap s') \<and> t - 1 \<in> set (execute_msg_heap s') \<and>
            (\<forall>q. \<exists>ms. work_queue s' q = work_queue s q @ ms) \<and>
            (\<exists>ms x. work_queue s' (execute_qid e (t - 1)) = ms @ [MExecute x] \<and> m_txn_id (ex_base x) = t - 1 \<and>
               ex_end_index x = t \<and> ex_hash x = tm_hash (tman e (get_tman e t s) t))
     else execute_msg_heap s' = execute_msg_heap s)"
proof (cases "three_chain s i qc view")
  case True
  from update_lockQC_commits [OF assms True, of txnid] update_lockQC_returns [OF assms(1,2), of qc view txnid]
  show ?thesis using True by (auto simp: Let_def only_adds_def)
next
  case False
  then show ?thesis using update_lockQC_returns [OF assms(1,2), of qc view txnid] by simp
qed

theorem chain_rules_witness:
  "\<exists>s'. update_lockQC sample_env sample_top 8 35 0 sample_chain = Some s' \<and> viewNumber (g_preparedQC s' 0) = 7 \<and>
     viewNumber (g_lockedQC s' 0) = 6 \<and> 2 \<in> set (execute_msg_heap s')"
proof -
  obtain s' where s': "update_lockQC sample_env sample_top 8 35 0 sample_chain = Some s'"
      "g_preparedQC s' = (g_preparedQC sample_chain)(0 := newer sample_top (g_preparedQC sample_chain 0))"
      "g_lockedQC s' = (g_lockedQC sample_chain)(0 := newer (qc_at sample_chain 0 (parent_hash sample_top)) (g_lockedQC sample_chain 0))"
      "2 \<in> set (execute_msg_heap s')"
    using chain_rules [OF sample_server sample_chain_facts(1,2), of sample_top 8 35] sample_chain_facts(3)
    by (auto simp: three_chain_def two_chain_def Let_def)
  then show ?thesis using sample_chain_facts(4,5) by auto
qed

text \<open>C11. Committing always ends: in every reachable state \<open>send_execute_msg_hotstuff\<close> returns, whatever
  certificates the replica has been sent.\<close>

theorem commit_returns:
  assumes "reachable e k s" and "ISSERVER e"
  shows "\<exists>s'. send_execute_msg_hotstuff e tid i s = Some s'"
  using send_execute_msg_hotstuff_returns [OF assms(2), of s i tid] reachable_qcs_ok [OF assms(1)]
  by (auto simp: qcs_ok_def)

theorem commit_returns_witness: "\<exists>s'. send_execute_msg_hotstuff sample_env3 3 0 sample_voted = Some s'"
  using commit_returns [OF sample_voted(1), of 3 0] by simp

text \<open>C12. The loop over the stored ancestors is a walk along the list of certificates that are reached
  through \<open>parent_hash\<close>, each handed to the execute thread once and erased.\<close>

theorem ancestors_are_a_walk:
  assumes "qc_map_ok (hash_to_QC s i)" and "hash_to_QC s i h = Some qc" and "ISSERVER e"
    and "card (dom (hash_to_QC s i)) \<le> Suc n"
  shows "execute_ancestors e i qc s = Some (fold (step_ancestor e i) (chain n (hash_to_QC s i) qc) s)"
  by (rule execute_ancestors_chain [OF assms])

theorem ancestors_are_a_walk_witness:
  "execute_ancestors sample_env 0 (genesis_QC sample_env PRECOMMIT) sample_node =
   Some (step_ancestor sample_env 0 (genesis_QC sample_env PRECOMMIT) sample_node)"
proof -
  have "hash_to_QC sample_node 0 = ['''' \<mapsto> genesis_QC sample_env PRECOMMIT]"
    by (simp add: sample_node_def init_node_def genesis_QC_def new_QC_def)
  moreover have "qc_map_ok ['''' \<mapsto> genesis_QC sample_env PRECOMMIT]"
    by (simp add: qc_map_ok_def genesis_QC_def new_QC_def)
  ultimately show ?thesis
    using ancestors_are_a_walk [of sample_node 0 "''''" "genesis_QC sample_env PRECOMMIT" sample_env 0] by simp
qed

text \<open>C13. \<open>advance_view\<close> on a manager with a hash returns, moves its instance to the next view and no other, and sends
  nothing.  It prepares the certificate that it makes of the manager, unless the proposal extended the genesis
  certificate in a view after the first: such a certificate gets the view number 0 and is never prepared.\<close>

theorem advance_view_moves_on:
  assumes "reachable e k s" and "ISSERVER e" and "tm_instance_id (tman e s tid) = i" and "tm_hash (tman e s tid) \<noteq> ''''"
  shows "\<exists>s'. advance_view e tid s = Some s' \<and>
    newView s' = (newView s)(i := newView s i + 1) \<and> outbox s' = outbox s \<and> db s' = db s \<and>
    g_preparedQC s' =
      (if genesis (tm_highQC (tman e s tid)) \<and> newView s i \<noteq> 0 then g_preparedQC s
       else (g_preparedQC s)(i := newer (make_genericQC (newView s i) (tman e s tid)) (g_preparedQC s i)))"
proof -
  have "qc_map_ok (hash_to_QC s i)" using reachable_qcs_ok [OF assms(1)] by (simp add: qcs_ok_def)
  from advance_view_returns [OF assms(2) this assms(3,4)] show ?thesis
    by (auto simp: Let_def one_chain_def make_genericQC_def)
qed

theorem advance_view_moves_on_witness:
  "\<exists>s'. advance_view sample_env 7 sample_hashed = Some s' \<and> newView s' 1 = newView sample_hashed 1 + 1"
  using advance_view_moves_on [OF sample_hashed(1) sample_server sample_hashed(4)] by (auto simp: sample_hashed(3))

section \<open>Work queues\<close>

text \<open>C20. A client batch is always placed, and with a least loaded instance: the search of \<open>enqueue\<close> ends
  within two rounds over the instances whenever one of them has at most \<open>0xFFFFF\<close> waiting batches.\<close>

theorem batch_to_least_loaded:
  assumes "ISSERVER e" and "msg_rtype m = CL_BATCH" and "clb_idx s < get_totInstances e"
    and "\<exists>i < get_totInstances e. clb_cnt s i \<le> 0xFFFFF"
  shows "\<exists>s' i. enqueue e m s = Some s' \<and> i < get_totInstances e \<and>
    (\<forall>j < get_totInstances e. clb_cnt s i \<le> clb_cnt s j) \<and>
    new_txn_queue s' = (new_txn_queue s)(i := new_txn_queue s i @ [m]) \<and>
    clb_cnt s' = (clb_cnt s)(i := clb_cnt s i + 1) \<and> clb_idx s' < get_totInstances e"
proof -
  obtain i where i: "i < get_totInstances e" "\<forall>j < get_totInstances e. clb_cnt s i \<le> clb_cnt s j"
      "clb_search (2 * unat (get_totInstances e)) (get_totInstances e) (clb_cnt s) (clb_idx s) (clb_idx s) 0 0xFFFFF = Some i"
    using clb_search_min [OF assms(3,4)] by blast
  have "0 < get_totInstances e" by (rule order_le_less_trans [OF word_zero_le i(1)])
  then have "(i + 1) mod get_totInstances e < get_totInstances e" by (rule word_mod_less_divisor)
  with i assms(1,2) show ?thesis
    by (intro exI [of _ "the (enqueue e m s)"] exI [of _ i])
      (simp add: enqueue_def enqueue_client_batch_def sem_post_worker_def)
qed

theorem batch_to_least_loaded_witness:
  "\<exists>s' i. enqueue sample_env (MClientBatch (new_CB sample_env CL_BATCH)) sample_node = Some s' \<and>
     new_txn_queue s' i = [MClientBatch (new_CB sample_env CL_BATCH)]"
proof -
  have "msg_rtype (MClientBatch (new_CB sample_env CL_BATCH)) = CL_BATCH"
    by (simp add: new_CB_def new_Message_def)
  moreover have "clb_idx sample_node < get_totInstances sample_env" "new_txn_queue sample_node = (\<lambda>_. [])"
      "\<exists>i < get_totInstances sample_env. clb_cnt sample_node i \<le> 0xFFFFF"
    by (auto simp: sample_node_def init_node_def intro: exI [of _ 0])
  ultimately show ?thesis
    using batch_to_least_loaded [OF sample_server, of "MClientBatch (new_CB sample_env CL_BATCH)" sample_node] by fastforce
qed

text \<open>C18. A worker thread is served in order: when the messages \<open>ms\<close> have been enqueued, \<open>dequeue\<close> gives it first the messages of its
  priority queue (those that waited there before, then its generic messages and proposals among \<open>ms\<close>), then those of its
  work queue (those that waited there before, then its other messages among \<open>ms\<close>), each in the order of their arrival, and none is
  lost, repeated or given to another worker.\<close>

theorem worker_queue_order:
  assumes "ISSERVER e" and "q < get_multi_threads e" and "q < tcount e"
    and "indexSize e \<noteq> 0" and "unat (get_multi_threads e) + unat (indexSize e) < 2 ^ 64"
    and "prior_inv q s" and "length (prior_queue s q) + length ms < 2 ^ 64"
    and "fold_option (enqueue e) ms s = Some s'"
  shows "let mine = filter (for_worker e q) ms;
      content = prior_queue s q @ filter is_prior mine @ work_queue s q @ filter (\<lambda>m. \<not> is_prior m) mine
    in (\<forall>s. dequeue e fuel q s \<noteq> None) \<and>
       fst (drain (\<lambda>s. the (dequeue e fuel q s)) (length content) s') = map Some content"
proof -
  have "(\<lambda>s. the (dequeue e fuel q s)) = dequeue_worker q" using dequeue_is_worker [OF assms(1-3)] by auto
  moreover have "dequeue e fuel q s \<noteq> None" for s using dequeue_is_worker [OF assms(1-3)] by simp
  ultimately show ?thesis
    using enqueues_then_drain [OF assms(8,6,7,2,4,5) refl refl] by (auto simp: Let_def)
qed

theorem worker_queue_order_witness:
  "\<exists>s'. fold_option (enqueue sample_env) [MReady (new_Message sample_env READY), MProposal (new_Proposal sample_env SpotLess_PROPOSAL_MSG)]
       sample_node = Some s' \<and>
     fst (drain (\<lambda>s. the (dequeue sample_env 0 0 s)) 2 s') =
       [Some (MProposal (new_Proposal sample_env SpotLess_PROPOSAL_MSG)), Some (MReady (new_Message sample_env READY))]"
proof -
  let ?ms = "[MReady (new_Message sample_env READY), MProposal (new_Proposal sample_env SpotLess_PROPOSAL_MSG)]"
  have "fold_option (enqueue sample_env) ?ms sample_node \<noteq> None"
    by (simp add: enqueue_def new_Message_def new_Proposal_def)
  then obtain s' where s': "fold_option (enqueue sample_env) ?ms sample_node = Some s'" by blast
  have q: "prior_inv 0 sample_node" "work_queue sample_node 0 = []" "prior_queue sample_node 0 = []"
    by (simp_all add: prior_inv_def sample_node_def init_node_def)
  have f: "filter (for_worker sample_env 0) ?ms = ?ms" "filter is_prior ?ms = [last ?ms]" "filter (\<lambda>m. \<not> is_prior m) ?ms = [hd ?ms]"
    by (simp_all add: for_worker_def is_prior_def new_Message_def new_Proposal_def)
  have "0 < get_multi_threads sample_env" "0 < tcount sample_env" "indexSize sample_env \<noteq> 0"
      "unat (get_multi_threads sample_env) + unat (indexSize sample_env) < 2 ^ 64"
      "length (prior_queue sample_node 0) + length ?ms < 2 ^ 64"
    by (simp_all add: tcount_def q(3))
  from worker_queue_order [OF sample_server this(1-4) q(1) this(5) s', of 0] s' show ?thesis
    unfolding Let_def f q by (auto simp: numeral_2_eq_2)
qed

text \<open>C17. Messages for a later view that \<open>check_view\<close> has set aside come back when \<open>set_view\<close> moves the
  instance on: in order, to the queue of their kind, with one semaphore post each, and none stays behind.\<close>

theorem early_messages_return:
  assumes "i < get_totInstances e"
  shows "let q = i mod get_multi_threads e; s' = set_view e i v s in
    prior_queue s' q = prior_queue s q @ filter is_prior (temp_queue s i) \<and>
    work_queue s' q = work_queue s q @ filter (\<lambda>m. \<not> is_prior m) (temp_queue s i) \<and>
    temp_queue s' i = [] \<and>
    worker_queue_semaphore s' q = worker_queue_semaphore s q + length (temp_queue s i)"
  using set_view_queues [OF assms] by (simp add: Let_def)

theorem early_messages_return_witness:
  "prior_queue (set_view sample_env 1 3 (snd (check_view (MGeneric (sample_generic\<lparr>gen_view := 3\<rparr>)) sample_node))) 1 =
     [MGeneric (sample_generic\<lparr>gen_view := 3\<rparr>)]"
proof -
  have g: "m_rtype (gen_base sample_generic) = SpotLess_GENERIC_MSG" "m_instance_id (gen_base sample_generic) = 1"
    by (simp_all add: sample_generic_def Generic_sign_def Generic_digital_sign_def set_signature_def new_Message_def)
  then have "temp_queue (snd (check_view (MGeneric (sample_generic\<lparr>gen_view := 3\<rparr>)) sample_node)) 1 =
        [MGeneric (sample_generic\<lparr>gen_view := 3\<rparr>)]"
      "prior_queue (snd (check_view (MGeneric (sample_generic\<lparr>gen_view := 3\<rparr>)) sample_node)) = (\<lambda>_. [])"
    by (simp_all add: check_view_def get_current_view_def sample_node_def init_node_def)
  then show ?thesis
    using early_messages_return [of 1 sample_env 3 "snd (check_view (MGeneric (sample_generic\<lparr>gen_view := 3\<rparr>)) sample_node)"] g(1)
    by (simp add: Let_def is_prior_def)
qed

text \<open>C19. The execute message of the batch that is due is found by the execute thread: \<open>enqueue\<close> puts it where
  \<open>dequeue\<close> looks for the expected identifier, in a queue between those of the workers and that of the
  checkpoint threads, and posts the execute semaphore.\<close>

theorem due_batch_found:
  assumes "ISSERVER e" and "msg_rtype m = EXECUTE_MSG" and "txn_id m = expectedExecuteCount s"
    and "work_queue s (execute_qid e (txn_id m)) = []"
    and "indexSize e \<noteq> 0" and "unat (get_multi_threads e) + unat (indexSize e) < 2 ^ 64"
  shows "\<exists>s'. enqueue e m s = Some s' \<and> fst (dequeue_execute e s') = Some m \<and>
    execute_semaphore s' = execute_semaphore s + 1 \<and>
    get_multi_threads e \<le> execute_qid e (txn_id m) \<and> execute_qid e (txn_id m) < get_multi_threads e + indexSize e"
  using execute_delivered [OF assms(1-4)] execute_qid_range [OF assms(5,6)] by metis

theorem due_batch_found_witness:
  "\<exists>s'. enqueue sample_env (MExecute ((new_Execute sample_env EXECUTE_MSG)\<lparr>ex_base := (new_Message sample_env EXECUTE_MSG)\<lparr>m_txn_id := 2\<rparr>\<rparr>))
     sample_node = Some s' \<and> execute_semaphore s' = 1"
  using due_batch_found [OF sample_server, of
      "MExecute ((new_Execute sample_env EXECUTE_MSG)\<lparr>ex_base := (new_Message sample_env EXECUTE_MSG)\<lparr>m_txn_id := 2\<rparr>\<rparr>)" sample_node]
  by (auto simp: new_Message_def sample_node_def init_node_def)

text \<open>C16. A replica proposes only in views that it leads, throughout its run: after \<open>n\<close> steps, as long as the identifiers of the
  batches fit into 64 bits, the next view of every instance is one that this replica leads; a batch that the proposal thread takes
  from the client queues is numbered by such a view, at most \<open>ROUNDS_IN_ADVANCE\<close> ahead of the current one; the
  assertion in \<open>SpotLessProposalMsg::init\<close>, which \<open>create_and_send_hotstuff_prepare\<close> calls for the instance of that number,
  holds and the proposal carries that view; and the instance then moves to the next view that the replica leads.
  The scan finds a batch within one round over the instances whenever an instance is due and a queue has a batch for it.\<close>

theorem proposals_in_led_views:
  assumes "proposer_config e" and "reachable_in e k n s"
    and "(n + 3) * unat (g_node_cnt e) * unat (get_totInstances e) < 2 ^ 64"
  shows "(\<forall>i < get_totInstances e. get_view_primary e (get_next_send_view s i) i = node_id e) \<and>
    (\<forall>fuel m s'. dequeue_proposal e fuel s = Some (m, s') \<longrightarrow>
       (\<exists>p < get_totInstances e. \<exists>v. v = get_next_send_view s p \<and> get_view_primary e v p = node_id e \<and>
          v \<le> get_current_view s p + ROUNDS_IN_ADVANCE e \<and> txn_id m = v * get_totInstances e + p \<and>
          txn_id m mod get_totInstances e = p \<and> get_next_send_view s' p = v + node_cnt e \<and>
          (\<forall>prop. \<exists>prep. Proposal_init e s' (txn_id m mod get_totInstances e) prop = Some prep \<and> prop_view prep = v))) \<and>
    (\<forall>p i fuel. p < get_totInstances e \<and> i < get_totInstances e \<and> batch_available s p i \<and>
       get_next_send_view s p \<le> get_current_view s p + ROUNDS_IN_ADVANCE e \<and> unat (get_totInstances e) \<le> fuel \<longrightarrow>
       dequeue_proposal e fuel s \<noteq> None)"
proof (intro conjI allI impI)
  show "get_view_primary e (get_next_send_view s i) i = node_id e" if "i < get_totInstances e" for i
    using reachable_in_bounded(2) [OF assms(2,1,3)] that by (simp add: sending_ok_def send_inv_def get_next_send_view_def)
  fix fuel m s'
  assume "dequeue_proposal e fuel s = Some (m, s')"
  from proposal_for_led_view [OF assms(2,1,3) this] show "\<exists>p < get_totInstances e. \<exists>v. v = get_next_send_view s p \<and>
      get_view_primary e v p = node_id e \<and> v \<le> get_current_view s p + ROUNDS_IN_ADVANCE e \<and>
      txn_id m = v * get_totInstances e + p \<and> txn_id m mod get_totInstances e = p \<and> get_next_send_view s' p = v + node_cnt e \<and>
      (\<forall>prop. \<exists>prep. Proposal_init e s' (txn_id m mod get_totInstances e) prop = Some prep \<and> prop_view prep = v)"
    unfolding get_next_send_view_def by (metis fun_upd_same)
next
  fix p i fuel
  assume a: "p < get_totInstances e \<and> i < get_totInstances e \<and> batch_available s p i \<and>
      get_next_send_view s p \<le> get_current_view s p + ROUNDS_IN_ADVANCE e \<and> unat (get_totInstances e) \<le> fuel"
  have "unat (get_totInstances e) < 2 ^ 63" using assms(1) by (simp add: proposer_config_def)
  then show "dequeue_proposal e fuel s \<noteq> None"
    using waiting_batch_found [of p e i s fuel] a reachable_in_bounded(2) [OF assms(2,1,3)]
    by (simp add: sending_ok_def get_next_send_view_def)
qed

theorem proposals_in_led_views_witness:
  "\<exists>s m s'. enqueue sample_env (MClientBatch (new_CB sample_env CL_BATCH)) sample_node = Some s \<and>
     dequeue_proposal sample_env 4 s = Some (m, s') \<and>
     (\<exists>p < 4. \<exists>v. txn_id m = v * 4 + p \<and> get_view_primary sample_env v p = 0 \<and> get_next_send_view s' p = v + 4)"
proof -
  obtain s where s: "enqueue sample_env (MClientBatch (new_CB sample_env CL_BATCH)) sample_node = Some s"
      "batch_available s 0 0" "get_next_send_view s 0 \<le> get_current_view s 0 + ROUNDS_IN_ADVANCE sample_env"
    using sample_batch by blast
  have r: "reachable_in sample_env sample_keys 1 s"
    using reachable_in.on_receive [OF reachable_in.at_start, of sample_env _ sample_keys s] s(1) by (simp add: sample_node_def)
  have c: "proposer_config sample_env" by (simp add: proposer_config_def)
  note p = proposals_in_led_views [OF c r]
  have "dequeue_proposal sample_env 4 s \<noteq> None"
    using p [THEN conjunct2, THEN conjunct2, rule_format, of 0 0 4] s(2,3) by simp
  then obtain m s' where m: "dequeue_proposal sample_env 4 s = Some (m, s')" by auto
  then have "\<exists>p < 4. \<exists>v. txn_id m = v * 4 + p \<and> get_view_primary sample_env v p = 0 \<and> get_next_send_view s' p = v + 4"
    using p by fastforce
  then show ?thesis using s(1) m by blast
qed

section \<open>Execution\<close>

text \<open>C15. Executing a batch returns, applies the requests of its transactions to the store in the order of
  their identifiers, answers the client once with all identifiers and time stamps of the batch, and moves
  the counters on by one batch.\<close>

theorem batch_executed:
  assumes "ISSERVER e" and "ex_valid x" and "ex_index x \<le> ex_end_index x" and "4 \<le> ex_end_index x"
    and "length (batch_ids x) \<le> batch_n e" and "m_txn_id (ex_base x) + 1 = ex_end_index x"
    and "managers e (set (batch_ids x)) T s"
  shows "\<exists>s' c. process_hotstuff_execute e x s = Some (Some (ex_end_index x), s') \<and>
    db s' = fold (\<lambda>i. fold request_put (tm_requests (T i))) (batch_ids x) (db s) \<and>
    outbox s' = outbox s @ [(MClientResponse c, [tm_client_id (T (ex_end_index x))])] \<and>
    cr_index c = batch_ids x \<and> cr_client_ts c = map (tm_client_startts \<circ> T) (batch_ids x) \<and>
    g_next_index s' = g_next_index s + get_batch_size e \<and>
    expectedExecuteCount s' = get_batch_size e + m_txn_id (ex_base x)"
  by (rule execute_batch [OF assms])

theorem batch_executed_witness:
  "\<exists>s' c. process_hotstuff_execute sample_env sample_execute sample_ready = Some (Some 7, s') \<and>
     db_content (db s') ''1'' = ''2'' \<and> cr_index c = [4, 5, 6, 7] \<and>
     outbox s' = [(MClientResponse c, [tm_client_id (tman sample_env sample_ready 7)])]"
proof -
  obtain s' c where r: "process_hotstuff_execute sample_env sample_execute sample_ready = Some (Some 7, s')"
      "db s' = fold (\<lambda>i. fold request_put (tm_requests (tman sample_env sample_ready i))) [4, 5, 6, 7] (db sample_ready)"
      "outbox s' = outbox sample_ready @ [(MClientResponse c, [tm_client_id (tman sample_env sample_ready 7)])]"
      "cr_index c = [4, 5, 6, 7]"
    using batch_executed [OF sample_server _ _ _ _ _ sample_managers] sample_execute_facts by auto
  have t: "to_string 1 = ''1''" "to_string 2 = ''2''" by code_simp+
  have "db_content (db s') ''1'' = ''2''"
    unfolding r(2) by (simp add: sample_requests request_put_def kv.put_content t)
  with r show ?thesis by (auto simp: sample_ready_outbox)
qed

text \<open>C14. Batches are executed in order and once: handling a message leaves the store and the counter of
  executed batches alone, or the message is the execute message of the batch that the counter names,
  the store is what that handler makes of it, and the counter moves on by one batch.\<close>

theorem executed_in_order:
  assumes "worker_handle e now thd q m s = Some s'"
    and "\<forall>x. m = MExecute x \<longrightarrow> m_rtype (ex_base x) = EXECUTE_MSG"
  shows "(db s' = db s \<and> expectedExecuteCount s' = expectedExecuteCount s) \<or>
    (\<exists>x r s2. m = MExecute x \<and> m_txn_id (ex_base x) = expectedExecuteCount s \<and>
       process_hotstuff_execute e x s = Some (r, s2) \<and> db s' = db s2 \<and>
       expectedExecuteCount s' = get_batch_size e + expectedExecuteCount s)"
  using worker_handle_progress [OF assms(1)] assms(2) by blast

theorem executed_in_order_witness:
  "\<exists>s'. worker_handle sample_env 0 0 0 (MExecute sample_execute) sample_node = Some s' \<and> db s' = db sample_node"
proof -
  obtain s' where s': "worker_handle sample_env 0 0 0 (MExecute sample_execute) sample_node = Some s'"
    using sample_not_due by blast
  have "m_txn_id (ex_base sample_execute) \<noteq> expectedExecuteCount sample_node"
    by (simp add: sample_execute_def sample_node_def init_node_def)
  then show ?thesis
    using executed_in_order [OF s'] s' by (auto simp: sample_execute_def new_Message_def)
qed



text \<open>C29. The transaction table in memory.  Whatever managers are fetched, released and changed through
  pointers, in whatever order, the linked lists of nodes never lose a node, link one twice or follow a
  dangling pointer: every operation returns, and the memory represents the table in which a bucket is a
  list and a pointer is an identifier.  In the end \<open>TxnTable::free\<close> gives every node back.\<close>

theorem table_in_memory:
  assumes "\<not> late_push ok" and "\<forall>op \<in> set ops. keeps_op op" and "pool_size e \<noteq> 0"
  shows "\<exists>t t'. fold_option (memory_op e raw ok) ops memory_init = Some t \<and>
    table_rel t (fold (apply_op e) ops TxnTable_init) \<and>
    memory_free e ok t = Some t' \<and> pool_held (me_nodes t') = {}"
proof -
  obtain t where t: "fold_option (memory_op e raw ok) ops memory_init = Some t"
      "table_rel t (fold (apply_op e) ops TxnTable_init)" "tt_inv e (fold (apply_op e) ops TxnTable_init)"
    using history_refines [OF assms(1) table_rel_init tt_inv_init assms(2)] by blast
  then show ?thesis using memory_free_all [OF t(2,3) assms(1,3)] by blast
qed

theorem table_in_memory_witness:
  "\<exists>t t'. fold_option (memory_op sample_env \<lparr>ln_val = new_TxnManager sample_env, ln_next = None, ln_prev = None\<rparr> (\<lambda>_. True))
      [Fetch 3 0, Fetch 263 0, Change 3 0 set_new_viewed, Release 3 0, Fetch 7 0] memory_init = Some t \<and>
    table_rel t (fold (apply_op sample_env)
      [Fetch 3 0, Fetch 263 0, Change 3 0 set_new_viewed, Release 3 0, Fetch 7 0] TxnTable_init) \<and>
    memory_free sample_env (\<lambda>_. True) t = Some t' \<and> pool_held (me_nodes t') = {}"
  by (rule table_in_memory)
     (auto simp: late_push_def TRY_LIMIT_def keeps_ids_def set_new_viewed_def pool_size_def sample_env_def intro: exI [of _ 0])

text \<open>C22. In every reachable state, a manager that is fetched after its release is a new object or one that was released before
  and initialised again.  Either way it carries over no hash, counted vote, request or progress flag of an earlier
  transaction; and if the object last served the last transaction of a batch (the one that is voted on), no list of voters, no
  signature share and no hash in its certificates either.  (The instance, view, client, start time and sizes are overwritten when
  the manager is used.)  The managers of other identifiers are untouched.\<close>

theorem recycled_manager_clean:
  assumes "reachable e k s" and "s' = get_tman e i (release_txn_man e i s)"
  shows "has_tman e s' i \<and> clean (tman e s' i) \<and> (\<forall>j. j \<noteq> i \<longrightarrow> tman e s' j = tman e s j) \<and>
    (\<exists>old. (old = new_TxnManager e \<or>
        old \<in> set (tt_free (txn_table (release_txn_man e i s)) (i mod ucast (g_total_thread_cnt e)))) \<and>
      tman e s' i = (TxnManager_init old)\<lparr>tm_txn_id := i, tm_batch_id := 0, tm_propmsg := None\<rparr> \<and>
      ((tm_txn_id old + 1) mod get_batch_size e = 0 \<longrightarrow> wiped (tman e s' i)))"
proof -
  have inv: "table_inv e s" using reachable_votes_ok [OF assms(1)] by (simp add: votes_ok_def)
  then obtain old where "tman e s' i = (TxnManager_init old)\<lparr>tm_txn_id := i, tm_batch_id := 0, tm_propmsg := None\<rparr>"
      "old = new_TxnManager e \<or> old \<in> set (tt_free (txn_table (release_txn_man e i s)) (i mod ucast (g_total_thread_cnt e)))"
      "last_of_batch e old \<Longrightarrow> wiped (tman e s' i)"
    using tman_get_old [of e "release_txn_man e i s" i] assms(2) by auto
  moreover have "has_tman e s' i" "clean (tman e s' i)" "\<forall>j. j \<noteq> i \<longrightarrow> tman e s' j = tman e s j"
    using inv by (simp_all add: assms(2) tman_get_new tman_get_other)
  ultimately show ?thesis by (auto simp: last_of_batch_def)
qed

theorem recycled_manager_clean_witness:
  "clean (tman sample_env3 (get_tman sample_env3 3 (release_txn_man sample_env3 3 sample_voted)) 3)"
  using recycled_manager_clean [OF sample_voted(1) refl] by blast

section \<open>Messages and sending\<close>

text \<open>C23. Every message class survives serialisation: a message whose lengths agree with its size fields, copied
  to a buffer of \<open>get_size\<close> bytes and read back by \<open>create_message\<close>, is the message again up to what does not travel: its
  type is kept in every class; its transaction, instance, signature and key are kept in every class but that of single
  client queries, whose \<open>copy_to_buf\<close> writes no header: of these the type, the requests, the start time and the
  return node are kept.\<close>

theorem message_round_trip:
  assumes "msg_ok e m" and "msg_get_size e m = Some (length buf)"
  shows "\<exists>m'. deep_copy_msg e now buf m = Some m' \<and> m' = msg_wire e now m \<and>
    msg_get_size e m' = msg_get_size e m \<and>
    (case m of
       MQuery q \<Rightarrow> \<exists>q'. m' = MQuery q' \<and> msg_rtype m' = msg_rtype m \<and> yc_requests q' = yc_requests q \<and>
         yc_client_startts q' = yc_client_startts q \<and> yc_return_node q' = yc_return_node q
     | _ \<Rightarrow> msg_rtype m' = msg_rtype m \<and> txn_id m' = txn_id m \<and> inst_id m' = inst_id m \<and>
         msg_signature m' = msg_signature m \<and> m_pubKey (msg_base m') = m_pubKey (msg_base m))"
proof -
  have "case m of
      MQuery q \<Rightarrow> \<exists>q'. msg_wire e now m = MQuery q' \<and> msg_rtype (msg_wire e now m) = msg_rtype m \<and> yc_requests q' = yc_requests q \<and>
        yc_client_startts q' = yc_client_startts q \<and> yc_return_node q' = yc_return_node q
    | _ \<Rightarrow> msg_rtype (msg_wire e now m) = msg_rtype m \<and> txn_id (msg_wire e now m) = txn_id m \<and>
        inst_id (msg_wire e now m) = inst_id m \<and> msg_signature (msg_wire e now m) = msg_signature m \<and>
        m_pubKey (msg_base (msg_wire e now m)) = m_pubKey (msg_base m)"
  proof (cases "\<exists>q. m = MQuery q")
    case True
    then show ?thesis by (auto simp: yc_wire_def new_Message_def)
  next
    case False
    then show ?thesis using msg_wire_header [OF assms(1), of now] by (auto split: msg.splits)
  qed
  then show ?thesis
    using pk.round_trip [OF assms] pk.wire_size [OF assms(1)] by (simp add: deep_copy_msg_def)
qed

theorem message_round_trip_witness:
  "\<exists>m'. deep_copy_msg sample_env 9 (replicate 254 CHR 0x00) (MSync sample_signed) = Some m' \<and>
     msg_rtype m' = SpotLess_SYNC_MSG \<and> msg_signature m' = msg_signature (MSync sample_signed)"
  using message_round_trip [OF sample_signed_ok(1), of "replicate 254 CHR 0x00" 9]
    msg_size [OF sample_signed_ok(1), of 9] sample_signed_ok by auto

text \<open>C24. A packet is parsed into the messages put into it, in order, each with the sender's identifier.\<close>

theorem packet_round_trip:
  assumes "\<forall>(now, m) \<in> set ms. msg_ok e m" and "length ms < 2 ^ 32"
    and "src \<noteq> g_node_id e" and "ISCLIENTN e src \<or> ISSERVERN e src \<or> ISREPLICAN e src"
  shows "create_messages e (packet (g_node_id e) src ms @ rest) = Some (map (received e src) ms)"
  by (rule create_messages_packet [OF assms])

theorem packet_round_trip_witness:
  "\<exists>m'. create_messages sample_env (packet 0 1 [(9, MSync sample_signed)]) = Some [m'] \<and>
     m_return_node_id (msg_base m') = 1"
  using packet_round_trip [of "[(9, MSync sample_signed)]" sample_env 1 "[]"] sample_signed_ok(1)
  by (simp add: ISSERVERN_def received_def)

text \<open>C25. A sending thread implements one first-in first-out queue per destination: handling a message for
  the destinations \<open>ds\<close> never fails when the message fits into a packet, and appends it (signed for its destination)
  exactly to the queues of those destinations that belong to this thread; every queue is what the packets sent so far and the
  open buffer hold.\<close>

theorem sending_is_fifo:
  assumes "\<forall>d. \<exists>ms. mt_holds e t d ms" and "MESSAGE_PER_BUFFER e \<noteq> 0"
    and "allsign = [] \<or> length ds \<le> length allsign"
    and "\<forall>(j, d) \<in> set (enumerate 0 ds). msg_ok e (signed_for e k allsign j d m) \<and>
      12 + length (msg_enc (clock j) (signed_for e k allsign j d m)) \<le> g_msg_size e"
    and "m_dest (msg_base m) = ds"
  shows "\<exists>t'. MessageThread_run e k warm nodes clock td_id (Some (m, allsign)) t = Some t' \<and>
    (\<forall>d ms. mt_holds e t d ms \<longrightarrow> mt_holds e t' d (ms @ sends e k clock td_id allsign 0 ds m d))"
  using run_dests_holds [of e t allsign 0 ds k m clock warm nodes td_id] assms
  by (simp add: MessageThread_run_def)

theorem sending_is_fifo_witness:
  "\<exists>t'. MessageThread_run sample_env sample_keys True [] (\<lambda>_. 9) 1 (Some (add_dest [1] (MSync sample_signed), [])) sample_thread = Some t' \<and>
     mt_holds sample_env t' 1 [(9, add_dest [1] (MSync sample_signed))]"
proof -
  have d: "m_dest (msg_base (add_dest [1] (MSync sample_signed))) = [1]"
    by (simp add: add_dest_def sample_signed_eq sample_vote_def new_Message_def)
  have ready: "\<forall>d. \<exists>ms. mt_holds sample_env sample_thread d ms" using sample_thread_holds by blast
  have ok: "\<forall>(j, d) \<in> set (enumerate 0 [1]). msg_ok sample_env (signed_for sample_env sample_keys [] j d (add_dest [1] (MSync sample_signed))) \<and>
      12 + length (msg_enc 9 (signed_for sample_env sample_keys [] j d (add_dest [1] (MSync sample_signed)))) \<le> g_msg_size sample_env"
    using sample_signed_ok by (simp add: signed_for_def del: msg_ok.simps msg_enc.simps)
  obtain t' where t': "MessageThread_run sample_env sample_keys True [] (\<lambda>_. 9) 1 (Some (add_dest [1] (MSync sample_signed), [])) sample_thread = Some t'"
      "\<And>d ms. mt_holds sample_env sample_thread d ms \<Longrightarrow>
         mt_holds sample_env t' d (ms @ sends sample_env sample_keys (\<lambda>_. 9) 1 [] 0 [1] (add_dest [1] (MSync sample_signed)) d)"
    using sending_is_fifo [OF ready _ _ ok d, of True "[]" 1] by auto
  have "sends sample_env sample_keys (\<lambda>_. 9) 1 [] 0 [1] (add_dest [1] (MSync sample_signed)) 1 =
      [(9, add_dest [1] (MSync sample_signed))]"
    by (simp add: sends_def signed_for_def)
  then show ?thesis using t'(1) t'(2) [OF sample_thread_holds, of 1] by simp
qed


text \<open>C26. A broadcast reaches the sending thread of each of its destinations exactly once, with the signatures of all
  destinations, whatever else waits there.\<close>

theorem broadcast_distributed:
  assumes "enqueue_sign e k dest m = Some (m', sigs)" and "broadcast_rtype (msg_rtype m')" and "msg_ok e m'"
    and "g_send_thread_cnt e \<noteq> 0" and "d \<in> set dest"
  shows "\<exists>q'. mq_enqueue e k clock m dest q = Some q' \<and>
    (let j = d mod send_threads e in
     m_queue q' j = m_queue q j @ [(add_dest dest (copy_for e clock m' j), sigs)])"
proof -
  have pos: "0 < unat (send_threads e)" using assms(4) by (simp add: unat_gt_0)
  obtain q' where q': "distribute e clock dest (m', sigs) q = Some q'"
      "m_queue q' = queue_gains e clock dest m' sigs (unat (send_threads e)) q"
    using distribute_gains [OF assms(3) pos] by blast
  have "\<not> single_rtype (msg_rtype m')"
    using assms(2) by (auto simp: single_rtype_def broadcast_rtype_def)
  then have "mq_enqueue e k clock m dest q = Some q'"
    using assms(1,2) q'(1) by (simp add: mq_enqueue_def)
  moreover have "unat (d mod send_threads e) < unat (send_threads e)"
    using pos by (simp add: unat_mod_distrib)
  moreover have "\<not> skips_thread e dest (d mod send_threads e)"
    using assms(5) by (auto simp: skips_thread_def split: list.splits)
  ultimately show ?thesis using q'(2) by (simp add: queue_gains_def Let_def)
qed

theorem broadcast_distributed_witness:
  "\<exists>q'. mq_enqueue sample_env sample_keys (\<lambda>_. 9) (MSync (Sync_digital_sign sample_env sample_keys sample_vote)) [1]
      \<lparr>m_queue = (\<lambda>_. []), output_semaphore = (\<lambda>_. 0)\<rparr> = Some q' \<and> length (m_queue q' 1) = 1"
proof -
  have s: "enqueue_sign sample_env sample_keys [1] (MSync (Sync_digital_sign sample_env sample_keys sample_vote)) =
      Some (MSync sample_signed, [m_signature (sync_base sample_signed)])"
    by (simp add: enqueue_sign_def sign_each_def sample_signed_def Let_def)
      (simp add: sample_vote_def Sync_digital_sign_def new_Message_def)
  have "broadcast_rtype (msg_rtype (MSync sample_signed))"
    by (simp add: broadcast_rtype_def sample_signed_eq sample_vote_def new_Message_def)
  from broadcast_distributed [OF s this sample_signed_ok(1), of 1 "\<lambda>_. 9" "\<lparr>m_queue = (\<lambda>_. []), output_semaphore = (\<lambda>_. 0)\<rparr>"]
  show ?thesis by (auto simp: Let_def)
qed

text \<open>C27. A vote that a replica signs for another one is accepted there: packed, parsed and validated, it arrives as
  a vote of the sender for the same hash, view and instance, provided the primitives verify what they signed, the key shared
  with the receiver is an AES key, and the receiver holds the sender's public key.\<close>

theorem vote_accepted:
  assumes "crypto_ok e" and "AES_key (cmacPrivateKeys k (ucast r))" and "ISSERVER e" and "g_node_id e \<noteq> r"
    and "\<forall>x. ecdsa_verify e (ecdsa_sign e (private_key k) x) x (public_keys k' (node_id e))"
    and "m' = Sync_sign e k (ucast r) (Sync_digital_sign e k m)" and "msg_ok e (MSync m')"
  shows "\<exists>v. create_messages (e\<lparr>g_node_id := r\<rparr>) (packet r (g_node_id e) [(now, MSync m')]) = Some [MSync v] \<and>
    validate_msg (e\<lparr>g_node_id := r\<rparr>) k' (MSync v) = Some True \<and>
    sync_hash v = sync_hash m \<and> sync_view v = sync_view m \<and> m_return_node_id (sync_base v) = node_id e \<and>
    m_instance_id (sync_base v) = m_instance_id (sync_base m) \<and> m_txn_id (sync_base v) = m_txn_id (sync_base m)"
proof -
  let ?e = "e\<lparr>g_node_id := r\<rparr>"
  have "create_messages ?e (packet (g_node_id ?e) (g_node_id e) [(now, MSync m')] @ []) =
      Some (map (received ?e (g_node_id e)) [(now, MSync m')])"
    by (rule create_messages_packet) (use assms in \<open>simp_all add: ISSERVER_def ISSERVERN_def\<close>)
  then show ?thesis
    using assms(1,2,5,6)
    by (simp add: received_def validate_msg_def Sync_validate_def validateNodeNode_def CmacVerifyString_def crypto_ok_def
        sync_wire_def Sync_sign_def Sync_digital_sign_def set_signature_def signingNodeNode_def CmacSignString_def
        Sync_toString_def vote_digest_def calculateHash_def QC_wire_def QC_to_string_def)
qed

theorem vote_accepted_witness:
  "\<exists>v. create_messages (sample_env\<lparr>g_node_id := 1\<rparr>) (packet 1 0 [(9, MSync sample_signed)]) = Some [MSync v] \<and>
     validate_msg (sample_env\<lparr>g_node_id := 1\<rparr>) sample_keys (MSync v) = Some True \<and> sync_hash v = ''h''"
proof -
  have "\<forall>x. ecdsa_verify sample_env (ecdsa_sign sample_env (private_key sample_keys) x) x (public_keys sample_keys (node_id sample_env))"
    by (simp add: sample_env_def sample_keys_def)
  from vote_accepted [OF sample_crypto_ok sample_key sample_server, of 1 sample_keys sample_signed sample_vote 9] this
  show ?thesis using sample_signed_ok(1) by (auto simp: sample_signed_def sample_vote_def new_Sync_def)
qed

text \<open>C28. The authentication code of a vote is checked under the key that the vote itself carries: whoever picks an AES key of
  his own can have a vote accepted in the name of any replica (without a signature share, as all but the next primary receive it).\<close>

theorem vote_forgeable:
  assumes "crypto_ok e" and "AES_key any_key"
  shows "\<exists>v. Sync_validate e k v = Some True \<and> sync_hash v = hash \<and> sync_view v = view \<and>
    m_return_node_id (sync_base v) = victim \<and> m_pubKey (sync_base v) = any_key"
proof (intro exI conjI)
  let ?m = "(new_Sync e SpotLess_SYNC_MSG)\<lparr>sync_hash := hash, sync_view := view\<rparr>"
  let ?v = "?m\<lparr>sync_base := (new_Message e SpotLess_SYNC_MSG)\<lparr>m_return_node_id := victim, m_pubKey := any_key,
      m_signature := CMAC_sign e any_key (Sync_toString ?m)\<rparr>\<rparr>"
  show "Sync_validate e k ?v = Some True"
    using assms by (simp add: Sync_validate_def validateNodeNode_def CmacVerifyString_def crypto_ok_def Sync_toString_def new_Message_def)
qed simp_all

theorem vote_forgeable_witness:
  "\<exists>v. Sync_validate sample_env sample_keys v = Some True \<and> sync_hash v = ''x'' \<and> m_return_node_id (sync_base v) = 2"
  using vote_forgeable [OF sample_crypto_ok sample_key, of sample_keys "''x''" 0 2] by blast

section \<open>The client\<close>

text \<open>C32. A client counts the responses of a batch and completes it exactly once, with the response number \<open>fp1\<close>:
  before that nothing changes but the counter; then the transaction is recorded, the window of the primary
  and the number of transactions in flight go down by one batch; later responses change nothing.\<close>

theorem client_completes_once:
  assumes "responses_ok c" and "counted c t = None" and "kept c t = None"
    and "\<forall>m \<in> set ms. answers e (cl_keys c) t idx ts v i m" and "2 \<le> unat (fp1 e)" and "g_node_cnt e \<noteq> 0"
  shows "\<exists>c'. fold_option (client_response e now) ms c = Some c' \<and>
    (if length ms < unat (fp1 e) then unfinished c c' else completed e t (ucast (get_view_primary e v i)) c c')"
  using responses_complete [OF assms, of now] by (auto simp: phase_def)

theorem client_completes_once_witness:
  "\<exists>c'. fold_option (client_response sample_env 9) [sample_response, sample_response, sample_response] sample_client = Some c' \<and>
     last_valid_txn c' = 3 \<and> in_round c' 0 = 0 \<and> num_inflight_txns c' = 0"
proof -
  have "\<forall>m \<in> set [sample_response, sample_response, sample_response].
      answers sample_env (cl_keys sample_client) 3 [0, 1, 2, 3] [5, 5, 5, 5] 0 0 m"
    using sample_response_answers by (simp add: sample_client_def)
  from client_completes_once [OF sample_client_fresh this, of 9] show ?thesis
    by (auto simp: completed_def get_view_primary_def sample_client_def less_inflight_def)
qed

text \<open>C33. The sending loop keeps the window: no node is sent more unanswered batches than its share
  of \<open>MAX_TXN_IN_FLIGHT\<close>, the counter of transactions in flight stays within \<open>g_inflight_max\<close>, and a batch is sent
  only to a node whose window has room.\<close>

theorem client_keeps_window:
  assumes "window_ok e cc c" and "client_iteration e cc now c = Some c'"
  shows "(\<forall>n. in_round c' n \<le> send_limit e cc n) \<and> num_inflight_txns c' \<le> g_inflight_max cc \<and>
    (cl_outbox c' \<noteq> cl_outbox c \<longrightarrow>
       in_round c (ucast (next_to_send c)) < send_limit e cc (ucast (next_to_send c)) \<and>
       (\<exists>b. cl_outbox c' = cl_outbox c @ [(MClientBatch b, [ucast (ucast (next_to_send c) :: u32)])]))"
  using client_iteration_window [OF assms] client_iteration_sends [OF assms(2)] assms(1)
  by (auto simp: window_ok_def order_less_le)

theorem client_keeps_window_witness:
  "\<exists>c'. client_iteration sample_env sample_client_config 9 sample_client = Some c' \<and>
     (\<forall>n. in_round c' n \<le> send_limit sample_env sample_client_config n) \<and> num_inflight_txns c' \<le> 64"
proof -
  have "client_iteration sample_env sample_client_config 9 sample_client \<noteq> None" by code_simp
  then obtain c' where "client_iteration sample_env sample_client_config 9 sample_client = Some c'" by blast
  with client_keeps_window [OF sample_client_window this] show ?thesis by (simp add: sample_client_config_def)
qed

section \<open>The transport\<close>

text \<open>C30. Any two nodes, replicas or clients, are connected: the sending thread of \<open>a\<close> that serves \<open>b\<close> has a socket for it, \<open>b\<close>
  listens on the same port, and exactly one of its receiving threads looks at that socket.\<close>

theorem nodes_connected:
  assumes "net_ok e tc" and "a < g_total_node_cnt e" and "b < g_total_node_cnt e" and "a \<noteq> b"
  shows "\<exists>ta tb p. Transport_init (e\<lparr>g_node_id := a\<rparr>) tc = Some ta \<and> Transport_init (e\<lparr>g_node_id := b\<rparr>) tc = Some tb \<and>
    send_msg_socket (link_thread e tc (ucast a) (ucast b)) (ucast b) ta = Some (Connected (ucast b) p) \<and>
    (\<exists>!thd. thd < unat (g_this_rem_thread_cnt (e\<lparr>g_node_id := b\<rparr>) tc) \<and>
       Bound p \<in> set (heard_sockets (e\<lparr>g_node_id := b\<rparr>) tc thd tb))"
proof -
  let ?a = "ucast a :: u64" and ?b = "ucast b :: u64" and ?eb = "e\<lparr>g_node_id := b\<rparr>"
  have lt: "?a < total_cnt e" "?b < total_cnt e" "?a \<noteq> ?b"
    using assms(2-4) by (simp_all add: word_less_nat_alt word_unat_eq_iff)
  obtain ta where ta: "Transport_init (e\<lparr>g_node_id := a\<rparr>) tc = Some ta"
      "send_msg_socket (link_thread e tc ?a ?b) ?b ta = Some (Connected ?b (link_port e tc ?a ?b))"
    using link_socket [of "e\<lparr>g_node_id := a\<rparr>" tc ?a ?b] assms(1) lt by auto
  have tb: "Transport_init ?eb tc = Some (wired ?eb tc (word_range 0 (g_total_node_cnt ?eb)))"
    using assms(1) by (intro Transport_init_wired) simp
  have "\<exists>!thd. thd < unat (g_this_rem_thread_cnt ?eb tc) \<and> Bound (link_port ?eb tc ?a (node_id ?eb)) \<in>
      set (heard_sockets ?eb tc thd (wired ?eb tc (word_range 0 (g_total_node_cnt ?eb))))"
    by (rule link_heard) (use assms(1) lt tb in simp_all)
  then show ?thesis using ta tb by auto
qed

theorem nodes_connected_witness:
  "(\<exists>ta tb p. Transport_init (sample_env\<lparr>g_node_id := 4\<rparr>) sample_tc = Some ta \<and>
      Transport_init (sample_env\<lparr>g_node_id := 2\<rparr>) sample_tc = Some tb \<and> send_msg_socket 13 2 ta = Some (Connected 2 p) \<and>
      (\<exists>!thd. thd < 3 \<and> Bound p \<in> set (heard_sockets (sample_env\<lparr>g_node_id := 2\<rparr>) sample_tc thd tb))) \<and>
   (\<exists>ta tb p. Transport_init (sample_env\<lparr>g_node_id := 2\<rparr>) sample_tc = Some ta \<and>
      Transport_init (sample_env\<lparr>g_node_id := 4\<rparr>) sample_tc = Some tb \<and> send_msg_socket 10 4 ta = Some (Connected 4 p) \<and>
      (\<exists>!thd. thd < 12 \<and> Bound p \<in> set (heard_sockets (sample_env\<lparr>g_node_id := 4\<rparr>) sample_tc thd tb)))"
proof
  have t: "link_thread sample_env sample_tc 4 2 = 13" "link_thread sample_env sample_tc 2 4 = 10" by code_simp+
  have r: "g_this_rem_thread_cnt (sample_env\<lparr>g_node_id := 2\<rparr>) sample_tc = 3"
      "g_this_rem_thread_cnt (sample_env\<lparr>g_node_id := 4\<rparr>) sample_tc = 12"
    by (simp_all add: g_this_rem_thread_cnt_def ISCLIENT_def sample_tc_def)
  show "\<exists>ta tb p. Transport_init (sample_env\<lparr>g_node_id := 4\<rparr>) sample_tc = Some ta \<and>
      Transport_init (sample_env\<lparr>g_node_id := 2\<rparr>) sample_tc = Some tb \<and> send_msg_socket 13 2 ta = Some (Connected 2 p) \<and>
      (\<exists>!thd. thd < 3 \<and> Bound p \<in> set (heard_sockets (sample_env\<lparr>g_node_id := 2\<rparr>) sample_tc thd tb))"
    using nodes_connected [OF sample_net_ok, of 4 2] t r by (simp add: g_total_node_cnt_def)
  show "\<exists>ta tb p. Transport_init (sample_env\<lparr>g_node_id := 2\<rparr>) sample_tc = Some ta \<and>
      Transport_init (sample_env\<lparr>g_node_id := 4\<rparr>) sample_tc = Some tb \<and> send_msg_socket 10 4 ta = Some (Connected 4 p) \<and>
      (\<exists>!thd. thd < 12 \<and> Bound p \<in> set (heard_sockets (sample_env\<lparr>g_node_id := 4\<rparr>) sample_tc thd tb))"
    using nodes_connected [OF sample_net_ok, of 2 4] t r by (simp add: g_total_node_cnt_def)
qed

text \<open>C31. While the simulation runs, an input thread of a replica takes a packet whenever one waits at any of the sockets it
  polls.  If the last message of the packet is \<open>INIT_DONE\<close> the whole packet is dropped; otherwise all its messages but
  \<open>INIT_DONE\<close> are handed to the work queue, the last one first.  If no packet waits nothing changes.\<close>

theorem waiting_packet_taken:
  assumes "ISSERVER e" and "1 < g_rem_thread_cnt e"
    and "thd mod unat (g_rem_thread_cnt e) = 0 \<longrightarrow> recv_sockets_clients t \<noteq> []"
    and "\<And>sock p. sock \<in> set (polled_sockets e tc thd t) \<Longrightarrow> incoming sock = Some p \<Longrightarrow>
      \<exists>msgs. create_messages e p = Some msgs \<and> msgs \<noteq> []"
  shows "\<exists>t'. t' = t\<lparr>sock_ctr := sock_ctr t'\<rparr> \<and>
    (if \<forall>sock \<in> set (polled_sockets e tc thd t). incoming sock = None
     then server_iteration e tc (\<lambda>_. True) now incoming thd (t, s) = Some (t', s)
     else \<exists>sock \<in> set (polled_sockets e tc thd t). \<exists>p msgs. incoming sock = Some p \<and> create_messages e p = Some msgs \<and>
       server_iteration e tc (\<lambda>_. True) now incoming thd (t, s) =
         (if msg_rtype (last msgs) \<noteq> INIT_DONE
          then map_option (Pair t')
            (fold_option (enqueue e) (last msgs # filter (\<lambda>m. msg_rtype m \<noteq> INIT_DONE) (butlast msgs)) s)
          else Some (t', s)))"
  by (rule server_iteration_takes [OF assms])

theorem waiting_packet_taken_witness:
  "\<exists>t t' m. Transport_init sample_env sample_tc = Some t \<and> create_messages sample_env sample_packet = Some [m] \<and>
     server_iteration sample_env sample_tc (\<lambda>_. True) 0 (\<lambda>_. Some sample_packet) 1 (t, sample_node) =
       map_option (Pair t') (enqueue sample_env m sample_node)"
proof -
  obtain t where t: "Transport_init sample_env sample_tc = Some t" using Transport_init_wired [OF sample_net_ok] by blast
  obtain m where m: "create_messages sample_env sample_packet = Some [m]" "msg_rtype m = READY"
    using sample_packet_messages by blast
  have "Bound (link_port sample_env sample_tc 1 0) \<in> set (polled_sockets sample_env sample_tc 1 t)"
    unfolding polled_sockets_wired [OF sample_net_ok sample_server t]
    by (auto simp: g_total_node_cnt_def ISCLIENTN_def word_le_nat_alt intro!: exI [of _ 1])
  then have "\<not> (\<forall>sock \<in> set (polled_sockets sample_env sample_tc 1 t). Some sample_packet = None)" by blast
  moreover have "fold_option (enqueue sample_env) [m] sample_node = enqueue sample_env m sample_node"
    by (cases "enqueue sample_env m sample_node") simp_all
  ultimately show ?thesis
    using waiting_packet_taken [OF sample_server, of 1 t sample_tc "\<lambda>_. Some sample_packet" 0 sample_node] t m
    by (auto simp del: fold_option.simps)
qed

section \<open>Setup\<close>

text \<open>C34. The setup of a replica counts \<open>INIT_DONE\<close> messages, whoever sent them: it is over exactly when it has received one
  for each other node; then, and only once, the barrier is opened for every sending thread.  Meanwhile all other
  messages are handed to the work queue in order, client batches with consecutive numbers as identifiers.\<close>

theorem setup_ends:
  assumes "setup_server e sc msgs io = Some io'" and "io_sim io = SimManager_init e clock wall"
    and "2 \<le> unat (g_total_node_cnt e)" and "length msgs < 2 ^ 64"
  shows "(sim_init_done (io_sim io') \<longleftrightarrow>
      unat (g_total_node_cnt e) - 1 \<le> length (filter (\<lambda>m. msg_rtype m = INIT_DONE) msgs)) \<and>
    setup_done_barrier (io_sim io') = (if sim_init_done (io_sim io') then SEND_THREAD_CNT sc else 0) \<and>
    next_idx io' = next_idx io + word_of_nat (length (filter (\<lambda>m. msg_rtype m = CL_BATCH) msgs)) \<and>
    fold_option (enqueue e) (numbered (next_idx io) msgs) (io_node io) = Some (io_node io') \<and>
    (\<forall>k. reachable e k (io_node io) \<longrightarrow> reachable e k (io_node io'))"
proof -
  let ?n = "length (filter (\<lambda>m. msg_rtype m = INIT_DONE) msgs)"
  have "?n < 2 ^ 64" using assms(4) length_filter_le [of _ msgs] by (rule le_less_trans [rotated])
  from process_setup_count [OF assms(3) this, of sc clock wall] setup_server_sim [OF assms(1)] assms(2)
    setup_server_reachable [OF _ assms(1)] setup_server_delivers [OF assms(1)]
  show ?thesis by (simp add: Let_def)
qed

theorem setup_ends_witness:
  "\<exists>io'. setup_server sample_env sample_sc
       (MReady (new_Message sample_env READY) # replicate 4 (MInitDone (new_Message sample_env INIT_DONE))) sample_io = Some io' \<and>
     sim_init_done (io_sim io') \<and> enqueue sample_env (MReady (new_Message sample_env READY)) (io_node sample_io) = Some (io_node io')"
proof -
  let ?ms = "MReady (new_Message sample_env READY) # replicate 4 (MInitDone (new_Message sample_env INIT_DONE))"
  have "setup_server sample_env sample_sc ?ms sample_io \<noteq> None"
    by (simp add: setup_server_def setup_server_msg_def new_Message_def numeral_eq_Suc enqueue_def)
  then obtain io' where io': "setup_server sample_env sample_sc ?ms sample_io = Some io'" by blast
  have "numbered i ?ms = [MReady (new_Message sample_env READY)]" for i
    by (simp add: new_Message_def numeral_eq_Suc)
  moreover have "fold_option (enqueue sample_env) [m] s = enqueue sample_env m s" for m s
    by (cases "enqueue sample_env m s") simp_all
  moreover have "sim_init_done (io_sim io')" "fold_option (enqueue sample_env) (numbered (next_idx sample_io) ?ms) (io_node sample_io) = Some (io_node io')"
    using setup_ends [OF io', of 0 0] by (simp_all add: sample_io_def g_total_node_cnt_def new_Message_def del: numbered.simps fold_option.simps)
  ultimately show ?thesis using io' by (simp only:) blast
qed

section \<open>Timers and failed views\<close>

text \<open>C37. However the timers of a thread have been set, ended and checked, \<open>check_timers\<close> misses none that it is meant to see,
  although it looks at them only after \<open>min_exp_time\<close>: after the warm-up it reports an instance if and only if some timer is waiting and has run
  out, in an instance whose current view is beyond \<open>CRASH_VIEW\<close> and has a crashed primary, and then one such instance.  Timers of views up to and including
  \<open>CRASH_VIEW\<close> are never reported, even if they have run out.  The length of every timer is between 4 and its initial value.\<close>

theorem no_timeout_missed:
  assumes "timers_reachable e thd m"
  shows "(case fst (check_timers e True now s m) of
      None \<Rightarrow> \<forall>(i, t) \<in> set (spotless_timers m). waiting t \<and> expiration_time t < now \<longrightarrow>
        get_current_view s i \<le> CRASH_VIEW \<or> \<not> crashed (get_view_primary e (get_current_view s i) i)
    | Some i \<Rightarrow> \<exists>t. (i, t) \<in> set (spotless_timers m) \<and> waiting t \<and> expiration_time t < now \<and>
        CRASH_VIEW < get_current_view s i \<and> crashed (get_view_primary e (get_current_view s i) i)) \<and>
    ((\<forall>i. get_current_view s i \<le> CRASH_VIEW) \<longrightarrow> fst (check_timers e True now s m) = None) \<and>
    (\<forall>(i, t) \<in> set (spotless_timers m). 4 \<le> timer_length t \<and> timer_length t \<le> INITIAL_TIMEOUT_LENGTH)"
proof -
  have "expired (get_current_view s) (primary_down e s) now (i, t) \<longleftrightarrow> waiting t \<and> expiration_time t < now \<and>
      CRASH_VIEW < get_current_view s i \<and> crashed (get_view_primary e (get_current_view s i) i)" for i t
    by (auto simp: expired_def primary_down_def)
  then show ?thesis
    using check_timers_complete [OF timers_reachable_ok [OF assms] TrueI, where e = e and now = now and s = s] timers_reachable_ok [OF assms]
      check_timers_crash_view [of s e True now m]
    by (fastforce simp: manager_ok_set timer_ok_def not_less split: option.splits)
qed

theorem no_timeout_missed_witness:
  "\<exists>m. manager_setTimer True 1000 0 sample_timers = Some m \<and>
     (\<exists>t. (0, t) \<in> set (spotless_timers m) \<and> 4 \<le> timer_length t) \<and>
     fst (check_timers sample_env True (2 ^ 40) (sample_node\<lparr>newView := (\<lambda>_. 103)\<rparr>) m) \<noteq> None"
proof -
  let ?s = "sample_node\<lparr>newView := (\<lambda>_. 103)\<rparr>"
  have "manager_setTimer True 1000 0 sample_timers \<noteq> None" by code_simp
  then obtain m where m: "manager_setTimer True 1000 0 sample_timers = Some m" by blast
  have "list_ex (\<lambda>p. fst p = 0 \<and> waiting (snd p) \<and> expiration_time (snd p) < 2 ^ 40)
      (spotless_timers (the (manager_setTimer True 1000 0 sample_timers)))" by code_simp
  then obtain t where t: "(0, t) \<in> set (spotless_timers m)" "waiting t" "expiration_time t < 2 ^ 40"
    using m by (auto simp: list_ex_iff)
  have down: "CRASH_VIEW < get_current_view ?s 0" "crashed (get_view_primary sample_env (get_current_view ?s 0) 0)"
    by (simp_all add: get_current_view_def crashed_def get_view_primary_def CRASH_VIEW_def)
  have r: "timers_reachable sample_env 0 m"
    using m unfolding sample_timers_def by (rule timers_reachable.set [OF timers_reachable.create])
  show ?thesis
    using no_timeout_missed [OF r, of "2 ^ 40" ?s] m t down by (fastforce split: option.splits)
qed

text \<open>C35. The reports of failure of a view are answered with true exactly once if \<open>nf\<close> different replicas report it, and
  never otherwise, whatever is repeated.\<close>

theorem failure_reported_once:
  "count_list (vote_answers e view vs (\<lambda>_. {})) True = (if 0 < nf e \<and> unat (nf e) \<le> card (set vs) then 1 else 0)"
  using vote_answers_once [of e view vs "\<lambda>_. {}"] by (simp add: word_less_nat_alt)

text \<open>C36. A report of failure is always handled.  If its view is over it changes nothing.  Otherwise the sender is recorded among the
  replicas that reported this view of this instance, unless there are \<open>nf\<close> of them already; exactly when it is
  the report that completes a quorum of \<open>nf\<close> different replicas, the instance moves to the view after the failed one, which is
  forwards, and an execute message takes the place of the missing batch; else the node does not change.\<close>

theorem failed_view_forward:
  assumes "ISSERVER e" and "i = m_instance_id (sync_base m)" and "map_of (spotless_timers (timer_manager f thd)) i \<noteq> None"
    and "sync_non_vote m" and "sync_view m \<noteq> - 1" and "V = fault_voters f i (sync_view m)"
    and "V' = insert (m_return_node_id (sync_base m)) V"
  shows "\<exists>f'. handle_failed e warm now thd m f = Some f' \<and>
    (if sync_view m < get_current_view (f_node f) i then f' = f
     else fault_voters f' = (fault_voters f)(i := (fault_voters f i)(sync_view m := if card V < unat (nf e) then V' else V)) \<and>
       (if card V < unat (nf e) \<and> unat (nf e) \<le> card V'
        then newView (f_node f') = (newView (f_node f))(i := sync_view m + 1) \<and>
          get_current_view (f_node f) i < get_current_view (f_node f') i \<and>
          execute_msg_heap (f_node f') =
            insort ((get_totInstances e * sync_view m + i + 1) * get_batch_size e - 2) (execute_msg_heap (f_node f))
        else f_node f' = f_node f))"
proof (cases "sync_view m < get_current_view (f_node f) i")
  case True
  then show ?thesis using assms(2) by (simp add: handle_failed_def late_msg_def)
next
  case False
  then have late: "\<not> late_msg e (f_node f) (MSync m)" using assms(2,4) by (simp add: late_msg_def)
  have "get_current_view (f_node f) i < sync_view m + 1"
    using False less_Suc_word [OF assms(5)] by (meson le_less_trans not_less)
  then show ?thesis
    using count_failed_returns [OF assms(1,3), of warm now "sync_view m" "m_return_node_id (sync_base m)"] late False assms(2,6,7)
    by (auto simp: handle_failed_def process_failed_new_view_def get_current_view_def)
qed

theorem failed_view_forward_witness:
  "\<exists>f'. handle_failed sample_env False 0 0 sample_report sample_failing = Some f' \<and>
     get_current_view (f_node sample_failing) 0 = 0 \<and> get_current_view (f_node f') 0 = 6 \<and> fault_voters f' 0 5 = {1, 2, 3}"
proof -
  have t: "map_of (spotless_timers (timer_manager sample_failing 0)) 0 \<noteq> None"
    unfolding sample_failing_def sample_timers_def sample_timer_def by code_simp
  have r: "m_instance_id (sync_base sample_report) = 0" "sync_non_vote sample_report" "sync_view sample_report = 5"
      "m_return_node_id (sync_base sample_report) = 3"
    by (simp_all add: sample_report_def failed_vote_def new_Message_def)
  have f: "fault_voters sample_failing 0 5 = {1, 2}" "get_current_view (f_node sample_failing) 0 = 0"
    by (simp_all add: sample_failing_def sample_node_def init_node_def get_current_view_def)
  show ?thesis
    using failed_view_forward [OF sample_server r(1) [symmetric] t r(2) _ refl refl, of False 0] r(3,4) f
    by (auto simp: get_current_view_def insert_commute)
qed

section \<open>Latency arrays\<close>

text \<open>C38. The in-place \<open>quicksort\<close> of a latency array, with its \<open>int\<close> indices, returns and computes the sorted list of
  the collected items, and leaves the unused slots alone.\<close>

theorem quicksort_is_sort:
  assumes "incr_inv a" and "0 < sa_cnt a" and "unat (sa_cnt a) \<le> 2 ^ 30"
  shows "quicksort 0 (int (unat (sa_cnt a)) - 1) (sa_arr a) = Some (sort (contents a) @ drop (unat (sa_cnt a)) (sa_arr a))"
proof -
  have len: "length (contents a) = unat (sa_cnt a)" using assms(1) by (simp add: incr_inv_def word_le_nat_alt)
  then have "contents a \<noteq> []" using assms(2) by (auto simp: word_less_nat_alt)
  from quicksort_range [OF this, of "[]" "drop (unat (sa_cnt a)) (sa_arr a)"] show ?thesis
    using len assms(3) by (simp del: length_take)
qed

theorem quicksort_is_sort_witness:
  "quicksort 0 2 [3, 1, 2, 0] = Some [1, 2, 3, 0]"
proof -
  let ?a = "\<lparr>sa_arr = [3, 1, 2, 0], sa_size = 4, sa_type = ArrIncr, sa_cnt = 3\<rparr> :: StatsArr"
  have "incr_inv ?a" by (simp add: incr_inv_def)
  from quicksort_is_sort [OF this] have "quicksort 0 2 [3, 1, 2, 0] = Some (sort (take 3 [3, 1, 2, 0]) @ drop 3 [3, 1, 2, 0])" by simp
  then show ?thesis by (simp add: word_le_nat_alt)
qed

text \<open>C39. An array that collects items stays well-formed and holds exactly the items inserted into it, in order, however
  often it has to grow.\<close>

theorem array_collects:
  assumes "n \<noteq> - 1" and "unat n + 1 < 2 ^ 63" and "length xs < 2 ^ 62"
  shows "\<exists>a. fold_option StatsArr_insert xs (StatsArr_init n ArrIncr) = Some a \<and> incr_inv a \<and> contents a = xs"
  using inserts_collect [OF assms] by blast

theorem array_collects_witness:
  "\<exists>a. fold_option StatsArr_insert [7, 8, 9] (StatsArr_init 1 ArrIncr) = Some a \<and> incr_inv a \<and> contents a = [7, 8, 9]"
  by (rule array_collects) simp_all

section \<open>Smart contracts\<close>

text \<open>C40. A banking contract on the key-value store implements the transaction on account balances, as long as the
  balances it reads are below $2^{31}$ (\<open>stoi\<close> throws on larger ones): it commits or aborts as specified and the
  store holds the new balances.\<close>

theorem contract_refines:
  assumes "holds d bal" and "\<forall>i \<in> parties c. unat (bal i) < 2 ^ 31"
  shows "\<exists>d'. SmartContract_execute c d = Some (fst (transact c bal), d') \<and> holds d' (snd (transact c bal))"
  by (rule execute_refines [OF assms])

theorem contract_refines_witness:
  "\<exists>d'. SmartContract_execute (TransferMoney 1 2 5) (put_balance 1 9 (InMemoryDB.make Map.empty ''t'')) = Some (RCOK, d') \<and>
     holds d' ((\<lambda>_. 0)(1 := 4, 2 := 5))"
proof -
  have "holds (InMemoryDB.make Map.empty ''t'') (\<lambda>_. 0)" by (simp add: holds_def db_content_def table_at_def InMemoryDB.make_def)
  from contract_refines [OF put_balance [OF this, of 1 9], of "TransferMoney 1 2 5"] show ?thesis by simp
qed

end
